(* ===== verification/Prelude.thy ===== *)
theory Prelude
  imports
    Main
    "HOL-Library.Finite_Map"
    "HOL-Library.Word"
    "HOL-Library.List_Lexorder"
    "HOL-Library.Char_ord"
begin

text \<open>
  Shared vocabulary of the development: Go's machine words, Go maps as finite
  maps with a zero value for missing keys, fallible computations as sums with a
  bind, loops over a list that may stop with an error, and the parts of Go's
  standard library the sources use (byte-wise string comparison,
  \<open>strings.TrimSpace\<close>, decimal printing).
\<close>

section \<open>Types\<close>

type_synonym u64 = "64 word"
type_synonym u32 = "32 word"

section \<open>Go maps\<close>

text \<open>Reading a missing key of a Go map yields the zero value of its value type.\<close>

definition fm_get :: "'v \<Rightarrow> ('k, 'v) fmap \<Rightarrow> 'k \<Rightarrow> 'v" where
  "fm_get z m k = (case fmlookup m k of None \<Rightarrow> z | Some v \<Rightarrow> v)"

definition flag :: "('k, bool) fmap \<Rightarrow> 'k \<Rightarrow> bool" where
  "flag m k = fm_get False m k"

definition fm_has :: "('k, 'v) fmap \<Rightarrow> 'k \<Rightarrow> bool" where
  "fm_has m k = (fmlookup m k \<noteq> None)"

lemma fm_get_simps [simp]:
  "fm_get z fmempty k = z"
  "fm_get z (fmupd a v m) k = (if k = a then v else fm_get z m k)"
  "fm_get z (fmdrop a m) k = (if k = a then z else fm_get z m k)"
  by (auto simp: fm_get_def)

lemma flag_simps [simp]:
  "flag fmempty k = False"
  "flag (fmupd a v m) k = (if k = a then v else flag m k)"
  "flag (fmdrop a m) k = (if k = a then False else flag m k)"
  by (auto simp: flag_def)

lemma fm_has_simps [simp]:
  "fm_has fmempty k = False"
  "fm_has (fmupd a v m) k = (k = a \<or> fm_has m k)"
  "fm_has (fmdrop a m) k = (k \<noteq> a \<and> fm_has m k)"
  by (auto simp: fm_has_def)

lemma fm_hasE: "fm_has m k \<Longrightarrow> (\<And>v. fmlookup m k = Some v \<Longrightarrow> P) \<Longrightarrow> P"
  by (auto simp: fm_has_def)

lemma fm_has_dom: "fm_has m k \<longleftrightarrow> k \<in> fset (fmdom m)"
  by (auto simp: fm_has_def fmlookup_dom_iff)

section \<open>Fallible computations\<close>

text \<open>
  A Go function returning \<open>(T, error)\<close> is a value of \<open>'e + 'a\<close>; \<open>Inl\<close> is the
  error.  \<open>res_bind\<close> is the early return on error.
\<close>

definition res_bind :: "'e + 'a \<Rightarrow> ('a \<Rightarrow> 'e + 'b) \<Rightarrow> 'e + 'b" where
  "res_bind r f = (case r of Inl e \<Rightarrow> Inl e | Inr x \<Rightarrow> f x)"

lemma res_bind_simps [simp]:
  "res_bind (Inl e) f = Inl e"
  "res_bind (Inr x) f = f x"
  by (simp_all add: res_bind_def)

lemma res_bind_cong [fundef_cong]:
  "r = r' \<Longrightarrow> (\<And>x. r' = Inr x \<Longrightarrow> f x = g x) \<Longrightarrow> res_bind r f = res_bind r' g"
  by (cases r') auto

lemma res_bind_Inr: "res_bind r f = Inr y \<longleftrightarrow> (\<exists>x. r = Inr x \<and> f x = Inr y)"
  by (cases r) auto

lemma res_bind_Inl: "res_bind r f = Inl e \<longleftrightarrow> r = Inl e \<or> (\<exists>x. r = Inr x \<and> f x = Inl e)"
  by (cases r) auto

lemma res_bind_InrE:
  assumes "res_bind r f = Inr y"
  obtains x where "r = Inr x" and "f x = Inr y"
  using assms by (auto simp: res_bind_Inr)

text \<open>A \<open>for\<close> loop over a list that threads a state and stops at the first error.\<close>

fun fold_res :: "('a \<Rightarrow> 's \<Rightarrow> 'e + 's) \<Rightarrow> 'a list \<Rightarrow> 's \<Rightarrow> 'e + 's" where
  "fold_res f [] s = Inr s"
| "fold_res f (x # xs) s = res_bind (f x s) (fold_res f xs)"

lemma fold_res_append:
  "fold_res f (xs @ ys) s = res_bind (fold_res f xs s) (fold_res f ys)"
  by (induction xs arbitrary: s) (auto simp: res_bind_def split: sum.splits)

lemma fold_res_invariant:
  assumes "fold_res f xs s = Inr t" and "P s"
    and "\<And>x u v. x \<in> set xs \<Longrightarrow> P u \<Longrightarrow> f x u = Inr v \<Longrightarrow> P v"
  shows "P t"
  using assms
  by (induction xs arbitrary: s) (auto simp: res_bind_Inr)

lemma fold_res_no_error:
  assumes "P s"
    and "\<And>x u. x \<in> set xs \<Longrightarrow> P u \<Longrightarrow> f x u \<noteq> Inl e"
    and "\<And>x u v. x \<in> set xs \<Longrightarrow> P u \<Longrightarrow> f x u = Inr v \<Longrightarrow> P v"
  shows "fold_res f xs s \<noteq> Inl e"
  using assms
proof (induction xs arbitrary: s)
  case Nil
  then show ?case by simp
next
  case (Cons x xs)
  show ?case
  proof (cases "f x s")
    case (Inl a)
    with Cons.prems(1) Cons.prems(2)[of x s] show ?thesis by auto
  next
    case (Inr v)
    with Cons.prems(1) Cons.prems(3)[of x s v] have "P v" by simp
    then have "fold_res f xs v \<noteq> Inl e"
      using Cons.IH[of v] Cons.prems(2,3) by (meson list.set_intros(2))
    with Inr show ?thesis by simp
  qed
qed

section \<open>Strings\<close>

text \<open>
  Go strings are byte sequences and compare byte-wise, which is the
  lexicographic order of \<open>List_Lexorder\<close> on \<open>Char_ord\<close>.
\<close>

definition strings_Compare :: "string \<Rightarrow> string \<Rightarrow> int" where
  "strings_Compare a b = (if a = b then 0 else if a < b then -1 else 1)"

text \<open>
  The UTF-8 encodings of the runes for which \<open>unicode.IsSpace\<close> holds.  A prefix
  (suffix) of a string equal to one of these is the first (last) rune Go decodes.
\<close>

definition go_spaces :: "string list" where
  "go_spaces =
     [[CHR 0x09], [CHR 0x0A], [CHR 0x0B], [CHR 0x0C], [CHR 0x0D], [CHR 0x20],
      [CHR 0xC2, CHR 0x85], [CHR 0xC2, CHR 0xA0], [CHR 0xE1, CHR 0x9A, CHR 0x80]]
     @ map (\<lambda>c. [CHR 0xE2, CHR 0x80, c])
         [CHR 0x80, CHR 0x81, CHR 0x82, CHR 0x83, CHR 0x84, CHR 0x85, CHR 0x86,
          CHR 0x87, CHR 0x88, CHR 0x89, CHR 0x8A, CHR 0xA8, CHR 0xA9, CHR 0xAF]
     @ [[CHR 0xE2, CHR 0x81, CHR 0x9F], [CHR 0xE3, CHR 0x80, CHR 0x80]]"

fun strip_first :: "string list \<Rightarrow> string \<Rightarrow> string option" where
  "strip_first [] s = None"
| "strip_first (p # ps) s =
     (if take (length p) s = p then Some (drop (length p) s) else strip_first ps s)"

lemma strip_first_shorter:
  "strip_first ps s = Some t \<Longrightarrow> [] \<notin> set ps \<Longrightarrow> length t < length s"
proof (induction ps)
  case (Cons p ps)
  have "take (length p) s = p \<Longrightarrow> p \<noteq> [] \<Longrightarrow> length s - length p < length s"
    by (metis diff_less length_greater_0_conv take_Nil)
  with Cons show ?case by (auto split: if_splits)
qed simp

lemma go_spaces_nonempty [simp]: "[] \<notin> set go_spaces" "[] \<notin> rev ` set go_spaces"
  by (auto simp: go_spaces_def)

function trim_left :: "string \<Rightarrow> string" where
  "trim_left s = (case strip_first go_spaces s of None \<Rightarrow> s | Some t \<Rightarrow> trim_left t)"
  by pat_completeness auto
termination
  by (relation "measure length") (auto dest: strip_first_shorter)

function trim_left_rev :: "string \<Rightarrow> string" where
  "trim_left_rev s =
     (case strip_first (map rev go_spaces) s of None \<Rightarrow> s | Some t \<Rightarrow> trim_left_rev t)"
  by pat_completeness auto
termination
  by (relation "measure length") (auto dest: strip_first_shorter)

declare trim_left.simps [simp del] trim_left_rev.simps [simp del]

definition strings_TrimSpace :: "string \<Rightarrow> string" where
  "strings_TrimSpace s = rev (trim_left_rev (rev (trim_left s)))"

lemma trim_Nil [simp]: "strings_TrimSpace [] = []"
  by (simp add: strings_TrimSpace_def trim_left.simps trim_left_rev.simps go_spaces_def)

section \<open>Decimal printing\<close>

text \<open>The verb \<open>%d\<close> of \<open>fmt.Sprintf\<close>.\<close>

fun dec_nat :: "nat \<Rightarrow> string" where
  "dec_nat n = (if n < 10 then [char_of (48 + n)] else dec_nat (n div 10) @ [char_of (48 + n mod 10)])"

declare dec_nat.simps [simp del]

definition dec_int :: "int \<Rightarrow> string" where
  "dec_int i = (if i < 0 then CHR ''-'' # dec_nat (nat (- i)) else dec_nat (nat i))"

definition dec_u64 :: "u64 \<Rightarrow> string" where
  "dec_u64 w = dec_nat (unat w)"

definition is_digit :: "char \<Rightarrow> bool" where
  "is_digit c = (48 \<le> (of_char c :: nat) \<and> (of_char c :: nat) \<le> 57)"

definition read_nat :: "string \<Rightarrow> nat" where
  "read_nat s = foldl (\<lambda>n c. 10 * n + (of_char c - 48)) 0 s"

lemma of_char_digit: "d < 10 \<Longrightarrow> (of_char (char_of (48 + d) :: char) :: nat) = 48 + d"
  by simp

lemma read_dec_nat [simp]: "read_nat (dec_nat n) = n"
proof (induction n rule: dec_nat.induct)
  case (1 n)
  then show ?case
    by (subst dec_nat.simps) (simp add: read_nat_def of_char_digit)
qed

lemma dec_nat_digits: "list_all is_digit (dec_nat n)"
proof (induction n rule: dec_nat.induct)
  case (1 n)
  then show ?case
    by (subst dec_nat.simps) (auto simp: is_digit_def[of "char_of _"])
qed

lemma dec_nat_nonempty: "dec_nat n \<noteq> []"
  by (subst dec_nat.simps) simp

lemma dec_nat_inj: "dec_nat m = dec_nat n \<longleftrightarrow> m = n"
  by (metis read_dec_nat)

lemma minus_not_digit [simp]: "\<not> is_digit (CHR ''-'')"
  by (simp add: is_digit_def)

lemma dec_int_inj: "dec_int i = dec_int j \<longleftrightarrow> i = j"
proof
  assume eq: "dec_int i = dec_int j"
  have no_minus: "dec_nat n \<noteq> CHR ''-'' # xs" for n xs
    using dec_nat_digits[of n] by auto
  show "i = j"
    using eq no_minus no_minus[symmetric] by (auto simp: dec_int_def dec_nat_inj split: if_splits)
qed simp

lemma dec_u64_inj: "dec_u64 v = dec_u64 w \<longleftrightarrow> v = w"
  by (simp add: dec_u64_def dec_nat_inj word_unat_eq_iff)

text \<open>A run of digits that is followed by a non-digit is read back unambiguously.\<close>

lemma digits_prefix_unique:
  assumes "list_all P xs" and "list_all P ys" and "\<not> P a" and "\<not> P b"
    and "xs @ a # us = ys @ b # vs"
  shows "xs = ys \<and> a # us = b # vs"
  using assms
proof (induction xs arbitrary: ys)
  case Nil
  then show ?case by (cases ys) auto
next
  case (Cons x xs)
  then show ?case by (cases ys) auto
qed

text \<open>Dually for a suffix without the separator.\<close>

lemma suffix_unique:
  assumes "a \<notin> set xs" and "a \<notin> set ys" and "us @ a # xs = vs @ a # ys"
  shows "us = vs \<and> xs = ys"
proof -
  have "rev xs @ a # rev us = rev ys @ a # rev vs"
    using assms(3) by (metis append.assoc append_Cons append_Nil rev.simps(2) rev_append)
  from digits_prefix_unique[of "\<lambda>c. c \<noteq> a", OF _ _ _ _ this] assms(1,2) show ?thesis
    by (auto simp: list_all_iff)
qed

end
