(* ===== verification/Cluster.thy ===== *)
theory Cluster
  imports Prelude "HOL-Library.Product_Lexorder"
begin

text \<open>
  Data model of the coordinator package (\<open>coordinator/coordinator.go\<close>): nodes,
  replicas, chains, cluster state, events, plans and errors, and the pure list
  helpers over chains the planner is written with.
\<close>

section \<open>Data\<close>

datatype coord_err =
    ErrInvalidConfig
  | ErrInvalidNode
  | ErrInvalidEvent
  | ErrIllegalStateTransition
  | PlacementError int int  \<comment> \<open>slot and replica position\<close>
  | ErrBrokenChain
  | GoPanic  \<comment> \<open>an index expression out of range\<close>

record config =
  cfg_SlotCount :: int
  cfg_ReplicationFactor :: int

record node =
  node_ID :: string
  node_RPCAddress :: string
  node_FailureDomains :: "(string, string) fmap"

definition zero_node :: node where
  "zero_node = \<lparr>node_ID = [], node_RPCAddress = [], node_FailureDomains = fmempty\<rparr>"

datatype ReplicaState = ReplicaStateJoining | ReplicaStateActive | ReplicaStateLeaving

record replica =
  replica_NodeID :: string
  replica_State :: ReplicaState

record chain =
  chain_Slot :: int
  chain_Replicas :: "replica list"

datatype NodeHealth = NodeHealthAlive | NodeHealthDead

record cluster_state =
  cs_Chains :: "chain list"
  cs_NodesByID :: "(string, node) fmap"
  cs_NodeHealthByID :: "(string, NodeHealth) fmap"
  cs_ReadyNodeIDs :: "(string, bool) fmap"
  cs_DrainingNodeIDs :: "(string, bool) fmap"
  cs_NodeOrder :: "string list"
  cs_SlotCount :: int
  cs_ReplicationFactor :: int

datatype EventKind =
    EventKindRegisterNode
  | EventKindAddNode
  | EventKindBeginDrainNode
  | EventKindMarkNodeDead
  | EventKindReplicaBecameActive
  | EventKindReplicaRemoved
  | EventKindOther string  \<comment> \<open>any other value of the string type\<close>

record event =
  ev_Kind :: EventKind
  ev_Node :: node
  ev_NodeID :: string
  ev_Slot :: int

record reconfiguration_policy =
  MaxChangedChains :: int

datatype StepKind = StepKindAppendTail | StepKindMarkLeaving

record reconfiguration_step =
  step_Kind :: StepKind
  step_Slot :: int
  step_NodeID :: string
  step_ReplacedNodeID :: string

record slot_plan =
  sp_Slot :: int
  sp_Before :: chain
  sp_After :: chain
  sp_Steps :: "reconfiguration_step list"

record reconfiguration_plan =
  UpdatedState :: cluster_state
  UnassignedNodeIDs :: "string list"
  ChangedSlots :: "slot_plan list"

record assignment_counts =
  headCount :: int
  tailCount :: int
  replicaCount :: int

definition zero_counts :: assignment_counts where
  "zero_counts = \<lparr>headCount = 0, tailCount = 0, replicaCount = 0\<rparr>"

type_synonym counts = "(string, assignment_counts) fmap"

section \<open>Helpers over chains\<close>

definition replicaIDs :: "replica list \<Rightarrow> string list" where
  "replicaIDs rs = map replica_NodeID rs"

definition is_active :: "replica \<Rightarrow> bool" where
  "is_active r = (replica_State r = ReplicaStateActive)"

definition activeReplicaIDs :: "chain \<Rightarrow> string list" where
  "activeReplicaIDs c = map replica_NodeID (filter is_active (chain_Replicas c))"

definition activeReplicaIDsExcludingDraining :: "chain \<Rightarrow> (string, bool) fmap \<Rightarrow> string list" where
  "activeReplicaIDsExcludingDraining c draining =
     map replica_NodeID
       (filter (\<lambda>r. is_active r \<and> \<not> flag draining (replica_NodeID r)) (chain_Replicas c))"

definition activeReplicaIDsWithDrain :: "chain \<Rightarrow> (string, bool) fmap \<Rightarrow> string list" where
  "activeReplicaIDsWithDrain c draining =
     map replica_NodeID
       (filter (\<lambda>r. is_active r \<and> flag draining (replica_NodeID r)) (chain_Replicas c))"

definition hasJoiningReplica :: "chain \<Rightarrow> bool" where
  "hasJoiningReplica c = list_ex (\<lambda>r. replica_State r = ReplicaStateJoining) (chain_Replicas c)"

definition hasLeavingReplica :: "chain \<Rightarrow> bool" where
  "hasLeavingReplica c = list_ex (\<lambda>r. replica_State r = ReplicaStateLeaving) (chain_Replicas c)"

definition hasPendingReplicaState :: "chain \<Rightarrow> bool" where
  "hasPendingReplicaState c = (hasJoiningReplica c \<or> hasLeavingReplica c)"

definition firstActiveDrainingReplicaID :: "chain \<Rightarrow> (string, bool) fmap \<Rightarrow> string" where
  "firstActiveDrainingReplicaID c draining =
     (case find (\<lambda>r. is_active r \<and> flag draining (replica_NodeID r)) (chain_Replicas c) of
        None \<Rightarrow> [] | Some r \<Rightarrow> replica_NodeID r)"

definition countActiveReplicas :: "replica list \<Rightarrow> nat" where
  "countActiveReplicas rs = length (filter is_active rs)"

definition chainContainsDeadReplica :: "chain \<Rightarrow> (string, NodeHealth) fmap \<Rightarrow> bool" where
  "chainContainsDeadReplica c health =
     list_ex (\<lambda>r. fmlookup health (replica_NodeID r) = Some NodeHealthDead) (chain_Replicas c)"

definition lastActiveReplicaID :: "chain \<Rightarrow> string option" where
  "lastActiveReplicaID c = map_option replica_NodeID (find is_active (rev (chain_Replicas c)))"

definition containsNodeID :: "string list \<Rightarrow> string \<Rightarrow> bool" where
  "containsNodeID vals target = (target \<in> set vals)"

definition isPrefix :: "string list \<Rightarrow> string list \<Rightarrow> bool" where
  "isPrefix vals prefix =
     (if length vals \<noteq> length prefix then False
      else list_all (\<lambda>(a, b). a = b) (zip vals prefix))"

fun findReplicaIndex_from :: "nat \<Rightarrow> replica list \<Rightarrow> string \<Rightarrow> nat option" where
  "findReplicaIndex_from i [] nodeID = None"
| "findReplicaIndex_from i (r # rs) nodeID =
     (if replica_NodeID r = nodeID then Some i else findReplicaIndex_from (Suc i) rs nodeID)"

text \<open>\<open>findReplicaIndex\<close> returns -1 when the node is absent; the model returns \<open>None\<close>.\<close>

definition findReplicaIndex :: "chain \<Rightarrow> string \<Rightarrow> nat option" where
  "findReplicaIndex c nodeID = findReplicaIndex_from 0 (chain_Replicas c) nodeID"

definition countReplicasForNode :: "cluster_state \<Rightarrow> string \<Rightarrow> nat" where
  "countReplicasForNode st nodeID =
     sum_list (map (\<lambda>c. length (filter (\<lambda>r. replica_NodeID r = nodeID) (chain_Replicas c)))
       (cs_Chains st))"

text \<open>
  \<open>extraNode\<close> and \<open>oneMemberReplacement\<close> keep a found node ID in a variable whose
  empty string means "none yet", so an empty node ID never counts as found.
\<close>

fun single_outside :: "string set \<Rightarrow> string list \<Rightarrow> string \<Rightarrow> string option" where
  "single_outside S [] found = Some found"
| "single_outside S (x # xs) found =
     (if x \<in> S then single_outside S xs found
      else if found \<noteq> [] then None else single_outside S xs x)"

definition extraNode :: "string list \<Rightarrow> string list \<Rightarrow> string option" where
  "extraNode current target =
     (case single_outside (set target) current [] of
        None \<Rightarrow> None
      | Some extra \<Rightarrow> if extra = [] then None else Some extra)"

definition oneMemberReplacement :: "string list \<Rightarrow> string list \<Rightarrow> (string \<times> string) option" where
  "oneMemberReplacement current target =
     (case single_outside (set current) target [] of
        None \<Rightarrow> None
      | Some added \<Rightarrow>
          (case single_outside (set target) current [] of
             None \<Rightarrow> None
           | Some removed \<Rightarrow>
               if added = [] \<or> removed = [] then None else Some (added, removed)))"

definition disjointChain :: "string list \<Rightarrow> string list \<Rightarrow> bool" where
  "disjointChain left right = list_all (\<lambda>x. x \<notin> set right) left"

definition sameRelativeOrderWithout ::
  "string list \<Rightarrow> string \<Rightarrow> string list \<Rightarrow> string \<Rightarrow> bool" where
  "sameRelativeOrderWithout current removed target added =
     (filter (\<lambda>x. x \<noteq> removed) current = filter (\<lambda>x. x \<noteq> added) target)"

definition sameRelativeOrderForJoinFinalization ::
  "string list \<Rightarrow> string \<Rightarrow> string \<Rightarrow> string list \<Rightarrow> bool" where
  "sameRelativeOrderForJoinFinalization current removed newNode target =
     (filter (\<lambda>x. x \<noteq> removed \<and> x \<noteq> newNode) current = filter (\<lambda>x. x \<noteq> newNode) target)"

definition orderedNodes :: "cluster_state \<Rightarrow> (string \<Rightarrow> bool) \<Rightarrow> node list" where
  "orderedNodes st include =
     List.map_filter (\<lambda>nid. if include nid then fmlookup (cs_NodesByID st) nid else None)
       (cs_NodeOrder st)"

text \<open>The nodes a new replica may be placed on: alive, ready and not draining.\<close>

definition placeable :: "cluster_state \<Rightarrow> string \<Rightarrow> bool" where
  "placeable st nid =
     (fmlookup (cs_NodeHealthByID st) nid = Some NodeHealthAlive \<and>
      flag (cs_ReadyNodeIDs st) nid \<and> \<not> flag (cs_DrainingNodeIDs st) nid)"

definition collectUnassignedNodeIDs :: "cluster_state \<Rightarrow> string list" where
  "collectUnassignedNodeIDs st =
     (let assigned = concat (map (\<lambda>c. replicaIDs (chain_Replicas c)) (cs_Chains st))
      in filter (\<lambda>nid. placeable st nid \<and> nid \<notin> set assigned) (cs_NodeOrder st))"

definition nodeIdentityConflict :: "node \<Rightarrow> node \<Rightarrow> bool" where
  "nodeIdentityConflict left right =
     (if node_ID left \<noteq> node_ID right then True
      else if node_RPCAddress left \<noteq> [] \<and> node_RPCAddress right \<noteq> [] \<and>
              node_RPCAddress left \<noteq> node_RPCAddress right then True
      else if \<not> fmpred (\<lambda>k v. case fmlookup (node_FailureDomains right) k of
                                None \<Rightarrow> True | Some w \<Rightarrow> v = w) (node_FailureDomains left) then True
      else if \<not> fmpred (\<lambda>k w. case fmlookup (node_FailureDomains left) k of
                                None \<Rightarrow> True | Some v \<Rightarrow> v = w) (node_FailureDomains right) then True
      else False)"

section \<open>Well-formed chains and clusters\<close>

definition has_active :: "chain \<Rightarrow> bool" where
  "has_active c = list_ex is_active (chain_Replicas c)"

definition wf_chain :: "cluster_state \<Rightarrow> chain \<Rightarrow> bool" where
  "wf_chain st c =
     (distinct (replicaIDs (chain_Replicas c)) \<and>
      list_all (\<lambda>nid. fm_has (cs_NodesByID st) nid) (replicaIDs (chain_Replicas c)))"

definition no_dead_chain :: "cluster_state \<Rightarrow> chain \<Rightarrow> bool" where
  "no_dead_chain st c = (\<not> chainContainsDeadReplica c (cs_NodeHealthByID st))"

definition wf_nodes :: "cluster_state \<Rightarrow> bool" where
  "wf_nodes st =
     (distinct (cs_NodeOrder st) \<and>
      list_all (\<lambda>nid. nid \<noteq> []) (cs_NodeOrder st) \<and>
      set (cs_NodeOrder st) = fset (fmdom (cs_NodesByID st)) \<and>
      fmpred (\<lambda>nid n. node_ID n = nid) (cs_NodesByID st))"

definition wf_cluster :: "cluster_state \<Rightarrow> bool" where
  "wf_cluster st =
     (0 < cs_SlotCount st \<and> 0 < cs_ReplicationFactor st \<and>
      int (length (cs_Chains st)) = cs_SlotCount st \<and>
      map chain_Slot (cs_Chains st) = map int [0..<length (cs_Chains st)] \<and>
      list_all (wf_chain st) (cs_Chains st) \<and>
      wf_nodes st)"

definition no_dead :: "cluster_state \<Rightarrow> bool" where
  "no_dead st = list_all (no_dead_chain st) (cs_Chains st)"

section \<open>Facts about the helpers\<close>

lemma replicaIDs_simps [simp]:
  "replicaIDs [] = []"
  "replicaIDs (r # rs) = replica_NodeID r # replicaIDs rs"
  "replicaIDs (rs @ ss) = replicaIDs rs @ replicaIDs ss"
  "length (replicaIDs rs) = length rs"
  by (simp_all add: replicaIDs_def)

lemma set_replicaIDs: "set (replicaIDs rs) = replica_NodeID ` set rs"
  by (simp add: replicaIDs_def)

lemma isPrefix_iff: "isPrefix vals prefix \<longleftrightarrow> vals = prefix"
proof -
  have "length vals = length prefix \<Longrightarrow>
      list_all (\<lambda>(a, b). a = b) (zip vals prefix) = (vals = prefix)"
    by (induction vals prefix rule: list_induct2) auto
  then show ?thesis by (auto simp: isPrefix_def)
qed

lemma findReplicaIndex_from_Some:
  assumes "findReplicaIndex_from k rs nodeID = Some i"
  shows "k \<le> i \<and> i - k < length rs \<and> replica_NodeID (rs ! (i - k)) = nodeID"
  using assms
proof (induction rs arbitrary: k)
  case (Cons r rs)
  show ?case
  proof (cases "replica_NodeID r = nodeID")
    case False
    with Cons.prems have "findReplicaIndex_from (Suc k) rs nodeID = Some i" by simp
    with Cons.IH[of "Suc k"] have ih: "Suc k \<le> i" "i - Suc k < length rs"
      "replica_NodeID (rs ! (i - Suc k)) = nodeID" by auto
    then have "i - k = Suc (i - Suc k)" by simp
    with ih show ?thesis by simp
  qed (use Cons.prems in auto)
qed simp

lemma findReplicaIndex_Some:
  assumes "findReplicaIndex c nodeID = Some i"
  shows "i < length (chain_Replicas c) \<and> replica_NodeID (chain_Replicas c ! i) = nodeID"
  using findReplicaIndex_from_Some[of 0] assms by (simp add: findReplicaIndex_def)

lemma findReplicaIndex_None:
  "findReplicaIndex c nodeID = None \<longleftrightarrow> nodeID \<notin> set (replicaIDs (chain_Replicas c))"
proof -
  have "findReplicaIndex_from k rs nodeID = None \<longleftrightarrow> nodeID \<notin> set (replicaIDs rs)" for k rs
    by (induction rs arbitrary: k) auto
  then show ?thesis by (simp add: findReplicaIndex_def)
qed

lemma has_active_iff: "has_active c \<longleftrightarrow> 0 < countActiveReplicas (chain_Replicas c)"
  by (auto simp: has_active_def countActiveReplicas_def list_ex_iff filter_empty_conv)

lemma not_pending_all_active:
  "\<not> hasPendingReplicaState c \<Longrightarrow> activeReplicaIDs c = replicaIDs (chain_Replicas c)"
proof -
  assume "\<not> hasPendingReplicaState c"
  then have "\<And>r. r \<in> set (chain_Replicas c) \<Longrightarrow> is_active r"
    unfolding hasPendingReplicaState_def hasJoiningReplica_def hasLeavingReplica_def
      is_active_def list_ex_iff
    by (metis ReplicaState.exhaust)
  then show ?thesis by (simp add: activeReplicaIDs_def replicaIDs_def)
qed

lemma single_outside_Some:
  assumes "single_outside S xs found = Some y"
  shows "(y = found \<or> (y \<in> set xs \<and> y \<notin> S))"
  using assms by (induction S xs found rule: single_outside.induct) (auto split: if_splits)

lemma single_outside_covers:
  assumes "single_outside S xs found = Some y" and "x \<in> set xs" and "x \<notin> S" and "[] \<notin> set xs"
  shows "x = y"
  using assms
proof (induction S xs found rule: single_outside.induct)
  case (2 S z zs found)
  have stable: "single_outside S zs w = Some y \<Longrightarrow> w \<noteq> [] \<Longrightarrow> y = w" for w
    using single_outside_Some
  proof -
    have "single_outside S us w = Some y \<Longrightarrow> w \<noteq> [] \<Longrightarrow> y = w" for us
      by (induction us) (auto split: if_splits)
    then show "single_outside S zs w = Some y \<Longrightarrow> w \<noteq> [] \<Longrightarrow> y = w" .
  qed
  from 2 stable show ?case by (auto split: if_splits)
qed simp

lemma extraNode_Some:
  assumes "extraNode current target = Some x"
  shows "x \<in> set current" and "x \<notin> set target" and "x \<noteq> []"
  using assms single_outside_Some[of "set target" current "[]" x]
  by (auto simp: extraNode_def split: option.splits if_splits)

lemma oneMemberReplacement_Some:
  assumes "oneMemberReplacement current target = Some (a, r)"
  shows "a \<in> set target" and "a \<notin> set current" and "r \<in> set current" and "r \<notin> set target"
    and "a \<noteq> []" and "r \<noteq> []"
  using assms single_outside_Some[of "set current" target "[]" a]
    single_outside_Some[of "set target" current "[]" r]
  by (auto simp: oneMemberReplacement_def split: option.splits if_splits)

lemma orderedNodes_mem:
  assumes "n \<in> set (orderedNodes st include)"
  obtains nid where "nid \<in> set (cs_NodeOrder st)" and "include nid"
    and "fmlookup (cs_NodesByID st) nid = Some n"
  using assms by (auto simp: orderedNodes_def List.map_filter_def split: if_splits)

lemma wf_nodes_lookup:
  "wf_nodes st \<Longrightarrow> fmlookup (cs_NodesByID st) nid = Some n \<Longrightarrow> node_ID n = nid"
  by (auto simp: wf_nodes_def fmpred_iff)

end
