(* ===== verification/Placement.thy ===== *)
theory Placement
  imports Cluster
begin

text \<open>
  Chain placement of \<open>coordinator/coordinator.go\<close>: candidate selection by the
  greedy \<open>(tail, head, replica, id)\<close> score, steady-state chains and
  \<open>BuildInitialPlacement\<close>, with the theorem that a placement has full, distinct,
  failure-domain disjoint chains and that selection is the lexicographic minimum.
\<close>

section \<open>Definitions\<close>

definition validateConfig :: "config \<Rightarrow> coord_err + unit" where
  "validateConfig cfg =
     (if cfg_SlotCount cfg \<le> 0 then Inl ErrInvalidConfig
      else if cfg_ReplicationFactor cfg \<le> 0 then Inl ErrInvalidConfig
      else Inr ())"

text \<open>
  One iteration of the loop of \<open>normalizeNodes\<close>; the accumulator holds the
  normalized nodes, the map by ID and the order.
\<close>

definition normalizeNode ::
  "node \<Rightarrow> node list \<times> (string, node) fmap \<times> string list
     \<Rightarrow> coord_err + node list \<times> (string, node) fmap \<times> string list" where
  "normalizeNode n acc =
     (case acc of (normalized, nodesByID, nodeOrder) \<Rightarrow>
        if node_ID n = [] then Inl ErrInvalidNode
        else if fm_has nodesByID (node_ID n) then Inl ErrInvalidNode
        else if \<not> fmpred (\<lambda>k v. strings_TrimSpace k \<noteq> [] \<and> strings_TrimSpace v \<noteq> [])
                   (node_FailureDomains n) then Inl ErrInvalidNode
        else let n' = n\<lparr>node_RPCAddress := strings_TrimSpace (node_RPCAddress n)\<rparr>
             in Inr (normalized @ [n'], fmupd (node_ID n) n' nodesByID, nodeOrder @ [node_ID n]))"

definition normalizeNodes ::
  "node list \<Rightarrow> coord_err + node list \<times> (string, node) fmap \<times> string list" where
  "normalizeNodes nodes =
     (if nodes = [] then Inl ErrInvalidConfig
      else fold_res normalizeNode nodes ([], fmempty, []))"

definition emptyChains :: "int \<Rightarrow> chain list" where
  "emptyChains slotCount =
     map (\<lambda>slot. \<lparr>chain_Slot = int slot, chain_Replicas = []\<rparr>) [0..<nat slotCount]"

definition hasFailureDomainConflict :: "node \<Rightarrow> node \<Rightarrow> bool" where
  "hasFailureDomainConflict candidate existing =
     (\<not> fmpred (\<lambda>k v. fmlookup (node_FailureDomains existing) k \<noteq> Some v)
        (node_FailureDomains candidate))"

fun isEligible_loop :: "node \<Rightarrow> replica list \<Rightarrow> (string, node) fmap \<Rightarrow> bool" where
  "isEligible_loop candidate [] nodesByID = True"
| "isEligible_loop candidate (r # rs) nodesByID =
     (if replica_NodeID r = node_ID candidate then False
      else if hasFailureDomainConflict candidate (fm_get zero_node nodesByID (replica_NodeID r))
        then False
      else isEligible_loop candidate rs nodesByID)"

definition isEligible :: "node \<Rightarrow> chain \<Rightarrow> (string, node) fmap \<Rightarrow> bool" where
  "isEligible candidate c nodesByID = isEligible_loop candidate (chain_Replicas c) nodesByID"

definition compareNodes :: "node \<Rightarrow> node \<Rightarrow> counts \<Rightarrow> int" where
  "compareNodes a b cnts =
     (let ac = fm_get zero_counts cnts (node_ID a); bc = fm_get zero_counts cnts (node_ID b)
      in if tailCount ac \<noteq> tailCount bc then (if tailCount ac < tailCount bc then -1 else 1)
         else if headCount ac \<noteq> headCount bc then (if headCount ac < headCount bc then -1 else 1)
         else if replicaCount ac \<noteq> replicaCount bc
           then (if replicaCount ac < replicaCount bc then -1 else 1)
         else strings_Compare (node_ID a) (node_ID b))"

fun selectReplicaCandidate_loop ::
  "node list \<Rightarrow> chain \<Rightarrow> (string, node) fmap \<Rightarrow> counts \<Rightarrow> node option \<Rightarrow> node option" where
  "selectReplicaCandidate_loop [] c nodesByID cnts best = best"
| "selectReplicaCandidate_loop (n # ns) c nodesByID cnts best =
     (if \<not> isEligible n c nodesByID then selectReplicaCandidate_loop ns c nodesByID cnts best
      else selectReplicaCandidate_loop ns c nodesByID cnts
        (case best of None \<Rightarrow> Some n
         | Some b \<Rightarrow> if compareNodes n b cnts < 0 then Some n else Some b))"

definition selectReplicaCandidate ::
  "node list \<Rightarrow> chain \<Rightarrow> (string, node) fmap \<Rightarrow> counts \<Rightarrow> node option" where
  "selectReplicaCandidate nodes c nodesByID cnts =
     selectReplicaCandidate_loop nodes c nodesByID cnts None"

definition appendReplicaWithState ::
  "chain \<Rightarrow> string \<Rightarrow> ReplicaState \<Rightarrow> counts \<Rightarrow> chain \<times> counts" where
  "appendReplicaWithState c nodeID st cnts =
     (if chain_Replicas c = [] then
        (let nc = fm_get zero_counts cnts nodeID
         in (c\<lparr>chain_Replicas := [\<lparr>replica_NodeID = nodeID, replica_State = st\<rparr>]\<rparr>,
             fmupd nodeID
               (nc\<lparr>headCount := headCount nc + 1, tailCount := tailCount nc + 1,
                   replicaCount := replicaCount nc + 1\<rparr>) cnts))
      else
        (let prev = replica_NodeID (last (chain_Replicas c));
             pc = fm_get zero_counts cnts prev;
             cnts1 = fmupd prev (pc\<lparr>tailCount := tailCount pc - 1\<rparr>) cnts;
             nc = fm_get zero_counts cnts1 nodeID
         in (c\<lparr>chain_Replicas :=
                 chain_Replicas c @ [\<lparr>replica_NodeID = nodeID, replica_State = st\<rparr>]\<rparr>,
             fmupd nodeID
               (nc\<lparr>tailCount := tailCount nc + 1, replicaCount := replicaCount nc + 1\<rparr>) cnts1)))"

definition rebalanceSteadyStateChain :: "int \<Rightarrow> chain \<Rightarrow> chain" where
  "rebalanceSteadyStateChain slot c =
     (if length (chain_Replicas c) \<le> 1 then c
      else let nodeIDs = sort (replicaIDs (chain_Replicas c));
               offset = nat (slot mod int (length nodeIDs));
               rotated = drop offset nodeIDs @ take offset nodeIDs
           in \<lparr>chain_Slot = chain_Slot c,
               chain_Replicas =
                 map (\<lambda>nid. \<lparr>replica_NodeID = nid, replica_State = ReplicaStateActive\<rparr>) rotated\<rparr>)"

fun recordChainAssignmentCounts_loop :: "nat \<Rightarrow> nat \<Rightarrow> replica list \<Rightarrow> counts \<Rightarrow> counts" where
  "recordChainAssignmentCounts_loop i n [] cnts = cnts"
| "recordChainAssignmentCounts_loop i n (r # rs) cnts =
     (let nc = fm_get zero_counts cnts (replica_NodeID r);
          nc1 = nc\<lparr>replicaCount := replicaCount nc + 1\<rparr>;
          nc2 = (if i = 0 then nc1\<lparr>headCount := headCount nc1 + 1\<rparr> else nc1);
          nc3 = (if Suc i = n then nc2\<lparr>tailCount := tailCount nc2 + 1\<rparr> else nc2)
      in recordChainAssignmentCounts_loop (Suc i) n rs (fmupd (replica_NodeID r) nc3 cnts))"

definition recordChainAssignmentCounts :: "counts \<Rightarrow> chain \<Rightarrow> counts" where
  "recordChainAssignmentCounts cnts c =
     recordChainAssignmentCounts_loop 0 (length (chain_Replicas c)) (chain_Replicas c) cnts"

text \<open>The inner loop of \<open>buildSteadyStateChains\<close>: the first argument counts the positions left.\<close>

fun fillChain ::
  "nat \<Rightarrow> int \<Rightarrow> node list \<Rightarrow> (string, node) fmap \<Rightarrow> chain \<Rightarrow> counts \<Rightarrow> coord_err + chain" where
  "fillChain 0 replicaPosition nodes nodesByID tentative cnts = Inr tentative"
| "fillChain (Suc k) replicaPosition nodes nodesByID tentative cnts =
     (case selectReplicaCandidate nodes tentative nodesByID cnts of
        None \<Rightarrow> Inl (PlacementError (chain_Slot tentative) replicaPosition)
      | Some candidate \<Rightarrow>
          (case appendReplicaWithState tentative (node_ID candidate) ReplicaStateActive cnts of
             (tentative', cnts') \<Rightarrow>
               fillChain k (replicaPosition + 1) nodes nodesByID tentative' cnts'))"

definition buildSlot ::
  "int \<Rightarrow> node list \<Rightarrow> (string, node) fmap \<Rightarrow> nat \<Rightarrow> chain list \<times> counts
     \<Rightarrow> coord_err + chain list \<times> counts" where
  "buildSlot replicationFactor nodes nodesByID slot acc =
     (case acc of (chs, cnts) \<Rightarrow>
        res_bind (fillChain (nat replicationFactor) 0 nodes nodesByID
                    \<lparr>chain_Slot = int slot, chain_Replicas = []\<rparr> cnts)
          (\<lambda>tentative.
             let c = (if int (length nodes) = replicationFactor
                      then rebalanceSteadyStateChain (int slot) tentative else tentative)
             in Inr (chs @ [c], recordChainAssignmentCounts cnts c)))"

definition buildSteadyStateChains ::
  "int \<Rightarrow> int \<Rightarrow> node list \<Rightarrow> (string, node) fmap \<Rightarrow> coord_err + chain list" where
  "buildSteadyStateChains slotCount replicationFactor nodes nodesByID =
     res_bind (fold_res (buildSlot replicationFactor nodes nodesByID) [0..<nat slotCount] ([], fmempty))
       (\<lambda>(chs, _). Inr chs)"

definition BuildInitialPlacement :: "config \<Rightarrow> node list \<Rightarrow> coord_err + cluster_state" where
  "BuildInitialPlacement cfg nodes =
     res_bind (validateConfig cfg) (\<lambda>_.
       if nodes = [] then
         Inr \<lparr>cs_Chains = emptyChains (cfg_SlotCount cfg), cs_NodesByID = fmempty,
              cs_NodeHealthByID = fmempty, cs_ReadyNodeIDs = fmempty,
              cs_DrainingNodeIDs = fmempty, cs_NodeOrder = [],
              cs_SlotCount = cfg_SlotCount cfg,
              cs_ReplicationFactor = cfg_ReplicationFactor cfg\<rparr>
       else res_bind (normalizeNodes nodes) (\<lambda>(normalized, nodesByID, nodeOrder).
         if cfg_ReplicationFactor cfg > int (length normalized) then Inl ErrInvalidConfig
         else res_bind (buildSteadyStateChains (cfg_SlotCount cfg) (cfg_ReplicationFactor cfg)
                          normalized nodesByID) (\<lambda>chs.
           Inr \<lparr>cs_Chains = chs, cs_NodesByID = nodesByID,
                cs_NodeHealthByID = fold (\<lambda>n. fmupd (node_ID n) NodeHealthAlive) normalized fmempty,
                cs_ReadyNodeIDs = fold (\<lambda>n. fmupd (node_ID n) True) normalized fmempty,
                cs_DrainingNodeIDs = fmempty, cs_NodeOrder = nodeOrder,
                cs_SlotCount = cfg_SlotCount cfg,
                cs_ReplicationFactor = cfg_ReplicationFactor cfg\<rparr>)))"

section \<open>Candidate selection\<close>

text \<open>The score of the documentation, compared lexicographically.\<close>

definition node_key :: "counts \<Rightarrow> node \<Rightarrow> int \<times> int \<times> int \<times> string" where
  "node_key cnts n =
     (let nc = fm_get zero_counts cnts (node_ID n)
      in (tailCount nc, headCount nc, replicaCount nc, node_ID n))"

lemma compareNodes_key: "compareNodes a b cnts < 0 \<longleftrightarrow> node_key cnts a < node_key cnts b"
  by (auto simp: compareNodes_def node_key_def Let_def strings_Compare_def less_prod_def' less_eq_prod_def)

lemma select_loop_spec:
  "case selectReplicaCandidate_loop ns c nodesByID cnts best of
     None \<Rightarrow> best = None \<and> (\<forall>n\<in>set ns. \<not> isEligible n c nodesByID)
   | Some b \<Rightarrow>
       (best = Some b \<or> (b \<in> set ns \<and> isEligible b c nodesByID)) \<and>
       (\<forall>x. best = Some x \<longrightarrow> node_key cnts b \<le> node_key cnts x) \<and>
       (\<forall>n\<in>set ns. isEligible n c nodesByID \<longrightarrow> node_key cnts b \<le> node_key cnts n)"
proof (induction ns c nodesByID cnts best rule: selectReplicaCandidate_loop.induct)
  case (2 n ns c nodesByID cnts best)
  show ?case
  proof (cases "isEligible n c nodesByID")
    case False
    with "2.IH"(1) show ?thesis by (auto split: option.splits)
  next
    case True
    with "2.IH"(2) show ?thesis
      by (cases best)
        (fastforce simp: compareNodes_key not_less split: option.splits if_splits
          intro: order.trans order.strict_implies_order)+
  qed
qed (auto split: option.split)

lemma selectReplicaCandidate_Some:
  assumes "selectReplicaCandidate nodes c nodesByID cnts = Some b"
  shows "b \<in> set nodes" and "isEligible b c nodesByID"
  using select_loop_spec[where ns = nodes and c = c and nodesByID = nodesByID and cnts = cnts and best = None] assms
  by (auto simp: selectReplicaCandidate_def)

section \<open>Steady-state chains\<close>

definition conflict_free :: "(string, node) fmap \<Rightarrow> replica list \<Rightarrow> bool" where
  "conflict_free nodesByID rs =
     (\<forall>r\<in>set rs. \<forall>r'\<in>set rs. replica_NodeID r \<noteq> replica_NodeID r' \<longrightarrow>
        \<not> hasFailureDomainConflict (fm_get zero_node nodesByID (replica_NodeID r))
            (fm_get zero_node nodesByID (replica_NodeID r')))"

definition steady_replicas :: "node list \<Rightarrow> (string, node) fmap \<Rightarrow> replica list \<Rightarrow> bool" where
  "steady_replicas nodes nodesByID rs =
     (distinct (replicaIDs rs) \<and> set (replicaIDs rs) \<subseteq> node_ID ` set nodes \<and>
      list_all is_active rs \<and> conflict_free nodesByID rs)"

definition steady_chain :: "int \<Rightarrow> node list \<Rightarrow> (string, node) fmap \<Rightarrow> nat \<Rightarrow> chain \<Rightarrow> bool" where
  "steady_chain replicationFactor nodes nodesByID slot c =
     (chain_Slot c = int slot \<and> int (length (chain_Replicas c)) = replicationFactor \<and>
      steady_replicas nodes nodesByID (chain_Replicas c))"

definition nodes_indexed :: "node list \<Rightarrow> (string, node) fmap \<Rightarrow> bool" where
  "nodes_indexed nodes nodesByID = (\<forall>n\<in>set nodes. fmlookup nodesByID (node_ID n) = Some n)"

lemma hasFailureDomainConflict_sym:
  "hasFailureDomainConflict a b \<longleftrightarrow> hasFailureDomainConflict b a"
  by (auto simp: hasFailureDomainConflict_def fmpred_iff)

lemma isEligible_iff:
  "isEligible n c nodesByID \<longleftrightarrow>
     node_ID n \<notin> set (replicaIDs (chain_Replicas c)) \<and>
     (\<forall>r\<in>set (chain_Replicas c).
        \<not> hasFailureDomainConflict n (fm_get zero_node nodesByID (replica_NodeID r)))"
proof -
  have "isEligible_loop n rs nodesByID \<longleftrightarrow> node_ID n \<notin> set (replicaIDs rs) \<and>
     (\<forall>r\<in>set rs. \<not> hasFailureDomainConflict n (fm_get zero_node nodesByID (replica_NodeID r)))"
    for rs by (induction rs) auto
  then show ?thesis by (simp add: isEligible_def)
qed

lemma appendReplicaWithState_chain:
  "fst (appendReplicaWithState c nodeID st cnts) =
     c\<lparr>chain_Replicas := chain_Replicas c @ [\<lparr>replica_NodeID = nodeID, replica_State = st\<rparr>]\<rparr>"
  by (auto simp: appendReplicaWithState_def Let_def)

lemma steady_replicas_append:
  assumes "steady_replicas nodes nodesByID (chain_Replicas c)"
    and "isEligible n c nodesByID" and "n \<in> set nodes" and "nodes_indexed nodes nodesByID"
  shows "steady_replicas nodes nodesByID
    (chain_Replicas c @ [\<lparr>replica_NodeID = node_ID n, replica_State = ReplicaStateActive\<rparr>])"
proof -
  have "fm_get zero_node nodesByID (node_ID n) = n"
    using assms(3,4) by (auto simp: nodes_indexed_def fm_get_def)
  with assms show ?thesis
    by (auto simp: steady_replicas_def isEligible_iff conflict_free_def is_active_def
        hasFailureDomainConflict_sym)
qed

lemma fillChain_steady:
  assumes "fillChain k pos nodes nodesByID c cnts = Inr c'"
    and "steady_replicas nodes nodesByID (chain_Replicas c)" and "nodes_indexed nodes nodesByID"
  shows "chain_Slot c' = chain_Slot c \<and> length (chain_Replicas c') = length (chain_Replicas c) + k \<and>
    steady_replicas nodes nodesByID (chain_Replicas c')"
  using assms
proof (induction k arbitrary: pos c cnts)
  case (Suc k)
  then obtain n where n: "selectReplicaCandidate nodes c nodesByID cnts = Some n"
    by (auto split: option.splits)
  obtain c1 cnts1 where app:
    "appendReplicaWithState c (node_ID n) ReplicaStateActive cnts = (c1, cnts1)" by force
  from app appendReplicaWithState_chain[of c "node_ID n" ReplicaStateActive cnts]
  have c1: "c1 = c\<lparr>chain_Replicas := chain_Replicas c @
      [\<lparr>replica_NodeID = node_ID n, replica_State = ReplicaStateActive\<rparr>]\<rparr>" by simp
  have "steady_replicas nodes nodesByID (chain_Replicas c1)"
    using steady_replicas_append Suc.prems(2,3) selectReplicaCandidate_Some[OF n] c1 by simp
  moreover have "fillChain k (pos + 1) nodes nodesByID c1 cnts1 = Inr c'"
    using Suc.prems(1) n app by simp
  ultimately show ?case using Suc.IH Suc.prems(3) c1 by fastforce
qed simp

lemma rebalance_ids:
  "replicaIDs (chain_Replicas (rebalanceSteadyStateChain slot c)) =
     (if length (chain_Replicas c) \<le> 1 then replicaIDs (chain_Replicas c)
      else let ids = sort (replicaIDs (chain_Replicas c)); k = nat (slot mod int (length ids))
           in drop k ids @ take k ids)"
  by (simp add: rebalanceSteadyStateChain_def Let_def replicaIDs_def comp_def)

lemma rebalance_permutes:
  "set (replicaIDs (chain_Replicas (rebalanceSteadyStateChain slot c)))
     = set (replicaIDs (chain_Replicas c))"
  "distinct (replicaIDs (chain_Replicas c)) \<Longrightarrow>
     distinct (replicaIDs (chain_Replicas (rebalanceSteadyStateChain slot c)))"
  "length (chain_Replicas (rebalanceSteadyStateChain slot c)) = length (chain_Replicas c)"
  "chain_Slot (rebalanceSteadyStateChain slot c) = chain_Slot c"
  "list_all is_active (chain_Replicas c) \<Longrightarrow>
     list_all is_active (chain_Replicas (rebalanceSteadyStateChain slot c))"
proof -
  let ?ids = "sort (replicaIDs (chain_Replicas c))"
  let ?k = "nat (slot mod int (length ?ids))"
  have "set (drop ?k ?ids @ take ?k ?ids) = set ?ids"
    by (metis append_take_drop_id set_append sup_commute)
  moreover have "distinct ?ids \<Longrightarrow> distinct (drop ?k ?ids @ take ?k ?ids)"
    by (metis append_take_drop_id distinct_append inf_commute)
  ultimately show "set (replicaIDs (chain_Replicas (rebalanceSteadyStateChain slot c)))
       = set (replicaIDs (chain_Replicas c))"
    "distinct (replicaIDs (chain_Replicas c)) \<Longrightarrow>
       distinct (replicaIDs (chain_Replicas (rebalanceSteadyStateChain slot c)))"
    by (simp_all only: rebalance_ids Let_def set_sort distinct_sort split: if_split) simp_all
qed (auto simp: rebalanceSteadyStateChain_def Let_def is_active_def list_all_iff)

lemma conflict_free_set_cong:
  "set (replicaIDs rs) = set (replicaIDs ss) \<Longrightarrow> conflict_free m rs = conflict_free m ss"
proof -
  have "conflict_free m ts = (\<forall>a\<in>set (replicaIDs ts). \<forall>b\<in>set (replicaIDs ts). a \<noteq> b \<longrightarrow>
      \<not> hasFailureDomainConflict (fm_get zero_node m a) (fm_get zero_node m b))" for ts
    by (auto simp: conflict_free_def set_replicaIDs)
  then show "set (replicaIDs rs) = set (replicaIDs ss) \<Longrightarrow> conflict_free m rs = conflict_free m ss"
    by simp
qed

lemma buildSlot_steady:
  assumes "buildSlot rf nodes nodesByID slot (chs, cnts) = Inr (chs', cnts')"
    and "nodes_indexed nodes nodesByID" and "0 \<le> rf"
  shows "\<exists>c. chs' = chs @ [c] \<and> steady_chain rf nodes nodesByID slot c"
proof -
  from assms(1) obtain t where t:
    "fillChain (nat rf) 0 nodes nodesByID \<lparr>chain_Slot = int slot, chain_Replicas = []\<rparr> cnts = Inr t"
    and chs': "chs' = chs @ [if int (length nodes) = rf
                  then rebalanceSteadyStateChain (int slot) t else t]"
    by (auto simp: buildSlot_def Let_def res_bind_Inr)
  have empty: "steady_replicas nodes nodesByID []"
    by (simp add: steady_replicas_def conflict_free_def)
  from fillChain_steady[OF t] empty assms(2)
  have st: "chain_Slot t = int slot" "length (chain_Replicas t) = nat rf"
    "steady_replicas nodes nodesByID (chain_Replicas t)" by auto
  then have "steady_chain rf nodes nodesByID slot (rebalanceSteadyStateChain (int slot) t)"
    using assms(3) rebalance_permutes conflict_free_set_cong[OF rebalance_permutes(1)]
    by (simp add: steady_chain_def steady_replicas_def)
  with st chs' assms(3) show ?thesis
    by (auto simp: steady_chain_def)
qed

lemma buildSteadyStateChains_steady:
  assumes "buildSteadyStateChains slotCount rf nodes nodesByID = Inr chs"
    and "nodes_indexed nodes nodesByID" and "0 \<le> rf"
  shows "length chs = nat slotCount \<and>
    (\<forall>i<nat slotCount. steady_chain rf nodes nodesByID i (chs ! i))"
proof -
  have "fold_res (buildSlot rf nodes nodesByID) [0..<n] ([], fmempty) = Inr (cs, cnts) \<Longrightarrow>
    length cs = n \<and> (\<forall>i<n. steady_chain rf nodes nodesByID i (cs ! i))" for n cs cnts
  proof (induction n arbitrary: cs cnts)
    case (Suc n)
    then obtain cs0 cnts0 where
      pre: "fold_res (buildSlot rf nodes nodesByID) [0..<n] ([], fmempty) = Inr (cs0, cnts0)"
      and last: "buildSlot rf nodes nodesByID n (cs0, cnts0) = Inr (cs, cnts)"
      by (auto simp: fold_res_append res_bind_Inr)
    from buildSlot_steady[OF last assms(2,3)] obtain c where
      "cs = cs0 @ [c]" "steady_chain rf nodes nodesByID n c" by auto
    with Suc.IH[OF pre] show ?case by (auto simp: nth_append less_Suc_eq)
  qed simp
  with assms(1) show ?thesis
    by (auto simp: buildSteadyStateChains_def res_bind_Inr)
qed

section \<open>Initial placement\<close>

definition normalized_nodes :: "node list \<times> (string, node) fmap \<times> string list \<Rightarrow> bool" where
  "normalized_nodes = (\<lambda>(nm, m, ord).
     ord = map node_ID nm \<and> distinct ord \<and> list_all (\<lambda>nid. nid \<noteq> []) ord \<and>
     nodes_indexed nm m \<and> set ord = fset (fmdom m) \<and> fmpred (\<lambda>nid n. node_ID n = nid) m)"

lemma normalizeNode_inv:
  assumes "normalizeNode n acc = Inr acc'" and "normalized_nodes acc"
  shows "normalized_nodes acc'"
proof -
  obtain nm m ord where acc: "acc = (nm, m, ord)" by (cases acc)
  define n' where "n' = n\<lparr>node_RPCAddress := strings_TrimSpace (node_RPCAddress n)\<rparr>"
  have id': "node_ID n' = node_ID n" by (simp add: n'_def)
  from assms(1) have new: "\<not> fm_has m (node_ID n)" and ne: "node_ID n \<noteq> []"
    and acc': "acc' = (nm @ [n'], fmupd (node_ID n) n' m, ord @ [node_ID n])"
    by (auto simp: normalizeNode_def acc Let_def n'_def split: if_splits)
  from assms(2) have inv: "ord = map node_ID nm" "distinct ord" "list_all (\<lambda>nid. nid \<noteq> []) ord"
    "nodes_indexed nm m" "set ord = fset (fmdom m)" "fmpred (\<lambda>nid n. node_ID n = nid) m"
    by (auto simp: acc normalized_nodes_def)
  have fresh: "node_ID n \<notin> set ord" using new inv(5) by (simp add: fm_has_dom)
  have "nodes_indexed (nm @ [n']) (fmupd (node_ID n) n' m)"
    using inv(1,4) fresh id' unfolding nodes_indexed_def by auto
  moreover have "fmpred (\<lambda>nid n. node_ID n = nid) (fmupd (node_ID n) n' m)"
    using inv(6) id' by (intro fmpred_upd)
  ultimately show ?thesis
    using inv(1,2,3,5) fresh ne id' by (simp add: acc' normalized_nodes_def)
qed

lemma normalizeNodes_inv:
  assumes "normalizeNodes nodes = Inr acc"
  shows "normalized_nodes acc"
proof -
  from assms have "fold_res normalizeNode nodes ([], fmempty, []) = Inr acc"
    by (auto simp: normalizeNodes_def split: if_splits)
  then show ?thesis
  proof (rule fold_res_invariant)
    show "normalized_nodes ([], fmempty, [])"
      by (simp add: normalized_nodes_def nodes_indexed_def)
  qed (rule normalizeNode_inv)
qed

lemma fold_fmupd_lookup:
  "fmlookup (fold (\<lambda>n. fmupd (f n) v) ns m) k =
     (if k \<in> f ` set ns then Some v else fmlookup m k)"
  by (induction ns arbitrary: m) auto

lemma BuildInitialPlacement_cases:
  assumes "BuildInitialPlacement cfg nodes = Inr st"
  obtains (empty) "nodes = []" "0 < cfg_SlotCount cfg" "0 < cfg_ReplicationFactor cfg"
      "cs_Chains st = emptyChains (cfg_SlotCount cfg)" "cs_NodesByID st = fmempty"
      "cs_NodeOrder st = []" "cs_SlotCount st = cfg_SlotCount cfg"
      "cs_ReplicationFactor st = cfg_ReplicationFactor cfg"
  | (placed) nm where "nodes \<noteq> []" "0 < cfg_SlotCount cfg" "0 < cfg_ReplicationFactor cfg"
      "normalizeNodes nodes = Inr (nm, cs_NodesByID st, cs_NodeOrder st)"
      "buildSteadyStateChains (cfg_SlotCount cfg) (cfg_ReplicationFactor cfg) nm (cs_NodesByID st)
         = Inr (cs_Chains st)"
      "cs_NodeHealthByID st = fold (\<lambda>n. fmupd (node_ID n) NodeHealthAlive) nm fmempty"
      "cs_SlotCount st = cfg_SlotCount cfg" "cs_ReplicationFactor st = cfg_ReplicationFactor cfg"
proof -
  have cfg: "0 < cfg_SlotCount cfg" "0 < cfg_ReplicationFactor cfg"
    using assms by (auto simp: BuildInitialPlacement_def validateConfig_def split: if_splits)
  then have ok: "validateConfig cfg = Inr ()" by (simp add: validateConfig_def)
  show ?thesis
  proof (cases "nodes = []")
    case True
    with assms ok cfg show ?thesis
      by (intro empty) (auto simp: BuildInitialPlacement_def)
  next
    case False
    with assms ok obtain nm m ord where n: "normalizeNodes nodes = Inr (nm, m, ord)"
      by (auto simp: BuildInitialPlacement_def res_bind_Inr)
    with assms ok False cfg show ?thesis
      by (intro placed[of nm]) (auto simp: BuildInitialPlacement_def res_bind_Inr split: if_splits)
  qed
qed

lemma steady_chain_wf_chain:
  assumes "steady_chain rf nm (cs_NodesByID st) i c"
    and "normalized_nodes (nm, cs_NodesByID st, ord)"
  shows "wf_chain st c"
  using assms
  by (auto simp: steady_chain_def steady_replicas_def wf_chain_def list_all_iff
      normalized_nodes_def fm_has_dom)

lemma steady_chains_wf:
  assumes norm: "normalized_nodes (nm, cs_NodesByID st, cs_NodeOrder st)"
    and len: "length (cs_Chains st) = nat (cs_SlotCount st)"
    and pos: "0 < cs_SlotCount st" "0 < cs_ReplicationFactor st"
    and steady: "\<forall>i<length (cs_Chains st).
      steady_chain (cs_ReplicationFactor st) nm (cs_NodesByID st) i (cs_Chains st ! i)"
  shows "wf_cluster st"
proof -
  have "list_all (wf_chain st) (cs_Chains st)"
    unfolding list_all_length using steady steady_chain_wf_chain[OF _ norm] by blast
  moreover have "map chain_Slot (cs_Chains st) = map int [0..<length (cs_Chains st)]"
    using steady by (intro nth_equalityI) (simp_all add: steady_chain_def)
  moreover have "wf_nodes st"
    using norm unfolding wf_nodes_def normalized_nodes_def prod.case by blast
  ultimately show ?thesis using len pos by (simp add: wf_cluster_def)
qed

lemma steady_chain_no_dead:
  assumes "steady_chain rf nm m i c"
    and "cs_NodeHealthByID st = fold (\<lambda>n. fmupd (node_ID n) NodeHealthAlive) nm fmempty"
  shows "no_dead_chain st c"
  using assms
  by (auto simp: no_dead_chain_def chainContainsDeadReplica_def list_ex_iff steady_chain_def
      steady_replicas_def set_replicaIDs fold_fmupd_lookup)

lemma BuildInitialPlacement_props:
  assumes "BuildInitialPlacement cfg nodes = Inr st"
  shows "wf_cluster st \<and> no_dead st \<and> int (length (cs_Chains st)) = cfg_SlotCount cfg \<and>
    (nodes \<noteq> [] \<longrightarrow> (\<forall>c\<in>set (cs_Chains st).
       int (length (chain_Replicas c)) = cfg_ReplicationFactor cfg \<and>
       list_all is_active (chain_Replicas c) \<and> distinct (replicaIDs (chain_Replicas c)) \<and>
       conflict_free (cs_NodesByID st) (chain_Replicas c)))"
  using assms
proof (cases rule: BuildInitialPlacement_cases)
  case empty
  then show ?thesis
    by (auto simp: wf_cluster_def no_dead_def emptyChains_def list_all_iff wf_chain_def
        no_dead_chain_def chainContainsDeadReplica_def wf_nodes_def comp_def)
next
  case (placed nm)
  have norm: "normalized_nodes (nm, cs_NodesByID st, cs_NodeOrder st)"
    using normalizeNodes_inv placed(4) by blast
  then have ix: "nodes_indexed nm (cs_NodesByID st)" by (simp add: normalized_nodes_def)
  have len: "length (cs_Chains st) = nat (cfg_SlotCount cfg)"
    and steady: "\<forall>i<length (cs_Chains st). steady_chain (cfg_ReplicationFactor cfg) nm
      (cs_NodesByID st) i (cs_Chains st ! i)"
    using buildSteadyStateChains_steady[OF placed(5) ix] placed(3) by simp_all
  have "wf_cluster st"
    using steady_chains_wf[OF norm] len steady placed by simp
  moreover have "no_dead st"
    unfolding no_dead_def list_all_length using steady steady_chain_no_dead[OF _ placed(6)] by blast
  moreover have "\<forall>c\<in>set (cs_Chains st). int (length (chain_Replicas c)) = cfg_ReplicationFactor cfg \<and>
       list_all is_active (chain_Replicas c) \<and> distinct (replicaIDs (chain_Replicas c)) \<and>
       conflict_free (cs_NodesByID st) (chain_Replicas c)"
  proof
    fix c
    assume "c \<in> set (cs_Chains st)"
    then obtain i where "i < length (cs_Chains st)" "c = cs_Chains st ! i"
      by (auto simp: in_set_conv_nth)
    with steady have "steady_chain (cfg_ReplicationFactor cfg) nm (cs_NodesByID st) i c" by simp
    then show "int (length (chain_Replicas c)) = cfg_ReplicationFactor cfg \<and>
       list_all is_active (chain_Replicas c) \<and> distinct (replicaIDs (chain_Replicas c)) \<and>
       conflict_free (cs_NodesByID st) (chain_Replicas c)"
      by (simp add: steady_chain_def steady_replicas_def)
  qed
  ultimately show ?thesis using len placed(2) by simp
qed

text \<open>
  C3. Bootstrap placement is full and safe: whenever \<open>BuildInitialPlacement\<close>
  succeeds the cluster state is well formed, no chain holds a dead node, and if
  any node was given every one of the \<open>SlotCount\<close> chains has exactly
  \<open>ReplicationFactor\<close> active replicas on pairwise different known nodes no two
  of which share a failure-domain value.
\<close>

theorem BuildInitialPlacement_sound:
  assumes "BuildInitialPlacement cfg nodes = Inr st"
  shows "wf_cluster st \<and> no_dead st \<and> int (length (cs_Chains st)) = cfg_SlotCount cfg \<and>
    (nodes \<noteq> [] \<longrightarrow> (\<forall>c\<in>set (cs_Chains st).
       int (length (chain_Replicas c)) = cfg_ReplicationFactor cfg \<and>
       list_all is_active (chain_Replicas c) \<and> distinct (replicaIDs (chain_Replicas c)) \<and>
       conflict_free (cs_NodesByID st) (chain_Replicas c)))"
  by (rule BuildInitialPlacement_props[OF assms])

text \<open>Three nodes, one of them in its own rack, used by the witnesses.\<close>

definition ex_node :: "string \<Rightarrow> (string \<times> string) list \<Rightarrow> node" where
  "ex_node nid fds = \<lparr>node_ID = nid, node_RPCAddress = nid, node_FailureDomains = fmap_of_list fds\<rparr>"

definition ex_nodes :: "node list" where
  "ex_nodes = [ex_node ''a'' [(''rack'', ''r1'')], ex_node ''b'' [(''rack'', ''r2'')],
     ex_node ''c'' [(''rack'', ''r1'')]]"

theorem BuildInitialPlacement_sound_witness:
  "\<exists>st. BuildInitialPlacement \<lparr>cfg_SlotCount = 3, cfg_ReplicationFactor = 2\<rparr> ex_nodes = Inr st \<and>
     wf_cluster st \<and> no_dead st \<and> int (length (cs_Chains st)) = 3 \<and>
     (\<forall>c\<in>set (cs_Chains st). int (length (chain_Replicas c)) = 2 \<and>
        conflict_free (cs_NodesByID st) (chain_Replicas c))"
proof -
  let ?r = "BuildInitialPlacement \<lparr>cfg_SlotCount = 3, cfg_ReplicationFactor = 2\<rparr> ex_nodes"
  have "\<not> isl ?r" by code_simp
  then obtain st where st: "?r = Inr st" by (cases ?r) auto
  from BuildInitialPlacement_sound[OF st] st show ?thesis by (auto simp: ex_nodes_def)
qed

text \<open>
  C10. Candidate selection is the documented greedy rule:
  \<open>selectReplicaCandidate\<close> returns nothing exactly when no scanned node is
  eligible, and otherwise an eligible scanned node whose
  \<open>(tail count, head count, replica count, node ID)\<close> is lexicographically
  minimal among the eligible ones.
\<close>

theorem selectReplicaCandidate_least:
  "case selectReplicaCandidate nodes c nodesByID cnts of
     None \<Rightarrow> \<forall>n\<in>set nodes. \<not> isEligible n c nodesByID
   | Some b \<Rightarrow> b \<in> set nodes \<and> isEligible b c nodesByID \<and>
       (\<forall>n\<in>set nodes. isEligible n c nodesByID \<longrightarrow> node_key cnts b \<le> node_key cnts n)"
  using select_loop_spec[where ns = nodes and c = c and nodesByID = nodesByID
      and cnts = cnts and best = None]
  by (simp add: selectReplicaCandidate_def split: option.splits)

theorem selectReplicaCandidate_least_witness:
  "\<exists>b. selectReplicaCandidate ex_nodes \<lparr>chain_Slot = 0, chain_Replicas = []\<rparr> fmempty
         (fmupd ''a'' \<lparr>headCount = 0, tailCount = 1, replicaCount = 1\<rparr> fmempty) = Some b \<and>
     node_ID b = ''b'' \<and>
     (\<forall>n\<in>set ex_nodes. isEligible n \<lparr>chain_Slot = 0, chain_Replicas = []\<rparr> fmempty \<longrightarrow>
        node_key (fmupd ''a'' \<lparr>headCount = 0, tailCount = 1, replicaCount = 1\<rparr> fmempty) b \<le>
        node_key (fmupd ''a'' \<lparr>headCount = 0, tailCount = 1, replicaCount = 1\<rparr> fmempty) n)"
proof -
  let ?cnts = "fmupd ''a'' \<lparr>headCount = 0, tailCount = 1, replicaCount = 1\<rparr> fmempty :: counts"
  let ?c = "\<lparr>chain_Slot = 0, chain_Replicas = []\<rparr> :: chain"
  have b: "selectReplicaCandidate ex_nodes ?c fmempty ?cnts
      = Some (ex_node ''b'' [(''rack'', ''r2'')])" by code_simp
  have "node_ID (ex_node ''b'' [(''rack'', ''r2'')]) = ''b''" by (simp add: ex_node_def)
  with selectReplicaCandidate_least[of ex_nodes ?c fmempty ?cnts] b show ?thesis by auto
qed

section \<open>Placement succeeds when domains do not interfere\<close>

lemma select_exists:
  assumes "nodes_indexed nodes nodesByID" and "distinct (map node_ID nodes)"
    and "\<And>n. n \<in> set nodes \<Longrightarrow> node_FailureDomains n = fmempty"
    and "length (chain_Replicas c) < length nodes"
  shows "\<exists>n. selectReplicaCandidate nodes c nodesByID cnts = Some n"
proof -
  have "card (set (replicaIDs (chain_Replicas c))) < card (node_ID ` set nodes)"
    using assms(2,4) card_length[of "replicaIDs (chain_Replicas c)"] distinct_card[OF assms(2)]
    by simp
  then have "\<not> node_ID ` set nodes \<subseteq> set (replicaIDs (chain_Replicas c))"
    by (metis List.finite_set card_mono not_less)
  then obtain n where n: "n \<in> set nodes" "node_ID n \<notin> set (replicaIDs (chain_Replicas c))" by auto
  with assms(3) have "isEligible n c nodesByID"
    by (simp add: isEligible_iff hasFailureDomainConflict_def)
  with n(1) select_loop_spec[where ns = nodes and c = c and nodesByID = nodesByID
      and cnts = cnts and best = None]
  show ?thesis by (auto simp: selectReplicaCandidate_def split: option.splits)
qed

lemma fillChain_succeeds:
  assumes "nodes_indexed nodes nodesByID" and "distinct (map node_ID nodes)"
    and "\<And>n. n \<in> set nodes \<Longrightarrow> node_FailureDomains n = fmempty"
    and "length (chain_Replicas c) + k \<le> length nodes"
  shows "\<exists>c'. fillChain k pos nodes nodesByID c cnts = Inr c'"
  using assms(4)
proof (induction k arbitrary: pos c cnts)
  case (Suc k)
  obtain n where n: "selectReplicaCandidate nodes c nodesByID cnts = Some n"
    using select_exists[OF assms(1,2,3)] Suc.prems by fastforce
  obtain c1 cnts1 where app:
    "appendReplicaWithState c (node_ID n) ReplicaStateActive cnts = (c1, cnts1)" by force
  with appendReplicaWithState_chain[of c "node_ID n" ReplicaStateActive cnts] Suc.prems
  have "length (chain_Replicas c1) + k \<le> length nodes" by simp
  from Suc.IH[OF this] n app show ?case by simp
qed simp

lemma buildSteadyStateChains_succeeds:
  assumes "nodes_indexed nodes nodesByID" and "distinct (map node_ID nodes)"
    and "\<And>n. n \<in> set nodes \<Longrightarrow> node_FailureDomains n = fmempty"
    and "rf \<le> int (length nodes)"
  shows "\<exists>chs. buildSteadyStateChains slotCount rf nodes nodesByID = Inr chs"
proof -
  have step: "\<exists>acc'. buildSlot rf nodes nodesByID slot acc = Inr acc'" for slot acc
  proof -
    have "\<exists>t. fillChain (nat rf) 0 nodes nodesByID
        \<lparr>chain_Slot = int slot, chain_Replicas = []\<rparr> (snd acc) = Inr t"
      using assms(4) by (intro fillChain_succeeds[OF assms(1,2,3)]) auto
    then show ?thesis by (cases acc) (auto simp: buildSlot_def Let_def)
  qed
  have "\<exists>acc'. fold_res (buildSlot rf nodes nodesByID) xs acc = Inr acc'" for xs acc
  proof (induction xs arbitrary: acc)
    case (Cons x xs)
    from step[of x acc] Cons.IH show ?case by auto
  qed simp
  then obtain acc' where
    "fold_res (buildSlot rf nodes nodesByID) [0..<nat slotCount] ([], fmempty) = Inr acc'" by blast
  then show ?thesis by (cases acc') (simp add: buildSteadyStateChains_def)
qed

lemma normalizeNodes_succeeds:
  assumes "nodes \<noteq> []" and "distinct (map node_ID nodes)" and "[] \<notin> node_ID ` set nodes"
    and "\<And>n. n \<in> set nodes \<Longrightarrow> node_FailureDomains n = fmempty"
  shows "\<exists>nm m ord. normalizeNodes nodes = Inr (nm, m, ord) \<and> length nm = length nodes \<and>
    (\<forall>n\<in>set nm. node_FailureDomains n = fmempty)"
proof -
  have "\<exists>nm' m' ord'. fold_res normalizeNode ns (nm, m, ord) = Inr (nm', m', ord') \<and>
      length nm' = length nm + length ns \<and> (\<forall>n\<in>set nm'. node_FailureDomains n = fmempty)"
    if "distinct (map node_ID ns)" "[] \<notin> node_ID ` set ns"
      "\<And>n. n \<in> set ns \<Longrightarrow> node_FailureDomains n = fmempty"
      "\<And>n. n \<in> set ns \<Longrightarrow> \<not> fm_has m (node_ID n)"
      "\<forall>n\<in>set nm. node_FailureDomains n = fmempty" for ns nm m ord
    using that
  proof (induction ns arbitrary: nm m ord)
    case (Cons n ns)
    define n' where "n' = n\<lparr>node_RPCAddress := strings_TrimSpace (node_RPCAddress n)\<rparr>"
    have "normalizeNode n (nm, m, ord) =
        Inr (nm @ [n'], fmupd (node_ID n) n' m, ord @ [node_ID n])"
      using Cons.prems by (auto simp: normalizeNode_def n'_def Let_def)
    moreover have fresh: "node_ID x \<noteq> node_ID n" if "x \<in> set ns" for x
      using Cons.prems(1) that by (metis distinct.simps(2) image_eqI list.map(2) list.set_map)
    moreover have "\<exists>nm' m' ord'. fold_res normalizeNode ns
        (nm @ [n'], fmupd (node_ID n) n' m, ord @ [node_ID n]) = Inr (nm', m', ord') \<and>
      length nm' = length (nm @ [n']) + length ns \<and>
      (\<forall>n\<in>set nm'. node_FailureDomains n = fmempty)"
      by (rule Cons.IH) (use Cons.prems fresh in \<open>auto simp: n'_def\<close>)
    ultimately show ?case by simp
  qed simp
  from this[of nodes fmempty "[]" "[]"] assms show ?thesis
    by (simp add: normalizeNodes_def)
qed

text \<open>
  C11. Bootstrap cannot fail spuriously: with positive slot count and replication
  factor, at least as many nodes as the replication factor, unique non-empty node
  IDs and no failure domains, \<open>BuildInitialPlacement\<close> returns a placement.
\<close>

theorem BuildInitialPlacement_total:
  assumes "0 < cfg_SlotCount cfg" and "0 < cfg_ReplicationFactor cfg"
    and "cfg_ReplicationFactor cfg \<le> int (length nodes)"
    and "distinct (map node_ID nodes)" and "[] \<notin> node_ID ` set nodes"
    and "\<And>n. n \<in> set nodes \<Longrightarrow> node_FailureDomains n = fmempty"
  shows "\<exists>st. BuildInitialPlacement cfg nodes = Inr st"
proof -
  from assms(2,3) have ne: "nodes \<noteq> []" by auto
  obtain nm m ord where nm: "normalizeNodes nodes = Inr (nm, m, ord)" "length nm = length nodes"
    "\<And>n. n \<in> set nm \<Longrightarrow> node_FailureDomains n = fmempty"
    using normalizeNodes_succeeds[OF ne assms(4,5,6)] by blast
  from normalizeNodes_inv[OF nm(1)] have "nodes_indexed nm m" "distinct (map node_ID nm)"
    by (auto simp: normalized_nodes_def)
  then obtain chs where
    "buildSteadyStateChains (cfg_SlotCount cfg) (cfg_ReplicationFactor cfg) nm m = Inr chs"
    using buildSteadyStateChains_succeeds[of nm m] nm(2,3) assms(3) by metis
  with ne nm assms(1,2,3) show ?thesis
    by (simp add: BuildInitialPlacement_def validateConfig_def)
qed

theorem BuildInitialPlacement_total_witness:
  "\<exists>st. BuildInitialPlacement \<lparr>cfg_SlotCount = 4, cfg_ReplicationFactor = 2\<rparr>
     [ex_node ''a'' [], ex_node ''b'' [], ex_node ''c'' []] = Inr st"
  by (rule BuildInitialPlacement_total) (auto simp: ex_node_def)

end
