(* ===== verification/Reconfig.thy ===== *)
theory Reconfig
  imports Placement
begin

text \<open>
  Reconfiguration planning of \<open>coordinator/coordinator.go\<close>: state validation,
  membership and progress events, the per-slot repair, drain and rebalance
  operations, and \<open>PlanReconfiguration\<close> and \<open>ApplyProgress\<close> that compose them.
  The per-slot operations share one contract (locale \<open>chain_op\<close>), from which the
  loops of \<open>reconcileState\<close> inherit their invariants.
\<close>

section \<open>State validation\<close>

definition default_alive :: "string \<Rightarrow> (string, NodeHealth) fmap \<Rightarrow> (string, NodeHealth) fmap" where
  "default_alive nid health =
     (if fm_has health nid then health else fmupd nid NodeHealthAlive health)"

text \<open>The loop over \<open>NodeOrder\<close>: unknown and repeated entries are rejected, missing health defaults.\<close>

fun validateNodeOrder ::
  "string list \<Rightarrow> string list \<Rightarrow> (string, node) fmap \<Rightarrow> (string, NodeHealth) fmap
     \<Rightarrow> coord_err + (string, NodeHealth) fmap" where
  "validateNodeOrder [] seen nodes health = Inr health"
| "validateNodeOrder (nid # rest) seen nodes health =
     (if \<not> fm_has nodes nid then Inl ErrInvalidConfig
      else if nid \<in> set seen then Inl ErrInvalidConfig
      else validateNodeOrder rest (nid # seen) nodes (default_alive nid health))"

definition cloneAndValidateState :: "cluster_state \<Rightarrow> coord_err + cluster_state" where
  "cloneAndValidateState st =
     res_bind (validateConfig \<lparr>cfg_SlotCount = cs_SlotCount st,
                 cfg_ReplicationFactor = cs_ReplicationFactor st\<rparr>) (\<lambda>_.
       if int (length (cs_Chains st)) \<noteq> cs_SlotCount st then Inl ErrInvalidConfig
       else
         let chs = map (\<lambda>(i, c). c\<lparr>chain_Slot := int i\<rparr>) (enumerate 0 (cs_Chains st));
             order = (if cs_NodeOrder st = [] then sorted_list_of_fset (fmdom (cs_NodesByID st))
                      else cs_NodeOrder st)
         in res_bind (validateNodeOrder order [] (cs_NodesByID st) (cs_NodeHealthByID st)) (\<lambda>health.
              let health' = fold default_alive (sorted_list_of_fset (fmdom (cs_NodesByID st))) health
              in if list_all (\<lambda>c. list_all (\<lambda>r. fm_has (cs_NodesByID st) (replica_NodeID r))
                                   (chain_Replicas c)) chs
                 then Inr \<lparr>cs_Chains = chs, cs_NodesByID = cs_NodesByID st,
                           cs_NodeHealthByID = health',
                           cs_ReadyNodeIDs = fmfilter (flag (cs_ReadyNodeIDs st)) (cs_ReadyNodeIDs st),
                           cs_DrainingNodeIDs =
                             fmfilter (flag (cs_DrainingNodeIDs st)) (cs_DrainingNodeIDs st),
                           cs_NodeOrder = order, cs_SlotCount = cs_SlotCount st,
                           cs_ReplicationFactor = cs_ReplicationFactor st\<rparr>
                 else Inl ErrInvalidConfig))"

section \<open>Events\<close>

definition addNode :: "cluster_state \<Rightarrow> node \<Rightarrow> bool \<Rightarrow> coord_err + cluster_state" where
  "addNode st n ready =
     res_bind (normalizeNodes [n]) (\<lambda>(normalized, nodesByID, nodeOrder).
       let nn = hd normalized; nodeID = hd nodeOrder
       in case fmlookup (cs_NodesByID st) nodeID of
            Some existing \<Rightarrow>
              if fmlookup (cs_NodeHealthByID st) nodeID = Some NodeHealthDead then Inl ErrInvalidEvent
              else if nodeIdentityConflict existing nn then Inl ErrInvalidEvent
              else if ready then
                Inr (st\<lparr>cs_ReadyNodeIDs := fmupd nodeID True (cs_ReadyNodeIDs st)\<rparr>)
              else Inr st
          | None \<Rightarrow>
              Inr (st\<lparr>cs_NodesByID := fmupd nodeID (fm_get zero_node nodesByID nodeID) (cs_NodesByID st),
                     cs_NodeHealthByID := fmupd nodeID NodeHealthAlive (cs_NodeHealthByID st),
                     cs_ReadyNodeIDs :=
                       (if ready then fmupd nodeID True (cs_ReadyNodeIDs st)
                        else fmdrop nodeID (cs_ReadyNodeIDs st)),
                     cs_NodeOrder := cs_NodeOrder st @ [nodeID],
                     cs_DrainingNodeIDs := fmdrop (node_ID nn) (cs_DrainingNodeIDs st)\<rparr>))"

definition beginDrainNode :: "cluster_state \<Rightarrow> string \<Rightarrow> coord_err + cluster_state" where
  "beginDrainNode st nodeID =
     (if nodeID = [] then Inl ErrInvalidEvent
      else if \<not> fm_has (cs_NodesByID st) nodeID then Inl ErrInvalidEvent
      else if fmlookup (cs_NodeHealthByID st) nodeID = Some NodeHealthDead then Inl ErrInvalidEvent
      else Inr (st\<lparr>cs_DrainingNodeIDs := fmupd nodeID True (cs_DrainingNodeIDs st)\<rparr>))"

definition markNodeDead :: "cluster_state \<Rightarrow> string \<Rightarrow> coord_err + cluster_state" where
  "markNodeDead st nodeID =
     (if nodeID = [] then Inl ErrInvalidEvent
      else if \<not> fm_has (cs_NodesByID st) nodeID then Inl ErrInvalidEvent
      else Inr (st\<lparr>cs_NodeHealthByID := fmupd nodeID NodeHealthDead (cs_NodeHealthByID st),
                   cs_ReadyNodeIDs := fmdrop nodeID (cs_ReadyNodeIDs st),
                   cs_DrainingNodeIDs := fmdrop nodeID (cs_DrainingNodeIDs st)\<rparr>))"

definition set_chain :: "cluster_state \<Rightarrow> nat \<Rightarrow> chain \<Rightarrow> cluster_state" where
  "set_chain st slot c = st\<lparr>cs_Chains := (cs_Chains st)[slot := c]\<rparr>"

definition set_replicas :: "cluster_state \<Rightarrow> nat \<Rightarrow> replica list \<Rightarrow> cluster_state" where
  "set_replicas st slot rs = set_chain st slot ((cs_Chains st ! slot)\<lparr>chain_Replicas := rs\<rparr>)"

definition applyProgressEvent :: "cluster_state \<Rightarrow> event \<Rightarrow> coord_err + cluster_state" where
  "applyProgressEvent st e =
     (if ev_Slot e < 0 \<or> ev_Slot e \<ge> cs_SlotCount st then Inl ErrInvalidEvent
      else if ev_NodeID e = [] then Inl ErrInvalidEvent
      else let slot = nat (ev_Slot e); c = cs_Chains st ! slot; rs = chain_Replicas c
           in case findReplicaIndex c (ev_NodeID e) of
                None \<Rightarrow> Inl ErrIllegalStateTransition
              | Some i \<Rightarrow>
                  (case ev_Kind e of
                     EventKindReplicaBecameActive \<Rightarrow>
                       if replica_State (rs ! i) \<noteq> ReplicaStateJoining then Inl ErrIllegalStateTransition
                       else Inr (set_replicas st slot
                              (rs[i := (rs ! i)\<lparr>replica_State := ReplicaStateActive\<rparr>]))
                   | EventKindReplicaRemoved \<Rightarrow>
                       if replica_State (rs ! i) \<noteq> ReplicaStateLeaving \<and>
                          fmlookup (cs_NodeHealthByID st) (ev_NodeID e) \<noteq> Some NodeHealthDead
                       then Inl ErrIllegalStateTransition
                       else let st' = set_replicas st slot (take i rs @ drop (Suc i) rs)
                            in if \<not> flag (cs_DrainingNodeIDs st') (ev_NodeID e) \<and>
                                  fmlookup (cs_NodeHealthByID st') (ev_NodeID e) \<noteq> Some NodeHealthDead \<and>
                                  countReplicasForNode st' (ev_NodeID e) = 0
                               then Inr (st'\<lparr>cs_DrainingNodeIDs :=
                                      fmdrop (ev_NodeID e) (cs_DrainingNodeIDs st')\<rparr>)
                               else Inr st'
                   | _ \<Rightarrow> Inl ErrInvalidEvent))"

definition applyEvent :: "cluster_state \<Rightarrow> event \<Rightarrow> coord_err + cluster_state" where
  "applyEvent st e =
     (case ev_Kind e of
        EventKindRegisterNode \<Rightarrow> addNode st (ev_Node e) False
      | EventKindAddNode \<Rightarrow> addNode st (ev_Node e) True
      | EventKindBeginDrainNode \<Rightarrow> beginDrainNode st (ev_NodeID e)
      | EventKindMarkNodeDead \<Rightarrow> markNodeDead st (ev_NodeID e)
      | EventKindReplicaBecameActive \<Rightarrow> applyProgressEvent st e
      | EventKindReplicaRemoved \<Rightarrow> applyProgressEvent st e
      | EventKindOther _ \<Rightarrow> Inl ErrInvalidEvent)"

section \<open>Per-slot operations\<close>

fun lastAliveIndex_loop :: "(string, NodeHealth) fmap \<Rightarrow> nat \<Rightarrow> replica list \<Rightarrow> int \<Rightarrow> int" where
  "lastAliveIndex_loop health i [] acc = acc"
| "lastAliveIndex_loop health i (r # rs) acc =
     lastAliveIndex_loop health (Suc i) rs
       (if fmlookup health (replica_NodeID r) = Some NodeHealthDead then acc else int i)"

fun deriveAssignmentCounts_loop ::
  "(string, NodeHealth) fmap \<Rightarrow> int \<Rightarrow> nat \<Rightarrow> replica list \<Rightarrow> counts \<Rightarrow> counts" where
  "deriveAssignmentCounts_loop health lastAlive i [] cnts = cnts"
| "deriveAssignmentCounts_loop health lastAlive i (r # rs) cnts =
     (if fmlookup health (replica_NodeID r) = Some NodeHealthDead
      then deriveAssignmentCounts_loop health lastAlive (Suc i) rs cnts
      else let nc = fm_get zero_counts cnts (replica_NodeID r);
               nc1 = nc\<lparr>replicaCount := replicaCount nc + 1\<rparr>;
               nc2 = (if i = 0 then nc1\<lparr>headCount := headCount nc1 + 1\<rparr> else nc1);
               nc3 = (if int i = lastAlive then nc2\<lparr>tailCount := tailCount nc2 + 1\<rparr> else nc2)
           in deriveAssignmentCounts_loop health lastAlive (Suc i) rs
                (fmupd (replica_NodeID r) nc3 cnts))"

definition deriveAssignmentCounts :: "cluster_state \<Rightarrow> counts" where
  "deriveAssignmentCounts st =
     fold (\<lambda>c. deriveAssignmentCounts_loop (cs_NodeHealthByID st)
                 (lastAliveIndex_loop (cs_NodeHealthByID st) 0 (chain_Replicas c) (-1)) 0
                 (chain_Replicas c))
       (cs_Chains st) fmempty"

definition selectTailRepairCandidate :: "cluster_state \<Rightarrow> chain \<Rightarrow> node option" where
  "selectTailRepairCandidate st c =
     selectReplicaCandidate (orderedNodes st (placeable st)) c (cs_NodesByID st)
       (deriveAssignmentCounts st)"

definition joining :: "string \<Rightarrow> replica" where
  "joining nid = \<lparr>replica_NodeID = nid, replica_State = ReplicaStateJoining\<rparr>"

definition append_step :: "nat \<Rightarrow> string \<Rightarrow> string \<Rightarrow> reconfiguration_step" where
  "append_step slot nid replaced =
     \<lparr>step_Kind = StepKindAppendTail, step_Slot = int slot, step_NodeID = nid,
      step_ReplacedNodeID = replaced\<rparr>"

definition leave_step :: "nat \<Rightarrow> string \<Rightarrow> reconfiguration_step" where
  "leave_step slot nid =
     \<lparr>step_Kind = StepKindMarkLeaving, step_Slot = int slot, step_NodeID = nid,
      step_ReplacedNodeID = []\<rparr>"

definition slotPlan :: "nat \<Rightarrow> chain \<Rightarrow> chain \<Rightarrow> reconfiguration_step list \<Rightarrow> slot_plan" where
  "slotPlan slot before after steps =
     \<lparr>sp_Slot = int slot, sp_Before = before, sp_After = after, sp_Steps = steps\<rparr>"

definition append_joining :: "cluster_state \<Rightarrow> nat \<Rightarrow> string \<Rightarrow> cluster_state" where
  "append_joining st slot nid =
     set_replicas st slot (chain_Replicas (cs_Chains st ! slot) @ [joining nid])"

text \<open>
  The repair loop of \<open>repairDeadReplicas\<close>: every iteration appends one replica, so
  the number of replicas missing at the start bounds it.
\<close>

fun repair_loop ::
  "nat \<Rightarrow> cluster_state \<Rightarrow> nat \<Rightarrow> reconfiguration_step list
     \<Rightarrow> cluster_state \<times> reconfiguration_step list" where
  "repair_loop 0 st slot steps = (st, steps)"
| "repair_loop (Suc k) st slot steps =
     (case selectTailRepairCandidate st (cs_Chains st ! slot) of
        None \<Rightarrow> (st, steps)
      | Some cand \<Rightarrow>
          repair_loop k (append_joining st slot (node_ID cand)) slot
            (steps @ [append_step slot (node_ID cand) []]))"

definition repairDeadReplicas :: "nat \<Rightarrow> cluster_state \<Rightarrow> coord_err + cluster_state \<times> slot_plan option" where
  "repairDeadReplicas slot st =
     (let c = cs_Chains st ! slot
      in if \<not> chainContainsDeadReplica c (cs_NodeHealthByID st) then Inr (st, None)
         else let survivors = filter (\<lambda>r. fmlookup (cs_NodeHealthByID st) (replica_NodeID r)
                                            \<noteq> Some NodeHealthDead) (chain_Replicas c)
              in if countActiveReplicas survivors = 0 then Inl ErrBrokenChain
                 else case repair_loop (nat (cs_ReplicationFactor st - int (length survivors)))
                             (set_replicas st slot survivors) slot [] of
                        (st', steps) \<Rightarrow>
                          Inr (st', if c \<noteq> cs_Chains st' ! slot
                                    then Some (slotPlan slot c (cs_Chains st' ! slot) steps)
                                    else None))"

definition appendDrainReplacement ::
  "nat \<Rightarrow> cluster_state \<Rightarrow> coord_err + cluster_state \<times> slot_plan option" where
  "appendDrainReplacement slot st =
     (let c = cs_Chains st ! slot
      in if hasPendingReplicaState c then Inr (st, None)
         else let replaced = firstActiveDrainingReplicaID c (cs_DrainingNodeIDs st)
              in if replaced = [] then Inr (st, None)
                 else case selectTailRepairCandidate st c of
                        None \<Rightarrow> Inl (PlacementError (int slot) (int (length (chain_Replicas c))))
                      | Some cand \<Rightarrow>
                          let st' = append_joining st slot (node_ID cand)
                          in Inr (st', Some (slotPlan slot c (cs_Chains st' ! slot)
                                    [append_step slot (node_ID cand) replaced])))"

definition finalizeDrainReplacement :: "nat \<Rightarrow> cluster_state \<Rightarrow> cluster_state \<times> slot_plan option" where
  "finalizeDrainReplacement slot st =
     (let c = cs_Chains st ! slot
      in if hasJoiningReplica c then (st, None)
         else let drainingActiveIDs = activeReplicaIDsWithDrain c (cs_DrainingNodeIDs st)
              in if drainingActiveIDs = [] then (st, None)
                 else let targetActives = activeReplicaIDsExcludingDraining c (cs_DrainingNodeIDs st)
                      in if int (length targetActives) \<noteq> cs_ReplicationFactor st then (st, None)
                         else let st' = set_replicas st slot
                                (map (\<lambda>nid. \<lparr>replica_NodeID = nid, replica_State = ReplicaStateActive\<rparr>) targetActives
                                 @ map (\<lambda>nid. \<lparr>replica_NodeID = nid, replica_State = ReplicaStateLeaving\<rparr>) drainingActiveIDs)
                              in (st', Some (slotPlan slot c (cs_Chains st' ! slot)
                                        (map (leave_step slot) drainingActiveIDs))))"

definition finalizeJoinRebalance ::
  "chain \<Rightarrow> nat \<Rightarrow> cluster_state \<Rightarrow> cluster_state \<times> slot_plan option" where
  "finalizeJoinRebalance desired slot st =
     (let c = cs_Chains st ! slot
      in if hasJoiningReplica c \<or> hasLeavingReplica c then (st, None)
         else if firstActiveDrainingReplicaID c (cs_DrainingNodeIDs st) \<noteq> [] then (st, None)
         else let currentActives = activeReplicaIDs c; desiredActives = replicaIDs (chain_Replicas desired)
              in if int (length currentActives) \<noteq> cs_ReplicationFactor st + 1 then (st, None)
                 else case extraNode currentActives desiredActives of
                        None \<Rightarrow> (st, None)
                      | Some extraNodeID \<Rightarrow>
                          (case lastActiveReplicaID c of
                             None \<Rightarrow> (st, None)
                           | Some newNodeID \<Rightarrow>
                               if newNodeID = extraNodeID \<or> \<not> containsNodeID desiredActives newNodeID
                               then (st, None)
                               else if \<not> sameRelativeOrderForJoinFinalization currentActives extraNodeID
                                          newNodeID desiredActives then (st, None)
                               else let st' = set_replicas st slot
                                      (map (\<lambda>nid. \<lparr>replica_NodeID = nid, replica_State = ReplicaStateActive\<rparr>) desiredActives
                                       @ [\<lparr>replica_NodeID = extraNodeID, replica_State = ReplicaStateLeaving\<rparr>])
                                    in (st', Some (slotPlan slot c (cs_Chains st' ! slot)
                                              [leave_step slot extraNodeID]))))"

definition appendJoinRebalance ::
  "chain \<Rightarrow> nat \<Rightarrow> cluster_state \<Rightarrow> coord_err + cluster_state \<times> slot_plan option" where
  "appendJoinRebalance desired slot st =
     (let c = cs_Chains st ! slot
      in if hasPendingReplicaState c then Inr (st, None)
         else if firstActiveDrainingReplicaID c (cs_DrainingNodeIDs st) \<noteq> [] then Inr (st, None)
         else if chainContainsDeadReplica c (cs_NodeHealthByID st) then Inr (st, None)
         else let currentActives = activeReplicaIDs c; desiredActives = replicaIDs (chain_Replicas desired)
              in if int (length currentActives) \<noteq> cs_ReplicationFactor st \<or>
                    int (length desiredActives) \<noteq> cs_ReplicationFactor st then Inr (st, None)
                 else case oneMemberReplacement currentActives desiredActives of
                        None \<Rightarrow> if disjointChain currentActives desiredActives then Inl ErrBrokenChain
                                else Inr (st, None)
                      | Some (addedNodeID, removedNodeID) \<Rightarrow>
                          if \<not> sameRelativeOrderWithout currentActives removedNodeID desiredActives addedNodeID
                          then Inr (st, None)
                          else let st' = append_joining st slot addedNodeID
                               in Inr (st', Some (slotPlan slot c (cs_Chains st' ! slot)
                                         [append_step slot addedNodeID removedNodeID])))"

definition appendMissingDesiredReplicas ::
  "chain \<Rightarrow> nat \<Rightarrow> cluster_state \<Rightarrow> coord_err + cluster_state \<times> slot_plan option" where
  "appendMissingDesiredReplicas desired slot st =
     (let c = cs_Chains st ! slot
      in if hasPendingReplicaState c then Inr (st, None)
         else if int (length (chain_Replicas c)) \<ge> cs_ReplicationFactor st then Inr (st, None)
         else if chain_Replicas desired = [] then Inr (st, None)
         else let currentIDs = replicaIDs (chain_Replicas c); desiredIDs = replicaIDs (chain_Replicas desired)
              in if length currentIDs > length desiredIDs \<or>
                    \<not> isPrefix currentIDs (take (length currentIDs) desiredIDs) then Inr (st, None)
                 else if length currentIDs \<ge> length desiredIDs then Inl GoPanic
                 else let nextNodeID = desiredIDs ! length currentIDs
                      in if \<not> placeable st nextNodeID then Inr (st, None)
                         else if containsNodeID currentIDs nextNodeID then Inr (st, None)
                         else let replaced = (if int (length desiredIDs) \<ge> cs_ReplicationFactor st
                                              then desiredIDs ! nat (cs_ReplicationFactor st - 1) else []);
                                  st' = append_joining st slot nextNodeID
                              in Inr (st', Some (slotPlan slot c (cs_Chains st' ! slot)
                                        [append_step slot nextNodeID replaced])))"

definition buildDesiredPlacementFromState :: "cluster_state \<Rightarrow> coord_err + chain list option" where
  "buildDesiredPlacementFromState st =
     (let eligibleNodes = orderedNodes st (placeable st)
      in if int (length eligibleNodes) < cs_ReplicationFactor st then Inr None
         else res_bind (buildSteadyStateChains (cs_SlotCount st) (cs_ReplicationFactor st) eligibleNodes
                          (fold (\<lambda>n. fmupd (node_ID n) n) eligibleNodes fmempty))
                (\<lambda>chs. Inr (Some chs)))"

section \<open>Planning\<close>

definition remainingChangedChainBudget :: "reconfiguration_policy \<Rightarrow> nat \<Rightarrow> int" where
  "remainingChangedChainBudget policy alreadyChanged =
     (if MaxChangedChains policy \<le> 0 then -1
      else let remaining = MaxChangedChains policy - int alreadyChanged
           in if remaining < 0 then 0 else remaining)"

definition appendPrioritySlots :: "cluster_state \<Rightarrow> nat list" where
  "appendPrioritySlots st =
     sort_key (\<lambda>slot. (length (chain_Replicas (cs_Chains st ! slot)), chain_Slot (cs_Chains st ! slot)))
       (map (\<lambda>c. nat (chain_Slot c)) (cs_Chains st))"

text \<open>
  One iteration of a planning loop: run the operation on the slot and append its plan when it
  changed the chain.  The loops with a budget stop when it reaches zero; a negative budget is
  unlimited.
\<close>

type_synonym slot_op = "nat \<Rightarrow> cluster_state \<Rightarrow> coord_err + cluster_state \<times> slot_plan option"

definition plan_list :: "slot_plan option \<Rightarrow> slot_plan list" where
  "plan_list p = (case p of None \<Rightarrow> [] | Some q \<Rightarrow> [q])"

definition slot_iter ::
  "slot_op \<Rightarrow> nat \<Rightarrow> cluster_state \<times> slot_plan list \<Rightarrow> coord_err + cluster_state \<times> slot_plan list" where
  "slot_iter opr slot acc =
     (case acc of (st, plans) \<Rightarrow>
        res_bind (opr slot st) (\<lambda>(st', p).
          Inr (st', plans @ plan_list p)))"

fun budget_loop ::
  "slot_op \<Rightarrow> int \<Rightarrow> nat list \<Rightarrow> cluster_state \<times> slot_plan list
     \<Rightarrow> coord_err + cluster_state \<times> slot_plan list" where
  "budget_loop opr remaining [] acc = Inr acc"
| "budget_loop opr remaining (slot # slots) (st, plans) =
     (if remaining = 0 then Inr (st, plans)
      else res_bind (opr slot st) (\<lambda>(st', p).
        case p of
          None \<Rightarrow> budget_loop opr remaining slots (st', plans)
        | Some q \<Rightarrow>
            budget_loop opr (if remaining > 0 then remaining - 1 else remaining) slots
              (st', plans @ [q])))"

definition all_slots :: "cluster_state \<Rightarrow> nat list" where
  "all_slots st = [0..<nat (cs_SlotCount st)]"

definition reconcile_repair_phase :: "cluster_state \<Rightarrow> coord_err + cluster_state \<times> slot_plan list" where
  "reconcile_repair_phase st =
     res_bind (fold_res (slot_iter repairDeadReplicas) (all_slots st) (st, [])) (\<lambda>(st1, ch1).
       fold_res (slot_iter (\<lambda>slot s. Inr (finalizeDrainReplacement slot s))) (all_slots st1) (st1, ch1))"

definition reconcile_finalize_phase ::
  "chain list option \<Rightarrow> cluster_state \<times> slot_plan list \<Rightarrow> coord_err + cluster_state \<times> slot_plan list" where
  "reconcile_finalize_phase desired acc =
     (case desired of None \<Rightarrow> Inr acc
      | Some d \<Rightarrow> fold_res (slot_iter (\<lambda>slot s. Inr (finalizeJoinRebalance (d ! slot) slot s)))
                   (all_slots (fst acc)) acc)"

definition reconcile_append_phase ::
  "reconfiguration_policy \<Rightarrow> chain list option \<Rightarrow> cluster_state \<times> slot_plan list
     \<Rightarrow> coord_err + cluster_state \<times> slot_plan list" where
  "reconcile_append_phase policy desired acc =
     (case desired of None \<Rightarrow> Inr acc
      | Some d \<Rightarrow> budget_loop (\<lambda>slot. appendMissingDesiredReplicas (d ! slot) slot)
                   (remainingChangedChainBudget policy (length (snd acc)))
                   (appendPrioritySlots (fst acc)) acc)"

definition reconcile_rebalance_phase ::
  "reconfiguration_policy \<Rightarrow> chain list option \<Rightarrow> cluster_state \<times> slot_plan list
     \<Rightarrow> coord_err + cluster_state \<times> slot_plan list" where
  "reconcile_rebalance_phase policy desired acc =
     res_bind (fold_res (slot_iter appendDrainReplacement) (all_slots (fst acc)) acc) (\<lambda>acc'.
       case desired of
         None \<Rightarrow> Inr acc'
       | Some d \<Rightarrow>
           if MaxChangedChains policy > 0
           then budget_loop (\<lambda>slot. appendJoinRebalance (d ! slot) slot) (MaxChangedChains policy)
                  (all_slots (fst acc')) acc'
           else Inr acc')"

definition reconcileState ::
  "cluster_state \<Rightarrow> reconfiguration_policy \<Rightarrow> coord_err + cluster_state \<times> slot_plan list" where
  "reconcileState st policy =
     res_bind (reconcile_repair_phase st) (\<lambda>acc2.
     res_bind (buildDesiredPlacementFromState (fst acc2)) (\<lambda>desired.
     res_bind (reconcile_finalize_phase desired acc2) (\<lambda>acc3.
       if snd acc3 \<noteq> [] then Inr acc3
       else res_bind (reconcile_append_phase policy desired acc3) (\<lambda>acc4.
         if snd acc4 \<noteq> [] then Inr acc4
         else reconcile_rebalance_phase policy desired acc4))))"

definition plan_event ::
  "reconfiguration_policy \<Rightarrow> event \<Rightarrow> cluster_state \<times> slot_plan list
     \<Rightarrow> coord_err + cluster_state \<times> slot_plan list" where
  "plan_event policy e acc =
     (case acc of (st, plans) \<Rightarrow>
        res_bind (applyEvent st e) (\<lambda>st1.
          res_bind (reconcileState st1 policy) (\<lambda>(st2, ps). Inr (st2, plans @ ps))))"

definition PlanReconfiguration ::
  "cluster_state \<Rightarrow> event list \<Rightarrow> reconfiguration_policy \<Rightarrow> coord_err + reconfiguration_plan" where
  "PlanReconfiguration st events policy =
     (if MaxChangedChains policy < 0 then Inl ErrInvalidConfig
      else res_bind (cloneAndValidateState st) (\<lambda>working.
        res_bind (if events = [] then reconcileState working policy
                  else fold_res (plan_event policy) events (working, [])) (\<lambda>(working', changed).
          Inr \<lparr>UpdatedState = working', UnassignedNodeIDs = collectUnassignedNodeIDs working',
               ChangedSlots = changed\<rparr>)))"

definition ApplyProgress :: "cluster_state \<Rightarrow> event \<Rightarrow> coord_err + cluster_state" where
  "ApplyProgress st e =
     res_bind (cloneAndValidateState st) (\<lambda>working.
       if ev_Kind e \<noteq> EventKindReplicaBecameActive \<and> ev_Kind e \<noteq> EventKindReplicaRemoved
       then Inl ErrInvalidEvent
       else applyProgressEvent working e)"

end
