(* ===== verification/Planning.thy ===== *)
theory Planning
  imports Reconfig
begin

text \<open>
  Invariants of reconfiguration planning.  Every per-slot operation touches one
  chain and keeps chains distinct, known, free of dead nodes and anchored by an
  active replica (locale \<open>chain_op\<close>, interpreted for the six operations); the
  planning loops, \<open>reconcileState\<close> and \<open>PlanReconfiguration\<close> inherit these facts.
\<close>

section \<open>How one chain may change\<close>

definition chain_evolves :: "cluster_state \<Rightarrow> chain \<Rightarrow> chain \<Rightarrow> bool" where
  "chain_evolves st c c' =
     (chain_Slot c' = chain_Slot c \<and>
      (wf_chain st c \<longrightarrow> wf_chain st c') \<and>
      (wf_chain st c \<and> no_dead_chain st c \<longrightarrow> no_dead_chain st c') \<and>
      (has_active c \<longrightarrow> has_active c'))"

definition plan_for :: "nat \<Rightarrow> chain \<Rightarrow> chain \<Rightarrow> slot_plan option \<Rightarrow> bool" where
  "plan_for slot c c' p =
     (case p of None \<Rightarrow> c' = c
      | Some q \<Rightarrow> sp_Slot q = int slot \<and> sp_Before q = c \<and> sp_After q = c')"

text \<open>
  A planning loop from \<open>st\<close> to \<open>st'\<close> that emitted the plans \<open>ps\<close>: only chains change,
  each as \<open>chain_evolves\<close> allows, and only in slots that have a plan.
\<close>

definition evolves :: "cluster_state \<Rightarrow> slot_plan list \<Rightarrow> cluster_state \<Rightarrow> bool" where
  "evolves st ps st' =
     (st' = st\<lparr>cs_Chains := cs_Chains st'\<rparr> \<and>
      length (cs_Chains st') = length (cs_Chains st) \<and>
      (\<forall>i<length (cs_Chains st). chain_evolves st (cs_Chains st ! i) (cs_Chains st' ! i)) \<and>
      (\<forall>i<length (cs_Chains st). int i \<notin> sp_Slot ` set ps \<longrightarrow> cs_Chains st' ! i = cs_Chains st ! i))"

lemma chain_evolves_refl [simp]: "chain_evolves st c c"
  by (simp add: chain_evolves_def)

lemma chain_evolves_trans:
  "chain_evolves st c c' \<Longrightarrow> chain_evolves st c' c'' \<Longrightarrow> chain_evolves st c c''"
  by (auto simp: chain_evolves_def)

lemma meta_chain_preds:
  assumes "st' = st\<lparr>cs_Chains := X\<rparr>"
  shows "wf_chain st' c = wf_chain st c" "no_dead_chain st' c = no_dead_chain st c"
    "chain_evolves st' c c' = chain_evolves st c c'" "wf_nodes st' = wf_nodes st"
    "placeable st' = placeable st"
  using assms
  by (auto simp: wf_chain_def no_dead_chain_def chain_evolves_def wf_nodes_def placeable_def fun_eq_iff)

lemma evolves_refl [simp]: "evolves st [] st"
  by (simp add: evolves_def)

lemma evolves_trans:
  assumes "evolves st ps st'" and "evolves st' qs st''"
  shows "evolves st (ps @ qs) st''"
proof -
  from assms(1) have meta: "st' = st\<lparr>cs_Chains := cs_Chains st'\<rparr>" by (simp add: evolves_def)
  have "st'' = st'\<lparr>cs_Chains := cs_Chains st''\<rparr>" using assms(2) by (simp add: evolves_def)
  also have "\<dots> = st\<lparr>cs_Chains := cs_Chains st''\<rparr>" by (subst meta) simp
  finally have "st'' = st\<lparr>cs_Chains := cs_Chains st''\<rparr>" .
  with assms show ?thesis
    unfolding evolves_def meta_chain_preds(3)[OF meta] set_append image_Un
    by (auto intro: chain_evolves_trans)
qed

lemma evolves_set_chain:
  assumes "chain_evolves st (cs_Chains st ! slot) c'"
    and "plan_for slot (cs_Chains st ! slot) c' p"
  shows "evolves st (plan_list p) (set_chain st slot c')"
proof -
  have upd: "(cs_Chains st)[slot := c'] ! i = (if i = slot then c' else cs_Chains st ! i)"
    if "i < length (cs_Chains st)" for i
    using that by (auto simp: nth_list_update)
  show ?thesis
    using assms unfolding evolves_def set_chain_def plan_for_def plan_list_def
    by (cases p) (simp_all add: upd)
qed

lemma plan_list_simps [simp]: "plan_list None = []" "plan_list (Some q) = [q]"
  by (simp_all add: plan_list_def)

lemma slot_iter_Inr:
  "slot_iter opr slot (st, plans) = Inr acc \<longleftrightarrow>
     (\<exists>st' p. opr slot st = Inr (st', p) \<and> acc = (st', plans @ plan_list p))"
  by (auto simp: slot_iter_def res_bind_Inr)

lemma slot_iter_Inl: "slot_iter opr slot (st, plans) = Inl e \<longleftrightarrow> opr slot st = Inl e"
  by (auto simp: slot_iter_def res_bind_Inl)

lemma budget_loop_Cons:
  "remaining \<noteq> 0 \<Longrightarrow> opr slot st = Inr (st1, p) \<Longrightarrow>
     budget_loop opr remaining (slot # slots) (st, plans) =
     budget_loop opr (if p \<noteq> None \<and> remaining > 0 then remaining - 1 else remaining) slots
       (st1, plans @ plan_list p)"
  by (cases p) auto

lemma set_chain_simps [simp]:
  "length (cs_Chains (set_chain st slot c)) = length (cs_Chains st)"
  "slot < length (cs_Chains st) \<Longrightarrow> cs_Chains (set_chain st slot c) ! slot = c"
  "cs_SlotCount (set_chain st slot c) = cs_SlotCount st"
  "cs_ReplicationFactor (set_chain st slot c) = cs_ReplicationFactor st"
  "cs_NodesByID (set_chain st slot c) = cs_NodesByID st"
  "cs_NodeHealthByID (set_chain st slot c) = cs_NodeHealthByID st"
  "cs_ReadyNodeIDs (set_chain st slot c) = cs_ReadyNodeIDs st"
  "cs_DrainingNodeIDs (set_chain st slot c) = cs_DrainingNodeIDs st"
  "cs_NodeOrder (set_chain st slot c) = cs_NodeOrder st"
  "set_chain (set_chain st slot c) slot d = set_chain st slot d"
  "cs_Chains st ! slot = c \<Longrightarrow> set_chain st slot c = st"
  by (auto simp: set_chain_def)

lemma set_chain_preds [simp]:
  "wf_chain (set_chain st slot c0) c = wf_chain st c"
  "no_dead_chain (set_chain st slot c0) c = no_dead_chain st c"
  "chain_evolves (set_chain st slot c0) c c' = chain_evolves st c c'"
  "wf_nodes (set_chain st slot c0) = wf_nodes st"
  "placeable (set_chain st slot c0) = placeable st"
  by (rule meta_chain_preds, simp add: set_chain_def)+

section \<open>The contract of a per-slot operation\<close>

locale chain_op =
  fixes opr :: slot_op
    and pre :: "cluster_state \<Rightarrow> bool"
  assumes op_step: "opr slot st = Inr (st', p) \<Longrightarrow> pre st \<Longrightarrow> wf_nodes st \<Longrightarrow>
      0 < cs_ReplicationFactor st \<Longrightarrow> slot < length (cs_Chains st) \<Longrightarrow>
      \<exists>c'. st' = set_chain st slot c' \<and> chain_evolves st (cs_Chains st ! slot) c' \<and>
        plan_for slot (cs_Chains st ! slot) c' p"
    and op_no_panic: "pre st \<Longrightarrow> slot < length (cs_Chains st) \<Longrightarrow> opr slot st \<noteq> Inl GoPanic"
    and pre_stable: "pre st \<Longrightarrow> pre (set_chain st slot c)"
begin

lemma op_evolves:
  assumes "opr slot st = Inr (st', p)" "pre st" "wf_nodes st" "0 < cs_ReplicationFactor st"
    "slot < length (cs_Chains st)"
  shows "evolves st (plan_list p) st'" and "pre st'"
    and "wf_nodes st'" and "cs_ReplicationFactor st' = cs_ReplicationFactor st"
    and "length (cs_Chains st') = length (cs_Chains st)"
    and "\<And>i. i \<noteq> slot \<Longrightarrow> cs_Chains st' ! i = cs_Chains st ! i"
proof -
  from op_step[OF assms] obtain c' where c': "st' = set_chain st slot c'"
    "chain_evolves st (cs_Chains st ! slot) c'" "plan_for slot (cs_Chains st ! slot) c' p" by blast
  from evolves_set_chain[OF c'(2,3)] c'(1)
  show "evolves st (plan_list p) st'" by simp
  from pre_stable assms(2) c'(1) show "pre st'" by simp
  from assms(3) c'(1) show "wf_nodes st'" by (simp add: wf_nodes_def)
  from c'(1) show "cs_ReplicationFactor st' = cs_ReplicationFactor st"
    "length (cs_Chains st') = length (cs_Chains st)"
    "\<And>i. i \<noteq> slot \<Longrightarrow> cs_Chains st' ! i = cs_Chains st ! i"
    by (simp_all add: set_chain_def)
qed

lemma for_slots_evolves:
  assumes "fold_res (slot_iter opr) slots (st, plans) = Inr (st', plans')"
    and "pre st" and "wf_nodes st" and "0 < cs_ReplicationFactor st"
    and "\<forall>s\<in>set slots. s < length (cs_Chains st)"
  shows "\<exists>ps. plans' = plans @ ps \<and> evolves st ps st' \<and> pre st'"
  using assms
proof (induction slots arbitrary: st plans)
  case (Cons slot slots)
  obtain st1 p where one: "opr slot st = Inr (st1, p)"
    and rest: "fold_res (slot_iter opr) slots
      (st1, plans @ (plan_list p)) = Inr (st', plans')"
    using Cons.prems(1) by (auto simp: res_bind_Inr slot_iter_Inr)
  note ev = op_evolves[OF one Cons.prems(2,3,4)]
  obtain ps where ps: "plans' = plans @ (plan_list p) @ ps"
    "evolves st1 ps st'" "pre st'"
    using Cons.IH[OF rest] ev Cons.prems by auto
  then show ?case using evolves_trans[OF ev(1)] Cons.prems(5) by auto
qed simp

lemma for_slots_no_panic:
  assumes "pre st" and "wf_nodes st" and "0 < cs_ReplicationFactor st"
    and "\<forall>s\<in>set slots. s < length (cs_Chains st)"
  shows "fold_res (slot_iter opr) slots (st, plans) \<noteq> Inl GoPanic"
  using assms
proof (induction slots arbitrary: st plans)
  case (Cons slot slots)
  then have "opr slot st \<noteq> Inl GoPanic" using op_no_panic by simp
  moreover have "fold_res (slot_iter opr) slots (st1, qs) \<noteq> Inl GoPanic"
    if "opr slot st = Inr (st1, p)" for st1 p qs
    using op_evolves[OF that Cons.prems(1,2,3)] Cons.prems Cons.IH[of st1 qs] by simp
  ultimately show ?case
    by (auto simp: res_bind_Inl slot_iter_Inl slot_iter_Inr)
qed simp

lemma budget_loop_evolves:
  assumes "budget_loop opr remaining slots (st, plans) = Inr (st', plans')"
    and "pre st" and "wf_nodes st" and "0 < cs_ReplicationFactor st"
    and "\<forall>s\<in>set slots. s < length (cs_Chains st)"
  shows "\<exists>ps. plans' = plans @ ps \<and> evolves st ps st' \<and> pre st' \<and>
    (0 \<le> remaining \<longrightarrow> int (length ps) \<le> remaining)"
  using assms
proof (induction slots arbitrary: st plans remaining)
  case (Cons slot slots)
  show ?case
  proof (cases "remaining = 0")
    case False
    then obtain st1 p where one: "opr slot st = Inr (st1, p)"
      and rest: "budget_loop opr (if p \<noteq> None \<and> remaining > 0 then remaining - 1 else remaining)
        slots (st1, plans @ (plan_list p)) = Inr (st', plans')"
      using Cons.prems(1) budget_loop_Cons[OF False] by (cases "opr slot st") force+
    note ev = op_evolves[OF one Cons.prems(2,3,4)]
    have "\<exists>ps. plans' = (plans @ (plan_list p)) @ ps \<and>
        evolves st1 ps st' \<and> pre st' \<and>
        (0 \<le> (if p \<noteq> None \<and> remaining > 0 then remaining - 1 else remaining) \<longrightarrow>
         int (length ps) \<le> (if p \<noteq> None \<and> remaining > 0 then remaining - 1 else remaining))"
      by (rule Cons.IH[OF rest]) (use ev Cons.prems in auto)
    then obtain ps where ps: "plans' = (plans @ (plan_list p)) @ ps"
      "evolves st1 ps st'" "pre st'"
      "0 \<le> (if p \<noteq> None \<and> remaining > 0 then remaining - 1 else remaining) \<longrightarrow>
         int (length ps) \<le> (if p \<noteq> None \<and> remaining > 0 then remaining - 1 else remaining)"
      by blast
    have "evolves st ((plan_list p) @ ps) st'"
      using evolves_trans[OF ev(1) ps(2)] Cons.prems(5) by simp
    moreover have "0 \<le> remaining \<longrightarrow>
        int (length ((plan_list p) @ ps)) \<le> remaining"
      using ps(4) False by (cases p) auto
    ultimately show ?thesis using ps(1,3) by auto
  qed (use Cons.prems in simp)
qed simp

lemma budget_loop_no_panic:
  assumes "pre st" and "wf_nodes st" and "0 < cs_ReplicationFactor st"
    and "\<forall>s\<in>set slots. s < length (cs_Chains st)"
  shows "budget_loop opr remaining slots (st, plans) \<noteq> Inl GoPanic"
  using assms
proof (induction slots arbitrary: st plans remaining)
  case (Cons slot slots)
  then have "opr slot st \<noteq> Inl GoPanic" using op_no_panic by simp
  moreover have "budget_loop opr b slots (st1, qs) \<noteq> Inl GoPanic"
    if "opr slot st = Inr (st1, p)" for st1 p qs b
    using op_evolves[OF that Cons.prems(1,2,3)] Cons.prems Cons.IH[of st1 b qs] by simp
  ultimately show ?case
    using budget_loop_Cons[of remaining opr slot st] by (cases "remaining = 0"; cases "opr slot st") force+
qed simp

end

section \<open>The six operations satisfy the contract\<close>

text \<open>The replicas of a chain are replaced by \<open>rs\<close>.\<close>

lemma set_replicas_alt:
  "set_replicas st slot rs = set_chain st slot ((cs_Chains st ! slot)\<lparr>chain_Replicas := rs\<rparr>)"
  by (simp add: set_replicas_def)

lemma chain_evolvesI:
  assumes "chain_Slot c' = chain_Slot c"
    and "wf_chain st c \<Longrightarrow> distinct (replicaIDs (chain_Replicas c'))"
    and "\<And>nid. nid \<in> set (replicaIDs (chain_Replicas c')) \<Longrightarrow>
      nid \<in> set (replicaIDs (chain_Replicas c)) \<or>
      (fm_has (cs_NodesByID st) nid \<and> fmlookup (cs_NodeHealthByID st) nid \<noteq> Some NodeHealthDead)"
    and "has_active c \<Longrightarrow> has_active c'"
  shows "chain_evolves st c c'"
  using assms
  by (fastforce simp: chain_evolves_def wf_chain_def no_dead_chain_def chainContainsDeadReplica_def
      list_all_iff list_ex_iff set_replicaIDs)

lemma append_joining_evolves:
  assumes "fm_has (cs_NodesByID st) nid" and "placeable st nid"
    and "nid \<notin> set (replicaIDs (chain_Replicas c))"
  shows "chain_evolves st c (c\<lparr>chain_Replicas := chain_Replicas c @ [joining nid]\<rparr>)"
  using assms
  by (intro chain_evolvesI) (auto simp: wf_chain_def joining_def placeable_def has_active_def)

lemma selectTailRepairCandidate_ok:
  assumes "selectTailRepairCandidate st c = Some n" and "wf_nodes st"
  shows "fm_has (cs_NodesByID st) (node_ID n)" and "placeable st (node_ID n)"
    and "node_ID n \<notin> set (replicaIDs (chain_Replicas c))"
proof -
  note sel = selectReplicaCandidate_Some[OF assms(1)[unfolded selectTailRepairCandidate_def]]
  from sel(1) obtain nid where nid: "placeable st nid" "fmlookup (cs_NodesByID st) nid = Some n"
    by (rule orderedNodes_mem)
  with wf_nodes_lookup[OF assms(2)] have "node_ID n = nid" by simp
  with nid show "fm_has (cs_NodesByID st) (node_ID n)" "placeable st (node_ID n)"
    by (simp_all add: fm_has_def)
  from sel(2) show "node_ID n \<notin> set (replicaIDs (chain_Replicas c))"
    by (simp add: isEligible_iff)
qed

lemma repair_loop_evolves:
  assumes "repair_loop k st slot steps = (st', steps')" and "wf_nodes st"
    and "slot < length (cs_Chains st)"
  shows "\<exists>c'. st' = set_chain st slot c' \<and> chain_evolves st (cs_Chains st ! slot) c'"
  using assms
proof (induction k arbitrary: st steps)
  case 0
  then show ?case by (auto intro: exI[of _ "cs_Chains st ! slot"])
next
  case (Suc k)
  show ?case
  proof (cases "selectTailRepairCandidate st (cs_Chains st ! slot)")
    case None
    with Suc.prems show ?thesis by (auto intro: exI[of _ "cs_Chains st ! slot"])
  next
    case (Some n)
    note ok = selectTailRepairCandidate_ok[OF Some Suc.prems(2)]
    define c1 where "c1 = (cs_Chains st ! slot)\<lparr>chain_Replicas :=
      chain_Replicas (cs_Chains st ! slot) @ [joining (node_ID n)]\<rparr>"
    have st1: "append_joining st slot (node_ID n) = set_chain st slot c1"
      by (simp add: append_joining_def set_replicas_def c1_def)
    have ev: "chain_evolves st (cs_Chains st ! slot) c1"
      unfolding c1_def using ok by (rule append_joining_evolves)
    have "repair_loop k (set_chain st slot c1) slot (steps @ [append_step slot (node_ID n) []])
        = (st', steps')"
      using Suc.prems(1) Some st1 by simp
    from Suc.IH[OF this] Suc.prems obtain c' where c': "st' = set_chain st slot c'"
      "chain_evolves (set_chain st slot c1) c1 c'"
      by (auto simp: wf_nodes_def)
    then have "chain_evolves st c1 c'" by simp
    with ev c'(1) show ?thesis using chain_evolves_trans by blast
  qed
qed

lemma survivors_evolve:
  assumes "countActiveReplicas (filter (\<lambda>r. fmlookup (cs_NodeHealthByID st) (replica_NodeID r)
      \<noteq> Some NodeHealthDead) (chain_Replicas c)) \<noteq> 0"
  defines "c0 \<equiv> c\<lparr>chain_Replicas := filter (\<lambda>r. fmlookup (cs_NodeHealthByID st) (replica_NodeID r)
      \<noteq> Some NodeHealthDead) (chain_Replicas c)\<rparr>"
  shows "chain_evolves st c c0" and "no_dead_chain st c0"
proof -
  show "no_dead_chain st c0"
    by (auto simp: c0_def no_dead_chain_def chainContainsDeadReplica_def list_ex_iff)
  have "has_active c0" using assms(1) by (simp add: c0_def has_active_iff)
  then show "chain_evolves st c c0"
    by (intro chain_evolvesI) (auto simp: c0_def wf_chain_def replicaIDs_def distinct_map_filter)
qed

lemma repairDeadReplicas_step:
  assumes "repairDeadReplicas slot st = Inr (st', p)" and "wf_nodes st"
    and "slot < length (cs_Chains st)"
  shows "\<exists>c'. st' = set_chain st slot c' \<and> chain_evolves st (cs_Chains st ! slot) c' \<and>
    plan_for slot (cs_Chains st ! slot) c' p \<and>
    (wf_chain st (cs_Chains st ! slot) \<longrightarrow> no_dead_chain st c')"
proof (cases "chainContainsDeadReplica (cs_Chains st ! slot) (cs_NodeHealthByID st)")
  case False
  with assms show ?thesis
    by (intro exI[of _ "cs_Chains st ! slot"])
      (auto simp: repairDeadReplicas_def plan_for_def no_dead_chain_def)
next
  case True
  let ?c = "cs_Chains st ! slot"
  let ?surv = "filter (\<lambda>r. fmlookup (cs_NodeHealthByID st) (replica_NodeID r) \<noteq> Some NodeHealthDead)
    (chain_Replicas ?c)"
  let ?d = "?c\<lparr>chain_Replicas := ?surv\<rparr>"
  obtain steps where act: "countActiveReplicas ?surv \<noteq> 0"
    and loop: "repair_loop (nat (cs_ReplicationFactor st - int (length ?surv)))
      (set_chain st slot ?d) slot [] = (st', steps)"
    and p: "p = (if ?c \<noteq> cs_Chains st' ! slot then Some (slotPlan slot ?c (cs_Chains st' ! slot) steps)
      else None)"
    using assms(1) True
    by (auto simp: repairDeadReplicas_def Let_def set_replicas_def split: if_splits prod.splits)
  obtain c' where c': "st' = set_chain st slot c'" "chain_evolves (set_chain st slot ?d) ?d c'"
    using repair_loop_evolves[OF loop] assms(2,3) by (auto simp: wf_nodes_def)
  then have ev: "chain_evolves st ?d c'" by simp
  note sv = survivors_evolve[OF act]
  have "plan_for slot ?c c' p" using p c'(1) assms(3) by (simp add: plan_for_def slotPlan_def)
  moreover have "wf_chain st ?c \<longrightarrow> no_dead_chain st c'"
    using sv ev by (auto simp: chain_evolves_def)
  ultimately show ?thesis using c'(1) chain_evolves_trans[OF sv(1) ev] by blast
qed

interpretation repair: chain_op repairDeadReplicas "\<lambda>_. True"
proof unfold_locales
  fix slot st st' p
  assume "repairDeadReplicas slot st = Inr (st', p)" "wf_nodes st" "slot < length (cs_Chains st)"
  from repairDeadReplicas_step[OF this]
  show "\<exists>c'. st' = set_chain st slot c' \<and> chain_evolves st (cs_Chains st ! slot) c' \<and>
    plan_for slot (cs_Chains st ! slot) c' p" by blast
next
  fix slot st
  show "repairDeadReplicas slot st \<noteq> Inl GoPanic"
    by (auto simp: repairDeadReplicas_def Let_def split: prod.splits)
qed simp

lemma unchanged_step:
  "\<exists>c'. st = set_chain st slot c' \<and> chain_evolves st (cs_Chains st ! slot) c' \<and>
    plan_for slot (cs_Chains st ! slot) c' None"
  by (rule exI[of _ "cs_Chains st ! slot"]) (simp add: plan_for_def)

lemma append_joining_step:
  assumes "fm_has (cs_NodesByID st) nid" and "placeable st nid"
    and "nid \<notin> set (replicaIDs (chain_Replicas (cs_Chains st ! slot)))"
    and "slot < length (cs_Chains st)"
  shows "\<exists>c'. append_joining st slot nid = set_chain st slot c' \<and>
    chain_evolves st (cs_Chains st ! slot) c' \<and>
    plan_for slot (cs_Chains st ! slot) c' (Some (slotPlan slot (cs_Chains st ! slot)
      (cs_Chains (append_joining st slot nid) ! slot) steps))"
proof -
  define c' where "c' = (cs_Chains st ! slot)\<lparr>chain_Replicas :=
    chain_Replicas (cs_Chains st ! slot) @ [joining nid]\<rparr>"
  have "append_joining st slot nid = set_chain st slot c'"
    by (simp add: append_joining_def set_replicas_def c'_def)
  moreover have "chain_evolves st (cs_Chains st ! slot) c'"
    unfolding c'_def using assms(1,2,3) by (rule append_joining_evolves)
  ultimately show ?thesis using assms(4) by (auto simp: plan_for_def slotPlan_def)
qed

interpretation drain_append: chain_op appendDrainReplacement "\<lambda>_. True"
proof unfold_locales
  fix slot st st' p
  assume op: "appendDrainReplacement slot st = Inr (st', p)" and "wf_nodes st"
    and "slot < length (cs_Chains st)"
  then show "\<exists>c'. st' = set_chain st slot c' \<and> chain_evolves st (cs_Chains st ! slot) c' \<and>
    plan_for slot (cs_Chains st ! slot) c' p"
    using unchanged_step[of st slot] append_joining_step selectTailRepairCandidate_ok
    by (auto simp: appendDrainReplacement_def Let_def split: if_splits option.splits)
next
  fix slot st
  show "appendDrainReplacement slot st \<noteq> Inl GoPanic"
    by (auto simp: appendDrainReplacement_def Let_def split: option.splits)
qed simp

lemma map_filter_ids: "set (map replica_NodeID (filter P rs)) \<subseteq> set (replicaIDs rs)"
  "distinct (replicaIDs rs) \<Longrightarrow> distinct (map replica_NodeID (filter P rs))"
  by (auto simp: replicaIDs_def distinct_map_filter)

lemma replicaIDs_map [simp]:
  "replicaIDs (map (\<lambda>nid. \<lparr>replica_NodeID = nid, replica_State = s\<rparr>) xs) = xs"
  by (simp add: replicaIDs_def comp_def)

lemma has_active_map:
  "xs \<noteq> [] \<Longrightarrow> has_active (c\<lparr>chain_Replicas :=
     map (\<lambda>nid. \<lparr>replica_NodeID = nid, replica_State = ReplicaStateActive\<rparr>) xs @ ys\<rparr>)"
  by (cases xs) (simp_all add: has_active_def is_active_def)

lemma finalizeDrainReplacement_step:
  assumes "finalizeDrainReplacement slot st = (st', p)" and "0 < cs_ReplicationFactor st"
    and "slot < length (cs_Chains st)"
  shows "\<exists>c'. st' = set_chain st slot c' \<and> chain_evolves st (cs_Chains st ! slot) c' \<and>
    plan_for slot (cs_Chains st ! slot) c' p"
proof (cases "p = None")
  case True
  with assms(1) have "st' = st" by (auto simp: finalizeDrainReplacement_def Let_def split: if_splits)
  with True show ?thesis using unchanged_step by simp
next
  case False
  let ?c = "cs_Chains st ! slot"
  define tg where "tg = activeReplicaIDsExcludingDraining ?c (cs_DrainingNodeIDs st)"
  define dr where "dr = activeReplicaIDsWithDrain ?c (cs_DrainingNodeIDs st)"
  define c' where "c' = ?c\<lparr>chain_Replicas :=
    map (\<lambda>nid. \<lparr>replica_NodeID = nid, replica_State = ReplicaStateActive\<rparr>) tg
    @ map (\<lambda>nid. \<lparr>replica_NodeID = nid, replica_State = ReplicaStateLeaving\<rparr>) dr\<rparr>"
  have st': "st' = set_chain st slot c'" and len: "int (length tg) = cs_ReplicationFactor st"
    and p: "\<exists>steps. p = Some (slotPlan slot ?c (cs_Chains st' ! slot) steps)"
    using assms(1) False
    by (auto simp: finalizeDrainReplacement_def Let_def set_replicas_def c'_def tg_def dr_def
        split: if_splits)
  have sub: "set tg \<subseteq> set (replicaIDs (chain_Replicas ?c))" "set dr \<subseteq> set (replicaIDs (chain_Replicas ?c))"
    unfolding tg_def dr_def activeReplicaIDsExcludingDraining_def activeReplicaIDsWithDrain_def
    by (rule map_filter_ids)+
  have dist: "distinct (tg @ dr)" if "distinct (replicaIDs (chain_Replicas ?c))"
    using map_filter_ids(2)[OF that]
    by (auto simp: tg_def dr_def activeReplicaIDsExcludingDraining_def activeReplicaIDsWithDrain_def)
  have "tg \<noteq> []" using len assms(2) by auto
  then have "chain_evolves st ?c c'"
    using sub dist unfolding c'_def
    by (intro chain_evolvesI) (auto simp: wf_chain_def has_active_map)
  with st' p assms(3) show ?thesis by (auto simp: plan_for_def slotPlan_def)
qed

interpretation drain_finalize: chain_op "\<lambda>slot s. Inr (finalizeDrainReplacement slot s)" "\<lambda>_. True"
  by unfold_locales (auto intro: finalizeDrainReplacement_step)

text \<open>A desired placement that fits the state: one chain of placeable nodes per slot.\<close>

definition desired_ok :: "chain list \<Rightarrow> cluster_state \<Rightarrow> bool" where
  "desired_ok d st =
     (length (cs_Chains st) \<le> length d \<and> list_all (\<lambda>c.
        distinct (replicaIDs (chain_Replicas c)) \<and>
        int (length (chain_Replicas c)) = cs_ReplicationFactor st \<and>
        list_all (\<lambda>r. fm_has (cs_NodesByID st) (replica_NodeID r) \<and> placeable st (replica_NodeID r))
          (chain_Replicas c)) d)"

lemma desired_ok_chain:
  assumes "desired_ok d st" and "slot < length (cs_Chains st)"
  shows "distinct (replicaIDs (chain_Replicas (d ! slot)))"
    and "int (length (chain_Replicas (d ! slot))) = cs_ReplicationFactor st"
    and "\<And>nid. nid \<in> set (replicaIDs (chain_Replicas (d ! slot))) \<Longrightarrow>
      fm_has (cs_NodesByID st) nid \<and> placeable st nid"
  using assms by (auto simp: desired_ok_def list_all_iff replicaIDs_def)

lemma desired_ok_meta:
  "desired_ok d st \<Longrightarrow> st' = st\<lparr>cs_Chains := chs\<rparr> \<Longrightarrow> length chs = length (cs_Chains st) \<Longrightarrow>
    desired_ok d st'"
  by (simp add: desired_ok_def meta_chain_preds)

lemma desired_ok_set_chain: "desired_ok d st \<Longrightarrow> desired_ok d (set_chain st slot c)"
  by (rule desired_ok_meta[of d st _ "(cs_Chains st)[slot := c]"]) (simp_all add: set_chain_def)

lemma finalizeJoinRebalance_step:
  assumes "finalizeJoinRebalance (d ! slot) slot st = (st', p)" and "desired_ok d st"
    and "0 < cs_ReplicationFactor st" and "slot < length (cs_Chains st)"
  shows "\<exists>c'. st' = set_chain st slot c' \<and> chain_evolves st (cs_Chains st ! slot) c' \<and>
    plan_for slot (cs_Chains st ! slot) c' p"
proof (cases "p = None")
  case True
  with assms(1) have "st' = st"
    by (auto simp: finalizeJoinRebalance_def Let_def split: if_splits option.splits)
  with True show ?thesis using unchanged_step by simp
next
  case False
  let ?c = "cs_Chains st ! slot"
  note dok = desired_ok_chain[OF assms(2,4)]
  define ds where "ds = replicaIDs (chain_Replicas (d ! slot))"
  obtain x steps where x: "extraNode (activeReplicaIDs ?c) ds = Some x"
    and st': "st' = set_replicas st slot
      (map (\<lambda>nid. \<lparr>replica_NodeID = nid, replica_State = ReplicaStateActive\<rparr>) ds
       @ [\<lparr>replica_NodeID = x, replica_State = ReplicaStateLeaving\<rparr>])"
    and p: "p = Some (slotPlan slot ?c (cs_Chains st' ! slot) steps)"
    using assms(1) False
    by (auto simp: finalizeJoinRebalance_def Let_def ds_def split: if_splits option.splits)
  define c' where "c' = ?c\<lparr>chain_Replicas :=
    map (\<lambda>nid. \<lparr>replica_NodeID = nid, replica_State = ReplicaStateActive\<rparr>) ds
    @ [\<lparr>replica_NodeID = x, replica_State = ReplicaStateLeaving\<rparr>]\<rparr>"
  have "ds \<noteq> []" using dok(2) assms(3) by (auto simp: ds_def replicaIDs_def)
  moreover have "x \<in> set (replicaIDs (chain_Replicas ?c))"
    using extraNode_Some(1)[OF x] map_filter_ids(1) by (auto simp: activeReplicaIDs_def)
  ultimately have "chain_evolves st ?c c'"
    using dok extraNode_Some(2)[OF x] unfolding c'_def ds_def[symmetric]
    by (intro chain_evolvesI)
      (auto simp: wf_chain_def has_active_map placeable_def replicaIDs_def[of "[_]"])
  with st' p assms(4) show ?thesis by (auto simp: plan_for_def slotPlan_def set_replicas_def c'_def)
qed

interpretation join_finalize: chain_op "\<lambda>slot s. Inr (finalizeJoinRebalance (d ! slot) slot s)"
  "desired_ok d" for d
  by unfold_locales (auto intro: finalizeJoinRebalance_step desired_ok_set_chain)

interpretation join_append: chain_op "\<lambda>slot. appendJoinRebalance (d ! slot) slot" "desired_ok d" for d
proof unfold_locales
  fix slot st st' p
  assume op: "appendJoinRebalance (d ! slot) slot st = Inr (st', p)" and d: "desired_ok d st"
    and slot: "slot < length (cs_Chains st)"
  note dok = desired_ok_chain[OF d slot]
  show "\<exists>c'. st' = set_chain st slot c' \<and> chain_evolves st (cs_Chains st ! slot) c' \<and>
    plan_for slot (cs_Chains st ! slot) c' p"
  proof (cases "p = None")
    case True
    with op have "st' = st"
      by (auto simp: appendJoinRebalance_def Let_def split: if_splits option.splits)
    with True show ?thesis using unchanged_step by simp
  next
    case False
    then obtain a r steps where one: "oneMemberReplacement (activeReplicaIDs (cs_Chains st ! slot))
        (replicaIDs (chain_Replicas (d ! slot))) = Some (a, r)"
      and calm: "\<not> hasPendingReplicaState (cs_Chains st ! slot)"
      and st': "st' = append_joining st slot a"
      and p: "p = Some (slotPlan slot (cs_Chains st ! slot) (cs_Chains st' ! slot) steps)"
      using op by (auto simp: appendJoinRebalance_def Let_def split: if_splits option.splits)
    from oneMemberReplacement_Some(1,2)[OF one] dok(3) not_pending_all_active[OF calm]
    show ?thesis unfolding st' p by (intro append_joining_step) (simp_all add: slot)
  qed
qed (auto simp: appendJoinRebalance_def Let_def intro: desired_ok_set_chain split: option.splits)

interpretation missing_append: chain_op "\<lambda>slot. appendMissingDesiredReplicas (d ! slot) slot"
  "desired_ok d" for d
proof unfold_locales
  fix slot st st' p
  assume op: "appendMissingDesiredReplicas (d ! slot) slot st = Inr (st', p)" and d: "desired_ok d st"
    and slot: "slot < length (cs_Chains st)"
  let ?ds = "replicaIDs (chain_Replicas (d ! slot))"
  show "\<exists>c'. st' = set_chain st slot c' \<and> chain_evolves st (cs_Chains st ! slot) c' \<and>
    plan_for slot (cs_Chains st ! slot) c' p"
  proof (cases "p = None")
    case True
    with op have "st' = st"
      by (auto simp: appendMissingDesiredReplicas_def Let_def split: if_splits)
    with True show ?thesis using unchanged_step by simp
  next
    case False
    let ?cur = "replicaIDs (chain_Replicas (cs_Chains st ! slot))"
    have short: "length ?cur < length ?ds" and fresh: "?ds ! length ?cur \<notin> set ?cur"
      and st': "st' = append_joining st slot (?ds ! length ?cur)"
      and "\<exists>steps. p = Some (slotPlan slot (cs_Chains st ! slot) (cs_Chains st' ! slot) steps)"
      using op False by (auto simp: appendMissingDesiredReplicas_def Let_def containsNodeID_def
          list_ex_iff split: if_splits)
    then obtain steps where
      p: "p = Some (slotPlan slot (cs_Chains st ! slot) (cs_Chains st' ! slot) steps)" by blast
    note a = nth_mem[OF short] fresh
    from a desired_ok_chain(3)[OF d slot] show ?thesis
      unfolding st' p by (intro append_joining_step) (simp_all add: slot)
  qed
next
  fix slot st
  assume "desired_ok d st" and "slot < length (cs_Chains st)"
  from desired_ok_chain(2)[OF this]
  show "appendMissingDesiredReplicas (d ! slot) slot st \<noteq> Inl GoPanic"
    by (auto simp: appendMissingDesiredReplicas_def Let_def replicaIDs_def)
qed (rule desired_ok_set_chain)

section \<open>Reconciliation\<close>

lemma evolves_meta:
  assumes "evolves st ps st'"
  shows "wf_nodes st' = wf_nodes st" "cs_ReplicationFactor st' = cs_ReplicationFactor st"
    "length (cs_Chains st') = length (cs_Chains st)" "cs_SlotCount st' = cs_SlotCount st"
    "cs_NodeHealthByID st' = cs_NodeHealthByID st" "cs_NodesByID st' = cs_NodesByID st"
    "wf_chain st' = wf_chain st" "no_dead_chain st' = no_dead_chain st"
    "cs_DrainingNodeIDs st' = cs_DrainingNodeIDs st" "cs_NodeOrder st' = cs_NodeOrder st"
    "cs_ReadyNodeIDs st' = cs_ReadyNodeIDs st" "desired_ok d st \<Longrightarrow> desired_ok d st'"
proof -
  from assms have m: "st' = st\<lparr>cs_Chains := cs_Chains st'\<rparr>"
    and l: "length (cs_Chains st') = length (cs_Chains st)"
    by (simp_all add: evolves_def)
  note mc = meta_chain_preds[OF m]
  from mc(4) show "wf_nodes st' = wf_nodes st" .
  from mc(1,2) show "wf_chain st' = wf_chain st" "no_dead_chain st' = no_dead_chain st"
    by (simp_all add: fun_eq_iff)
  from desired_ok_meta[OF _ m l] show "desired_ok d st \<Longrightarrow> desired_ok d st'" .
  show "length (cs_Chains st') = length (cs_Chains st)" by (fact l)
  show "cs_ReplicationFactor st' = cs_ReplicationFactor st" "cs_SlotCount st' = cs_SlotCount st"
    "cs_NodeHealthByID st' = cs_NodeHealthByID st" "cs_NodesByID st' = cs_NodesByID st"
    "cs_DrainingNodeIDs st' = cs_DrainingNodeIDs st" "cs_NodeOrder st' = cs_NodeOrder st"
    "cs_ReadyNodeIDs st' = cs_ReadyNodeIDs st"
    by (subst m, simp)+
qed

lemma evolves_chain:
  assumes "evolves st ps st'" and "i < length (cs_Chains st)"
  shows "chain_evolves st (cs_Chains st ! i) (cs_Chains st' ! i)"
  using assms by (simp add: evolves_def)

lemma wf_cluster_chain: "wf_cluster st \<Longrightarrow> i < length (cs_Chains st) \<Longrightarrow> wf_chain st (cs_Chains st ! i)"
  by (simp add: wf_cluster_def list_all_length)

lemma slot_numbers:
  "map chain_Slot cs = map int [0..<length cs] \<longleftrightarrow> (\<forall>i<length cs. chain_Slot (cs ! i) = int i)"
  unfolding list_eq_iff_nth_eq by simp

lemma evolves_wf:
  assumes "evolves st ps st'" and "wf_cluster st"
  shows "wf_cluster st'"
proof -
  note m = evolves_meta[OF assms(1)]
  have "wf_chain st (cs_Chains st' ! i)" if "i < length (cs_Chains st)" for i
    using evolves_chain[OF assms(1) that] wf_cluster_chain[OF assms(2) that]
    by (simp add: chain_evolves_def)
  then have "list_all (wf_chain st) (cs_Chains st')" by (simp add: list_all_length m(3))
  moreover have "map chain_Slot (cs_Chains st') = map chain_Slot (cs_Chains st)"
    using evolves_chain[OF assms(1)] by (intro nth_equalityI) (simp_all add: chain_evolves_def m(3))
  ultimately show ?thesis using assms(2) by (simp add: wf_cluster_def m)
qed

lemma evolves_no_dead_chain:
  assumes "evolves st ps st'" and "wf_cluster st" and "i < length (cs_Chains st)"
    and "no_dead_chain st (cs_Chains st ! i)"
  shows "no_dead_chain st (cs_Chains st' ! i)"
  using evolves_chain[OF assms(1,3)] wf_cluster_chain[OF assms(2,3)] assms(4)
  by (simp add: chain_evolves_def)

lemma evolves_no_dead: "evolves st ps st' \<Longrightarrow> wf_cluster st \<Longrightarrow> no_dead st \<Longrightarrow> no_dead st'"
  using evolves_no_dead_chain[of st ps st'] evolves_meta[of st ps st']
  by (simp add: no_dead_def list_all_length)

lemma wf_cluster_D:
  assumes "wf_cluster st"
  shows "wf_nodes st" "0 < cs_ReplicationFactor st" "0 < cs_SlotCount st"
    "\<forall>s\<in>set (all_slots st). s < length (cs_Chains st)"
    "\<forall>s\<in>set (appendPrioritySlots st). s < length (cs_Chains st)"
    "nat (cs_SlotCount st) = length (cs_Chains st)"
  using assms
  by (auto simp: wf_cluster_def all_slots_def appendPrioritySlots_def slot_numbers in_set_conv_nth)

lemma repair_slots_no_dead:
  assumes "fold_res (slot_iter repairDeadReplicas) slots (st, plans) = Inr (st', plans')"
    and "wf_cluster st" and "\<forall>s\<in>set slots. s < length (cs_Chains st)"
  shows "\<forall>s\<in>set slots. no_dead_chain st (cs_Chains st' ! s)"
  using assms
proof (induction slots arbitrary: st plans)
  case (Cons slot slots)
  note wf = wf_cluster_D[OF Cons.prems(2)]
  obtain st1 p where one: "repairDeadReplicas slot st = Inr (st1, p)"
    and rest: "fold_res (slot_iter repairDeadReplicas) slots (st1, plans @ plan_list p) = Inr (st', plans')"
    using Cons.prems(1) by (auto simp: res_bind_Inr slot_iter_Inr)
  have slot: "slot < length (cs_Chains st)" using Cons.prems(3) by simp
  have ev: "evolves st (plan_list p) st1"
    by (rule repair.op_evolves(1)[OF one]) (use wf slot in auto)
  have wf1: "wf_cluster st1" using evolves_wf[OF ev Cons.prems(2)] .
  have in1: "\<forall>s\<in>set slots. s < length (cs_Chains st1)"
    using Cons.prems(3) evolves_meta[OF ev] by simp
  obtain ps where ev1: "evolves st1 ps st'"
    using repair.for_slots_evolves[OF rest _ wf_cluster_D(1,2)[OF wf1] in1] by blast
  have "no_dead_chain st (cs_Chains st1 ! slot)"
    using repairDeadReplicas_step[OF one wf(1) slot] wf_cluster_chain[OF Cons.prems(2) slot] slot
    by auto
  then have "no_dead_chain st1 (cs_Chains st1 ! slot)" "slot < length (cs_Chains st1)"
    using evolves_meta[OF ev] slot by simp_all
  then have "no_dead_chain st1 (cs_Chains st' ! slot)"
    using evolves_no_dead_chain[OF ev1 wf1] by blast
  with Cons.IH[OF rest wf1 in1] evolves_meta(8)[OF ev] show ?case by simp
qed simp

lemma reconcile_repair_phase_evolves:
  assumes "reconcile_repair_phase st = Inr (st', ps)" and wf: "wf_cluster st"
  shows "evolves st ps st'" and "no_dead st'"
proof -
  obtain st1 p1 where r1: "fold_res (slot_iter repairDeadReplicas) (all_slots st) (st, []) = Inr (st1, p1)"
    and r2: "fold_res (slot_iter (\<lambda>slot s. Inr (finalizeDrainReplacement slot s))) (all_slots st1)
      (st1, p1) = Inr (st', ps)"
    using assms(1) by (auto simp: reconcile_repair_phase_def res_bind_Inr)
  note w = wf_cluster_D[OF wf]
  from repair.for_slots_evolves[OF r1 _ w(1,2,4)] have e1: "evolves st p1 st1" by simp
  have wf1: "wf_cluster st1" using evolves_wf[OF e1 wf] .
  from drain_finalize.for_slots_evolves[OF r2 _ wf_cluster_D(1,2,4)[OF wf1]]
  obtain q where q: "ps = p1 @ q" "evolves st1 q st'" by blast
  show "evolves st ps st'" using evolves_trans[OF e1 q(2)] q(1) by simp
  have "no_dead_chain st (cs_Chains st1 ! s)" if "s < length (cs_Chains st)" for s
    using repair_slots_no_dead[OF r1 wf w(4)] that w(6) by (simp add: all_slots_def)
  then have "no_dead st1" using evolves_meta[OF e1] by (simp add: no_dead_def list_all_length)
  with evolves_no_dead[OF q(2) wf1] show "no_dead st'" by simp
qed

lemma distinct_map_filter_ids:
  "distinct ord \<Longrightarrow> (\<And>nid n. fmlookup m nid = Some n \<Longrightarrow> node_ID n = nid) \<Longrightarrow>
   distinct (map node_ID (List.map_filter (\<lambda>nid. if P nid then fmlookup m nid else None) ord))"
proof (induction ord)
  case (Cons nid ord)
  have "set (map node_ID (List.map_filter (\<lambda>nid. if P nid then fmlookup m nid else None) ord)) \<subseteq> set ord"
    using Cons.prems(2) by (auto simp: List.map_filter_def split: if_splits)
  with Cons show ?case by (auto simp: List.map_filter_simps split: option.splits)
qed (simp add: List.map_filter_simps)

lemma orderedNodes_indexed:
  assumes "wf_nodes st"
  shows "distinct (map node_ID (orderedNodes st P))"
    and "n \<in> set (orderedNodes st P) \<Longrightarrow> fmlookup (cs_NodesByID st) (node_ID n) = Some n \<and> P (node_ID n)"
proof -
  show "distinct (map node_ID (orderedNodes st P))"
    unfolding orderedNodes_def using assms wf_nodes_lookup[OF assms]
    by (intro distinct_map_filter_ids) (auto simp: wf_nodes_def)
  show "fmlookup (cs_NodesByID st) (node_ID n) = Some n \<and> P (node_ID n)"
    if "n \<in> set (orderedNodes st P)"
    using orderedNodes_mem[OF that] wf_nodes_lookup[OF assms] by metis
qed

lemma fold_index_lookup:
  "distinct (map node_ID ns) \<Longrightarrow> n \<in> set ns \<Longrightarrow>
    fmlookup (fold (\<lambda>n. fmupd (node_ID n) n) ns m) (node_ID n) = Some n"
proof (induction ns arbitrary: m)
  case (Cons x xs)
  have keep: "k \<notin> node_ID ` set ys \<Longrightarrow> fmlookup (fold (\<lambda>n. fmupd (node_ID n) n) ys m') k = fmlookup m' k"
    for k ys m'
    by (induction ys arbitrary: m') auto
  from Cons keep[of "node_ID x" xs] show ?case by auto
qed simp

lemma buildDesired_ok:
  assumes "buildDesiredPlacementFromState st = Inr (Some d)" and "wf_cluster st"
  shows "desired_ok d st"
proof -
  let ?ns = "orderedNodes st (placeable st)"
  let ?ix = "fold (\<lambda>n. fmupd (node_ID n) n) ?ns fmempty"
  note w = wf_cluster_D[OF assms(2)]
  note oi = orderedNodes_indexed[OF w(1), where P = "placeable st"]
  have ix: "nodes_indexed ?ns ?ix"
    unfolding nodes_indexed_def using fold_index_lookup[OF oi(1)] by blast
  have b: "buildSteadyStateChains (cs_SlotCount st) (cs_ReplicationFactor st) ?ns ?ix = Inr d"
    using assms(1) by (auto simp: buildDesiredPlacementFromState_def Let_def res_bind_Inr split: if_splits)
  from buildSteadyStateChains_steady[OF b ix] w
  have len: "length d = length (cs_Chains st)"
    and steady: "\<And>i. i < length d \<Longrightarrow> steady_chain (cs_ReplicationFactor st) ?ns ?ix i (d ! i)"
    by simp_all
  have known: "fm_has (cs_NodesByID st) nid \<and> placeable st nid" if "nid \<in> node_ID ` set ?ns" for nid
    using that oi(2) by (auto simp: fm_has_def)
  have "distinct (replicaIDs (chain_Replicas (d ! i))) \<and>
      int (length (chain_Replicas (d ! i))) = cs_ReplicationFactor st \<and>
      list_all (\<lambda>r. fm_has (cs_NodesByID st) (replica_NodeID r) \<and> placeable st (replica_NodeID r))
        (chain_Replicas (d ! i))" if "i < length d" for i
    using steady[OF that] known
    unfolding steady_chain_def steady_replicas_def set_replicaIDs list_all_iff by blast
  then show ?thesis unfolding desired_ok_def list_all_length using len by simp
qed

lemma reconcile_finalize_phase_evolves:
  assumes "reconcile_finalize_phase desired (st, ps) = Inr (st', ps')" and "wf_cluster st"
    and "\<And>d. desired = Some d \<Longrightarrow> desired_ok d st"
  shows "\<exists>qs. ps' = ps @ qs \<and> evolves st qs st'"
proof (cases desired)
  case (Some d)
  from assms(1) Some join_finalize.for_slots_evolves[of d "all_slots st" st ps st' ps']
    assms(3)[OF Some] wf_cluster_D[OF assms(2)]
  show ?thesis by (auto simp: reconcile_finalize_phase_def)
qed (use assms(1) in \<open>simp add: reconcile_finalize_phase_def\<close>)

lemma reconcile_append_phase_evolves:
  assumes "reconcile_append_phase policy desired (st, []) = Inr (st', ps')" and "wf_cluster st"
    and "\<And>d. desired = Some d \<Longrightarrow> desired_ok d st"
  shows "evolves st ps' st' \<and>
    (0 < MaxChangedChains policy \<longrightarrow> int (length ps') \<le> MaxChangedChains policy)"
proof (cases desired)
  case (Some d)
  from assms(1) Some missing_append.budget_loop_evolves[of d "remainingChangedChainBudget policy 0"
      "appendPrioritySlots st" st "[]" st' ps'] assms(3)[OF Some] wf_cluster_D[OF assms(2)]
  show ?thesis by (auto simp: reconcile_append_phase_def remainingChangedChainBudget_def)
qed (use assms(1) in \<open>simp add: reconcile_append_phase_def\<close>)

lemma reconcile_rebalance_phase_evolves:
  assumes "reconcile_rebalance_phase policy desired (st, []) = Inr (st', ps')" and wf: "wf_cluster st"
    and d: "\<And>d. desired = Some d \<Longrightarrow> desired_ok d st"
  shows "\<exists>st1 ps qs. fold_res (slot_iter appendDrainReplacement) (all_slots st) (st, []) = Inr (st1, ps) \<and>
    ps' = ps @ qs \<and> evolves st ps' st' \<and>
    int (length qs) \<le> max 0 (MaxChangedChains policy)"
proof -
  obtain st1 ps where r: "fold_res (slot_iter appendDrainReplacement) (all_slots st) (st, []) = Inr (st1, ps)"
    and rest: "(case desired of None \<Rightarrow> Inr (st1, ps) | Some d \<Rightarrow>
      if MaxChangedChains policy > 0
      then budget_loop (\<lambda>slot. appendJoinRebalance (d ! slot) slot) (MaxChangedChains policy)
        (all_slots st1) (st1, ps)
      else Inr (st1, ps)) = Inr (st', ps')"
    using assms(1) by (cases desired) (auto simp: reconcile_rebalance_phase_def res_bind_Inr split: if_splits)
  note w = wf_cluster_D[OF wf]
  from drain_append.for_slots_evolves[OF r _ w(1,2,4)] have e1: "evolves st ps st1" by simp
  note w1 = wf_cluster_D[OF evolves_wf[OF e1 wf]]
  show ?thesis
  proof (cases "(\<exists>d. desired = Some d) \<and> MaxChangedChains policy > 0")
    case False
    with rest have "st' = st1" "ps' = ps" by (auto split: option.splits)
    with e1 r show ?thesis by auto
  next
    case True
    then obtain d' where d': "desired = Some d'" by blast
    have "\<exists>qs. ps' = ps @ qs \<and> evolves st1 qs st' \<and> desired_ok d' st' \<and>
        (0 \<le> MaxChangedChains policy \<longrightarrow> int (length qs) \<le> MaxChangedChains policy)"
      using rest True d' evolves_meta(12)[OF e1 d[OF d']] w1
      by (intro join_append.budget_loop_evolves[where slots = "all_slots st1"]) auto
    with True e1 r show ?thesis using evolves_trans[OF e1] by fastforce
  qed
qed

lemma reconcileState_evolves:
  assumes "reconcileState st policy = Inr (st', ps)" and wf: "wf_cluster st"
  shows "evolves st ps st'" and "no_dead st'"
proof -
  obtain st2 p2 where r2: "reconcile_repair_phase st = Inr (st2, p2)"
    using assms(1) by (auto simp: reconcileState_def res_bind_Inr)
  then obtain desired st3 p3 where d: "buildDesiredPlacementFromState st2 = Inr desired"
    and r3: "reconcile_finalize_phase desired (st2, p2) = Inr (st3, p3)"
    using assms(1) by (auto simp: reconcileState_def res_bind_Inr)
  note e2 = reconcile_repair_phase_evolves[OF r2 wf]
  note wf2 = evolves_wf[OF e2(1) wf]
  have dok: "\<And>d. desired = Some d \<Longrightarrow> desired_ok d st2" using buildDesired_ok d wf2 by blast
  obtain q3 where q3: "p3 = p2 @ q3" "evolves st2 q3 st3"
    using reconcile_finalize_phase_evolves[OF r3 wf2 dok] by blast
  note e3 = evolves_trans[OF e2(1) q3(2), folded q3(1)] and wf3 = evolves_wf[OF q3(2) wf2]
  have dok3: "\<And>d. desired = Some d \<Longrightarrow> desired_ok d st3" using dok evolves_meta(12)[OF q3(2)] by blast
  have "evolves st ps st' \<and> (\<exists>qs. evolves st2 qs st')"
  proof (cases "p3 = []")
    case False
    with assms(1) r2 d r3 have "st' = st3" "ps = p3" by (simp_all add: reconcileState_def)
    with e3 q3(2) show ?thesis by blast
  next
    case True
    then obtain st4 p4 where r4: "reconcile_append_phase policy desired (st3, []) = Inr (st4, p4)"
      and last: "(if p4 \<noteq> [] then Inr (st4, p4)
        else reconcile_rebalance_phase policy desired (st4, [])) = Inr (st', ps)"
      using assms(1) r2 d r3 by (auto simp: reconcileState_def res_bind_Inr split: if_splits)
    from reconcile_append_phase_evolves[OF r4 wf3 dok3] have e4: "evolves st3 p4 st4" by blast
    have "\<exists>qs. ps = p4 @ qs \<and> evolves st4 qs st'"
    proof (cases "p4 = []")
      case True
      with last reconcile_rebalance_phase_evolves[OF _ evolves_wf[OF e4 wf3] evolves_meta(12)[OF e4 dok3]]
      show ?thesis by auto
    qed (use last in auto)
    then obtain qs where qs: "ps = p4 @ qs" "evolves st4 qs st'" by blast
    from evolves_trans[OF e4 qs(2)] qs(1) have "evolves st3 ps st'" by simp
    from evolves_trans[OF e3 this] evolves_trans[OF q3(2) this] True show ?thesis by auto
  qed
  then show "evolves st ps st'" "no_dead st'" using evolves_no_dead[OF _ wf2 e2(2)] by auto
qed

section \<open>Events keep the state well formed\<close>

lemma wf_cluster_mono:
  assumes "wf_cluster st" and "wf_nodes st'" and "cs_Chains st' = cs_Chains st"
    and "cs_SlotCount st' = cs_SlotCount st" and "cs_ReplicationFactor st' = cs_ReplicationFactor st"
    and "\<And>nid. fm_has (cs_NodesByID st) nid \<Longrightarrow> fm_has (cs_NodesByID st') nid"
  shows "wf_cluster st'"
  using assms unfolding wf_cluster_def wf_chain_def list_all_iff by simp

lemma normalizeNodes_single:
  "normalizeNodes [n] = Inr (nm, m, ord) \<longleftrightarrow>
     node_ID n \<noteq> [] \<and>
     fmpred (\<lambda>k v. strings_TrimSpace k \<noteq> [] \<and> strings_TrimSpace v \<noteq> []) (node_FailureDomains n) \<and>
     nm = [n\<lparr>node_RPCAddress := strings_TrimSpace (node_RPCAddress n)\<rparr>] \<and>
     m = fmupd (node_ID n) (n\<lparr>node_RPCAddress := strings_TrimSpace (node_RPCAddress n)\<rparr>) fmempty \<and>
     ord = [node_ID n]"
  by (auto simp: normalizeNodes_def normalizeNode_def Let_def)

lemma addNode_wf:
  assumes "addNode st n ready = Inr st'" and "wf_cluster st"
  shows "wf_cluster st'" and "cs_Chains st' = cs_Chains st"
proof -
  obtain nm m ord where n: "normalizeNodes [n] = Inr (nm, m, ord)"
    using assms(1) by (auto simp: addNode_def res_bind_Inr)
  note nn = n[unfolded normalizeNodes_single]
  note w = wf_cluster_D(1)[OF assms(2)]
  show "cs_Chains st' = cs_Chains st"
    using assms(1) n by (auto simp: addNode_def res_bind_Inr Let_def split: option.splits if_splits)
  show "wf_cluster st'"
  proof (cases "fmlookup (cs_NodesByID st) (node_ID n)")
    case None
    then have "node_ID n \<notin> set (cs_NodeOrder st)"
      using w by (auto simp: wf_nodes_def fmlookup_dom_iff)
    then have "wf_nodes st'"
      using assms(1) n nn None w
      by (auto simp: addNode_def wf_nodes_def fm_get_def Let_def intro!: fmpred_upd)
    then show ?thesis
      using assms(1) n nn None by (intro wf_cluster_mono[OF assms(2)]) (auto simp: addNode_def fm_has_def Let_def)
  next
    case (Some x)
    then have "wf_nodes st'"
      using assms(1) n nn w by (auto simp: addNode_def wf_nodes_def Let_def split: if_splits)
    then show ?thesis
      using assms(1) n nn Some
      by (intro wf_cluster_mono[OF assms(2)]) (auto simp: addNode_def Let_def split: if_splits)
  qed
qed

lemma drain_dead_wf:
  assumes "beginDrainNode st nid = Inr st' \<or> markNodeDead st nid = Inr st'" and "wf_cluster st"
  shows "wf_cluster st'" and "cs_Chains st' = cs_Chains st"
proof -
  have eq: "cs_Chains st' = cs_Chains st" "cs_SlotCount st' = cs_SlotCount st"
    "cs_ReplicationFactor st' = cs_ReplicationFactor st" "cs_NodesByID st' = cs_NodesByID st"
    "cs_NodeOrder st' = cs_NodeOrder st"
    using assms(1) by (auto simp: beginDrainNode_def markNodeDead_def split: if_splits)
  then show "cs_Chains st' = cs_Chains st" by simp
  from eq show "wf_cluster st'"
    by (intro wf_cluster_mono[OF assms(2)]) (use wf_cluster_D(1)[OF assms(2)] in \<open>auto simp: wf_nodes_def\<close>)
qed

text \<open>A progress event activates one joining replica or removes one leaving replica.\<close>

lemma applyProgressEvent_step:
  assumes "applyProgressEvent st e = Inr st'" and "wf_cluster st"
  shows "\<exists>c' dr. st' = (set_chain st (nat (ev_Slot e)) c')\<lparr>cs_DrainingNodeIDs := dr\<rparr> \<and>
    (no_dead st \<longrightarrow> chain_evolves st (cs_Chains st ! nat (ev_Slot e)) c') \<and>
    wf_chain st c' \<and> chain_Slot c' = chain_Slot (cs_Chains st ! nat (ev_Slot e)) \<and>
    nat (ev_Slot e) < length (cs_Chains st)"
proof -
  define slot where "slot = nat (ev_Slot e)"
  define c where "c = cs_Chains st ! slot"
  have slot: "slot < length (cs_Chains st)"
    using assms by (auto simp: applyProgressEvent_def slot_def wf_cluster_def split: if_splits)
  then have wfc: "wf_chain st c" using wf_cluster_chain[OF assms(2)] by (simp add: c_def)
  obtain i where i: "findReplicaIndex c (ev_NodeID e) = Some i"
    using assms(1) by (auto simp: applyProgressEvent_def slot_def c_def Let_def split: if_splits option.splits)
  note ix = findReplicaIndex_Some[OF i]
  let ?rs = "chain_Replicas c"
  show ?thesis
  proof (cases "ev_Kind e = EventKindReplicaBecameActive")
    case True
    define c' where "c' = c\<lparr>chain_Replicas := ?rs[i := (?rs ! i)\<lparr>replica_State := ReplicaStateActive\<rparr>]\<rparr>"
    have st': "st' = set_chain st slot c'"
      using assms(1) i True
      by (auto simp: applyProgressEvent_def slot_def[symmetric] c_def[symmetric] c'_def Let_def
          set_replicas_def split: if_splits)
    have ids: "replicaIDs (chain_Replicas c') = replicaIDs ?rs"
      using ix by (auto simp: c'_def replicaIDs_def map_update list_update_same_conv)
    have "has_active c'"
      using ix set_update_memI[of i ?rs] by (force simp: c'_def has_active_def list_ex_iff is_active_def)
    then have "chain_evolves st c c'" using ids by (intro chain_evolvesI) (auto simp: c'_def wf_chain_def)
    with st' wfc slot show ?thesis
      unfolding slot_def[symmetric] c_def[symmetric]
      by (intro exI[of _ c'] exI[of _ "cs_DrainingNodeIDs st"]) (auto simp: chain_evolves_def set_chain_def)
  next
    case False
    define c' where "c' = c\<lparr>chain_Replicas := take i ?rs @ drop (Suc i) ?rs\<rparr>"
    have st': "st' = (set_chain st slot c')\<lparr>cs_DrainingNodeIDs := cs_DrainingNodeIDs st'\<rparr>"
      and gone: "replica_State (?rs ! i) = ReplicaStateLeaving \<or>
        fmlookup (cs_NodeHealthByID st) (ev_NodeID e) = Some NodeHealthDead"
      using assms(1) i False
      by (auto simp: applyProgressEvent_def slot_def[symmetric] c_def[symmetric] c'_def Let_def
          set_replicas_def set_chain_def split: if_splits EventKind.splits)
    have split: "?rs = take i ?rs @ ?rs ! i # drop (Suc i) ?rs" using ix id_take_nth_drop by blast
    then have ids: "replicaIDs ?rs = replicaIDs (take i ?rs) @ replica_NodeID (?rs ! i) # replicaIDs (drop (Suc i) ?rs)"
      by (metis replicaIDs_simps(2,3))
    then have wf': "wf_chain st c'" using wfc by (auto simp: wf_chain_def c'_def)
    have "has_active c'" if "no_dead st" "has_active c"
    proof -
      have "no_dead_chain st c" using that(1) slot by (auto simp: no_dead_def c_def list_all_iff)
      then have "\<not> is_active (?rs ! i)"
        using gone ix by (auto simp: no_dead_chain_def chainContainsDeadReplica_def list_ex_iff is_active_def
            dest: bspec[OF _ nth_mem])
      with that(2) show ?thesis by (subst (asm) has_active_def, subst (asm) split) (simp add: has_active_def c'_def)
    qed
    then have "chain_evolves st c c'" if "no_dead st"
      using that wf' ids by (intro chain_evolvesI) (auto simp: c'_def wf_chain_def)
    with st' wf' slot show ?thesis
      unfolding slot_def[symmetric] c_def[symmetric]
      by (intro exI[of _ c'] exI[of _ "cs_DrainingNodeIDs st'"]) (auto simp: c'_def)
  qed
qed

lemma applyProgressEvent_wf:
  assumes "applyProgressEvent st e = Inr st'" and "wf_cluster st"
  shows "wf_cluster st'" and "length (cs_Chains st') = length (cs_Chains st)"
    and "no_dead st \<Longrightarrow> i < length (cs_Chains st) \<Longrightarrow>
      chain_evolves st (cs_Chains st ! i) (cs_Chains st' ! i)"
proof -
  obtain c' dr where st': "st' = (set_chain st (nat (ev_Slot e)) c')\<lparr>cs_DrainingNodeIDs := dr\<rparr>"
    and ev: "no_dead st \<longrightarrow> chain_evolves st (cs_Chains st ! nat (ev_Slot e)) c'"
    and wf': "wf_chain st c'" "chain_Slot c' = chain_Slot (cs_Chains st ! nat (ev_Slot e))"
    using applyProgressEvent_step[OF assms] by blast
  have chs: "cs_Chains st' = (cs_Chains st)[nat (ev_Slot e) := c']" by (simp add: st' set_chain_def)
  have "map chain_Slot (cs_Chains st') = map chain_Slot (cs_Chains st)"
    by (simp add: chs map_update wf'(2) list_update_same_conv)
      (metis list_update_beyond list_update_id map_update not_less)
  moreover have "list_all (wf_chain st) (cs_Chains st')"
    using assms(2) wf'(1) by (auto simp: chs wf_cluster_def list_all_iff dest: set_update_subset_insert[THEN subsetD])
  moreover have "wf_chain st' = wf_chain st" "wf_nodes st' = wf_nodes st"
    by (simp_all add: fun_eq_iff st' wf_chain_def wf_nodes_def)
  ultimately show "wf_cluster st'" using assms(2) by (simp add: wf_cluster_def chs) (simp add: st')
  show "length (cs_Chains st') = length (cs_Chains st)" by (simp add: chs)
  show "chain_evolves st (cs_Chains st ! i) (cs_Chains st' ! i)"
    if "no_dead st" "i < length (cs_Chains st)"
    using ev that by (cases "i = nat (ev_Slot e)") (auto simp: chs)
qed

lemma applyEvent_cases:
  assumes "applyEvent st e = Inr st'"
  obtains (add) ready where "addNode st (ev_Node e) ready = Inr st'"
  | (member) "beginDrainNode st (ev_NodeID e) = Inr st' \<or> markNodeDead st (ev_NodeID e) = Inr st'"
  | (progress) "applyProgressEvent st e = Inr st'"
    "ev_Kind e = EventKindReplicaBecameActive \<or> ev_Kind e = EventKindReplicaRemoved"
  using assms that by (cases "ev_Kind e") (auto simp: applyEvent_def)

definition keeps_active :: "cluster_state \<Rightarrow> cluster_state \<Rightarrow> bool" where
  "keeps_active st st' =
     (length (cs_Chains st') = length (cs_Chains st) \<and>
      (\<forall>i<length (cs_Chains st). has_active (cs_Chains st ! i) \<longrightarrow> has_active (cs_Chains st' ! i)))"

lemma keeps_active_refl: "cs_Chains st' = cs_Chains st \<Longrightarrow> keeps_active st st'"
  by (simp add: keeps_active_def)

lemma keeps_active_trans: "keeps_active st st' \<Longrightarrow> keeps_active st' st'' \<Longrightarrow> keeps_active st st''"
  by (simp add: keeps_active_def)

lemma evolves_keeps_active: "evolves st ps st' \<Longrightarrow> keeps_active st st'"
  by (simp add: evolves_def keeps_active_def chain_evolves_def)

lemma applyEvent_wf:
  assumes "applyEvent st e = Inr st'" and "wf_cluster st"
  shows "wf_cluster st' \<and> (no_dead st \<longrightarrow> keeps_active st st')"
  using assms(1)
proof (cases rule: applyEvent_cases)
  case (add ready)
  from addNode_wf[OF this assms(2)] show ?thesis by (simp add: keeps_active_refl)
next
  case member
  from drain_dead_wf[OF this assms(2)] show ?thesis by (simp add: keeps_active_refl)
next
  case progress
  from applyProgressEvent_wf[OF progress(1) assms(2)] show ?thesis
    by (simp add: keeps_active_def chain_evolves_def)
qed

lemma plan_event_safe:
  assumes "plan_event policy e (st, plans) = Inr (st', plans')" and "wf_cluster st"
  shows "wf_cluster st'" and "no_dead st'" and "no_dead st \<Longrightarrow> keeps_active st st'"
proof -
  obtain st1 ps where e: "applyEvent st e = Inr st1" and r: "reconcileState st1 policy = Inr (st', ps)"
    using assms(1) by (auto simp: plan_event_def res_bind_Inr)
  from applyEvent_wf[OF e assms(2)] have a: "wf_cluster st1" "no_dead st \<longrightarrow> keeps_active st st1"
    by simp_all
  note rc = reconcileState_evolves[OF r a(1)]
  from evolves_wf[OF rc(1) a(1)] rc(2) show "wf_cluster st'" "no_dead st'" .
  show "no_dead st \<Longrightarrow> keeps_active st st'"
    using a(2) evolves_keeps_active[OF rc(1)] keeps_active_trans by blast
qed

lemma plan_events_safe:
  assumes "fold_res (plan_event policy) es (st, plans) = Inr (st', plans')" and "wf_cluster st"
    and "es \<noteq> [] \<or> no_dead st"
  shows "wf_cluster st' \<and> no_dead st' \<and> (no_dead st \<longrightarrow> keeps_active st st')"
  using assms
proof (induction es arbitrary: st plans)
  case Nil
  then show ?case by (simp add: keeps_active_refl)
next
  case (Cons e es)
  obtain st1 p1 where one: "plan_event policy e (st, plans) = Inr (st1, p1)"
    and rest: "fold_res (plan_event policy) es (st1, p1) = Inr (st', plans')"
    using Cons.prems(1) by (auto simp: res_bind_Inr)
  note s = plan_event_safe[OF one Cons.prems(2)]
  from Cons.IH[OF rest s(1)] s(2,3) show ?case using keeps_active_trans by blast
qed

section \<open>Validation keeps a well-formed state\<close>

definition same_dead :: "(string, NodeHealth) fmap \<Rightarrow> (string, NodeHealth) fmap \<Rightarrow> bool" where
  "same_dead h h' =
     (\<forall>nid. (fmlookup h' nid = Some NodeHealthDead) = (fmlookup h nid = Some NodeHealthDead))"

lemma same_dead_refl [simp]: "same_dead h h"
  by (simp add: same_dead_def)

lemma same_dead_default: "same_dead (default_alive nid h) h' \<Longrightarrow> same_dead h h'"
  by (auto simp: same_dead_def default_alive_def fm_has_def)

lemma validateNodeOrder_health:
  "validateNodeOrder ord seen nodes health = Inr health' \<Longrightarrow> same_dead health health'"
  by (induction ord seen nodes health rule: validateNodeOrder.induct)
    (auto split: if_splits intro: same_dead_default)

lemma fold_default_alive: "same_dead health (fold default_alive ns health)"
proof (induction ns arbitrary: health)
  case (Cons n ns)
  from same_dead_default[OF Cons.IH] show ?case by simp
qed simp

lemma relabel_id:
  "map chain_Slot chs = map int [0..<length chs] \<Longrightarrow>
     map (\<lambda>(i, c). c\<lparr>chain_Slot := int i\<rparr>) (enumerate 0 chs) = chs"
  unfolding slot_numbers by (auto intro!: nth_equalityI simp: nth_enumerate_eq)

lemma cloneAndValidateState_wf:
  assumes "cloneAndValidateState st = Inr w" and "wf_cluster st"
  shows "cs_Chains w = cs_Chains st" and "cs_NodesByID w = cs_NodesByID st"
    and "cs_NodeOrder w = cs_NodeOrder st"
    and "fmlookup (cs_NodeHealthByID w) nid = Some NodeHealthDead \<longleftrightarrow>
      fmlookup (cs_NodeHealthByID st) nid = Some NodeHealthDead"
    and "wf_cluster w" and "no_dead w = no_dead st"
proof -
  have rl: "map (\<lambda>(i, c). c\<lparr>chain_Slot := int i\<rparr>) (enumerate 0 (cs_Chains st)) = cs_Chains st"
    using assms(2) by (intro relabel_id) (simp add: wf_cluster_def)
  have ord: "(if cs_NodeOrder st = [] then sorted_list_of_fset (fmdom (cs_NodesByID st))
      else cs_NodeOrder st) = cs_NodeOrder st"
    using wf_cluster_D(1)[OF assms(2)]
    by (auto simp: wf_nodes_def sorted_list_of_fset.rep_eq)
  obtain health where h: "validateNodeOrder (cs_NodeOrder st) [] (cs_NodesByID st)
      (cs_NodeHealthByID st) = Inr health"
    and w: "w = \<lparr>cs_Chains = cs_Chains st, cs_NodesByID = cs_NodesByID st,
      cs_NodeHealthByID = fold default_alive (sorted_list_of_fset (fmdom (cs_NodesByID st))) health,
      cs_ReadyNodeIDs = fmfilter (flag (cs_ReadyNodeIDs st)) (cs_ReadyNodeIDs st),
      cs_DrainingNodeIDs = fmfilter (flag (cs_DrainingNodeIDs st)) (cs_DrainingNodeIDs st),
      cs_NodeOrder = cs_NodeOrder st, cs_SlotCount = cs_SlotCount st,
      cs_ReplicationFactor = cs_ReplicationFactor st\<rparr>"
    using assms(1) unfolding cloneAndValidateState_def Let_def rl ord
    by (auto simp: res_bind_Inr split: if_splits)
  show e: "cs_Chains w = cs_Chains st" "cs_NodesByID w = cs_NodesByID st"
    "cs_NodeOrder w = cs_NodeOrder st"
    by (simp_all add: w)
  show d: "fmlookup (cs_NodeHealthByID w) nid = Some NodeHealthDead \<longleftrightarrow>
      fmlookup (cs_NodeHealthByID st) nid = Some NodeHealthDead" for nid
    using validateNodeOrder_health[OF h] fold_default_alive by (simp add: w same_dead_def)
  show "wf_cluster w"
    by (rule wf_cluster_mono[OF assms(2)]) (use wf_cluster_D(1)[OF assms(2)] in \<open>simp_all add: w wf_nodes_def\<close>)
  show "no_dead w = no_dead st"
    by (simp add: no_dead_def no_dead_chain_def[abs_def] chainContainsDeadReplica_def d e)
qed

lemma PlanReconfiguration_cases:
  assumes "PlanReconfiguration st events policy = Inr plan"
  obtains w where "cloneAndValidateState st = Inr w" and "0 \<le> MaxChangedChains policy"
    and "(events = [] \<and> reconcileState w policy = Inr (UpdatedState plan, ChangedSlots plan)) \<or>
      (events \<noteq> [] \<and>
       fold_res (plan_event policy) events (w, []) = Inr (UpdatedState plan, ChangedSlots plan))"
  using assms that
  by (auto simp: PlanReconfiguration_def res_bind_Inr not_less split: if_splits)

end
