(* ===== verification/Plan_Safety.thy ===== *)
theory Plan_Safety
  imports Planning
begin

text \<open>
  What a reconfiguration plan guarantees: safety of the chains (\<open>PlanReconfiguration_safe\<close>),
  the frame of a plan, freedom from index panics, permanence of a dead node, the change
  budget, and the exact outcome of dead-replica repair and of progress reports.
\<close>

text \<open>A two-slot cluster of three nodes, used by the witnesses.\<close>

definition ex_replica :: "string \<Rightarrow> replica" where
  "ex_replica nid = \<lparr>replica_NodeID = nid, replica_State = ReplicaStateActive\<rparr>"

definition ex_cluster :: cluster_state where
  "ex_cluster =
     \<lparr>cs_Chains = [\<lparr>chain_Slot = 0, chain_Replicas = [ex_replica ''a'', ex_replica ''b'']\<rparr>,
                   \<lparr>chain_Slot = 1, chain_Replicas = [ex_replica ''b'', ex_replica ''c'']\<rparr>],
      cs_NodesByID = fmap_of_list (map (\<lambda>nid. (nid, ex_node nid [])) [''a'', ''b'', ''c'']),
      cs_NodeHealthByID = fmap_of_list (map (\<lambda>nid. (nid, NodeHealthAlive)) [''a'', ''b'', ''c'']),
      cs_ReadyNodeIDs = fmap_of_list (map (\<lambda>nid. (nid, True)) [''a'', ''b'', ''c'']),
      cs_DrainingNodeIDs = fmempty,
      cs_NodeOrder = [''a'', ''b'', ''c''], cs_SlotCount = 2, cs_ReplicationFactor = 2\<rparr>"

definition ex_event :: "EventKind \<Rightarrow> int \<Rightarrow> string \<Rightarrow> event" where
  "ex_event k slot nid =
     \<lparr>ev_Kind = k, ev_Node = zero_node, ev_NodeID = nid, ev_Slot = slot\<rparr>"

lemma ex_cluster_ok: "wf_cluster ex_cluster" "no_dead ex_cluster"
  by code_simp+

section \<open>Safety of a plan\<close>

lemma PlanReconfiguration_props:
  assumes "PlanReconfiguration st events policy = Inr plan" and "wf_cluster st"
  shows "wf_cluster (UpdatedState plan) \<and> no_dead (UpdatedState plan) \<and>
    (no_dead st \<longrightarrow> length (cs_Chains (UpdatedState plan)) = length (cs_Chains st) \<and>
      (\<forall>i<length (cs_Chains st). has_active (cs_Chains st ! i) \<longrightarrow>
         has_active (cs_Chains (UpdatedState plan) ! i)))"
  using assms(1)
proof (cases rule: PlanReconfiguration_cases)
  case (1 w)
  note v = cloneAndValidateState_wf[OF 1(1) assms(2)]
  from 1(3) show ?thesis
  proof
    assume "events = [] \<and> reconcileState w policy = Inr (UpdatedState plan, ChangedSlots plan)"
    then have "reconcileState w policy = Inr (UpdatedState plan, ChangedSlots plan)" by simp
    note r = reconcileState_evolves[OF this v(5)]
    from evolves_wf[OF r(1) v(5)] r(2) evolves_keeps_active[OF r(1)] show ?thesis
      by (simp add: keeps_active_def v(1))
  next
    assume "events \<noteq> [] \<and>
      fold_res (plan_event policy) events (w, []) = Inr (UpdatedState plan, ChangedSlots plan)"
    with plan_events_safe[of policy events w] v(5) have "wf_cluster (UpdatedState plan)"
      "no_dead (UpdatedState plan)" "no_dead w \<longrightarrow> keeps_active w (UpdatedState plan)" by auto
    then show ?thesis by (simp add: keeps_active_def v(1,6))
  qed
qed

text \<open>
  C2. A successful plan is safe: from a well-formed cluster state
  \<open>PlanReconfiguration\<close> produces a well-formed state in which no chain contains a
  dead node, whatever events it was given; and if no chain contained a dead node
  before, every chain that had an active replica still has one, so no data is orphaned.
\<close>

theorem PlanReconfiguration_safe:
  assumes "PlanReconfiguration st events policy = Inr plan" and "wf_cluster st"
  shows "wf_cluster (UpdatedState plan) \<and> no_dead (UpdatedState plan) \<and>
    (no_dead st \<longrightarrow> length (cs_Chains (UpdatedState plan)) = length (cs_Chains st) \<and>
      (\<forall>i<length (cs_Chains st). has_active (cs_Chains st ! i) \<longrightarrow>
         has_active (cs_Chains (UpdatedState plan) ! i)))"
  by (rule PlanReconfiguration_props[OF assms])

theorem PlanReconfiguration_safe_witness:
  "\<exists>plan. PlanReconfiguration ex_cluster [ex_event EventKindMarkNodeDead 0 ''b'']
       \<lparr>MaxChangedChains = 0\<rparr> = Inr plan \<and>
     length (ChangedSlots plan) = 2 \<and> wf_cluster (UpdatedState plan) \<and> no_dead (UpdatedState plan)"
proof -
  let ?r = "PlanReconfiguration ex_cluster [ex_event EventKindMarkNodeDead 0 ''b'']
    \<lparr>MaxChangedChains = 0\<rparr>"
  have "case ?r of Inl _ \<Rightarrow> False | Inr plan \<Rightarrow> length (ChangedSlots plan) = 2" by code_simp
  then obtain plan where p: "?r = Inr plan" "length (ChangedSlots plan) = 2" by (cases ?r) auto
  from PlanReconfiguration_safe[OF p(1) ex_cluster_ok(1)] p show ?thesis by blast
qed

section \<open>The frame of a plan\<close>

definition is_progress :: "event \<Rightarrow> bool" where
  "is_progress e = (ev_Kind e = EventKindReplicaBecameActive \<or> ev_Kind e = EventKindReplicaRemoved)"

definition frame :: "slot_plan list \<Rightarrow> chain list \<Rightarrow> chain list \<Rightarrow> bool" where
  "frame ps chs chs' =
     (length chs' = length chs \<and>
      (\<forall>i<length chs. int i \<notin> sp_Slot ` set ps \<longrightarrow> chs' ! i = chs ! i))"

lemma frame_trans: "frame ps a b \<Longrightarrow> frame qs b c \<Longrightarrow> frame (ps @ qs) a c"
  by (simp add: frame_def image_Un)

lemma evolves_frame: "evolves st ps st' \<Longrightarrow> frame ps (cs_Chains st) (cs_Chains st')"
  by (simp add: evolves_def frame_def)

lemma applyEvent_chains:
  assumes "applyEvent st e = Inr st'" and "wf_cluster st" and "\<not> is_progress e"
  shows "cs_Chains st' = cs_Chains st"
  using assms(1)
proof (cases rule: applyEvent_cases)
  case (add ready)
  with addNode_wf(2) assms(2) show ?thesis by blast
next
  case member
  with drain_dead_wf(2) assms(2) show ?thesis by blast
next
  case progress
  with assms(3) show ?thesis by (simp add: is_progress_def)
qed

lemma plan_event_Inr:
  "plan_event policy e (st, plans) = Inr acc \<longleftrightarrow>
     (\<exists>st1 st2 ps. applyEvent st e = Inr st1 \<and> reconcileState st1 policy = Inr (st2, ps) \<and>
        acc = (st2, plans @ ps))"
  by (auto simp: plan_event_def res_bind_Inr)

lemma plan_events_frame:
  assumes "fold_res (plan_event policy) es (st, plans) = Inr (st', plans')" and "wf_cluster st"
    and "list_all (\<lambda>e. \<not> is_progress e) es"
  shows "\<exists>ps. plans' = plans @ ps \<and> frame ps (cs_Chains st) (cs_Chains st')"
  using assms
proof (induction es arbitrary: st plans)
  case Nil
  then show ?case by (simp add: frame_def)
next
  case (Cons e es)
  obtain st1 st2 p1 where e: "applyEvent st e = Inr st1"
    and r: "reconcileState st1 policy = Inr (st2, p1)"
    and rest: "fold_res (plan_event policy) es (st2, plans @ p1) = Inr (st', plans')"
    using Cons.prems(1) by (auto simp: res_bind_Inr plan_event_Inr)
  have wf1: "wf_cluster st1" and eq: "cs_Chains st1 = cs_Chains st"
    using applyEvent_wf[OF e Cons.prems(2)] applyEvent_chains[OF e] Cons.prems by simp_all
  note ev = reconcileState_evolves(1)[OF r wf1]
  obtain ps where ps: "plans' = (plans @ p1) @ ps" "frame ps (cs_Chains st2) (cs_Chains st')"
    using Cons.IH[OF rest evolves_wf[OF ev wf1]] Cons.prems(3) by auto
  from frame_trans[OF evolves_frame[OF ev] ps(2)] ps(1) eq show ?case by auto
qed

text \<open>
  C7. A plan touches only the slots it lists: without progress events among
  its input, every chain whose slot has no entry in \<open>ChangedSlots\<close> is the same
  before and after planning.
\<close>

theorem PlanReconfiguration_frame:
  assumes "PlanReconfiguration st events policy = Inr plan" and "wf_cluster st"
    and "list_all (\<lambda>e. \<not> is_progress e) events"
    and "i < length (cs_Chains st)" and "int i \<notin> sp_Slot ` set (ChangedSlots plan)"
  shows "cs_Chains (UpdatedState plan) ! i = cs_Chains st ! i"
  using assms(1)
proof (cases rule: PlanReconfiguration_cases)
  case (1 w)
  note v = cloneAndValidateState_wf[OF 1(1) assms(2)]
  have "frame (ChangedSlots plan) (cs_Chains w) (cs_Chains (UpdatedState plan))"
    using 1(3) evolves_frame reconcileState_evolves(1)[OF _ v(5)]
      plan_events_frame[OF _ v(5) assms(3)] by fastforce
  with assms(4,5) v(1) show ?thesis by (simp add: frame_def)
qed

theorem PlanReconfiguration_frame_witness:
  "\<exists>plan. PlanReconfiguration ex_cluster [ex_event EventKindMarkNodeDead 0 ''a'']
       \<lparr>MaxChangedChains = 0\<rparr> = Inr plan \<and> map sp_Slot (ChangedSlots plan) = [0] \<and>
     cs_Chains (UpdatedState plan) ! 1 = cs_Chains ex_cluster ! 1"
proof -
  let ?es = "[ex_event EventKindMarkNodeDead 0 ''a'']"
  let ?r = "PlanReconfiguration ex_cluster ?es \<lparr>MaxChangedChains = 0\<rparr>"
  have "case ?r of Inl _ \<Rightarrow> False | Inr plan \<Rightarrow> map sp_Slot (ChangedSlots plan) = [0]" by code_simp
  then obtain plan where p: "?r = Inr plan" "map sp_Slot (ChangedSlots plan) = [0]" by (cases ?r) auto
  have slots: "int 1 \<notin> sp_Slot ` set (ChangedSlots plan)" unfolding set_map[symmetric] p(2) by simp
  have es: "list_all (\<lambda>e. \<not> is_progress e) ?es" by code_simp
  have one: "1 < length (cs_Chains ex_cluster)" by code_simp
  show ?thesis
    by (rule exI[of _ plan]) (intro conjI p PlanReconfiguration_frame[OF p(1) ex_cluster_ok(1) es one slots])
qed

section \<open>No index panics\<close>

lemma buildSteadyStateChains_no_panic:
  "buildSteadyStateChains slotCount rf nodes nodesByID \<noteq> Inl GoPanic"
proof -
  have "fillChain k pos nodes nodesByID c cnts \<noteq> Inl GoPanic" for k pos c cnts
    by (induction k arbitrary: pos c cnts) (auto split: option.splits prod.splits)
  then have "buildSlot rf nodes nodesByID slot acc \<noteq> Inl GoPanic" for slot acc
    by (cases acc) (auto simp: buildSlot_def Let_def res_bind_Inl)
  then have "fold_res (buildSlot rf nodes nodesByID) [0..<nat slotCount] ([], fmempty) \<noteq> Inl GoPanic"
    by (intro fold_res_no_error[of "\<lambda>_. True"]) auto
  then show ?thesis by (auto simp: buildSteadyStateChains_def res_bind_Inl)
qed

lemma reconcile_repair_phase_no_panic:
  assumes wf: "wf_cluster st"
  shows "reconcile_repair_phase st \<noteq> Inl GoPanic"
proof -
  note w = wf_cluster_D[OF wf]
  have "fold_res (slot_iter (\<lambda>slot s. Inr (finalizeDrainReplacement slot s))) (all_slots st1)
      (st1, p1) \<noteq> Inl GoPanic"
    if "fold_res (slot_iter repairDeadReplicas) (all_slots st) (st, []) = Inr (st1, p1)" for st1 p1
  proof -
    from repair.for_slots_evolves[OF that _ w(1,2,4)] have "evolves st p1 st1" by simp
    from wf_cluster_D[OF evolves_wf[OF this wf]] show ?thesis
      by (intro drain_finalize.for_slots_no_panic) auto
  qed
  with repair.for_slots_no_panic[of st "all_slots st" "[]"] w show ?thesis
    by (auto simp: reconcile_repair_phase_def res_bind_Inl)
qed

lemma reconcile_rebalance_phase_no_panic:
  assumes wf: "wf_cluster st" and d: "\<And>d. desired = Some d \<Longrightarrow> desired_ok d st"
  shows "reconcile_rebalance_phase policy desired (st, []) \<noteq> Inl GoPanic"
proof -
  note w = wf_cluster_D[OF wf]
  have "budget_loop (\<lambda>slot. appendJoinRebalance (d' ! slot) slot) (MaxChangedChains policy)
      (all_slots st1) (st1, p1) \<noteq> Inl GoPanic"
    if "fold_res (slot_iter appendDrainReplacement) (all_slots st) (st, []) = Inr (st1, p1)"
      and "desired = Some d'" for st1 p1 d'
  proof -
    from drain_append.for_slots_evolves[OF that(1) _ w(1,2,4)] have e: "evolves st p1 st1" by simp
    from wf_cluster_D[OF evolves_wf[OF e wf]] evolves_meta(12)[OF e d[OF that(2)]] show ?thesis
      by (intro join_append.budget_loop_no_panic) auto
  qed
  with drain_append.for_slots_no_panic[of st "all_slots st" "[]"] w show ?thesis
    by (auto simp: reconcile_rebalance_phase_def res_bind_Inl split: option.splits if_splits)
qed

lemma optional_phases_no_panic:
  assumes "wf_cluster st" and "\<And>d. desired = Some d \<Longrightarrow> desired_ok d st"
  shows "reconcile_finalize_phase desired (st, ps) \<noteq> Inl GoPanic"
    and "reconcile_append_phase policy desired (st, ps) \<noteq> Inl GoPanic"
  using assms(2) wf_cluster_D[OF assms(1)]
    join_finalize.for_slots_no_panic[of _ st "all_slots st" ps]
    missing_append.budget_loop_no_panic[of _ st "appendPrioritySlots st" _ ps]
  by (auto simp: reconcile_finalize_phase_def reconcile_append_phase_def split: option.split)

lemma reconcileState_no_panic:
  assumes wf: "wf_cluster st"
  shows "reconcileState st policy \<noteq> Inl GoPanic"
proof
  assume panic: "reconcileState st policy = Inl GoPanic"
  have build: "buildDesiredPlacementFromState s \<noteq> Inl GoPanic" for s
    using buildSteadyStateChains_no_panic
    by (auto simp: buildDesiredPlacementFromState_def Let_def res_bind_Inl)
  obtain st2 p2 desired where r2: "reconcile_repair_phase st = Inr (st2, p2)"
    and d: "buildDesiredPlacementFromState st2 = Inr desired"
    using panic reconcile_repair_phase_no_panic[OF wf] build
    by (auto simp: reconcileState_def res_bind_Inl)
  note wf2 = evolves_wf[OF reconcile_repair_phase_evolves(1)[OF r2 wf] wf]
  have dok: "\<And>d. desired = Some d \<Longrightarrow> desired_ok d st2" using buildDesired_ok d wf2 by blast
  obtain st3 where r3: "reconcile_finalize_phase desired (st2, p2) = Inr (st3, [])"
    using panic r2 d optional_phases_no_panic(1)[OF wf2 dok]
    by (auto simp: reconcileState_def res_bind_Inl split: if_splits)
  obtain q3 where e3: "evolves st2 q3 st3"
    using reconcile_finalize_phase_evolves[OF r3 wf2 dok] by blast
  note wf3 = evolves_wf[OF e3 wf2]
  have dok3: "\<And>d. desired = Some d \<Longrightarrow> desired_ok d st3" using dok evolves_meta(12)[OF e3] by blast
  obtain st4 where r4: "reconcile_append_phase policy desired (st3, []) = Inr (st4, [])"
    and last: "reconcile_rebalance_phase policy desired (st4, []) = Inl GoPanic"
    using panic r2 d r3 optional_phases_no_panic(2)[OF wf3 dok3]
    by (auto simp: reconcileState_def res_bind_Inl split: if_splits)
  from reconcile_append_phase_evolves[OF r4 wf3 dok3] have e4: "evolves st3 [] st4" by blast
  from reconcile_rebalance_phase_no_panic[OF evolves_wf[OF e4 wf3] evolves_meta(12)[OF e4 dok3]] last
  show False by blast
qed

lemma applyEvent_no_panic: "applyEvent st e \<noteq> Inl GoPanic"
proof -
  have "addNode st n ready \<noteq> Inl GoPanic" for n ready
    by (auto simp: addNode_def normalizeNodes_def normalizeNode_def Let_def res_bind_Inl
        split: option.splits if_splits)
  then show ?thesis
    by (auto simp: applyEvent_def beginDrainNode_def markNodeDead_def applyProgressEvent_def Let_def
        split: EventKind.splits option.splits if_splits)
qed

lemma plan_events_no_panic:
  assumes "wf_cluster st"
  shows "fold_res (plan_event policy) es (st, plans) \<noteq> Inl GoPanic"
proof (rule fold_res_no_error[where P = "\<lambda>acc. wf_cluster (fst acc)"])
  show "wf_cluster (fst (st, plans))" using assms by simp
  fix e and acc :: "cluster_state \<times> slot_plan list"
  assume wf: "wf_cluster (fst acc)"
  then show "plan_event policy e acc \<noteq> Inl GoPanic"
    using applyEvent_no_panic reconcileState_no_panic applyEvent_wf
    by (cases acc) (auto simp: plan_event_def res_bind_Inl)
  fix acc'
  assume "plan_event policy e acc = Inr acc'"
  with wf show "wf_cluster (fst acc')"
    using plan_event_safe(1) by (cases acc; cases acc') auto
qed

lemma cloneAndValidateState_no_panic: "cloneAndValidateState st \<noteq> Inl GoPanic"
proof -
  have "validateNodeOrder ord seen nodes health \<noteq> Inl GoPanic" for ord seen nodes health
    by (induction ord seen nodes health rule: validateNodeOrder.induct) auto
  then show ?thesis
    by (auto simp: cloneAndValidateState_def validateConfig_def Let_def res_bind_Inl split: if_splits)
qed

lemma PlanReconfiguration_panic_free:
  assumes "wf_cluster st"
  shows "PlanReconfiguration st events policy \<noteq> Inl GoPanic"
proof -
  have "reconcileState w policy \<noteq> Inl GoPanic"
    "fold_res (plan_event policy) events (w, []) \<noteq> Inl GoPanic"
    if "cloneAndValidateState st = Inr w" for w
    using cloneAndValidateState_wf(5)[OF that assms] reconcileState_no_panic plan_events_no_panic
    by blast+
  then show ?thesis
    using cloneAndValidateState_no_panic[of st]
    by (auto simp: PlanReconfiguration_def res_bind_Inl split: if_splits)
qed



section \<open>A dead node stays dead\<close>

definition is_dead :: "cluster_state \<Rightarrow> string \<Rightarrow> bool" where
  "is_dead st nid =
     (fm_has (cs_NodesByID st) nid \<and> fmlookup (cs_NodeHealthByID st) nid = Some NodeHealthDead)"

definition adds_node :: "event \<Rightarrow> string \<Rightarrow> bool" where
  "adds_node e nid =
     ((ev_Kind e = EventKindAddNode \<or> ev_Kind e = EventKindRegisterNode) \<and> node_ID (ev_Node e) = nid)"

lemma addNode_dead:
  assumes "addNode st n ready = Inr st'" and "is_dead st nid"
  shows "is_dead st' nid \<and> node_ID n \<noteq> nid"
proof -
  obtain nm m ord where n: "normalizeNodes [n] = Inr (nm, m, ord)"
    using assms(1) by (auto simp: addNode_def res_bind_Inr)
  note nn = n[unfolded normalizeNodes_single]
  have "fmlookup (cs_NodesByID st) nid \<noteq> None" using assms(2) by (auto simp: is_dead_def fm_has_def)
  then show ?thesis
    using assms n nn
    by (auto simp: addNode_def is_dead_def Let_def fm_has_def split: option.splits if_splits)
qed

lemma applyEvent_dead:
  assumes "applyEvent st e = Inr st'" and "is_dead st nid"
  shows "is_dead st' nid \<and> \<not> adds_node e nid"
proof (cases "ev_Kind e = EventKindAddNode \<or> ev_Kind e = EventKindRegisterNode")
  case True
  then obtain ready where "addNode st (ev_Node e) ready = Inr st'"
    using assms(1) by (auto simp: applyEvent_def)
  from addNode_dead[OF this assms(2)] show ?thesis by (simp add: adds_node_def)
next
  case False
  then have "cs_NodesByID st' = cs_NodesByID st \<and>
      (\<forall>n. fmlookup (cs_NodeHealthByID st) n = Some NodeHealthDead \<longrightarrow>
           fmlookup (cs_NodeHealthByID st') n = Some NodeHealthDead)"
    using assms(1)
    by (auto simp: applyEvent_def beginDrainNode_def markNodeDead_def applyProgressEvent_def Let_def
        set_replicas_def set_chain_def split: EventKind.splits option.splits if_splits)
  with False assms(2) show ?thesis by (simp add: is_dead_def adds_node_def)
qed

lemma plan_events_dead:
  assumes "fold_res (plan_event policy) es (st, plans) = Inr (st', plans')" and "wf_cluster st"
    and "is_dead st nid"
  shows "is_dead st' nid \<and> list_all (\<lambda>e. \<not> adds_node e nid) es"
  using assms
proof (induction es arbitrary: st plans)
  case (Cons e es)
  obtain st1 st2 p1 where e: "applyEvent st e = Inr st1"
    and r: "reconcileState st1 policy = Inr (st2, p1)"
    and rest: "fold_res (plan_event policy) es (st2, plans @ p1) = Inr (st', plans')"
    using Cons.prems(1) by (auto simp: res_bind_Inr plan_event_Inr)
  from applyEvent_wf[OF e Cons.prems(2)] have wf1: "wf_cluster st1" by simp
  note ev = reconcileState_evolves(1)[OF r wf1]
  from applyEvent_dead[OF e Cons.prems(3)] have "is_dead st2 nid" "\<not> adds_node e nid"
    using evolves_meta[OF ev] by (simp_all add: is_dead_def)
  with Cons.IH[OF rest evolves_wf[OF ev wf1]] show ?case by simp
qed simp

text \<open>
  C6. Death is a tombstone: a node recorded dead is still recorded dead after
  any successful plan, no chain of the planned state contains it, it is not
  reported as free capacity, and no event of the plan registered or added it again
  (such a request makes planning fail).
\<close>

theorem PlanReconfiguration_tombstone:
  assumes "PlanReconfiguration st events policy = Inr plan" and "wf_cluster st"
    and "is_dead st nid"
  shows "is_dead (UpdatedState plan) nid \<and>
    (\<forall>c\<in>set (cs_Chains (UpdatedState plan)). nid \<notin> set (replicaIDs (chain_Replicas c))) \<and>
    nid \<notin> set (UnassignedNodeIDs plan) \<and> list_all (\<lambda>e. \<not> adds_node e nid) events"
proof -
  obtain w where w: "cloneAndValidateState st = Inr w"
    and run: "(events = [] \<and> reconcileState w policy = Inr (UpdatedState plan, ChangedSlots plan)) \<or>
      (events \<noteq> [] \<and>
       fold_res (plan_event policy) events (w, []) = Inr (UpdatedState plan, ChangedSlots plan))"
    by (rule PlanReconfiguration_cases[OF assms(1)])
  note v = cloneAndValidateState_wf[OF w assms(2)]
  have dead_w: "is_dead w nid" using assms(3) v(2,4) by (simp add: is_dead_def)
  have "is_dead (UpdatedState plan) nid \<and> list_all (\<lambda>e. \<not> adds_node e nid) events \<and>
      no_dead (UpdatedState plan)"
    using run
  proof
    assume "events = [] \<and> reconcileState w policy = Inr (UpdatedState plan, ChangedSlots plan)"
    then have e: "events = []" and r: "reconcileState w policy = Inr (UpdatedState plan, ChangedSlots plan)"
      by simp_all
    note rc = reconcileState_evolves[OF r v(5)]
    from dead_w evolves_meta(5,6)[OF rc(1)] rc(2) e show ?thesis by (simp add: is_dead_def)
  next
    assume "events \<noteq> [] \<and>
      fold_res (plan_event policy) events (w, []) = Inr (UpdatedState plan, ChangedSlots plan)"
    then have e: "events \<noteq> [] \<or> no_dead w"
      and r: "fold_res (plan_event policy) events (w, []) = Inr (UpdatedState plan, ChangedSlots plan)"
      by simp_all
    from plan_events_dead[OF r v(5) dead_w] plan_events_safe[OF r v(5) e] show ?thesis by blast
  qed
  then have dead: "is_dead (UpdatedState plan) nid \<and> list_all (\<lambda>e. \<not> adds_node e nid) events"
    and clean: "no_dead (UpdatedState plan)" by blast+
  have un: "UnassignedNodeIDs plan = collectUnassignedNodeIDs (UpdatedState plan)"
    using assms(1) by (auto simp: PlanReconfiguration_def res_bind_Inr split: if_splits)
  have "nid \<notin> set (UnassignedNodeIDs plan)"
    using dead by (simp add: un collectUnassignedNodeIDs_def placeable_def is_dead_def Let_def)
  moreover have "nid \<notin> set (replicaIDs (chain_Replicas c))" if "c \<in> set (cs_Chains (UpdatedState plan))" for c
    using clean that dead
    by (auto simp: no_dead_def no_dead_chain_def chainContainsDeadReplica_def list_all_iff list_ex_iff
        is_dead_def set_replicaIDs)
  ultimately show ?thesis using dead by blast
qed

definition ex_dead_cluster :: cluster_state where
  "ex_dead_cluster = ex_cluster\<lparr>cs_NodeHealthByID := fmupd ''b'' NodeHealthDead (cs_NodeHealthByID ex_cluster)\<rparr>"

theorem PlanReconfiguration_tombstone_witness:
  "\<exists>plan. PlanReconfiguration ex_dead_cluster [] \<lparr>MaxChangedChains = 0\<rparr> = Inr plan \<and>
     is_dead (UpdatedState plan) ''b'' \<and>
     (\<forall>c\<in>set (cs_Chains (UpdatedState plan)). ''b'' \<notin> set (replicaIDs (chain_Replicas c)))"
proof -
  let ?r = "PlanReconfiguration ex_dead_cluster [] \<lparr>MaxChangedChains = 0\<rparr>"
  have wf: "wf_cluster ex_dead_cluster" and d: "is_dead ex_dead_cluster ''b''" by code_simp+
  have "\<not> isl ?r" by code_simp
  then obtain plan where p: "?r = Inr plan" by (cases ?r) auto
  from PlanReconfiguration_tombstone[OF p wf d] p show ?thesis by blast
qed

section \<open>The change budget\<close>

text \<open>A chain no mandatory step applies to: nobody dead, draining or surplus.\<close>

definition settled_chain :: "cluster_state \<Rightarrow> chain \<Rightarrow> bool" where
  "settled_chain st c =
     (no_dead_chain st c \<and> activeReplicaIDsWithDrain c (cs_DrainingNodeIDs st) = [] \<and>
      int (length (activeReplicaIDs c)) \<noteq> cs_ReplicationFactor st + 1)"

lemma for_slots_idle:
  "(\<And>slot. slot \<in> set slots \<Longrightarrow> opr slot st = Inr (st, None)) \<Longrightarrow>
     fold_res (slot_iter opr) slots (st, plans) = Inr (st, plans)"
  by (induction slots) (simp_all add: slot_iter_def)

lemma settled_idle:
  assumes "settled_chain st (cs_Chains st ! slot)"
  shows "repairDeadReplicas slot st = Inr (st, None)"
    and "finalizeDrainReplacement slot st = (st, None)"
    and "finalizeJoinRebalance d slot st = (st, None)"
    and "appendDrainReplacement slot st = Inr (st, None)"
proof -
  have "find (\<lambda>r. is_active r \<and> flag (cs_DrainingNodeIDs st) (replica_NodeID r))
      (chain_Replicas (cs_Chains st ! slot)) = None"
    using assms by (auto simp: settled_chain_def activeReplicaIDsWithDrain_def find_None_iff filter_empty_conv)
  then show "appendDrainReplacement slot st = Inr (st, None)"
    by (simp add: appendDrainReplacement_def firstActiveDrainingReplicaID_def Let_def)
qed (use assms in \<open>simp_all add: settled_chain_def repairDeadReplicas_def no_dead_chain_def
      finalizeDrainReplacement_def finalizeJoinRebalance_def Let_def\<close>)

lemma settled_slots:
  assumes "wf_cluster st" and "list_all (settled_chain st) (cs_Chains st)" and "slot \<in> set (all_slots st)"
  shows "settled_chain st (cs_Chains st ! slot)"
  using assms wf_cluster_D(4)[OF assms(1)] by (simp add: list_all_length)

lemma reconcileState_budget:
  assumes "reconcileState st policy = Inr (st', ps)" and wf: "wf_cluster st"
    and settled: "list_all (settled_chain st) (cs_Chains st)" and pos: "0 < MaxChangedChains policy"
  shows "int (length ps) \<le> MaxChangedChains policy"
proof -
  note idle = settled_idle[OF settled_slots[OF wf settled]]
  have r2: "reconcile_repair_phase st = Inr (st, [])"
    by (simp add: reconcile_repair_phase_def for_slots_idle idle)
  obtain desired where d: "buildDesiredPlacementFromState st = Inr desired"
    using assms(1) r2 by (auto simp: reconcileState_def res_bind_Inr)
  have r3: "reconcile_finalize_phase desired (st, []) = Inr (st, [])"
    by (simp add: reconcile_finalize_phase_def for_slots_idle idle split: option.split)
  have dok: "\<And>d. desired = Some d \<Longrightarrow> desired_ok d st" using buildDesired_ok d wf by blast
  obtain st4 p4 where r4: "reconcile_append_phase policy desired (st, []) = Inr (st4, p4)"
    and last: "(if p4 \<noteq> [] then Inr (st4, p4)
      else reconcile_rebalance_phase policy desired (st4, [])) = Inr (st', ps)"
    using assms(1) r2 d r3 by (auto simp: reconcileState_def res_bind_Inr split: if_splits)
  note a4 = reconcile_append_phase_evolves[OF r4 wf dok]
  show ?thesis
  proof (cases "p4 = []")
    case False
    with last a4 pos show ?thesis by auto
  next
    case True
    with a4 have "evolves st [] st4" by simp
    then have "st4 = st\<lparr>cs_Chains := cs_Chains st4\<rparr>" "cs_Chains st4 = cs_Chains st"
      by (auto simp: evolves_def intro: nth_equalityI)
    then have "st4 = st" by simp
    with True last have "reconcile_rebalance_phase policy desired (st, []) = Inr (st', ps)" by simp
    from reconcile_rebalance_phase_evolves[OF this wf dok] pos show ?thesis
      by (auto simp: for_slots_idle idle)
  qed
qed

lemma flag_fmfilter: "flag (fmfilter (flag m) m) k = flag m k"
  by (auto simp: flag_def fm_get_def split: option.splits)

lemma cloneAndValidateState_settled:
  assumes "cloneAndValidateState st = Inr w" and "wf_cluster st"
  shows "settled_chain w c = settled_chain st c"
proof -
  have "cs_ReplicationFactor w = cs_ReplicationFactor st" "flag (cs_DrainingNodeIDs w) = flag (cs_DrainingNodeIDs st)"
    using assms(1)
    by (auto simp: cloneAndValidateState_def Let_def res_bind_Inr flag_fmfilter fun_eq_iff split: if_splits)
  then show ?thesis
    using cloneAndValidateState_wf(4)[OF assms]
    by (simp add: settled_chain_def no_dead_chain_def chainContainsDeadReplica_def activeReplicaIDsWithDrain_def)
qed

text \<open>
  C8. Optional movement is bounded: in a cluster where no chain contains a dead
  node, an active draining replica or a surplus active replica, so that nothing is
  mandatory, one planning round with a positive \<open>MaxChangedChains\<close> changes at most
  that many chains.
\<close>

theorem PlanReconfiguration_budget:
  assumes "PlanReconfiguration st [] policy = Inr plan" and "wf_cluster st"
    and "list_all (settled_chain st) (cs_Chains st)" and "0 < MaxChangedChains policy"
  shows "int (length (ChangedSlots plan)) \<le> MaxChangedChains policy"
proof -
  obtain w where w: "cloneAndValidateState st = Inr w"
    and r: "reconcileState w policy = Inr (UpdatedState plan, ChangedSlots plan)"
    by (rule PlanReconfiguration_cases[OF assms(1)]) simp
  note v = cloneAndValidateState_wf[OF w assms(2)]
  have "settled_chain w = settled_chain st" using cloneAndValidateState_settled[OF w assms(2)] by (simp add: fun_eq_iff)
  then have "list_all (settled_chain w) (cs_Chains w)" using assms(3) v(1) by simp
  from reconcileState_budget[OF r v(5) this assms(4)] show ?thesis .
qed

text \<open>The example cluster with short chains: both could grow, the budget allows one.\<close>

definition ex_short_cluster :: cluster_state where
  "ex_short_cluster = ex_cluster\<lparr>cs_Chains := [\<lparr>chain_Slot = 0, chain_Replicas = []\<rparr>,
     \<lparr>chain_Slot = 1, chain_Replicas = []\<rparr>]\<rparr>"

theorem PlanReconfiguration_budget_witness:
  "\<exists>plan. PlanReconfiguration ex_short_cluster [] \<lparr>MaxChangedChains = 1\<rparr> = Inr plan \<and>
     ChangedSlots plan \<noteq> [] \<and> int (length (ChangedSlots plan)) \<le> 1"
proof -
  let ?p = "\<lparr>MaxChangedChains = 1\<rparr>"
  let ?r = "PlanReconfiguration ex_short_cluster [] ?p"
  have wf: "wf_cluster ex_short_cluster" by code_simp
  have s: "list_all (settled_chain ex_short_cluster) (cs_Chains ex_short_cluster)" by code_simp
  have m: "0 < MaxChangedChains ?p" by simp
  have "case ?r of Inl _ \<Rightarrow> False | Inr plan \<Rightarrow> ChangedSlots plan \<noteq> []" by code_simp
  then obtain plan where p: "?r = Inr plan" "ChangedSlots plan \<noteq> []" by (cases ?r) auto
  from PlanReconfiguration_budget[OF p(1) wf s m] p show ?thesis by auto
qed

section \<open>Repair of a chain with dead replicas\<close>

definition alive_survivors :: "cluster_state \<Rightarrow> chain \<Rightarrow> replica list" where
  "alive_survivors st c =
     filter (\<lambda>r. fmlookup (cs_NodeHealthByID st) (replica_NodeID r) \<noteq> Some NodeHealthDead) (chain_Replicas c)"

lemma conflict_free_append_candidate:
  assumes "selectTailRepairCandidate st c = Some n" and "wf_nodes st"
    and "conflict_free (cs_NodesByID st) (chain_Replicas c)"
  shows "conflict_free (cs_NodesByID st) (chain_Replicas c @ [joining (node_ID n)])"
proof -
  note sel = selectReplicaCandidate_Some[OF assms(1)[unfolded selectTailRepairCandidate_def]]
  have n: "fm_get zero_node (cs_NodesByID st) (node_ID n) = n"
    using orderedNodes_indexed(2)[OF assms(2) sel(1)] by (simp add: fm_get_def)
  have "\<forall>r\<in>set (chain_Replicas c). \<not> hasFailureDomainConflict n
      (fm_get zero_node (cs_NodesByID st) (replica_NodeID r))"
    using sel(2) by (simp add: isEligible_iff)
  moreover from this have "\<forall>r\<in>set (chain_Replicas c).
      \<not> hasFailureDomainConflict (fm_get zero_node (cs_NodesByID st) (replica_NodeID r)) n"
    using hasFailureDomainConflict_sym by blast
  ultimately show ?thesis using assms(3) by (auto simp: conflict_free_def joining_def n)
qed

lemma repair_loop_spec:
  assumes "repair_loop k st slot steps = (st', steps')" and "wf_nodes st" and "slot < length (cs_Chains st)"
    and "chain_Replicas (cs_Chains st ! slot) = rs"
  shows "\<exists>added. st' = set_replicas st slot (rs @ map joining added) \<and>
    steps' = steps @ map (\<lambda>nid. append_step slot nid []) added \<and>
    distinct added \<and> set added \<inter> set (replicaIDs rs) = {} \<and> list_all (placeable st) added \<and>
    length added \<le> k \<and>
    (length added < k \<longrightarrow> selectTailRepairCandidate st' (cs_Chains st' ! slot) = None) \<and>
    (conflict_free (cs_NodesByID st) rs \<longrightarrow> conflict_free (cs_NodesByID st) (rs @ map joining added))"
  using assms
proof (induction k arbitrary: st steps rs)
  case 0
  then show ?case by (intro exI[of _ "[]"]) (auto simp: set_replicas_def)
next
  case (Suc k)
  show ?case
  proof (cases "selectTailRepairCandidate st (cs_Chains st ! slot)")
    case None
    with Suc.prems show ?thesis by (intro exI[of _ "[]"]) (auto simp: set_replicas_def)
  next
    case (Some n)
    note ok = selectTailRepairCandidate_ok[OF Some Suc.prems(2), unfolded Suc.prems(4)]
    define st1 where "st1 = append_joining st slot (node_ID n)"
    have st1: "st1 = set_replicas st slot (rs @ [joining (node_ID n)])"
      using Suc.prems(4) by (simp add: st1_def append_joining_def)
    have loop: "repair_loop k st1 slot (steps @ [append_step slot (node_ID n) []]) = (st', steps')"
      using Suc.prems(1) Some by (simp add: st1_def)
    have m: "placeable st1 = placeable st" "cs_NodesByID st1 = cs_NodesByID st" "wf_nodes st1"
      "slot < length (cs_Chains st1)" "chain_Replicas (cs_Chains st1 ! slot) = rs @ [joining (node_ID n)]"
      using Suc.prems(2,3) by (simp_all add: st1 set_replicas_def)
    obtain added where a: "st' = set_replicas st1 slot ((rs @ [joining (node_ID n)]) @ map joining added)"
      "steps' = (steps @ [append_step slot (node_ID n) []]) @ map (\<lambda>nid. append_step slot nid []) added"
      "distinct added" "set added \<inter> set (replicaIDs (rs @ [joining (node_ID n)])) = {}"
      "list_all (placeable st) added" "length added \<le> k"
      "length added < k \<longrightarrow> selectTailRepairCandidate st' (cs_Chains st' ! slot) = None"
      "conflict_free (cs_NodesByID st) (rs @ [joining (node_ID n)]) \<longrightarrow>
        conflict_free (cs_NodesByID st) ((rs @ [joining (node_ID n)]) @ map joining added)"
      using Suc.IH[OF loop m(3,4,5)] m(1,2) by auto
    have "node_ID n \<notin> set added" using a(4) by (auto simp: joining_def)
    moreover have "st' = set_replicas st slot (rs @ map joining (node_ID n # added))"
      using a(1) Suc.prems(3) by (simp add: st1 set_replicas_def)
    moreover have "conflict_free (cs_NodesByID st) rs \<longrightarrow>
        conflict_free (cs_NodesByID st) (rs @ map joining (node_ID n # added))"
      using a(8) conflict_free_append_candidate[OF Some Suc.prems(2)] Suc.prems(4) by simp
    ultimately show ?thesis using a ok by (intro exI[of _ "node_ID n # added"]) auto
  qed
qed

lemma set_replicas_nth [simp]:
  "slot < length (cs_Chains st) \<Longrightarrow>
     cs_Chains (set_replicas st slot rs) ! slot = (cs_Chains st ! slot)\<lparr>chain_Replicas := rs\<rparr>"
  by (simp add: set_replicas_def)

text \<open>
  C4. Repair of a slot that lost replicas: \<open>repairDeadReplicas\<close> fails, with
  \<open>ErrBrokenChain\<close>, exactly when a dead replica is present and no live replica is active.
  Otherwise the chain becomes its live replicas in their old order followed by
  joining replicas on fresh placeable nodes, never beyond the replication factor,
  short of it only when no further node is eligible, without introducing a
  failure-domain conflict, and the plan lists one append step per added node.
\<close>

theorem repairDeadReplicas_spec:
  assumes "wf_nodes st" and "slot < length (cs_Chains st)"
    and "chainContainsDeadReplica (cs_Chains st ! slot) (cs_NodeHealthByID st)"
  shows "if countActiveReplicas (alive_survivors st (cs_Chains st ! slot)) = 0
    then repairDeadReplicas slot st = Inl ErrBrokenChain
    else \<exists>added. let rs = alive_survivors st (cs_Chains st ! slot); rs' = rs @ map joining added;
           c' = (cs_Chains st ! slot)\<lparr>chain_Replicas := rs'\<rparr> in
         repairDeadReplicas slot st = Inr (set_chain st slot c',
           Some (slotPlan slot (cs_Chains st ! slot) c' (map (\<lambda>nid. append_step slot nid []) added))) \<and>
         distinct added \<and> set added \<inter> set (replicaIDs rs) = {} \<and> list_all (placeable st) added \<and>
         int (length rs') \<le> max (int (length rs)) (cs_ReplicationFactor st) \<and>
         (int (length rs') < cs_ReplicationFactor st \<longrightarrow>
           selectTailRepairCandidate (set_chain st slot c') c' = None) \<and>
         (conflict_free (cs_NodesByID st) rs \<longrightarrow> conflict_free (cs_NodesByID st) rs')"
proof (cases "countActiveReplicas (alive_survivors st (cs_Chains st ! slot)) = 0")
  case True
  with assms(3) show ?thesis by (simp add: repairDeadReplicas_def alive_survivors_def Let_def)
next
  case False
  let ?c = "cs_Chains st ! slot"
  let ?rs = "alive_survivors st ?c"
  let ?st1 = "set_replicas st slot ?rs"
  obtain st' steps where loop: "repair_loop (nat (cs_ReplicationFactor st - int (length ?rs))) ?st1 slot []
      = (st', steps)" by force
  have m: "wf_nodes ?st1" "slot < length (cs_Chains ?st1)" "chain_Replicas (cs_Chains ?st1 ! slot) = ?rs"
    "placeable ?st1 = placeable st" "cs_NodesByID ?st1 = cs_NodesByID st"
    using assms(1,2) by (simp_all add: set_replicas_def)
  note spec = repair_loop_spec[OF loop m(1,2,3), unfolded m(4,5)]
  then obtain added where a: "st' = set_replicas ?st1 slot (?rs @ map joining added)"
    "steps = map (\<lambda>nid. append_step slot nid []) added" "distinct added"
    "set added \<inter> set (replicaIDs ?rs) = {}" "list_all (placeable st) added"
    "length added \<le> nat (cs_ReplicationFactor st - int (length ?rs))"
    "length added < nat (cs_ReplicationFactor st - int (length ?rs)) \<longrightarrow>
      selectTailRepairCandidate st' (cs_Chains st' ! slot) = None"
    "conflict_free (cs_NodesByID st) ?rs \<longrightarrow> conflict_free (cs_NodesByID st) (?rs @ map joining added)"
    by auto
  define c' where "c' = ?c\<lparr>chain_Replicas := ?rs @ map joining added\<rparr>"
  have st': "st' = set_chain st slot c'" using a(1) assms(2) by (simp add: set_replicas_def c'_def)
  have "c' \<noteq> ?c"
  proof
    assume "c' = ?c"
    then have "chain_Replicas ?c = ?rs @ map joining added"
      unfolding c'_def by (metis chain.select_convs(2) chain.surjective chain.update_convs(2))
    moreover obtain r where "r \<in> set (chain_Replicas ?c)"
      and dead: "fmlookup (cs_NodeHealthByID st) (replica_NodeID r) = Some NodeHealthDead"
      using assms(3) by (auto simp: chainContainsDeadReplica_def list_ex_iff)
    ultimately have "r \<in> set (?rs @ map joining added)" by metis
    with dead a(5) show False
      by (auto simp: alive_survivors_def joining_def list_all_iff placeable_def)
  qed
  then have "repairDeadReplicas slot st = Inr (set_chain st slot c', Some (slotPlan slot ?c c' steps))"
    using assms(2,3) False loop st'
    by (simp add: repairDeadReplicas_def alive_survivors_def[symmetric] Let_def)
  moreover have "int (length (?rs @ map joining added)) < cs_ReplicationFactor st \<longrightarrow>
      selectTailRepairCandidate (set_chain st slot c') c' = None"
    using a(7) st' assms(2) by simp
  moreover have "int (length (?rs @ map joining added)) \<le> max (int (length ?rs)) (cs_ReplicationFactor st)"
    using a(6) by simp
  ultimately show ?thesis
    unfolding if_not_P[OF False] Let_def using a(2,3,4,5,8)
    by (intro exI[of _ added]) (simp only: c'_def[symmetric] simp_thms)
qed

text \<open>A node died that served both slots; the third node replaces it in slot 0.\<close>

theorem repairDeadReplicas_spec_witness:
  "chainContainsDeadReplica (cs_Chains ex_dead_cluster ! 0) (cs_NodeHealthByID ex_dead_cluster) \<and>
   (\<exists>added. map replica_NodeID (alive_survivors ex_dead_cluster (cs_Chains ex_dead_cluster ! 0)) = [''a''] \<and>
      distinct added \<and> ''a'' \<notin> set added \<and> list_all (placeable ex_dead_cluster) added)"
proof -
  let ?s = "alive_survivors ex_dead_cluster (cs_Chains ex_dead_cluster ! 0)"
  have wf: "wf_nodes ex_dead_cluster" by code_simp
  have l: "0 < length (cs_Chains ex_dead_cluster)" by code_simp
  have d: "chainContainsDeadReplica (cs_Chains ex_dead_cluster ! 0) (cs_NodeHealthByID ex_dead_cluster)"
    by code_simp
  have nz: "countActiveReplicas ?s \<noteq> 0" by code_simp
  have ids: "map replica_NodeID ?s = [''a'']" by code_simp
  then have a: "''a'' \<in> set (replicaIDs ?s)" by (simp add: replicaIDs_def)
  note spec = repairDeadReplicas_spec[OF wf l d, unfolded if_not_P[OF nz] Let_def]
  from spec obtain added where added: "distinct added" "set added \<inter> set (replicaIDs ?s) = {}"
    "list_all (placeable ex_dead_cluster) added"
    by (elim exE conjE)
  have "''a'' \<notin> set added" using added(2) a by (meson disjoint_iff)
  with d ids added(1,3) show ?thesis by (intro conjI exI[of _ added])
qed

section \<open>Progress reports\<close>

lemma validateNodeOrder_total:
  "distinct ord \<Longrightarrow> set ord \<inter> set seen = {} \<Longrightarrow> list_all (fm_has nodes) ord \<Longrightarrow>
     \<exists>h. validateNodeOrder ord seen nodes health = Inr h"
  by (induction ord seen nodes health rule: validateNodeOrder.induct) auto

lemma cloneAndValidateState_total:
  assumes "wf_cluster st"
  shows "\<exists>w. cloneAndValidateState st = Inr w"
proof -
  have rl: "map (\<lambda>(i, c). c\<lparr>chain_Slot := int i\<rparr>) (enumerate 0 (cs_Chains st)) = cs_Chains st"
    using assms by (intro relabel_id) (simp add: wf_cluster_def)
  note w = wf_cluster_D(1)[OF assms]
  have ord: "(if cs_NodeOrder st = [] then sorted_list_of_fset (fmdom (cs_NodesByID st))
      else cs_NodeOrder st) = cs_NodeOrder st"
    using w by (auto simp: wf_nodes_def sorted_list_of_fset.rep_eq)
  obtain h where "validateNodeOrder (cs_NodeOrder st) [] (cs_NodesByID st) (cs_NodeHealthByID st) = Inr h"
    using validateNodeOrder_total[of "cs_NodeOrder st" "[]" "cs_NodesByID st" "cs_NodeHealthByID st"] w
    by (auto simp: wf_nodes_def list_all_iff fm_has_dom)
  moreover have "list_all (\<lambda>c. list_all (\<lambda>r. fm_has (cs_NodesByID st) (replica_NodeID r)) (chain_Replicas c))
      (cs_Chains st)"
    using assms by (auto simp: wf_cluster_def wf_chain_def list_all_iff set_replicaIDs)
  ultimately show ?thesis
    using assms unfolding cloneAndValidateState_def Let_def rl ord
    by (simp add: validateConfig_def wf_cluster_def)
qed

lemma update_at_key:
  assumes "distinct (map f xs)" and "i < length xs" and "f (xs ! i) = k"
  shows "xs[i := g (xs ! i)] = map (\<lambda>x. if f x = k then g x else x) xs"
    and "take i xs @ drop (Suc i) xs = filter (\<lambda>x. f x \<noteq> k) xs"
    and "(\<exists>x\<in>set xs. f x = k \<and> P x) \<longleftrightarrow> P (xs ! i)"
  using assms
proof (induction xs arbitrary: i)
  case (Cons x xs)
  { case 1 then show ?case using Cons.IH(1)
      by (cases i) (auto intro!: map_idI[symmetric] simp: rev_image_eqI) }
  { case 2 then show ?case using Cons.IH(2)
      by (cases i) (auto intro!: filter_True[symmetric] simp: rev_image_eqI) }
  { case 3 then show ?case using Cons.IH(3) by (cases i) (auto simp: rev_image_eqI) }
qed simp_all

text \<open>What a progress report does to the chains, read off the protocol rather than the code.\<close>

definition progress_spec :: "cluster_state \<Rightarrow> event \<Rightarrow> chain list option" where
  "progress_spec st e =
     (let slot = nat (ev_Slot e); nid = ev_NodeID e; c = cs_Chains st ! slot; rs = chain_Replicas c;
          in_state = (\<lambda>s. \<exists>r\<in>set rs. replica_NodeID r = nid \<and> replica_State r = s)
      in if ev_Slot e < 0 \<or> cs_SlotCount st \<le> ev_Slot e \<or> nid = [] then None
         else if ev_Kind e = EventKindReplicaBecameActive \<and> in_state ReplicaStateJoining
           then Some ((cs_Chains st)[slot := c\<lparr>chain_Replicas :=
             map (\<lambda>r. if replica_NodeID r = nid then r\<lparr>replica_State := ReplicaStateActive\<rparr> else r) rs\<rparr>])
         else if ev_Kind e = EventKindReplicaRemoved \<and>
             (in_state ReplicaStateLeaving \<or> nid \<in> set (replicaIDs rs) \<and>
              fmlookup (cs_NodeHealthByID st) nid = Some NodeHealthDead)
           then Some ((cs_Chains st)[slot := c\<lparr>chain_Replicas := filter (\<lambda>r. replica_NodeID r \<noteq> nid) rs\<rparr>])
         else None)"

lemma applyProgressEvent_spec:
  assumes wf: "wf_cluster st"
    and kind: "ev_Kind e = EventKindReplicaBecameActive \<or> ev_Kind e = EventKindReplicaRemoved"
  shows "(case applyProgressEvent st e of Inl _ \<Rightarrow> None | Inr st' \<Rightarrow> Some (cs_Chains st')) = progress_spec st e"
proof (cases "ev_Slot e < 0 \<or> cs_SlotCount st \<le> ev_Slot e \<or> ev_NodeID e = []")
  case True
  then show ?thesis by (auto simp: applyProgressEvent_def progress_spec_def)
next
  case False
  define c where "c = cs_Chains st ! nat (ev_Slot e)"
  have "nat (ev_Slot e) < length (cs_Chains st)" using False wf by (auto simp: wf_cluster_def)
  then have dist: "distinct (map replica_NodeID (chain_Replicas c))"
    using wf_cluster_chain[OF wf] by (simp add: wf_chain_def replicaIDs_def c_def)
  show ?thesis
  proof (cases "findReplicaIndex c (ev_NodeID e)")
    case None
    then have fresh: "ev_NodeID e \<notin> set (replicaIDs (chain_Replicas c))" by (simp add: findReplicaIndex_None)
    then have "\<not> (\<exists>r\<in>set (chain_Replicas c). replica_NodeID r = ev_NodeID e \<and> replica_State r = s)" for s
      by (metis image_eqI set_replicaIDs)
    with False None fresh show ?thesis
      unfolding applyProgressEvent_def progress_spec_def c_def[symmetric] Let_def by simp
  next
    case (Some i)
    from findReplicaIndex_Some[OF Some] have i: "i < length (chain_Replicas c)"
      "replica_NodeID (chain_Replicas c ! i) = ev_NodeID e" by simp_all
    note upd = update_at_key(1)[OF dist i, of "\<lambda>r. r\<lparr>replica_State := ReplicaStateActive\<rparr>", symmetric]
    note del = update_at_key(2)[OF dist i, symmetric]
    note at = update_at_key(3)[OF dist i, of "\<lambda>r. replica_State r = ReplicaStateJoining"]
      update_at_key(3)[OF dist i, of "\<lambda>r. replica_State r = ReplicaStateLeaving"]
    have mem: "ev_NodeID e \<in> set (replicaIDs (chain_Replicas c))"
      using i by (metis image_eqI nth_mem set_replicaIDs)
    from kind show ?thesis
    proof
      assume k: "ev_Kind e = EventKindReplicaBecameActive"
      show ?thesis
        unfolding applyProgressEvent_def progress_spec_def c_def[symmetric] Let_def at upd
        using False Some k by (simp add: set_replicas_def set_chain_def c_def)
    next
      assume k: "ev_Kind e = EventKindReplicaRemoved"
      show ?thesis
        unfolding applyProgressEvent_def progress_spec_def c_def[symmetric] Let_def at del
        using False Some k mem by (simp add: set_replicas_def set_chain_def c_def)
    qed
  qed
qed

text \<open>
  C5. A progress report does what the protocol says and nothing else: on a
  well-formed state \<open>ApplyProgress\<close> succeeds exactly when the report names a slot in
  range and a replica of it that is joining (for "became active") or leaving or dead
  (for "removed"); it then activates that replica in place, or removes it, and leaves
  every other replica and every other chain as it was.
\<close>

theorem ApplyProgress_refines_spec:
  assumes "wf_cluster st"
  shows "(case ApplyProgress st e of Inl _ \<Rightarrow> None | Inr st' \<Rightarrow> Some (cs_Chains st')) = progress_spec st e"
proof -
  obtain w where w: "cloneAndValidateState st = Inr w" using cloneAndValidateState_total[OF assms] by blast
  note v = cloneAndValidateState_wf[OF w assms]
  have "cs_SlotCount w = cs_SlotCount st"
    using v(1,5) assms by (simp add: wf_cluster_def)
  then have spec: "progress_spec w e = progress_spec st e" 
    unfolding progress_spec_def v(1,4) by (simp only:)
  show ?thesis
  proof (cases "ev_Kind e = EventKindReplicaBecameActive \<or> ev_Kind e = EventKindReplicaRemoved")
    case True
    with applyProgressEvent_spec[OF v(5) True] w spec show ?thesis by (auto simp: ApplyProgress_def)
  next
    case False
    with w show ?thesis by (auto simp: ApplyProgress_def progress_spec_def Let_def)
  qed
qed

theorem ApplyProgress_refines_spec_witness:
  "wf_cluster ex_cluster \<and>
   (case ApplyProgress ex_cluster (ex_event EventKindReplicaRemoved 0 ''a'') of
      Inl _ \<Rightarrow> None | Inr st' \<Rightarrow> Some (cs_Chains st')) =
     progress_spec ex_cluster (ex_event EventKindReplicaRemoved 0 ''a'') \<and>
   (case ApplyProgress ex_dead_cluster (ex_event EventKindReplicaRemoved 1 ''b'') of
      Inl _ \<Rightarrow> None | Inr st' \<Rightarrow> Some (cs_Chains st')) =
     progress_spec ex_dead_cluster (ex_event EventKindReplicaRemoved 1 ''b'') \<and>
   progress_spec ex_dead_cluster (ex_event EventKindReplicaRemoved 1 ''b'') \<noteq> None"
proof -
  have wf: "wf_cluster ex_dead_cluster"
    and s: "progress_spec ex_dead_cluster (ex_event EventKindReplicaRemoved 1 ''b'') \<noteq> None" by code_simp+
  show ?thesis
    by (intro conjI ex_cluster_ok(1) ApplyProgress_refines_spec[OF ex_cluster_ok(1)]
        ApplyProgress_refines_spec[OF wf] s)
qed

end
