(* ===== verification/Storage_Types.thy ===== *)
theory Storage_Types
  imports Cluster
begin

text \<open>
  Data types of package \<open>storage\<close> (\<open>storage/storage.go\<close>) that cross component
  boundaries: replica roles, chain peers, assignments, node status.  String enumerations
  keep one constructor for values outside the declared constants, whose empty string is
  Go's zero value.
\<close>

datatype ReplicaRole =
    ReplicaRoleSingle
  | ReplicaRoleHead
  | ReplicaRoleMiddle
  | ReplicaRoleTail
  | ReplicaRoleOther string

datatype storage_ReplicaState =
    ReplicaStatePending_s
  | ReplicaStateCatchingUp_s
  | ReplicaStateActive_s
  | ReplicaStateLeaving_s
  | ReplicaStateRecovered_s
  | ReplicaStateRemoved_s
  | ReplicaStateOther_s string

record chain_peers =
  PredecessorNodeID :: string
  PredecessorTarget :: string
  SuccessorNodeID :: string
  SuccessorTarget :: string
  TailNodeID :: string
  TailTarget :: string

definition zero_peers :: chain_peers where
  "zero_peers = \<lparr>PredecessorNodeID = [], PredecessorTarget = [], SuccessorNodeID = [],
     SuccessorTarget = [], TailNodeID = [], TailTarget = []\<rparr>"

record replica_assignment =
  ra_Slot :: int
  ra_ChainVersion :: u64
  ra_Role :: ReplicaRole
  ra_Peers :: chain_peers

definition zero_assignment :: replica_assignment where
  "zero_assignment = \<lparr>ra_Slot = 0, ra_ChainVersion = 0, ra_Role = ReplicaRoleOther [], ra_Peers = zero_peers\<rparr>"

record node_status =
  ns_NodeID :: string
  ns_ReplicaCount :: int
  ns_ActiveCount :: int
  ns_CatchingUpCount :: int
  ns_LeavingCount :: int

definition zero_status :: node_status where
  "zero_status = \<lparr>ns_NodeID = [], ns_ReplicaCount = 0, ns_ActiveCount = 0, ns_CatchingUpCount = 0,
     ns_LeavingCount = 0\<rparr>"

end
