(* ===== verification/Runtime.thy ===== *)
theory Runtime
  imports Plan_Safety Storage_Types
begin

text \<open>
  The replicated-state-machine layer of the coordinator
  (\<open>coordinator/runtime/runtime.go\<close>): the durable state, its commands, command
  validation and execution, the next-state functions for slot versions, progress
  history, node liveness, pending work and the outbox, and the read views.
  Cloning of immutable values is the identity, except \<open>cloneClusterState\<close>, which
  drops false readiness flags.  A nil dereference is the error \<open>RtPanic\<close>.
\<close>

section \<open>Types\<close>

datatype rt_err =
    ErrInvalidCommand
  | ErrVersionMismatch
  | ErrCommandConflict
  | ErrAlreadyInitialized
  | ErrNotInitialized
  | ErrRecovery "rt_err option"
  | CoordErr coord_err
  | StoreErr string  \<comment> \<open>an error of the \<open>Store\<close> implementation\<close>
  | RtPanic  \<comment> \<open>a nil dereference\<close>

datatype PendingKind = PendingKindReady | PendingKindRemoved

record pending_work =
  pw_Slot :: int
  pw_NodeID :: string
  pw_Kind :: PendingKind
  pw_SlotVersion :: u64
  pw_CommandID :: string

datatype OutboxCommandKind =
    OutboxCommandKindAddReplicaAsTail
  | OutboxCommandKindMarkReplicaLeaving
  | OutboxCommandKindUpdateChainPeers

record outbox_entry =
  oe_ID :: string
  oe_Slot :: int
  oe_NodeID :: string
  oe_Kind :: OutboxCommandKind
  oe_CommandID :: string
  oe_Assignment :: replica_assignment

datatype CompletedProgressKind = CompletedProgressKindReady | CompletedProgressKindRemoved

record completed_progress =
  cp_NodeID :: string
  cp_Kind :: CompletedProgressKind
  cp_SlotVersion :: u64

datatype NodeLivenessState =
    NodeLivenessStateHealthy
  | NodeLivenessStateSuspect
  | NodeLivenessStateDead
  | NodeLivenessStateOther string

text \<open>Times are \<open>int64\<close> nanoseconds, kept as 64-bit words and read with \<open>sint\<close>.\<close>

record node_liveness =
  nl_LastHeartbeatUnixNano :: u64
  nl_UpdatedAtUnixNano :: u64
  nl_State :: NodeLivenessState
  nl_LastStatus :: node_status
  nl_DeadActionFired :: bool
  nl_SuspectTransitionsUnixNano :: "u64 list"

definition zero_liveness :: node_liveness where
  "zero_liveness = \<lparr>nl_LastHeartbeatUnixNano = 0, nl_UpdatedAtUnixNano = 0,
     nl_State = NodeLivenessStateOther [], nl_LastStatus = zero_status, nl_DeadActionFired = False,
     nl_SuspectTransitionsUnixNano = []\<rparr>"

datatype CommandKind =
    CommandKindBootstrap
  | CommandKindReconfigure
  | CommandKindProgress
  | CommandKindNodeReady
  | CommandKindHeartbeat
  | CommandKindLiveness
  | CommandKindAcknowledgeOutbox
  | CommandKindOther string

record bootstrap_command =
  bc_Config :: config
  bc_Nodes :: "node list"
  bc_Policy :: reconfiguration_policy

record reconfigure_command =
  rc_Events :: "event list"
  rc_Policy :: reconfiguration_policy

record progress_command =
  pc_Event :: event

record observed_command =  \<comment> \<open>\<open>NodeReadyCommand\<close> and \<open>HeartbeatCommand\<close> have the same fields\<close>
  ob_Status :: node_status
  ob_ObservedAtUnixNano :: u64
  ob_FlapWindowNanos :: u64

record liveness_command =
  lc_NodeID :: string
  lc_State :: NodeLivenessState
  lc_EvaluatedAtUnixNano :: u64
  lc_DeadActionFired :: bool
  lc_FlapWindowNanos :: u64

record acknowledge_command =
  ak_EntryID :: string
  ak_EntryIDs :: "string list"

record command =
  cmd_ID :: string
  cmd_ExpectedVersion :: u64
  cmd_Kind :: CommandKind
  cmd_Bootstrap :: "bootstrap_command option"
  cmd_Reconfigure :: "reconfigure_command option"
  cmd_Progress :: "progress_command option"
  cmd_NodeReady :: "observed_command option"
  cmd_Heartbeat :: "observed_command option"
  cmd_Liveness :: "liveness_command option"
  cmd_AcknowledgeOutbox :: "acknowledge_command option"

type_synonym slot_versions = "(int, u64) fmap"
type_synonym completed_map = "(int, completed_progress list) fmap"
type_synonym liveness_map = "(string, node_liveness) fmap"
type_synonym pending_map = "(int, pending_work) fmap"

record applied_command =
  ap_Command :: command
  ap_Version :: u64
  ap_LastLogIndex :: u64
  ap_Cluster :: cluster_state
  ap_SlotVersions :: slot_versions
  ap_CompletedProgressBySlot :: completed_map
  ap_NodeLivenessByID :: liveness_map
  ap_PendingBySlot :: pending_map
  ap_Outbox :: "outbox_entry list"
  ap_LastPolicy :: reconfiguration_policy
  ap_Plan :: "reconfiguration_plan option"

record rt_state =
  st_Version :: u64
  st_LastLogIndex :: u64
  st_Cluster :: cluster_state
  st_SlotVersions :: slot_versions
  st_CompletedProgressBySlot :: completed_map
  st_NodeLivenessByID :: liveness_map
  st_PendingBySlot :: pending_map
  st_Outbox :: "outbox_entry list"
  st_LastPolicy :: reconfiguration_policy
  st_AppliedCommands :: "(string, applied_command) fmap"

definition zero_cluster :: cluster_state where
  "zero_cluster = \<lparr>cs_Chains = [], cs_NodesByID = fmempty, cs_NodeHealthByID = fmempty,
     cs_ReadyNodeIDs = fmempty, cs_DrainingNodeIDs = fmempty, cs_NodeOrder = [], cs_SlotCount = 0,
     cs_ReplicationFactor = 0\<rparr>"

definition zeroState :: rt_state where
  "zeroState = \<lparr>st_Version = 0, st_LastLogIndex = 0, st_Cluster = zero_cluster, st_SlotVersions = fmempty,
     st_CompletedProgressBySlot = fmempty, st_NodeLivenessByID = fmempty, st_PendingBySlot = fmempty,
     st_Outbox = [], st_LastPolicy = \<lparr>MaxChangedChains = 0\<rparr>, st_AppliedCommands = fmempty\<rparr>"

section \<open>Cloning\<close>

text \<open>Copying a boolean map entry by entry when the entry is true.\<close>

definition true_flags :: "('k, bool) fmap \<Rightarrow> ('k, bool) fmap" where
  "true_flags m = fmfilter (flag m) m"

definition cloneClusterState :: "cluster_state \<Rightarrow> cluster_state" where
  "cloneClusterState st = st\<lparr>cs_ReadyNodeIDs := true_flags (cs_ReadyNodeIDs st)\<rparr>"

definition clonePlan :: "reconfiguration_plan option \<Rightarrow> reconfiguration_plan option" where
  "clonePlan plan = map_option (\<lambda>p. p\<lparr>UpdatedState := cloneClusterState (UpdatedState p)\<rparr>) plan"

definition cloneAppliedCommand :: "applied_command \<Rightarrow> applied_command" where
  "cloneAppliedCommand a = a\<lparr>ap_Cluster := cloneClusterState (ap_Cluster a), ap_Plan := clonePlan (ap_Plan a)\<rparr>"

definition cloneState :: "rt_state \<Rightarrow> rt_state" where
  "cloneState st = st\<lparr>st_Cluster := cloneClusterState (st_Cluster st),
     st_AppliedCommands := fmmap cloneAppliedCommand (st_AppliedCommands st)\<rparr>"

definition cloneStateForNextApplied :: "rt_state \<Rightarrow> rt_state" where
  "cloneStateForNextApplied st = st\<lparr>st_Cluster := cloneClusterState (st_Cluster st)\<rparr>"

section \<open>Identifiers and assignments\<close>

fun show_OutboxCommandKind :: "OutboxCommandKind \<Rightarrow> string" where
  "show_OutboxCommandKind OutboxCommandKindAddReplicaAsTail = ''add_replica_as_tail''"
| "show_OutboxCommandKind OutboxCommandKindMarkReplicaLeaving = ''mark_replica_leaving''"
| "show_OutboxCommandKind OutboxCommandKindUpdateChainPeers = ''update_chain_peers''"

definition outboxEntryID :: "u64 \<Rightarrow> int \<Rightarrow> string \<Rightarrow> OutboxCommandKind \<Rightarrow> string" where
  "outboxEntryID version slot nodeID kind =
     ''outbox-v'' @ dec_u64 version @ ''-slot'' @ dec_int slot @ ''-'' @ nodeID @ ''-'' @
     show_OutboxCommandKind kind"

definition outboxCommandID :: "u64 \<Rightarrow> int \<Rightarrow> string \<Rightarrow> string \<Rightarrow> string" where
  "outboxCommandID version slot nodeID suffix =
     ''server-v'' @ dec_u64 version @ ''-slot'' @ dec_int slot @ ''-'' @ nodeID @ ''-'' @ suffix"

definition assignmentForNode ::
  "chain \<Rightarrow> (string, node) fmap \<Rightarrow> string \<Rightarrow> u64 \<Rightarrow> replica_assignment option" where
  "assignmentForNode c nodesByID nodeID chainVersion =
     (let rs = chain_Replicas c
      in case findReplicaIndex c nodeID of
           None \<Rightarrow> None
         | Some position \<Rightarrow>
             let role = (if length rs = 1 then ReplicaRoleSingle
                         else if position = 0 then ReplicaRoleHead
                         else if position = length rs - 1 then ReplicaRoleTail
                         else ReplicaRoleMiddle);
                 target = (\<lambda>nid. node_RPCAddress (fm_get zero_node nodesByID nid));
                 peers0 = (if position > 0
                           then let p = replica_NodeID (rs ! (position - 1))
                                in zero_peers\<lparr>PredecessorNodeID := p, PredecessorTarget := target p\<rparr>
                           else zero_peers);
                 peers = (if position + 1 < length rs
                          then let s = replica_NodeID (rs ! (position + 1))
                               in peers0\<lparr>SuccessorNodeID := s, SuccessorTarget := target s\<rparr>
                          else peers0)
             in Some \<lparr>ra_Slot = chain_Slot c, ra_ChainVersion = chainVersion, ra_Role = role,
                      ra_Peers = peers\<rparr>)"

definition activeServingChain :: "chain \<Rightarrow> chain" where
  "activeServingChain c = \<lparr>chain_Slot = chain_Slot c, chain_Replicas = filter is_active (chain_Replicas c)\<rparr>"

definition activeAfterNodeIDs :: "chain \<Rightarrow> (string, bool) fmap \<Rightarrow> string list" where
  "activeAfterNodeIDs c skipped =
     map replica_NodeID
       (filter (\<lambda>r. \<not> flag skipped (replica_NodeID r)) (filter is_active (chain_Replicas c)))"

fun distinctStepKinds_loop :: "StepKind list \<Rightarrow> reconfiguration_step list \<Rightarrow> StepKind list" where
  "distinctStepKinds_loop seen [] = seen"
| "distinctStepKinds_loop seen (s # steps) =
     (if step_Kind s \<in> set seen then distinctStepKinds_loop seen steps
      else distinctStepKinds_loop (seen @ [step_Kind s]) steps)"

definition distinctStepKinds :: "reconfiguration_step list \<Rightarrow> StepKind list" where
  "distinctStepKinds steps = distinctStepKinds_loop [] steps"

fun firstStepNodeID :: "reconfiguration_step list \<Rightarrow> StepKind \<Rightarrow> string" where
  "firstStepNodeID [] kind = []"
| "firstStepNodeID (s # steps) kind = (if step_Kind s = kind then step_NodeID s else firstStepNodeID steps kind)"

definition outboxAckEntryIDs :: "acknowledge_command \<Rightarrow> string list" where
  "outboxAckEntryIDs cmd =
     (if ak_EntryIDs cmd \<noteq> [] then ak_EntryIDs cmd
      else if ak_EntryID cmd = [] then [] else [ak_EntryID cmd])"

definition outboxEntryExists :: "outbox_entry list \<Rightarrow> string \<Rightarrow> bool" where
  "outboxEntryExists current entryID = list_ex (\<lambda>e. oe_ID e = entryID) current"

definition outboxEntriesExist :: "outbox_entry list \<Rightarrow> string list \<Rightarrow> bool" where
  "outboxEntriesExist current entryIDs = list_ex (outboxEntryExists current) entryIDs"

section \<open>Next-state functions\<close>

definition nextClusterState :: "cluster_state \<Rightarrow> command \<Rightarrow> cluster_state" where
  "nextClusterState current cmd =
     (let next = cloneClusterState current;
          mark = (\<lambda>st oc. case oc of
            None \<Rightarrow> st
          | Some ob \<Rightarrow>
              let nodeID = ns_NodeID (ob_Status ob)
              in if fmlookup (cs_NodeHealthByID st) nodeID \<noteq> Some NodeHealthDead
                 then st\<lparr>cs_ReadyNodeIDs := fmupd nodeID True (cs_ReadyNodeIDs st)\<rparr> else st);
          next1 = (if cmd_Kind cmd = CommandKindNodeReady then mark next (cmd_NodeReady cmd) else next)
      in if cmd_Kind cmd = CommandKindHeartbeat then mark next1 (cmd_Heartbeat cmd) else next1)"

definition nextSlotVersions ::
  "slot_versions \<Rightarrow> CommandKind \<Rightarrow> cluster_state \<Rightarrow> reconfiguration_plan option \<Rightarrow> slot_versions" where
  "nextSlotVersions current kind cluster plan =
     (case kind of
        CommandKindBootstrap \<Rightarrow>
          fold (\<lambda>c. fmupd (chain_Slot c) (fm_get 0 current (chain_Slot c) + 1)) (cs_Chains cluster) fmempty
      | CommandKindReconfigure \<Rightarrow>
          (case plan of
             None \<Rightarrow> current
           | Some p \<Rightarrow>
               fold (\<lambda>sp. fmupd (sp_Slot sp) (fm_get 0 current (sp_Slot sp) + 1)) (ChangedSlots p) current)
      | _ \<Rightarrow> current)"

definition completedProgressHistoryLimit :: nat where
  "completedProgressHistoryLimit = 8"

definition nextCompletedProgress :: "completed_map \<Rightarrow> slot_versions \<Rightarrow> command \<Rightarrow> completed_map" where
  "nextCompletedProgress current slotVersions cmd =
     (if cmd_Kind cmd \<noteq> CommandKindProgress then current
      else case cmd_Progress cmd of
             None \<Rightarrow> current
           | Some pc \<Rightarrow>
               let e = pc_Event pc;
                   add = (\<lambda>kind.
                     let slot = ev_Slot e;
                         rec = \<lparr>cp_NodeID = ev_NodeID e, cp_Kind = kind, cp_SlotVersion = fm_get 0 slotVersions slot\<rparr>;
                         rs = fm_get [] current slot @ [rec];
                         kept = (if length rs > completedProgressHistoryLimit
                                 then drop (length rs - completedProgressHistoryLimit) rs else rs)
                     in fmupd slot kept current)
               in case ev_Kind e of
                    EventKindReplicaBecameActive \<Rightarrow> add CompletedProgressKindReady
                  | EventKindReplicaRemoved \<Rightarrow> add CompletedProgressKindRemoved
                  | _ \<Rightarrow> current)"

definition pruneSuspectTransitions :: "u64 list \<Rightarrow> u64 \<Rightarrow> u64 \<Rightarrow> u64 list" where
  "pruneSuspectTransitions current observedAt flapWindow =
     (if current = [] then []
      else if observedAt = 0 \<or> sint flapWindow \<le> 0 then current
      else let cutoff = observedAt - flapWindow
           in filter (\<lambda>ts. sint ts \<ge> sint cutoff) current)"

definition observe_node :: "liveness_map \<Rightarrow> observed_command \<Rightarrow> liveness_map" where
  "observe_node next ob =
     (let nodeID = ns_NodeID (ob_Status ob);
          r0 = fm_get zero_liveness next nodeID;
          r1 = r0\<lparr>nl_LastHeartbeatUnixNano := ob_ObservedAtUnixNano ob,
                  nl_UpdatedAtUnixNano := ob_ObservedAtUnixNano ob,
                  nl_LastStatus := ob_Status ob,
                  nl_SuspectTransitionsUnixNano :=
                    pruneSuspectTransitions (nl_SuspectTransitionsUnixNano r0)
                      (ob_ObservedAtUnixNano ob) (ob_FlapWindowNanos ob)\<rparr>;
          r2 = (if nl_State r1 \<noteq> NodeLivenessStateDead
                then r1\<lparr>nl_State := NodeLivenessStateHealthy, nl_DeadActionFired := False\<rparr> else r1)
      in fmupd nodeID r2 next)"

definition evaluate_liveness :: "liveness_map \<Rightarrow> liveness_command \<Rightarrow> liveness_map" where
  "evaluate_liveness next lc =
     (let r0 = fm_get zero_liveness next (lc_NodeID lc); at = lc_EvaluatedAtUnixNano lc;
          r1 = (if at \<noteq> 0 then r0\<lparr>nl_UpdatedAtUnixNano := at\<rparr> else r0);
          r2 = r1\<lparr>nl_SuspectTransitionsUnixNano :=
                 pruneSuspectTransitions (nl_SuspectTransitionsUnixNano r1) at (lc_FlapWindowNanos lc)\<rparr>;
          r3 = (if lc_State lc = NodeLivenessStateSuspect \<and> nl_State r2 \<noteq> NodeLivenessStateSuspect \<and> at \<noteq> 0
                then r2\<lparr>nl_SuspectTransitionsUnixNano := nl_SuspectTransitionsUnixNano r2 @ [at]\<rparr> else r2);
          r4 = r3\<lparr>nl_State := lc_State lc, nl_DeadActionFired := lc_DeadActionFired lc\<rparr>;
          r5 = (if at \<noteq> 0 \<and> nl_LastHeartbeatUnixNano r4 = 0 then r4\<lparr>nl_LastHeartbeatUnixNano := at\<rparr> else r4)
      in fmupd (lc_NodeID lc) r5 next)"

definition nextNodeLiveness :: "liveness_map \<Rightarrow> command \<Rightarrow> rt_err + liveness_map" where
  "nextNodeLiveness current cmd =
     (case cmd_Kind cmd of
        CommandKindNodeReady \<Rightarrow>
          (case cmd_NodeReady cmd of None \<Rightarrow> Inl RtPanic | Some ob \<Rightarrow> Inr (observe_node current ob))
      | CommandKindHeartbeat \<Rightarrow>
          (case cmd_Heartbeat cmd of None \<Rightarrow> Inl RtPanic | Some ob \<Rightarrow> Inr (observe_node current ob))
      | CommandKindLiveness \<Rightarrow>
          (case cmd_Liveness cmd of None \<Rightarrow> Inl RtPanic | Some lc \<Rightarrow> Inr (evaluate_liveness current lc))
      | _ \<Rightarrow> Inr current)"

definition nextLastPolicy :: "reconfiguration_policy \<Rightarrow> command \<Rightarrow> reconfiguration_policy" where
  "nextLastPolicy current cmd =
     (case (cmd_Kind cmd, cmd_Bootstrap cmd, cmd_Reconfigure cmd) of
        (CommandKindBootstrap, Some b, _) \<Rightarrow> bc_Policy b
      | (CommandKindReconfigure, _, Some r) \<Rightarrow> rc_Policy r
      | _ \<Rightarrow> current)"

definition pending_for_plan :: "slot_versions \<Rightarrow> slot_plan \<Rightarrow> pending_map \<Rightarrow> pending_map" where
  "pending_for_plan slotVersions sp current =
     (let next = fmdrop (sp_Slot sp) current;
          kinds = distinctStepKinds (sp_Steps sp);
          put = (\<lambda>stepKind kind.
            let nodeID = firstStepNodeID (sp_Steps sp) stepKind
            in if nodeID = [] then next
               else fmupd (sp_Slot sp)
                      \<lparr>pw_Slot = sp_Slot sp, pw_NodeID = nodeID, pw_Kind = kind,
                       pw_SlotVersion = fm_get 0 slotVersions (sp_Slot sp), pw_CommandID = []\<rparr> next)
      in if kinds = [StepKindAppendTail] then put StepKindAppendTail PendingKindReady
         else if kinds = [StepKindMarkLeaving] then put StepKindMarkLeaving PendingKindRemoved
         else next)"

definition pendingFromPlan :: "pending_map \<Rightarrow> slot_versions \<Rightarrow> reconfiguration_plan \<Rightarrow> pending_map" where
  "pendingFromPlan current slotVersions plan = fold (pending_for_plan slotVersions) (ChangedSlots plan) current"

definition nextPending ::
  "pending_map \<Rightarrow> slot_versions \<Rightarrow> command \<Rightarrow> reconfiguration_plan option \<Rightarrow> pending_map" where
  "nextPending current slotVersions cmd plan =
     (case cmd_Kind cmd of
        CommandKindBootstrap \<Rightarrow> fmempty
      | CommandKindReconfigure \<Rightarrow>
          (case plan of None \<Rightarrow> current | Some p \<Rightarrow> pendingFromPlan current slotVersions p)
      | CommandKindProgress \<Rightarrow>
          (case cmd_Progress cmd of None \<Rightarrow> current | Some pc \<Rightarrow> fmdrop (ev_Slot (pc_Event pc)) current)
      | _ \<Rightarrow> current)"

definition outbox_for_plan ::
  "u64 \<Rightarrow> slot_versions \<Rightarrow> cluster_state \<Rightarrow> slot_plan \<Rightarrow> outbox_entry list" where
  "outbox_for_plan version slotVersions cluster sp =
     (let kinds = distinctStepKinds (sp_Steps sp); slot = sp_Slot sp;
          chainVersion = fm_get 0 slotVersions slot
      in if kinds = [StepKindAppendTail] then
           let added = firstStepNodeID (sp_Steps sp) StepKindAppendTail
           in if added = [] then []
              else (case assignmentForNode (sp_After sp) (cs_NodesByID cluster) added chainVersion of
                      None \<Rightarrow> []
                    | Some a \<Rightarrow> [\<lparr>oe_ID = outboxEntryID version slot added OutboxCommandKindAddReplicaAsTail,
                                 oe_Slot = slot, oe_NodeID = added, oe_Kind = OutboxCommandKindAddReplicaAsTail,
                                 oe_CommandID = outboxCommandID version slot added ''ready'',
                                 oe_Assignment = a\<rparr>])
         else if kinds = [StepKindMarkLeaving] then
           let leaving = firstStepNodeID (sp_Steps sp) StepKindMarkLeaving
           in if leaving = [] then []
              else let serving = activeServingChain (sp_After sp)
                   in List.map_filter (\<lambda>nodeID.
                        map_option (\<lambda>a.
                          \<lparr>oe_ID = outboxEntryID version slot nodeID OutboxCommandKindUpdateChainPeers,
                           oe_Slot = slot, oe_NodeID = nodeID, oe_Kind = OutboxCommandKindUpdateChainPeers,
                           oe_CommandID = outboxCommandID version slot nodeID ''update'',
                           oe_Assignment = a\<rparr>)
                          (assignmentForNode serving (cs_NodesByID cluster) nodeID chainVersion))
                        (activeAfterNodeIDs serving (fmupd leaving True fmempty))
                      @ [\<lparr>oe_ID = outboxEntryID version slot leaving OutboxCommandKindMarkReplicaLeaving,
                          oe_Slot = slot, oe_NodeID = leaving, oe_Kind = OutboxCommandKindMarkReplicaLeaving,
                          oe_CommandID = outboxCommandID version slot leaving ''removed'',
                          oe_Assignment = zero_assignment\<rparr>]
         else [])"

definition outboxFromPlan ::
  "outbox_entry list \<Rightarrow> u64 \<Rightarrow> slot_versions \<Rightarrow> cluster_state \<Rightarrow> reconfiguration_plan \<Rightarrow> outbox_entry list" where
  "outboxFromPlan current version slotVersions cluster plan =
     filter (\<lambda>e. oe_Slot e \<notin> set (map sp_Slot (ChangedSlots plan))) current
     @ concat (map (outbox_for_plan version slotVersions cluster) (ChangedSlots plan))"

definition nextOutbox ::
  "outbox_entry list \<Rightarrow> u64 \<Rightarrow> slot_versions \<Rightarrow> cluster_state \<Rightarrow> command \<Rightarrow> reconfiguration_plan option
     \<Rightarrow> outbox_entry list" where
  "nextOutbox current version slotVersions cluster cmd plan =
     (case cmd_Kind cmd of
        CommandKindBootstrap \<Rightarrow> []
      | CommandKindReconfigure \<Rightarrow>
          (case plan of None \<Rightarrow> current
           | Some p \<Rightarrow> outboxFromPlan current version slotVersions cluster p)
      | CommandKindProgress \<Rightarrow>
          (case cmd_Progress cmd of None \<Rightarrow> current
           | Some pc \<Rightarrow> filter (\<lambda>e. oe_Slot e \<noteq> ev_Slot (pc_Event pc)) current)
      | CommandKindAcknowledgeOutbox \<Rightarrow>
          (case cmd_AcknowledgeOutbox cmd of None \<Rightarrow> current
           | Some ak \<Rightarrow> filter (\<lambda>e. oe_ID e \<notin> set (outboxAckEntryIDs ak)) current)
      | _ \<Rightarrow> current)"

definition nextStateForApplied ::
  "rt_state \<Rightarrow> u64 \<Rightarrow> command \<Rightarrow> cluster_state \<Rightarrow> reconfiguration_plan option \<Rightarrow> rt_err + rt_state" where
  "nextStateForApplied st logIndex cmd cluster plan =
     (let base = cloneStateForNextApplied st;
          version = st_Version base + 1;
          cl = nextClusterState (cloneClusterState cluster) cmd;
          sv = nextSlotVersions (st_SlotVersions base) (cmd_Kind cmd) cluster plan;
          cp = nextCompletedProgress (st_CompletedProgressBySlot base) sv cmd
      in res_bind (nextNodeLiveness (st_NodeLivenessByID base) cmd) (\<lambda>nl.
           let pend = nextPending (st_PendingBySlot base) sv cmd plan;
               out = nextOutbox (st_Outbox base) version sv cluster cmd plan;
               pol = nextLastPolicy (st_LastPolicy base) cmd
           in Inr \<lparr>st_Version = version, st_LastLogIndex = logIndex, st_Cluster = cl, st_SlotVersions = sv,
                   st_CompletedProgressBySlot = cp, st_NodeLivenessByID = nl, st_PendingBySlot = pend,
                   st_Outbox = out, st_LastPolicy = pol,
                   st_AppliedCommands = fmupd (cmd_ID cmd)
                     \<lparr>ap_Command = cmd, ap_Version = version, ap_LastLogIndex = logIndex,
                      ap_Cluster = cloneClusterState cl, ap_SlotVersions = sv,
                      ap_CompletedProgressBySlot = cp, ap_NodeLivenessByID = nl, ap_PendingBySlot = pend,
                      ap_Outbox = out, ap_LastPolicy = pol, ap_Plan = clonePlan plan\<rparr>
                     (st_AppliedCommands base)\<rparr>))"

section \<open>Validation and execution\<close>

definition validateCommandPayload :: "command \<Rightarrow> rt_err + unit" where
  "validateCommandPayload cmd =
     (let reject = Inl ErrInvalidCommand; accept = Inr ();
          b = cmd_Bootstrap cmd \<noteq> None; r = cmd_Reconfigure cmd \<noteq> None; p = cmd_Progress cmd \<noteq> None;
          n = cmd_NodeReady cmd \<noteq> None; h = cmd_Heartbeat cmd \<noteq> None; l = cmd_Liveness cmd \<noteq> None;
          a = cmd_AcknowledgeOutbox cmd \<noteq> None
      in case cmd_Kind cmd of
           CommandKindBootstrap \<Rightarrow> if \<not> b \<or> r \<or> p \<or> h \<or> l \<or> a then reject else accept
         | CommandKindReconfigure \<Rightarrow> if \<not> r \<or> b \<or> p \<or> h \<or> l \<or> a then reject else accept
         | CommandKindProgress \<Rightarrow> if \<not> p \<or> b \<or> r \<or> n \<or> h \<or> l \<or> a then reject else accept
         | CommandKindNodeReady \<Rightarrow>
             if \<not> n \<or> b \<or> r \<or> p \<or> h \<or> l \<or> a then reject
             else (case cmd_NodeReady cmd of None \<Rightarrow> Inl RtPanic
                   | Some ob \<Rightarrow> if ns_NodeID (ob_Status ob) = [] then reject else accept)
         | CommandKindHeartbeat \<Rightarrow>
             if \<not> h \<or> b \<or> r \<or> p \<or> n \<or> l \<or> a then reject
             else (case cmd_Heartbeat cmd of None \<Rightarrow> Inl RtPanic
                   | Some ob \<Rightarrow> if ns_NodeID (ob_Status ob) = [] then reject else accept)
         | CommandKindLiveness \<Rightarrow>
             if \<not> l \<or> b \<or> r \<or> p \<or> h \<or> a then reject
             else (case cmd_Liveness cmd of None \<Rightarrow> Inl RtPanic
                   | Some lc \<Rightarrow> if lc_NodeID lc = [] then reject else accept)
         | CommandKindAcknowledgeOutbox \<Rightarrow>
             if \<not> a \<or> b \<or> r \<or> p \<or> h \<or> l then reject
             else (case cmd_AcknowledgeOutbox cmd of None \<Rightarrow> Inl RtPanic
                   | Some ak \<Rightarrow> if outboxAckEntryIDs ak = [] then reject else accept)
         | CommandKindOther _ \<Rightarrow> reject)"

definition validateCommand :: "rt_state \<Rightarrow> command \<Rightarrow> rt_err + applied_command option" where
  "validateCommand st cmd =
     (if cmd_ID cmd = [] then Inl ErrInvalidCommand
      else res_bind (validateCommandPayload cmd) (\<lambda>_.
        case fmlookup (st_AppliedCommands st) (cmd_ID cmd) of
          Some applied \<Rightarrow>
            if ap_Command applied \<noteq> cmd then Inl ErrCommandConflict
            else Inr (Some (cloneAppliedCommand applied))
        | None \<Rightarrow>
            if cmd_ExpectedVersion cmd \<noteq> st_Version st then Inl ErrVersionMismatch else Inr None))"

definition isInitialized :: "rt_state \<Rightarrow> bool" where
  "isInitialized st = (cs_SlotCount (st_Cluster st) > 0)"

definition lift_coord :: "coord_err + 'a \<Rightarrow> rt_err + 'a" where
  "lift_coord r = (case r of Inl e \<Rightarrow> Inl (CoordErr e) | Inr x \<Rightarrow> Inr x)"

text \<open>The outcome of a command: a duplicate's record, or the new cluster and its plan.\<close>

datatype executed =
    Duplicate applied_command
  | Executed cluster_state "reconfiguration_plan option"

definition executeCommand :: "rt_state \<Rightarrow> command \<Rightarrow> rt_err + executed" where
  "executeCommand st cmd =
     res_bind (validateCommand st cmd) (\<lambda>duplicate.
       case duplicate of
         Some applied \<Rightarrow> Inr (Duplicate applied)
       | None \<Rightarrow>
           (let same = Inr (Executed (cloneClusterState (st_Cluster st)) None)
            in case cmd_Kind cmd of
                 CommandKindBootstrap \<Rightarrow>
                   if isInitialized st then Inl ErrAlreadyInitialized
                   else (case cmd_Bootstrap cmd of None \<Rightarrow> Inl RtPanic
                         | Some b \<Rightarrow> res_bind (lift_coord (BuildInitialPlacement (bc_Config b) (bc_Nodes b)))
                             (\<lambda>cluster. Inr (Executed (cloneClusterState cluster) None)))
               | CommandKindReconfigure \<Rightarrow>
                   if \<not> isInitialized st then Inl ErrNotInitialized
                   else (case cmd_Reconfigure cmd of None \<Rightarrow> Inl RtPanic
                         | Some r \<Rightarrow> res_bind (lift_coord (PlanReconfiguration
                               (cloneClusterState (st_Cluster st)) (rc_Events r) (rc_Policy r)))
                             (\<lambda>plan. Inr (Executed (cloneClusterState (UpdatedState plan)) (clonePlan (Some plan)))))
               | CommandKindProgress \<Rightarrow>
                   if \<not> isInitialized st then Inl ErrNotInitialized
                   else (case cmd_Progress cmd of None \<Rightarrow> Inl RtPanic
                         | Some p \<Rightarrow> res_bind (lift_coord (ApplyProgress
                               (cloneClusterState (st_Cluster st)) (pc_Event p)))
                             (\<lambda>cluster. Inr (Executed (cloneClusterState cluster) None)))
               | CommandKindNodeReady \<Rightarrow>
                   if \<not> isInitialized st then Inl ErrNotInitialized
                   else (case cmd_NodeReady cmd of None \<Rightarrow> Inl RtPanic
                         | Some ob \<Rightarrow> if ns_NodeID (ob_Status ob) = [] then Inl ErrInvalidCommand else same)
               | CommandKindHeartbeat \<Rightarrow> same
               | CommandKindLiveness \<Rightarrow>
                   (case cmd_Liveness cmd of None \<Rightarrow> Inl RtPanic
                    | Some lc \<Rightarrow> if lc_NodeID lc = [] then Inl ErrInvalidCommand else same)
               | CommandKindAcknowledgeOutbox \<Rightarrow>
                   if \<not> isInitialized st then Inl ErrNotInitialized
                   else (case cmd_AcknowledgeOutbox cmd of None \<Rightarrow> Inl RtPanic | Some ak \<Rightarrow> same)
               | CommandKindOther _ \<Rightarrow> Inl ErrInvalidCommand))"

definition snapshotForApplied :: "rt_state \<Rightarrow> applied_command \<Rightarrow> rt_state" where
  "snapshotForApplied st a =
     \<lparr>st_Version = ap_Version a, st_LastLogIndex = ap_LastLogIndex a,
      st_Cluster = cloneClusterState (ap_Cluster a), st_SlotVersions = ap_SlotVersions a,
      st_CompletedProgressBySlot = ap_CompletedProgressBySlot a,
      st_NodeLivenessByID = ap_NodeLivenessByID a, st_PendingBySlot = ap_PendingBySlot a,
      st_Outbox = ap_Outbox a, st_LastPolicy = ap_LastPolicy a,
      st_AppliedCommands = fmmap cloneAppliedCommand
        (fmfilter (\<lambda>id. case fmlookup (st_AppliedCommands st) id of None \<Rightarrow> False
            | Some existing \<Rightarrow> ap_Version existing \<le> ap_Version a) (st_AppliedCommands st))\<rparr>"

record evaluated_command =
  ec_Plan :: "reconfiguration_plan option"
  ec_NextState :: rt_state
  ec_Duplicate :: "applied_command option"

definition EvaluateCommand :: "rt_state \<Rightarrow> command \<Rightarrow> rt_err + evaluated_command" where
  "EvaluateCommand state cmd =
     (let st = cloneState state
      in res_bind (executeCommand st cmd) (\<lambda>ex.
           case ex of
             Duplicate d \<Rightarrow>
               let cloned = cloneAppliedCommand d
               in Inr \<lparr>ec_Plan = clonePlan (ap_Plan cloned), ec_NextState = snapshotForApplied st cloned,
                       ec_Duplicate = Some cloned\<rparr>
           | Executed cluster plan \<Rightarrow>
               res_bind (nextStateForApplied st (st_LastLogIndex state + 1) cmd cluster plan) (\<lambda>next.
                 Inr \<lparr>ec_Plan = clonePlan plan, ec_NextState = next, ec_Duplicate = None\<rparr>)))"

section \<open>Views\<close>

definition clusterNeedsPeriodicAdvanceForView :: "cluster_state \<Rightarrow> bool" where
  "clusterNeedsPeriodicAdvanceForView cluster =
     (if cs_SlotCount cluster = 0 \<or> cs_ReplicationFactor cluster \<le> 0 \<or>
         int (length (cs_Chains cluster)) \<noteq> cs_SlotCount cluster then True
      else list_ex (\<lambda>c. int (length (chain_Replicas c)) \<noteq> cs_ReplicationFactor cluster \<or>
             list_ex (\<lambda>r. \<not> is_active r) (chain_Replicas c)) (cs_Chains cluster))"

record rt_view =
  vw_Version :: u64
  vw_LastLogIndex :: u64
  vw_Cluster :: cluster_state
  vw_SlotVersions :: slot_versions
  vw_CompletedProgressBySlot :: completed_map
  vw_NodeLivenessByID :: liveness_map
  vw_PendingBySlot :: pending_map
  vw_Outbox :: "outbox_entry list"
  vw_LastPolicy :: reconfiguration_policy

definition viewFromState :: "rt_state \<Rightarrow> rt_view" where
  "viewFromState st =
     \<lparr>vw_Version = st_Version st, vw_LastLogIndex = st_LastLogIndex st,
      vw_Cluster = cloneClusterState (st_Cluster st), vw_SlotVersions = st_SlotVersions st,
      vw_CompletedProgressBySlot = st_CompletedProgressBySlot st,
      vw_NodeLivenessByID = st_NodeLivenessByID st, vw_PendingBySlot = st_PendingBySlot st,
      vw_Outbox = st_Outbox st, vw_LastPolicy = st_LastPolicy st\<rparr>"

record liveness_view =
  lv_Version :: u64
  lv_Initialized :: bool
  lv_NeedsPeriodicAdvance :: bool
  lv_NodeHealthByID :: "(string, NodeHealth) fmap"
  lv_PendingBySlotCount :: int
  lv_OutboxCount :: int

definition livenessViewFromState :: "rt_state \<Rightarrow> liveness_view" where
  "livenessViewFromState st =
     \<lparr>lv_Version = st_Version st, lv_Initialized = isInitialized st,
      lv_NeedsPeriodicAdvance = clusterNeedsPeriodicAdvanceForView (st_Cluster st),
      lv_NodeHealthByID = cs_NodeHealthByID (st_Cluster st),
      lv_PendingBySlotCount = int (fcard (fmdom (st_PendingBySlot st))),
      lv_OutboxCount = int (length (st_Outbox st))\<rparr>"

record slot_progress_view =
  spv_Version :: u64
  spv_ReplicationFactor :: int
  spv_Chain :: chain
  spv_SlotVersion :: u64
  spv_Pending :: "pending_work option"
  spv_Completed :: "completed_progress list"

definition CurrentSlotProgressView :: "rt_state \<Rightarrow> int \<Rightarrow> slot_progress_view" where
  "CurrentSlotProgressView st slot =
     \<lparr>spv_Version = st_Version st, spv_ReplicationFactor = cs_ReplicationFactor (st_Cluster st),
      spv_Chain = (if 0 \<le> slot \<and> slot < int (length (cs_Chains (st_Cluster st)))
                   then cs_Chains (st_Cluster st) ! nat slot
                   else \<lparr>chain_Slot = 0, chain_Replicas = []\<rparr>),
      spv_SlotVersion = fm_get 0 (st_SlotVersions st) slot,
      spv_Pending = fmlookup (st_PendingBySlot st) slot,
      spv_Completed = fm_get [] (st_CompletedProgressBySlot st) slot\<rparr>"

end
