(* ===== verification/Runtime_Store.thy ===== *)
theory Runtime_Store
  imports Runtime
begin

text \<open>
  The durable runtime: the \<open>Store\<close> interface of \<open>coordinator/runtime/runtime.go\<close>
  (write-ahead log and checkpoint), the public methods of \<open>Runtime\<close>, recovery by
  \<open>Open\<close>, and the in-memory store of \<open>coordinator/runtime/inmemory.go\<close>.  A store
  operation returns an optional error and the store after the call, so a failed call
  may still have changed the store.
\<close>

section \<open>The store interface and the runtime\<close>

record log_record =
  lr_Index :: u64
  lr_Command :: command

record 's store_ops =
  so_LoadLatestCheckpoint :: "'s \<Rightarrow> rt_err + rt_state option"
  so_LoadWAL :: "'s \<Rightarrow> u64 \<Rightarrow> rt_err + log_record list"
  so_AppendWAL :: "'s \<Rightarrow> log_record \<Rightarrow> rt_err option \<times> 's"
  so_SaveCheckpoint :: "'s \<Rightarrow> rt_state \<Rightarrow> rt_err option \<times> 's"
  so_TruncateWAL :: "'s \<Rightarrow> u64 \<Rightarrow> rt_err option \<times> 's"

record 's runtime =
  rt_Store :: 's
  rt_State :: rt_state

definition commitCandidate ::
  "rt_state \<Rightarrow> command \<Rightarrow> cluster_state \<Rightarrow> reconfiguration_plan option \<Rightarrow> rt_err + log_record \<times> rt_state" where
  "commitCandidate st cmd cluster plan =
     (let index = st_LastLogIndex st + 1
      in res_bind (nextStateForApplied st index cmd cluster plan) (\<lambda>next.
           Inr (\<lparr>lr_Index = index, lr_Command = cmd\<rparr>, next)))"

text \<open>The tail shared by the mutating methods: append to the log, then install the next state.\<close>

definition commit_command ::
  "'s store_ops \<Rightarrow> 's runtime \<Rightarrow> command \<Rightarrow> cluster_state \<Rightarrow> reconfiguration_plan option
     \<Rightarrow> (rt_err + rt_state) \<times> 's runtime" where
  "commit_command ops rt cmd cluster plan =
     (case commitCandidate (rt_State rt) cmd cluster plan of
        Inl e \<Rightarrow> (Inl e, rt)
      | Inr (rec, next) \<Rightarrow>
          (case so_AppendWAL ops (rt_Store rt) rec of
             (Some e, s') \<Rightarrow> (Inl e, rt\<lparr>rt_Store := s'\<rparr>)
           | (None, s') \<Rightarrow> (Inr (cloneState next), \<lparr>rt_Store = s', rt_State = next\<rparr>)))"

definition rt_Bootstrap :: "'s store_ops \<Rightarrow> command \<Rightarrow> 's runtime \<Rightarrow> (rt_err + rt_state) \<times> 's runtime" where
  "rt_Bootstrap ops cmd rt =
     (case executeCommand (rt_State rt) cmd of
        Inl e \<Rightarrow> (Inl e, rt)
      | Inr (Duplicate d) \<Rightarrow> (Inr (snapshotForApplied (rt_State rt) d), rt)
      | Inr (Executed cluster _) \<Rightarrow> commit_command ops rt cmd cluster None)"

definition zero_plan :: reconfiguration_plan where
  "zero_plan = \<lparr>UpdatedState = zero_cluster, UnassignedNodeIDs = [], ChangedSlots = []\<rparr>"

definition rt_Reconfigure ::
  "'s store_ops \<Rightarrow> command \<Rightarrow> 's runtime \<Rightarrow> (rt_err + reconfiguration_plan \<times> rt_state) \<times> 's runtime" where
  "rt_Reconfigure ops cmd rt =
     (case executeCommand (rt_State rt) cmd of
        Inl e \<Rightarrow> (Inl e, rt)
      | Inr (Duplicate d) \<Rightarrow>
          (Inr (case clonePlan (ap_Plan d) of None \<Rightarrow> zero_plan | Some p \<Rightarrow> p, snapshotForApplied (rt_State rt) d), rt)
      | Inr (Executed cluster plan) \<Rightarrow>
          (case commit_command ops rt cmd cluster plan of
             (Inl e, rt') \<Rightarrow> (Inl e, rt')
           | (Inr st, rt') \<Rightarrow>
               (case clonePlan plan of None \<Rightarrow> (Inl RtPanic, rt') | Some p \<Rightarrow> (Inr (p, st), rt'))))"

definition rt_ApplyProgress :: "'s store_ops \<Rightarrow> command \<Rightarrow> 's runtime \<Rightarrow> (rt_err + rt_state) \<times> 's runtime" where
  "rt_ApplyProgress ops cmd rt =
     (case executeCommand (rt_State rt) cmd of
        Inl e \<Rightarrow> (Inl e, rt)
      | Inr (Duplicate d) \<Rightarrow> (Inr (snapshotForApplied (rt_State rt) d), rt)
      | Inr (Executed cluster _) \<Rightarrow> commit_command ops rt cmd cluster None)"

definition rt_ApplyProgressVersion :: "'s store_ops \<Rightarrow> command \<Rightarrow> 's runtime \<Rightarrow> (rt_err + u64) \<times> 's runtime" where
  "rt_ApplyProgressVersion ops cmd rt =
     (case executeCommand (rt_State rt) cmd of
        Inl e \<Rightarrow> (Inl e, rt)
      | Inr (Duplicate d) \<Rightarrow> (Inr (ap_Version d), rt)
      | Inr (Executed cluster _) \<Rightarrow>
          (case commit_command ops rt cmd cluster None of
             (Inl e, rt') \<Rightarrow> (Inl e, rt')
           | (Inr _, rt') \<Rightarrow> (Inr (st_Version (rt_State rt')), rt')))"

text \<open>\<open>MarkNodeReady\<close>, \<open>Heartbeat\<close> and \<open>ApplyLiveness\<close> commit the current cluster.\<close>

definition observe_method :: "'s store_ops \<Rightarrow> command \<Rightarrow> 's runtime \<Rightarrow> (rt_err + rt_state) \<times> 's runtime" where
  "observe_method ops cmd rt =
     (case executeCommand (rt_State rt) cmd of
        Inl e \<Rightarrow> (Inl e, rt)
      | Inr (Duplicate d) \<Rightarrow> (Inr (snapshotForApplied (rt_State rt) d), rt)
      | Inr (Executed _ _) \<Rightarrow> commit_command ops rt cmd (st_Cluster (rt_State rt)) None)"

definition rt_MarkNodeReady :: "'s store_ops \<Rightarrow> command \<Rightarrow> 's runtime \<Rightarrow> (rt_err + rt_state) \<times> 's runtime" where
  "rt_MarkNodeReady = observe_method"

definition rt_Heartbeat :: "'s store_ops \<Rightarrow> command \<Rightarrow> 's runtime \<Rightarrow> (rt_err + rt_state) \<times> 's runtime" where
  "rt_Heartbeat = observe_method"

definition rt_ApplyLiveness :: "'s store_ops \<Rightarrow> command \<Rightarrow> 's runtime \<Rightarrow> (rt_err + rt_state) \<times> 's runtime" where
  "rt_ApplyLiveness = observe_method"

definition rt_AcknowledgeOutbox ::
  "'s store_ops \<Rightarrow> command \<Rightarrow> 's runtime \<Rightarrow> (rt_err + rt_state) \<times> 's runtime" where
  "rt_AcknowledgeOutbox ops cmd rt =
     (case validateCommand (rt_State rt) cmd of
        Inl e \<Rightarrow> (Inl e, rt)
      | Inr (Some d) \<Rightarrow> (Inr (snapshotForApplied (rt_State rt) d), rt)
      | Inr None \<Rightarrow>
          if (case cmd_AcknowledgeOutbox cmd of None \<Rightarrow> False
              | Some ak \<Rightarrow> \<not> outboxEntriesExist (st_Outbox (rt_State rt)) (outboxAckEntryIDs ak))
          then (Inr (cloneState (rt_State rt)), rt)
          else observe_method ops cmd rt)"

definition rt_AcknowledgeOutboxVersion ::
  "'s store_ops \<Rightarrow> command \<Rightarrow> 's runtime \<Rightarrow> (rt_err + u64) \<times> 's runtime" where
  "rt_AcknowledgeOutboxVersion ops cmd rt =
     (case validateCommand (rt_State rt) cmd of
        Inl e \<Rightarrow> (Inl e, rt)
      | Inr (Some d) \<Rightarrow> (Inr (ap_Version d), rt)
      | Inr None \<Rightarrow>
          if (case cmd_AcknowledgeOutbox cmd of None \<Rightarrow> False
              | Some ak \<Rightarrow> \<not> outboxEntriesExist (st_Outbox (rt_State rt)) (outboxAckEntryIDs ak))
          then (Inr (st_Version (rt_State rt)), rt)
          else (case executeCommand (rt_State rt) cmd of
                  Inl e \<Rightarrow> (Inl e, rt)
                | Inr (Duplicate d) \<Rightarrow> (Inr (ap_Version d), rt)
                | Inr (Executed _ _) \<Rightarrow>
                    (case commit_command ops rt cmd (st_Cluster (rt_State rt)) None of
                       (Inl e, rt') \<Rightarrow> (Inl e, rt')
                     | (Inr _, rt') \<Rightarrow> (Inr (st_Version (rt_State rt')), rt'))))"

definition rt_Checkpoint :: "'s store_ops \<Rightarrow> 's runtime \<Rightarrow> rt_err option \<times> 's runtime" where
  "rt_Checkpoint ops rt =
     (let st = (cloneState (rt_State rt))\<lparr>st_AppliedCommands := fmempty\<rparr>
      in case so_SaveCheckpoint ops (rt_Store rt) st of
           (Some e, s1) \<Rightarrow> (Some e, rt\<lparr>rt_Store := s1\<rparr>)
         | (None, s1) \<Rightarrow>
             (case so_TruncateWAL ops s1 (st_LastLogIndex st) of
                (Some e, s2) \<Rightarrow> (Some e, rt\<lparr>rt_Store := s2\<rparr>)
              | (None, s2) \<Rightarrow>
                  (None, \<lparr>rt_Store = s2, rt_State = (rt_State rt)\<lparr>st_AppliedCommands := fmempty\<rparr>\<rparr>)))"

section \<open>Recovery\<close>

definition replayRecord :: "log_record \<Rightarrow> rt_state \<Rightarrow> rt_err + rt_state" where
  "replayRecord rec st =
     (case executeCommand st (lr_Command rec) of
        Inl e \<Rightarrow> Inl (ErrRecovery (Some e))
      | Inr (Duplicate _) \<Rightarrow> Inl (ErrRecovery None)
      | Inr (Executed cluster plan) \<Rightarrow> nextStateForApplied st (lr_Index rec) (lr_Command rec) cluster plan)"

definition replay_step :: "log_record \<Rightarrow> rt_state \<times> u64 \<Rightarrow> rt_err + rt_state \<times> u64" where
  "replay_step rec acc =
     (case acc of (st, expectedIndex) \<Rightarrow>
        if lr_Index rec \<noteq> expectedIndex + 1 then Inl (ErrRecovery None)
        else res_bind (replayRecord rec st) (\<lambda>st'. Inr (st', lr_Index rec)))"

definition rt_Open :: "'s store_ops \<Rightarrow> 's \<Rightarrow> rt_err + 's runtime" where
  "rt_Open ops store =
     res_bind (so_LoadLatestCheckpoint ops store) (\<lambda>ckpt.
       let st = (case ckpt of None \<Rightarrow> zeroState | Some c \<Rightarrow> cloneState c)
       in res_bind (so_LoadWAL ops store (st_LastLogIndex st)) (\<lambda>records.
            res_bind (fold_res replay_step records (st, st_LastLogIndex st)) (\<lambda>(st', _).
              Inr \<lparr>rt_Store = store, rt_State = st'\<rparr>)))"

section \<open>The in-memory store\<close>

record in_memory_store =
  ims_checkpoint :: "rt_state option"
  ims_wal :: "log_record list"

definition NewInMemoryStore :: in_memory_store where
  "NewInMemoryStore = \<lparr>ims_checkpoint = None, ims_wal = []\<rparr>"

definition ims_LoadLatestCheckpoint :: "in_memory_store \<Rightarrow> rt_err + rt_state option" where
  "ims_LoadLatestCheckpoint s = Inr (map_option cloneState (ims_checkpoint s))"

definition ims_LoadWAL :: "in_memory_store \<Rightarrow> u64 \<Rightarrow> rt_err + log_record list" where
  "ims_LoadWAL s afterIndex = Inr (filter (\<lambda>r. lr_Index r > afterIndex) (ims_wal s))"

definition ims_AppendWAL :: "in_memory_store \<Rightarrow> log_record \<Rightarrow> rt_err option \<times> in_memory_store" where
  "ims_AppendWAL s rec = (None, s\<lparr>ims_wal := ims_wal s @ [rec]\<rparr>)"

definition ims_SaveCheckpoint :: "in_memory_store \<Rightarrow> rt_state \<Rightarrow> rt_err option \<times> in_memory_store" where
  "ims_SaveCheckpoint s st = (None, s\<lparr>ims_checkpoint := Some (cloneState st)\<rparr>)"

definition ims_TruncateWAL :: "in_memory_store \<Rightarrow> u64 \<Rightarrow> rt_err option \<times> in_memory_store" where
  "ims_TruncateWAL s throughIndex = (None, s\<lparr>ims_wal := filter (\<lambda>r. lr_Index r > throughIndex) (ims_wal s)\<rparr>)"

definition in_memory_ops :: "in_memory_store store_ops" where
  "in_memory_ops = \<lparr>so_LoadLatestCheckpoint = ims_LoadLatestCheckpoint, so_LoadWAL = ims_LoadWAL,
     so_AppendWAL = ims_AppendWAL, so_SaveCheckpoint = ims_SaveCheckpoint, so_TruncateWAL = ims_TruncateWAL\<rparr>"

definition OpenInMemoryFromState :: "rt_state \<Rightarrow> in_memory_store runtime" where
  "OpenInMemoryFromState st = \<lparr>rt_Store = NewInMemoryStore, rt_State = cloneState st\<rparr>"

end
