(* ===== verification/Runtime_Recovery.thy ===== *)
theory Runtime_Recovery
  imports Runtime_Store
begin

text \<open>
  Durability of the runtime.  The public methods are steps of a relation
  (\<open>rt_step\<close>: commit one logged command, checkpoint, or do nothing); the locale
  \<open>wal_store\<close> states what a store promises, recovery is proved once inside it, and the
  in-memory store interprets it.
\<close>

section \<open>Cloning is idempotent\<close>

lemma true_flags_simps [simp]:
  "true_flags (true_flags m) = true_flags m"
  "true_flags (fmupd k True m) = fmupd k True (true_flags m)"
  "true_flags fmempty = fmempty"
  "flag (true_flags m) k = flag m k"
  unfolding true_flags_def by (auto intro!: fmap_ext simp: flag_def fm_get_def split: option.splits)

lemma cloneClusterState_idem [simp]: "cloneClusterState (cloneClusterState st) = cloneClusterState st"
  by (simp add: cloneClusterState_def)

lemma clonePlan_idem [simp]: "clonePlan (clonePlan p) = clonePlan p"
  by (cases p) (simp_all add: clonePlan_def)

lemma cloneAppliedCommand_idem [simp]: "cloneAppliedCommand (cloneAppliedCommand a) = cloneAppliedCommand a"
  by (simp add: cloneAppliedCommand_def)

lemma cloneState_idem [simp]: "cloneState (cloneState st) = cloneState st"
proof -
  have "fmmap cloneAppliedCommand (fmmap cloneAppliedCommand m) = fmmap cloneAppliedCommand m" for m
    by (rule fmap_ext) (simp add: option.map_comp comp_def)
  then show ?thesis by (cases st) (simp add: cloneState_def)
qed

definition normal :: "rt_state \<Rightarrow> bool" where
  "normal st = (cloneState st = st)"

lemma normal_clone [simp]: "normal (cloneState st)"
  by (simp add: normal_def)

lemma normal_iff:
  "normal st \<longleftrightarrow> cloneClusterState (st_Cluster st) = st_Cluster st \<and>
     fmmap cloneAppliedCommand (st_AppliedCommands st) = st_AppliedCommands st"
  unfolding normal_def cloneState_def
  by (metis (no_types, lifting) rt_state.select_convs(3,10) rt_state.surjective rt_state.update_convs(3,10))

lemma normal_zero [simp]: "normal zeroState"
  by (simp add: normal_iff zeroState_def zero_cluster_def cloneClusterState_def fmap_ext)

lemma nextClusterState_clone [simp]: "cloneClusterState (nextClusterState cl cmd) = nextClusterState cl cmd"
  by (simp add: nextClusterState_def Let_def cloneClusterState_def split: option.split)

section \<open>The next state\<close>

lemma nextStateForApplied_fields:
  assumes "nextStateForApplied st i cmd cl plan = Inr next"
  shows "st_Version next = st_Version st + 1" and "st_LastLogIndex next = i"
    and "st_Cluster next = nextClusterState (cloneClusterState cl) cmd"
    and "st_SlotVersions next = nextSlotVersions (st_SlotVersions st) (cmd_Kind cmd) cl plan"
    and "st_CompletedProgressBySlot next =
      nextCompletedProgress (st_CompletedProgressBySlot st) (st_SlotVersions next) cmd"
    and "nextNodeLiveness (st_NodeLivenessByID st) cmd = Inr (st_NodeLivenessByID next)"
    and "st_PendingBySlot next = nextPending (st_PendingBySlot st) (st_SlotVersions next) cmd plan"
    and "st_Outbox next = nextOutbox (st_Outbox st) (st_Version next) (st_SlotVersions next) cl cmd plan"
    and "st_LastPolicy next = nextLastPolicy (st_LastPolicy st) cmd"
    and "fmlookup (st_AppliedCommands next) cid =
      (if cid = cmd_ID cmd then Some
         \<lparr>ap_Command = cmd, ap_Version = st_Version next, ap_LastLogIndex = i,
          ap_Cluster = st_Cluster next, ap_SlotVersions = st_SlotVersions next,
          ap_CompletedProgressBySlot = st_CompletedProgressBySlot next,
          ap_NodeLivenessByID = st_NodeLivenessByID next, ap_PendingBySlot = st_PendingBySlot next,
          ap_Outbox = st_Outbox next, ap_LastPolicy = st_LastPolicy next, ap_Plan = clonePlan plan\<rparr>
       else fmlookup (st_AppliedCommands st) cid)"
  using assms
  by (auto simp: nextStateForApplied_def Let_def cloneStateForNextApplied_def res_bind_Inr)

lemma nextStateForApplied_normal:
  assumes "nextStateForApplied st i cmd cl plan = Inr next" and "normal st"
  shows "normal next"
proof -
  note f = nextStateForApplied_fields[OF assms(1)]
  have "fmmap cloneAppliedCommand (st_AppliedCommands next) = st_AppliedCommands next"
  proof (rule fmap_ext)
    fix cid
    have "map_option cloneAppliedCommand (fmlookup (st_AppliedCommands st) cid) = fmlookup (st_AppliedCommands st) cid"
      using assms(2)[unfolded normal_iff] by (metis fmlookup_map)
    then show "fmlookup (fmmap cloneAppliedCommand (st_AppliedCommands next)) cid = fmlookup (st_AppliedCommands next) cid"
      by (simp add: f(10)) (simp add: cloneAppliedCommand_def f(3))
  qed
  then show ?thesis by (simp add: normal_iff f(3))
qed

section \<open>Steps of the runtime\<close>

inductive rt_step :: "'s store_ops \<Rightarrow> 's runtime \<Rightarrow> 's runtime \<Rightarrow> bool" for ops where
  idle: "rt_step ops rt rt"
| commit: "executeCommand (rt_State rt) cmd = Inr (Executed cl plan) \<Longrightarrow>
    nextStateForApplied (rt_State rt) (st_LastLogIndex (rt_State rt) + 1) cmd cl plan = Inr next \<Longrightarrow>
    so_AppendWAL ops (rt_Store rt) \<lparr>lr_Index = st_LastLogIndex (rt_State rt) + 1, lr_Command = cmd\<rparr> = (None, s') \<Longrightarrow>
    rt_step ops rt \<lparr>rt_Store = s', rt_State = next\<rparr>"
| append_failed: "so_AppendWAL ops (rt_Store rt) \<lparr>lr_Index = st_LastLogIndex (rt_State rt) + 1, lr_Command = cmd\<rparr> = (Some e, s') \<Longrightarrow>
    rt_step ops rt (rt\<lparr>rt_Store := s'\<rparr>)"
| checkpoint: "rt_Checkpoint ops rt = (None, rt') \<Longrightarrow> rt_step ops rt rt'"

text \<open>\<open>rt_reach ops store n rt\<close>: \<open>rt\<close> was opened on \<open>store\<close> and took \<open>n\<close> steps.\<close>

inductive rt_reach :: "'s store_ops \<Rightarrow> 's \<Rightarrow> nat \<Rightarrow> 's runtime \<Rightarrow> bool" for ops store where
  opened: "rt_Open ops store = Inr rt \<Longrightarrow> rt_reach ops store 0 rt"
| step: "rt_reach ops store n rt \<Longrightarrow> rt_step ops rt rt' \<Longrightarrow> rt_reach ops store (Suc n) rt'"

text \<open>The public methods, each called with a command of its own kind.\<close>

datatype api_call =
    CallBootstrap command
  | CallReconfigure command
  | CallApplyProgress command
  | CallApplyProgressVersion command
  | CallMarkNodeReady command
  | CallHeartbeat command
  | CallApplyLiveness command
  | CallAcknowledgeOutbox command
  | CallAcknowledgeOutboxVersion command
  | CallCheckpoint

fun api_run :: "'s store_ops \<Rightarrow> api_call \<Rightarrow> 's runtime \<Rightarrow> 's runtime" where
  "api_run ops (CallBootstrap c) rt = snd (rt_Bootstrap ops c rt)"
| "api_run ops (CallReconfigure c) rt = snd (rt_Reconfigure ops c rt)"
| "api_run ops (CallApplyProgress c) rt = snd (rt_ApplyProgress ops c rt)"
| "api_run ops (CallApplyProgressVersion c) rt = snd (rt_ApplyProgressVersion ops c rt)"
| "api_run ops (CallMarkNodeReady c) rt = snd (rt_MarkNodeReady ops c rt)"
| "api_run ops (CallHeartbeat c) rt = snd (rt_Heartbeat ops c rt)"
| "api_run ops (CallApplyLiveness c) rt = snd (rt_ApplyLiveness ops c rt)"
| "api_run ops (CallAcknowledgeOutbox c) rt = snd (rt_AcknowledgeOutbox ops c rt)"
| "api_run ops (CallAcknowledgeOutboxVersion c) rt = snd (rt_AcknowledgeOutboxVersion ops c rt)"
| "api_run ops CallCheckpoint rt = snd (rt_Checkpoint ops rt)"

fun api_kind_ok :: "api_call \<Rightarrow> bool" where
  "api_kind_ok (CallBootstrap c) = (cmd_Kind c = CommandKindBootstrap)"
| "api_kind_ok (CallReconfigure c) = (cmd_Kind c = CommandKindReconfigure)"
| "api_kind_ok (CallApplyProgress c) = (cmd_Kind c = CommandKindProgress)"
| "api_kind_ok (CallApplyProgressVersion c) = (cmd_Kind c = CommandKindProgress)"
| "api_kind_ok (CallMarkNodeReady c) = (cmd_Kind c = CommandKindNodeReady)"
| "api_kind_ok (CallHeartbeat c) = (cmd_Kind c = CommandKindHeartbeat)"
| "api_kind_ok (CallApplyLiveness c) = (cmd_Kind c = CommandKindLiveness)"
| "api_kind_ok (CallAcknowledgeOutbox c) = (cmd_Kind c = CommandKindAcknowledgeOutbox)"
| "api_kind_ok (CallAcknowledgeOutboxVersion c) = (cmd_Kind c = CommandKindAcknowledgeOutbox)"
| "api_kind_ok CallCheckpoint = True"

definition checkpoint_ok :: "'s store_ops \<Rightarrow> api_call \<Rightarrow> 's runtime \<Rightarrow> bool" where
  "checkpoint_ok ops call rt = (call = CallCheckpoint \<longrightarrow> fst (rt_Checkpoint ops rt) = None)"

lemma commit_command_step:
  assumes "executeCommand (rt_State rt) cmd = Inr (Executed cl plan)"
  shows "rt_step ops rt (snd (commit_command ops rt cmd cl plan))"
proof (cases "commitCandidate (rt_State rt) cmd cl plan")
  case (Inl e)
  then show ?thesis by (simp add: commit_command_def rt_step.idle)
next
  case (Inr rn)
  then obtain next' where n: "nextStateForApplied (rt_State rt) (st_LastLogIndex (rt_State rt) + 1) cmd cl plan = Inr next'"
    and rn: "rn = (\<lparr>lr_Index = st_LastLogIndex (rt_State rt) + 1, lr_Command = cmd\<rparr>, next')"
    by (auto simp: commitCandidate_def Let_def res_bind_Inr)
  obtain eo s' where a: "so_AppendWAL ops (rt_Store rt) \<lparr>lr_Index = st_LastLogIndex (rt_State rt) + 1, lr_Command = cmd\<rparr> = (eo, s')"
    by force
  show ?thesis
  proof (cases eo)
    case None
    with a Inr rn rt_step.commit[OF assms n] show ?thesis by (simp add: commit_command_def)
  next
    case (Some e)
    with a Inr rn show ?thesis by (simp add: commit_command_def rt_step.append_failed[OF a[unfolded Some]])
  qed
qed

lemma executed_plan:
  assumes "executeCommand st cmd = Inr (Executed cl plan)" and "cmd_Kind cmd \<noteq> CommandKindReconfigure"
  shows "plan = None"
  using assms
  by (auto simp: executeCommand_def Let_def res_bind_Inr split: option.splits CommandKind.splits if_splits)

lemma executed_same_cluster:
  assumes "executeCommand st cmd = Inr (Executed cl plan)"
    and "cmd_Kind cmd \<notin> {CommandKindBootstrap, CommandKindReconfigure, CommandKindProgress}"
  shows "cl = cloneClusterState (st_Cluster st)"
  using assms
  by (auto simp: executeCommand_def Let_def res_bind_Inr split: option.splits CommandKind.splits if_splits)

lemma observe_method_step:
  assumes "cmd_Kind cmd \<notin> {CommandKindBootstrap, CommandKindReconfigure, CommandKindProgress}"
    and "normal (rt_State rt)"
  shows "rt_step ops rt (snd (observe_method ops cmd rt))"
proof (cases "executeCommand (rt_State rt) cmd")
  case (Inl e)
  then show ?thesis by (simp add: observe_method_def rt_step.idle)
next
  case (Inr ex)
  show ?thesis
  proof (cases ex)
    case (Duplicate d)
    with Inr show ?thesis by (simp add: observe_method_def rt_step.idle)
  next
    case (Executed cl plan)
    with Inr have ex: "executeCommand (rt_State rt) cmd = Inr (Executed cl plan)" by simp
    have "plan = None" "cl = st_Cluster (rt_State rt)"
      using executed_plan[OF ex] executed_same_cluster[OF ex assms(1)] assms by (auto simp: normal_iff)
    with commit_command_step[OF ex] ex show ?thesis by (simp add: observe_method_def)
  qed
qed

text \<open>Every public method is a step of the relation.\<close>

lemma api_run_step:
  assumes "api_kind_ok call" and "normal (rt_State rt)" and "checkpoint_ok ops call rt"
  shows "rt_step ops rt (api_run ops call rt)"
proof -
  have exec: "rt_step ops rt (snd (f rt))"
    if "\<And>e. executeCommand (rt_State rt) c = Inl e \<Longrightarrow> snd (f rt) = rt"
      "\<And>d. executeCommand (rt_State rt) c = Inr (Duplicate d) \<Longrightarrow> snd (f rt) = rt"
      "\<And>cl plan. executeCommand (rt_State rt) c = Inr (Executed cl plan) \<Longrightarrow>
         snd (f rt) = snd (commit_command ops rt c cl plan)" for f :: "_ \<Rightarrow> _ \<times> _" and c
  proof (cases "executeCommand (rt_State rt) c")
    case (Inr ex)
    then show ?thesis
      using that(2,3) commit_command_step[of rt c] by (cases ex) (auto intro: rt_step.idle)
  qed (use that(1) in \<open>auto intro: rt_step.idle\<close>)
  show ?thesis
  proof (cases call)
    case (CallBootstrap c)
    with assms(1) have "\<And>cl plan. executeCommand (rt_State rt) c = Inr (Executed cl plan) \<Longrightarrow> plan = None"
      by (auto intro: executed_plan)
    then show ?thesis using exec[of c "rt_Bootstrap ops c"] CallBootstrap by (auto simp: rt_Bootstrap_def)
  next
    case (CallReconfigure c)
    then show ?thesis using exec[of c "rt_Reconfigure ops c"]
      by (auto simp: rt_Reconfigure_def split: prod.splits sum.splits option.splits)
  next
    case (CallApplyProgress c)
    with assms(1) have "\<And>cl plan. executeCommand (rt_State rt) c = Inr (Executed cl plan) \<Longrightarrow> plan = None"
      by (auto intro: executed_plan)
    then show ?thesis using exec[of c "rt_ApplyProgress ops c"] CallApplyProgress by (auto simp: rt_ApplyProgress_def)
  next
    case (CallApplyProgressVersion c)
    have "snd (rt_ApplyProgressVersion ops c rt) = snd (rt_ApplyProgress ops c rt)"
      by (auto simp: rt_ApplyProgressVersion_def rt_ApplyProgress_def split: prod.splits sum.splits executed.splits)
    moreover from assms(1) CallApplyProgressVersion
    have "\<And>cl plan. executeCommand (rt_State rt) c = Inr (Executed cl plan) \<Longrightarrow> plan = None"
      by (auto intro: executed_plan)
    ultimately show ?thesis using exec[of c "rt_ApplyProgress ops c"] CallApplyProgressVersion
      by (auto simp: rt_ApplyProgress_def)
  next
    case (CallMarkNodeReady c)
    with assms observe_method_step[of c rt ops] show ?thesis by (simp add: rt_MarkNodeReady_def)
  next
    case (CallHeartbeat c)
    with assms observe_method_step[of c rt ops] show ?thesis by (simp add: rt_Heartbeat_def)
  next
    case (CallApplyLiveness c)
    with assms observe_method_step[of c rt ops] show ?thesis by (simp add: rt_ApplyLiveness_def)
  next
    case (CallAcknowledgeOutbox c)
    with assms observe_method_step[of c rt ops] rt_step.idle[of ops rt] show ?thesis
      by (auto simp: rt_AcknowledgeOutbox_def split: sum.splits option.splits)
  next
    case (CallAcknowledgeOutboxVersion c)
    have "api_run ops call rt = rt \<or> api_run ops call rt = snd (observe_method ops c rt)"
      using CallAcknowledgeOutboxVersion
      by (auto simp: rt_AcknowledgeOutboxVersion_def observe_method_def split: sum.splits option.splits executed.splits prod.splits)
    with assms observe_method_step[of c rt ops] rt_step.idle[of ops rt] CallAcknowledgeOutboxVersion
    show ?thesis by auto
  next
    case CallCheckpoint
    with assms(3) rt_step.checkpoint show ?thesis
      by (cases "rt_Checkpoint ops rt") (auto simp: checkpoint_ok_def)
  qed
qed

section \<open>What the log determines\<close>

definition ckpt_base :: "rt_state option \<Rightarrow> rt_state" where
  "ckpt_base ck = (case ck of None \<Rightarrow> zeroState | Some c \<Rightarrow> cloneState c)"

definition recovered :: "rt_state option \<times> log_record list \<Rightarrow> rt_err + rt_state" where
  "recovered c =
     (let st = ckpt_base (fst c)
      in res_bind (fold_res replay_step (filter (\<lambda>r. lr_Index r > st_LastLogIndex st) (snd c))
                     (st, st_LastLogIndex st)) (\<lambda>(st', _). Inr st'))"

text \<open>The stored checkpoint and log determine the live state.\<close>

definition durable :: "rt_state option \<times> log_record list \<Rightarrow> rt_state \<Rightarrow> bool" where
  "durable c st =
     (recovered c = Inr st \<and> normal st \<and> list_all (\<lambda>r. lr_Index r \<le> st_LastLogIndex st) (snd c))"

lemma replay_step_index:
  "replay_step r (st, i) = Inr (st', j) \<Longrightarrow> j = lr_Index r \<and> st_LastLogIndex st' = lr_Index r"
  by (auto simp: replay_step_def replayRecord_def res_bind_Inr nextStateForApplied_fields(2)
      split: if_splits sum.splits executed.splits)

lemma replay_index:
  assumes "fold_res replay_step rs (st, st_LastLogIndex st) = Inr (st', i)"
  shows "i = st_LastLogIndex st' \<and> (rs \<noteq> [] \<longrightarrow> st_LastLogIndex st' = lr_Index (last rs)) \<and> (rs = [] \<longrightarrow> st' = st)"
proof (cases rs rule: rev_cases)
  case Nil
  with assms have "st = st'" "i = st_LastLogIndex st" by (metis fold_res.simps(1) old.sum.inject(2) prod.inject)+
  with Nil show ?thesis by simp
next
  case (snoc us r)
  with assms obtain acc where "replay_step r acc = Inr (st', i)"
    unfolding snoc fold_res_append res_bind_Inr fold_res.simps by blast
  then have "replay_step r (fst acc, snd acc) = Inr (st', i)" by simp
  from replay_step_index[OF this] snoc show ?thesis by simp
qed

lemma durable_base_le:
  assumes "durable (ck, wal) st"
  shows "st_LastLogIndex (ckpt_base ck) \<le> st_LastLogIndex st"
proof -
  let ?b = "ckpt_base ck"
  let ?rs = "filter (\<lambda>r. lr_Index r > st_LastLogIndex ?b) wal"
  obtain i where f: "fold_res replay_step ?rs (?b, st_LastLogIndex ?b) = Inr (st, i)"
    using assms by (auto simp: durable_def recovered_def Let_def res_bind_Inr)
  show ?thesis
  proof (cases "?rs = []")
    case False
    then have "last ?rs \<in> set ?rs" by (rule last_in_set)
    then show ?thesis using replay_index[OF f] False by auto
  qed (use replay_index[OF f] in simp)
qed

lemma durable_append:
  assumes d: "durable (ck, wal) st" and ex: "executeCommand st cmd = Inr (Executed cl plan)"
    and n: "nextStateForApplied st i cmd cl plan = Inr next"
    and i: "i = st_LastLogIndex st + 1" "st_LastLogIndex st < i"
  shows "durable (ck, wal @ [\<lparr>lr_Index = i, lr_Command = cmd\<rparr>]) next"
proof -
  let ?b = "ckpt_base ck"
  let ?rs = "filter (\<lambda>r. lr_Index r > st_LastLogIndex ?b) wal"
  obtain j where f: "fold_res replay_step ?rs (?b, st_LastLogIndex ?b) = Inr (st, j)"
    using d by (auto simp: durable_def recovered_def Let_def res_bind_Inr)
  have j: "j = st_LastLogIndex st" using replay_index[OF f] by simp
  have "st_LastLogIndex ?b < i" using durable_base_le[OF d] i(2) by simp
  then have "recovered (ck, wal @ [\<lparr>lr_Index = i, lr_Command = cmd\<rparr>]) = Inr next"
    using f j i(1) ex n
    by (simp add: recovered_def Let_def fold_res_append replay_step_def replayRecord_def)
  moreover have "normal next" using nextStateForApplied_normal[OF n] d by (simp add: durable_def)
  moreover have "list_all (\<lambda>r. lr_Index r \<le> i) wal"
    using d i(2) by (auto simp: durable_def list_all_iff intro: order.trans less_imp_le)
  ultimately show ?thesis using nextStateForApplied_fields(2)[OF n] by (simp add: durable_def)
qed

lemma durable_checkpoint:
  assumes "durable (ck, wal) st"
  defines "c \<equiv> st\<lparr>st_AppliedCommands := fmempty\<rparr>"
  shows "durable (Some c, filter (\<lambda>r. lr_Index r > st_LastLogIndex st) wal) c" and "cloneState c = c"
proof -
  have n: "normal c"
    using assms by (simp add: durable_def normal_iff c_def fmap_ext)
  then show "cloneState c = c" by (simp add: normal_def)
  moreover have "filter (\<lambda>r. lr_Index r > st_LastLogIndex st) wal = []"
    using assms(1) by (auto simp: durable_def list_all_iff filter_empty_conv not_less)
  ultimately show "durable (Some c, filter (\<lambda>r. lr_Index r > st_LastLogIndex st) wal) c"
    using n by (simp add: durable_def recovered_def ckpt_base_def)
qed

section \<open>The contract of a store\<close>

locale wal_store =
  fixes ops :: "'s store_ops"
    and contents :: "'s \<Rightarrow> rt_state option \<times> log_record list"
  assumes load_checkpoint: "so_LoadLatestCheckpoint ops s = Inr (fst (contents s))"
    and load_wal: "so_LoadWAL ops s i = Inr (filter (\<lambda>r. lr_Index r > i) (snd (contents s)))"
    and append_wal: "so_AppendWAL ops s r = (None, s') \<Longrightarrow>
      list_all (\<lambda>q. lr_Index q < lr_Index r) (snd (contents s)) \<Longrightarrow>
      contents s' = (fst (contents s), snd (contents s) @ [r])"
    and append_error: "so_AppendWAL ops s r = (Some e, s') \<Longrightarrow> contents s' = contents s"
    and save_checkpoint: "so_SaveCheckpoint ops s st = (None, s') \<Longrightarrow>
      contents s' = (Some (cloneState st), snd (contents s))"
    and truncate_wal: "so_TruncateWAL ops s i = (None, s') \<Longrightarrow>
      contents s' = (fst (contents s), filter (\<lambda>r. lr_Index r > i) (snd (contents s)))"
begin

lemma open_recovered:
  "rt_Open ops s = res_bind (recovered (contents s)) (\<lambda>st. Inr \<lparr>rt_Store = s, rt_State = st\<rparr>)"
  by (simp add: rt_Open_def load_checkpoint load_wal recovered_def ckpt_base_def Let_def res_bind_def
      split: sum.split prod.split option.split)

lemma durable_open: "durable (contents (rt_Store rt)) (rt_State rt) \<Longrightarrow> rt_Open ops (rt_Store rt) = Inr rt"
  by (simp add: open_recovered durable_def)

lemma step_durable:
  assumes "rt_step ops rt rt'" and "durable (contents (rt_Store rt)) (rt_State rt)"
    and "st_LastLogIndex (rt_State rt) < st_LastLogIndex (rt_State rt) + 1"
  shows "durable (contents (rt_Store rt')) (rt_State rt') \<and>
    (st_LastLogIndex (rt_State rt') = st_LastLogIndex (rt_State rt) \<or>
     st_LastLogIndex (rt_State rt') = st_LastLogIndex (rt_State rt) + 1)"
  using assms
proof (cases rule: rt_step.cases)
  case (commit cmd cl plan nxt s')
  let ?st = "rt_State rt"
  obtain ck wal where c: "contents (rt_Store rt) = (ck, wal)" by force
  have "list_all (\<lambda>q. lr_Index q < st_LastLogIndex ?st + 1) wal"
    using assms(2,3) c by (auto simp: durable_def list_all_iff intro: le_less_trans)
  then have "contents s' = (ck, wal @ [\<lparr>lr_Index = st_LastLogIndex ?st + 1, lr_Command = cmd\<rparr>])"
    using append_wal[OF commit(4)] c by simp
  with durable_append[OF assms(2)[unfolded c] commit(2,3) refl assms(3)] commit(1)
    nextStateForApplied_fields(2)[OF commit(3)]
  show ?thesis by simp
next
  case (append_failed cmd e s')
  with assms(2) append_error show ?thesis by simp
next
  case checkpoint
  let ?st = "rt_State rt"
  obtain ck wal where c: "contents (rt_Store rt) = (ck, wal)" by force
  note d = durable_checkpoint[OF assms(2)[unfolded c]]
  have cl: "cloneState ?st = ?st" using assms(2) by (simp add: durable_def normal_def)
  obtain s1 s2 where s1: "so_SaveCheckpoint ops (rt_Store rt) (?st\<lparr>st_AppliedCommands := fmempty\<rparr>) = (None, s1)"
    and s2: "so_TruncateWAL ops s1 (st_LastLogIndex ?st) = (None, s2)"
    and rt': "rt' = \<lparr>rt_Store = s2, rt_State = ?st\<lparr>st_AppliedCommands := fmempty\<rparr>\<rparr>"
    using checkpoint by (auto simp: rt_Checkpoint_def Let_def cl split: prod.splits option.splits)
  have "contents s2 = (Some (?st\<lparr>st_AppliedCommands := fmempty\<rparr>),
      filter (\<lambda>r. lr_Index r > st_LastLogIndex ?st) wal)"
    using save_checkpoint[OF s1] truncate_wal[OF s2] c d(2) by simp
  with d(1) rt' show ?thesis by simp
qed simp

lemma reach_durable:
  assumes "rt_reach ops s0 n rt" and "contents s0 = (None, [])" and "n < 2 ^ 64"
  shows "durable (contents (rt_Store rt)) (rt_State rt) \<and> unat (st_LastLogIndex (rt_State rt)) \<le> n"
  using assms
proof (induction rule: rt_reach.induct)
  case (opened rt)
  then have "rt = \<lparr>rt_Store = s0, rt_State = zeroState\<rparr>"
    by (simp add: open_recovered recovered_def ckpt_base_def)
  with opened show ?case by (simp add: durable_def recovered_def ckpt_base_def zeroState_def[THEN arg_cong[where f = st_LastLogIndex]])
next
  case (step n rt rt')
  then have d: "durable (contents (rt_Store rt)) (rt_State rt)" and le: "unat (st_LastLogIndex (rt_State rt)) \<le> n"
    by simp_all
  have "unat (st_LastLogIndex (rt_State rt)) + 1 < 2 ^ LENGTH(64)" using le step.prems(2) by simp
  then have u: "unat (st_LastLogIndex (rt_State rt) + 1) = unat (st_LastLogIndex (rt_State rt)) + 1"
    by (simp add: unat_word_ariths)
  then have "st_LastLogIndex (rt_State rt) < st_LastLogIndex (rt_State rt) + 1" by (simp add: word_less_nat_alt)
  from step_durable[OF step.hyps(2) d this] u le show ?case by auto
qed

text \<open>Recovery reproduces the live runtime.\<close>

lemma recovers:
  assumes "rt_reach ops s0 n rt" and "contents s0 = (None, [])" and "n < 2 ^ 64"
  shows "rt_Open ops (rt_Store rt) = Inr rt"
  using reach_durable[OF assms] durable_open by blast

end

definition ims_contents :: "in_memory_store \<Rightarrow> rt_state option \<times> log_record list" where
  "ims_contents s = (map_option cloneState (ims_checkpoint s), ims_wal s)"

interpretation memory: wal_store in_memory_ops ims_contents
  by unfold_locales
    (auto simp: in_memory_ops_def ims_contents_def ims_LoadLatestCheckpoint_def ims_LoadWAL_def
      ims_AppendWAL_def ims_SaveCheckpoint_def ims_TruncateWAL_def)

section \<open>Sequences of calls\<close>

lemma normal_step:
  assumes "rt_step in_memory_ops rt rt'" and "normal (rt_State rt)"
  shows "normal (rt_State rt')"
  using assms
proof (cases rule: rt_step.cases)
  case checkpoint
  then show ?thesis
    using assms(2)
    by (auto simp: rt_Checkpoint_def Let_def normal_iff fmap_ext split: prod.splits option.splits)
qed (auto dest: nextStateForApplied_normal)

lemma in_memory_checkpoint_ok: "checkpoint_ok in_memory_ops call rt"
  by (simp add: checkpoint_ok_def rt_Checkpoint_def in_memory_ops_def ims_SaveCheckpoint_def ims_TruncateWAL_def Let_def)

lemma api_reach:
  assumes "rt_reach in_memory_ops s0 n rt" and "normal (rt_State rt)" and "list_all api_kind_ok calls"
  shows "rt_reach in_memory_ops s0 (n + length calls) (fold (api_run in_memory_ops) calls rt) \<and>
    normal (rt_State (fold (api_run in_memory_ops) calls rt))"
  using assms
proof (induction calls arbitrary: n rt)
  case (Cons call calls)
  then have st: "rt_step in_memory_ops rt (api_run in_memory_ops call rt)"
    by (intro api_run_step in_memory_checkpoint_ok) auto
  from Cons.IH[OF rt_reach.step[OF Cons.prems(1) st] normal_step[OF st Cons.prems(2)]] Cons.prems(3)
  show ?case by simp
qed simp

definition fresh_runtime :: "in_memory_store runtime" where
  "fresh_runtime = \<lparr>rt_Store = NewInMemoryStore, rt_State = zeroState\<rparr>"

lemma fresh_opened: "rt_Open in_memory_ops NewInMemoryStore = Inr fresh_runtime"
  by (simp add: memory.open_recovered ims_contents_def NewInMemoryStore_def recovered_def ckpt_base_def fresh_runtime_def)

lemma fresh_reach:
  assumes "list_all api_kind_ok calls"
  shows "rt_reach in_memory_ops NewInMemoryStore (length calls) (fold (api_run in_memory_ops) calls fresh_runtime)"
    and "normal (rt_State (fold (api_run in_memory_ops) calls fresh_runtime))"
  using api_reach[OF rt_reach.opened[OF fresh_opened] _ assms] by (simp_all add: fresh_runtime_def)

text \<open>
  C12. Recovery is exact: after any sequence of fewer than \<open>2^64\<close> calls of the
  public methods on a fresh runtime (commands accepted, rejected or repeated,
  checkpoints anywhere), each called with a command of its own kind, opening the
  store again yields exactly the live runtime: state, versions, pending work, outbox
  and the record of applied commands.
\<close>

theorem Open_recovers_live_state:
  assumes "list_all api_kind_ok calls" and "length calls < 2 ^ 64"
  shows "rt_Open in_memory_ops (rt_Store (fold (api_run in_memory_ops) calls fresh_runtime)) =
    Inr (fold (api_run in_memory_ops) calls fresh_runtime)"
  by (rule memory.recovers[OF fresh_reach(1)[OF assms(1)] _ assms(2)])
    (simp add: ims_contents_def NewInMemoryStore_def)

text \<open>A bootstrap, a heartbeat, a checkpoint and a repeated heartbeat, used by the witnesses.\<close>

definition ex_cmd :: "string \<Rightarrow> u64 \<Rightarrow> CommandKind \<Rightarrow> command" where
  "ex_cmd cid v k = \<lparr>cmd_ID = cid, cmd_ExpectedVersion = v, cmd_Kind = k, cmd_Bootstrap = None,
     cmd_Reconfigure = None, cmd_Progress = None, cmd_NodeReady = None, cmd_Heartbeat = None,
     cmd_Liveness = None, cmd_AcknowledgeOutbox = None\<rparr>"

definition ex_boot :: command where
  "ex_boot = (ex_cmd ''boot'' 0 CommandKindBootstrap)\<lparr>cmd_Bootstrap := Some
     \<lparr>bc_Config = \<lparr>cfg_SlotCount = 2, cfg_ReplicationFactor = 2\<rparr>, bc_Nodes = ex_nodes,
      bc_Policy = \<lparr>MaxChangedChains = 1\<rparr>\<rparr>\<rparr>"

definition ex_beat :: "u64 \<Rightarrow> command" where
  "ex_beat v = (ex_cmd ''beat'' v CommandKindHeartbeat)\<lparr>cmd_Heartbeat := Some
     \<lparr>ob_Status = zero_status\<lparr>ns_NodeID := ''a''\<rparr>, ob_ObservedAtUnixNano = 5, ob_FlapWindowNanos = 0\<rparr>\<rparr>"

definition ex_calls :: "api_call list" where
  "ex_calls = [CallBootstrap ex_boot, CallHeartbeat (ex_beat 1), CallCheckpoint, CallHeartbeat (ex_beat 2),
     CallHeartbeat (ex_beat 2)]"

theorem Open_recovers_live_state_witness:
  "rt_Open in_memory_ops (rt_Store (fold (api_run in_memory_ops) ex_calls fresh_runtime)) =
     Inr (fold (api_run in_memory_ops) ex_calls fresh_runtime) \<and>
   st_Version (rt_State (fold (api_run in_memory_ops) ex_calls fresh_runtime)) = 3"
proof -
  have k: "list_all api_kind_ok ex_calls" by code_simp
  have l: "length ex_calls < 2 ^ 64" by (simp add: ex_calls_def)
  have "st_Version (rt_State (fold (api_run in_memory_ops) ex_calls fresh_runtime)) = 3" by code_simp
  with Open_recovers_live_state[OF k l] show ?thesis by blast
qed

end
