(* ===== verification/Runtime_Props.thy ===== *)
theory Runtime_Props
  imports Runtime_Recovery
begin

text \<open>
  Invariants of every reachable runtime state (the cluster stays well formed and free of
  dead nodes, pending work and outbox entries carry the current slot version, progress
  histories are bounded), the version discipline and idempotence of the public methods,
  and facts about identifiers, assignments and liveness records.
\<close>

section \<open>Executed commands\<close>

lemma executed_cases:
  assumes "executeCommand st cmd = Inr (Executed cl plan)"
  obtains (bootstrap) b cl0 where "cmd_Kind cmd = CommandKindBootstrap" "cmd_Bootstrap cmd = Some b"
    "BuildInitialPlacement (bc_Config b) (bc_Nodes b) = Inr cl0" "cl = cloneClusterState cl0" "plan = None"
    "\<not> isInitialized st"
  | (reconfigure) r p where "cmd_Kind cmd = CommandKindReconfigure" "cmd_Reconfigure cmd = Some r"
    "PlanReconfiguration (cloneClusterState (st_Cluster st)) (rc_Events r) (rc_Policy r) = Inr p"
    "cl = cloneClusterState (UpdatedState p)" "plan = clonePlan (Some p)" "isInitialized st"
  | (progress) pc cl0 where "cmd_Kind cmd = CommandKindProgress" "cmd_Progress cmd = Some pc"
    "ApplyProgress (cloneClusterState (st_Cluster st)) (pc_Event pc) = Inr cl0"
    "cl = cloneClusterState cl0" "plan = None" "isInitialized st"
  | (same) "cmd_Kind cmd \<in> {CommandKindNodeReady, CommandKindHeartbeat, CommandKindLiveness,
      CommandKindAcknowledgeOutbox}" "cl = cloneClusterState (st_Cluster st)" "plan = None"
  using assms that
  by (cases "cmd_Kind cmd")
    (auto simp: executeCommand_def Let_def res_bind_Inr lift_coord_def split: option.splits if_splits sum.splits)

lemma executed_validated:
  "executeCommand st cmd = Inr (Executed cl plan) \<Longrightarrow> validateCommand st cmd = Inr None"
  by (auto simp: executeCommand_def res_bind_Inr split: option.splits)

lemma validated_payload:
  assumes "validateCommand st cmd = Inr x"
  shows "validateCommandPayload cmd = Inr ()"
  using assms by (auto simp: validateCommand_def res_bind_Inr split: if_splits)

lemma payload_present:
  assumes "validateCommandPayload cmd = Inr ()"
  shows "cmd_Kind cmd = CommandKindNodeReady \<Longrightarrow> cmd_NodeReady cmd \<noteq> None"
    and "cmd_Kind cmd = CommandKindHeartbeat \<Longrightarrow> cmd_Heartbeat cmd \<noteq> None"
    and "cmd_Kind cmd = CommandKindLiveness \<Longrightarrow> cmd_Liveness cmd \<noteq> None"
    and "cmd_Kind cmd = CommandKindProgress \<Longrightarrow> cmd_Progress cmd \<noteq> None"
    and "cmd_Kind cmd = CommandKindBootstrap \<Longrightarrow> cmd_Bootstrap cmd \<noteq> None"
    and "cmd_Kind cmd = CommandKindReconfigure \<Longrightarrow> cmd_Reconfigure cmd \<noteq> None"
    and "cmd_Kind cmd = CommandKindAcknowledgeOutbox \<Longrightarrow> cmd_AcknowledgeOutbox cmd \<noteq> None"
  using assms by (auto simp: validateCommandPayload_def Let_def split: if_splits)

text \<open>A validated command never dereferences a missing payload.\<close>

lemma executed_next_exists:
  assumes "executeCommand st cmd = Inr (Executed cl plan)"
  shows "\<exists>next. nextStateForApplied st i cmd cl plan = Inr next"
proof -
  note p = payload_present[OF validated_payload[OF executed_validated[OF assms]]]
  have "\<exists>nl. nextNodeLiveness (st_NodeLivenessByID (cloneStateForNextApplied st)) cmd = Inr nl"
    using p(1,2,3) by (auto simp: nextNodeLiveness_def split: CommandKind.split option.split)
  then show ?thesis by (auto simp: nextStateForApplied_def Let_def)
qed

section \<open>The cluster of a reachable state\<close>

lemma ready_flags_irrelevant:
  "wf_cluster (st\<lparr>cs_ReadyNodeIDs := m\<rparr>) = wf_cluster st" "no_dead (st\<lparr>cs_ReadyNodeIDs := m\<rparr>) = no_dead st"
  by (simp_all add: wf_cluster_def wf_nodes_def no_dead_def wf_chain_def[abs_def] no_dead_chain_def[abs_def])

lemma cloneClusterState_wf [simp]:
  "wf_cluster (cloneClusterState st) = wf_cluster st" "no_dead (cloneClusterState st) = no_dead st"
  "cs_SlotCount (cloneClusterState st) = cs_SlotCount st"
  by (simp_all add: cloneClusterState_def ready_flags_irrelevant)

lemma nextClusterState_wf [simp]:
  "wf_cluster (nextClusterState cl cmd) = wf_cluster cl" "no_dead (nextClusterState cl cmd) = no_dead cl"
  "cs_SlotCount (nextClusterState cl cmd) = cs_SlotCount cl"
  by (auto simp: nextClusterState_def Let_def ready_flags_irrelevant split: option.split)

lemma ApplyProgress_wf:
  assumes "ApplyProgress st e = Inr st'" and "wf_cluster st" and "no_dead st"
  shows "wf_cluster st' \<and> no_dead st'"
proof -
  obtain w where w: "cloneAndValidateState st = Inr w" and p: "applyProgressEvent w e = Inr st'"
    using assms(1) by (auto simp: ApplyProgress_def res_bind_Inr split: if_splits)
  note v = cloneAndValidateState_wf[OF w assms(2)]
  obtain c' dr where st': "st' = (set_chain w (nat (ev_Slot e)) c')\<lparr>cs_DrainingNodeIDs := dr\<rparr>"
    and ev: "chain_evolves w (cs_Chains w ! nat (ev_Slot e)) c'" and lt: "nat (ev_Slot e) < length (cs_Chains w)"
    using applyProgressEvent_step[OF p v(5)] v(6) assms(3) by auto
  have nd: "no_dead w" using v(6) assms(3) by simp
  have "no_dead_chain w c'"
    using ev wf_cluster_chain[OF v(5) lt] nd lt by (auto simp: chain_evolves_def no_dead_def list_all_iff)
  then have "no_dead st'"
    using nd by (auto simp: st' no_dead_def set_chain_def list_all_iff no_dead_chain_def
        dest!: set_update_subset_insert[THEN subsetD])
  with applyProgressEvent_wf(1)[OF p v(5)] show ?thesis by simp
qed

definition cluster_safe :: "rt_state \<Rightarrow> bool" where
  "cluster_safe st = (isInitialized st \<longrightarrow> wf_cluster (st_Cluster st) \<and> no_dead (st_Cluster st))"

lemma executed_cluster_safe:
  assumes "executeCommand st cmd = Inr (Executed cl plan)" and "cluster_safe st"
  shows "0 < cs_SlotCount cl \<longrightarrow> wf_cluster cl \<and> no_dead cl"
  using assms(1)
proof (cases rule: executed_cases)
  case (bootstrap b cl0)
  with BuildInitialPlacement_props[OF bootstrap(3)] show ?thesis by simp
next
  case (reconfigure r p)
  with PlanReconfiguration_props[OF reconfigure(3)] assms(2) show ?thesis by (simp add: cluster_safe_def)
next
  case (progress pc cl0)
  with ApplyProgress_wf[OF progress(3)] assms(2) show ?thesis by (simp add: cluster_safe_def)
next
  case same
  with assms(2) show ?thesis by (simp add: cluster_safe_def isInitialized_def)
qed

section \<open>Work carries the current slot version\<close>

definition pending_current :: "rt_state \<Rightarrow> bool" where
  "pending_current st =
     fmpred (\<lambda>slot pw. pw_Slot pw = slot \<and> pw_SlotVersion pw = fm_get 0 (st_SlotVersions st) slot)
       (st_PendingBySlot st)"

definition entry_current :: "slot_versions \<Rightarrow> outbox_entry \<Rightarrow> bool" where
  "entry_current sv e =
     (oe_Kind e = OutboxCommandKindMarkReplicaLeaving \<or>
      ra_ChainVersion (oe_Assignment e) = fm_get 0 sv (oe_Slot e))"

definition outbox_current :: "rt_state \<Rightarrow> bool" where
  "outbox_current st = list_all (entry_current (st_SlotVersions st)) (st_Outbox st)"

lemma fold_fmupd_get:
  "fm_get z (fold (\<lambda>x. fmupd (f x) (g (f x))) xs m) k = (if k \<in> f ` set xs then g k else fm_get z m k)"
  by (induction xs arbitrary: m) auto

lemma nextSlotVersions_get:
  "fm_get 0 (nextSlotVersions sv CommandKindReconfigure cl (Some p)) slot =
     (if slot \<in> sp_Slot ` set (ChangedSlots p) then fm_get 0 sv slot + 1 else fm_get 0 sv slot)"
  using fold_fmupd_get[of 0 sp_Slot "\<lambda>s. fm_get 0 sv s + 1" "ChangedSlots p" sv slot]
  by (simp add: nextSlotVersions_def)

lemma pending_for_plan_ok:
  assumes "fmpred (\<lambda>slot pw. pw_Slot pw = slot \<and> (slot \<in> S \<or> pw_SlotVersion pw = fm_get 0 sv slot)) m"
  shows "fmpred (\<lambda>slot pw. pw_Slot pw = slot \<and> (slot \<in> S - {sp_Slot sp} \<or> pw_SlotVersion pw = fm_get 0 sv slot))
    (pending_for_plan sv sp m)"
proof -
  have "fmpred (\<lambda>slot pw. pw_Slot pw = slot \<and> (slot \<in> S - {sp_Slot sp} \<or> pw_SlotVersion pw = fm_get 0 sv slot))
      (fmdrop (sp_Slot sp) m)"
    using assms by (auto simp: fmpred_iff)
  then show ?thesis by (auto simp: pending_for_plan_def Let_def intro!: fmpred_upd)
qed

lemma pendingFromPlan_ok:
  assumes "fmpred (\<lambda>slot pw. pw_Slot pw = slot \<and> (slot \<in> S \<or> pw_SlotVersion pw = fm_get 0 sv slot)) m"
    and "S \<subseteq> sp_Slot ` set sps"
  shows "fmpred (\<lambda>slot pw. pw_Slot pw = slot \<and> pw_SlotVersion pw = fm_get 0 sv slot)
    (fold (pending_for_plan sv) sps m)"
  using assms
proof (induction sps arbitrary: S m)
  case (Cons sp sps)
  from Cons.IH[OF pending_for_plan_ok[OF Cons.prems(1)]] Cons.prems(2) show ?case by auto
qed simp

lemma nextPending_current:
  assumes "executeCommand st cmd = Inr (Executed cl plan)" and "pending_current st"
    and n: "nextStateForApplied st i cmd cl plan = Inr st'"
  shows "pending_current st'"
  using assms(1)
proof (cases rule: executed_cases)
  case (reconfigure r p)
  note f = nextStateForApplied_fields(4,7)[OF n]
  let ?p = "p\<lparr>UpdatedState := cloneClusterState (UpdatedState p)\<rparr>"
  let ?S = "sp_Slot ` set (ChangedSlots p)"
  have sv: "st_SlotVersions st' = nextSlotVersions (st_SlotVersions st) CommandKindReconfigure cl (Some ?p)"
    using f(1) reconfigure by (simp add: clonePlan_def)
  have "fmpred (\<lambda>slot pw. pw_Slot pw = slot \<and> (slot \<in> ?S \<or> pw_SlotVersion pw = fm_get 0 (st_SlotVersions st') slot))
      (st_PendingBySlot st)"
    using assms(2) by (auto simp: pending_current_def fmpred_iff sv nextSlotVersions_get)
  from pendingFromPlan_ok[OF this] show ?thesis
    using f(2) reconfigure by (simp add: pending_current_def nextPending_def clonePlan_def pendingFromPlan_def)
qed (use assms(2) nextStateForApplied_fields(4,7)[OF n] in
  \<open>auto simp: pending_current_def nextPending_def nextSlotVersions_def fmpred_iff\<close>)

lemma assignmentForNode_version:
  "assignmentForNode c nodes nid v = Some a \<Longrightarrow> ra_ChainVersion a = v \<and> ra_Slot a = chain_Slot c"
  by (auto simp: assignmentForNode_def Let_def split: option.splits)

lemma outbox_for_plan_current:
  "e \<in> set (outbox_for_plan v sv cl sp) \<Longrightarrow> oe_Slot e = sp_Slot sp \<and> entry_current sv e"
  by (auto simp: outbox_for_plan_def Let_def entry_current_def List.map_filter_def
      dest: assignmentForNode_version assignmentForNode_version[OF sym] split: if_splits option.splits)

lemma nextOutbox_current:
  assumes "executeCommand st cmd = Inr (Executed cl plan)" and "outbox_current st"
    and n: "nextStateForApplied st i cmd cl plan = Inr st'"
  shows "outbox_current st'"
  using assms(1)
proof (cases rule: executed_cases)
  case (reconfigure r p)
  note f = nextStateForApplied_fields(4,8)[OF n]
  let ?p = "p\<lparr>UpdatedState := cloneClusterState (UpdatedState p)\<rparr>"
  have sv: "st_SlotVersions st' = nextSlotVersions (st_SlotVersions st) CommandKindReconfigure cl (Some ?p)"
    using f(1) reconfigure by (simp add: clonePlan_def)
  have old: "entry_current (st_SlotVersions st') e"
    if "e \<in> set (st_Outbox st)" "oe_Slot e \<notin> sp_Slot ` set (ChangedSlots p)" for e
    using assms(2) that by (auto simp: outbox_current_def entry_current_def list_all_iff sv nextSlotVersions_get)
  have "st_Outbox st' = outboxFromPlan (st_Outbox st) (st_Version st') (st_SlotVersions st') cl ?p"
    using f(2) reconfigure by (simp add: nextOutbox_def clonePlan_def)
  then show ?thesis
    using old outbox_for_plan_current by (auto simp: outbox_current_def outboxFromPlan_def list_all_iff)
qed (use assms(2) nextStateForApplied_fields(4,8)[OF n] in
  \<open>auto simp: outbox_current_def nextOutbox_def nextSlotVersions_def list_all_iff split: option.splits\<close>)

section \<open>Bounded progress history\<close>

definition history_bounded :: "rt_state \<Rightarrow> bool" where
  "history_bounded st =
     fmpred (\<lambda>_ rs. length rs \<le> completedProgressHistoryLimit) (st_CompletedProgressBySlot st)"

lemma nextCompletedProgress_bounded:
  "fmpred (\<lambda>_ rs. length rs \<le> completedProgressHistoryLimit) m \<Longrightarrow>
     fmpred (\<lambda>_ rs. length rs \<le> completedProgressHistoryLimit) (nextCompletedProgress m sv cmd)"
  by (auto simp: nextCompletedProgress_def Let_def intro!: fmpred_upd split: option.split EventKind.split)

section \<open>Reachable states\<close>

definition rt_inv :: "rt_state \<Rightarrow> bool" where
  "rt_inv st = (cluster_safe st \<and> pending_current st \<and> outbox_current st \<and> history_bounded st \<and>
     st_Version st = st_LastLogIndex st)"

lemma rt_inv_zero: "rt_inv zeroState"
  by (simp add: rt_inv_def cluster_safe_def isInitialized_def zeroState_def zero_cluster_def
      pending_current_def outbox_current_def history_bounded_def)

lemma rt_inv_executed:
  assumes "executeCommand st cmd = Inr (Executed cl plan)"
    and n: "nextStateForApplied st (st_LastLogIndex st + 1) cmd cl plan = Inr st'" and "rt_inv st"
  shows "rt_inv st'"
proof -
  note f = nextStateForApplied_fields[OF n]
  have "cluster_safe st'"
    using executed_cluster_safe[OF assms(1)] assms(3) by (simp add: rt_inv_def cluster_safe_def isInitialized_def f(3))
  moreover have "history_bounded st'"
    using assms(3) nextCompletedProgress_bounded by (simp add: rt_inv_def history_bounded_def f(5))
  ultimately show ?thesis
    using nextPending_current[OF assms(1) _ n] nextOutbox_current[OF assms(1) _ n] assms(3) f(1,2)
    by (simp add: rt_inv_def)
qed

lemma rt_inv_step:
  assumes "rt_step ops rt rt'" and "rt_inv (rt_State rt)"
  shows "rt_inv (rt_State rt')"
  using assms
proof (cases rule: rt_step.cases)
  case (commit cmd cl plan nxt s')
  with rt_inv_executed assms(2) show ?thesis by simp
next
  case checkpoint
  then have "rt_State rt' = (rt_State rt)\<lparr>st_AppliedCommands := fmempty\<rparr>"
    by (auto simp: rt_Checkpoint_def Let_def split: prod.splits option.splits)
  with assms(2) show ?thesis
    by (simp add: rt_inv_def cluster_safe_def isInitialized_def pending_current_def outbox_current_def history_bounded_def)
qed auto

lemma rt_inv_reach:
  assumes "rt_reach ops s0 n rt" and "\<And>rt0. rt_Open ops s0 = Inr rt0 \<Longrightarrow> rt_inv (rt_State rt0)"
  shows "rt_inv (rt_State rt)"
  using assms by (induction rule: rt_reach.induct) (auto intro: rt_inv_step)

lemma rt_inv_calls:
  assumes "list_all api_kind_ok calls"
  shows "rt_inv (rt_State (fold (api_run in_memory_ops) calls fresh_runtime))"
  by (rule rt_inv_reach[OF fresh_reach(1)[OF assms]]) (auto simp: fresh_opened fresh_runtime_def rt_inv_zero)

lemma ex_calls_kind: "list_all api_kind_ok ex_calls"
  by code_simp

text \<open>
  C13. The control plane never reaches an unsafe chain layout: after any sequence of
  public calls on a fresh runtime, an initialized cluster is well formed (every chain
  has distinct, known members and its own slot number) and no chain contains a dead node.
\<close>

theorem reachable_cluster_safe:
  assumes "list_all api_kind_ok calls"
  shows "let st = rt_State (fold (api_run in_memory_ops) calls fresh_runtime)
    in isInitialized st \<longrightarrow> wf_cluster (st_Cluster st) \<and> no_dead (st_Cluster st)"
  using rt_inv_calls[OF assms] by (simp add: rt_inv_def cluster_safe_def Let_def)

theorem reachable_cluster_safe_witness:
  "let st = rt_State (fold (api_run in_memory_ops) ex_calls fresh_runtime)
   in isInitialized st \<and> wf_cluster (st_Cluster st) \<and> no_dead (st_Cluster st)"
proof -
  have "isInitialized (rt_State (fold (api_run in_memory_ops) ex_calls fresh_runtime))" by code_simp
  with reachable_cluster_safe[OF ex_calls_kind] show ?thesis by (simp add: Let_def)
qed

text \<open>
  C14. No stale work: in every state reached by public calls, each pending item
  sits under its own slot with exactly the current version of that slot, and every
  queued assignment of the outbox carries the current version of its slot, so a
  reconfiguration always replaces the work of an earlier one.
\<close>

theorem reachable_work_current:
  assumes "list_all api_kind_ok calls"
  shows "let st = rt_State (fold (api_run in_memory_ops) calls fresh_runtime)
    in fmpred (\<lambda>slot pw. pw_Slot pw = slot \<and> pw_SlotVersion pw = fm_get 0 (st_SlotVersions st) slot)
         (st_PendingBySlot st) \<and>
       list_all (\<lambda>e. oe_Kind e = OutboxCommandKindMarkReplicaLeaving \<or>
           ra_ChainVersion (oe_Assignment e) = fm_get 0 (st_SlotVersions st) (oe_Slot e)) (st_Outbox st)"
  using rt_inv_calls[OF assms]
  by (simp add: rt_inv_def pending_current_def outbox_current_def entry_current_def[abs_def] Let_def)

definition ex_reconf :: command where
  "ex_reconf = (ex_cmd ''dead-b'' 1 CommandKindReconfigure)\<lparr>cmd_Reconfigure := Some
     \<lparr>rc_Events = [ex_event EventKindMarkNodeDead 0 ''b''], rc_Policy = \<lparr>MaxChangedChains = 1\<rparr>\<rparr>\<rparr>"

definition ex_boot_plain :: command where
  "ex_boot_plain = (ex_cmd ''boot'' 0 CommandKindBootstrap)\<lparr>cmd_Bootstrap := Some
     \<lparr>bc_Config = \<lparr>cfg_SlotCount = 2, cfg_ReplicationFactor = 2\<rparr>,
      bc_Nodes = map (\<lambda>nid. ex_node nid []) [''a'', ''b'', ''c''],
      bc_Policy = \<lparr>MaxChangedChains = 1\<rparr>\<rparr>\<rparr>"

definition ex_repair_calls :: "api_call list" where
  "ex_repair_calls = [CallBootstrap ex_boot_plain, CallReconfigure ex_reconf]"

theorem reachable_work_current_witness:
  "let st = rt_State (fold (api_run in_memory_ops) ex_repair_calls fresh_runtime)
   in st_Outbox st \<noteq> [] \<and>
      list_all (\<lambda>e. oe_Kind e = OutboxCommandKindMarkReplicaLeaving \<or>
          ra_ChainVersion (oe_Assignment e) = fm_get 0 (st_SlotVersions st) (oe_Slot e)) (st_Outbox st)"
proof -
  have k: "list_all api_kind_ok ex_repair_calls" by code_simp
  have "st_Outbox (rt_State (fold (api_run in_memory_ops) ex_repair_calls fresh_runtime)) \<noteq> []" by code_simp
  with reachable_work_current[OF k] show ?thesis by (simp add: Let_def)
qed

text \<open>
  The progress history is bounded: in every state reached by public calls no slot
  remembers more than eight completed progress reports.
\<close>

lemma reachable_history_bounded:
  assumes "list_all api_kind_ok calls"
  shows "fmpred (\<lambda>_ rs. length rs \<le> 8)
    (st_CompletedProgressBySlot (rt_State (fold (api_run in_memory_ops) calls fresh_runtime)))"
  using rt_inv_calls[OF assms] by (simp add: rt_inv_def history_bounded_def completedProgressHistoryLimit_def)

lemma reachable_history_bounded_example:
  "fmpred (\<lambda>_ rs. length rs \<le> 8)
    (st_CompletedProgressBySlot (rt_State (fold (api_run in_memory_ops) ex_calls fresh_runtime)))"
  using reachable_history_bounded[OF ex_calls_kind] .

section \<open>One log record and one version per accepted command\<close>

lemma commit_command_in_memory:
  assumes "executeCommand (rt_State rt) cmd = Inr (Executed cl plan)"
  shows "\<exists>next. nextStateForApplied (rt_State rt) (st_LastLogIndex (rt_State rt) + 1) cmd cl plan = Inr next \<and>
    commit_command in_memory_ops rt cmd cl plan = (Inr (cloneState next),
      \<lparr>rt_Store = (rt_Store rt)\<lparr>ims_wal := ims_wal (rt_Store rt) @
         [\<lparr>lr_Index = st_LastLogIndex (rt_State rt) + 1, lr_Command = cmd\<rparr>]\<rparr>, rt_State = next\<rparr>)"
  using executed_next_exists[OF assms, of "st_LastLogIndex (rt_State rt) + 1"]
  by (auto simp: commit_command_def commitCandidate_def Let_def in_memory_ops_def ims_AppendWAL_def)

lemma rt_step_in_memory:
  assumes "rt_step in_memory_ops rt rt'"
  shows "rt_State rt' = (rt_State rt)\<lparr>st_AppliedCommands := fmempty\<rparr> \<or> rt' = rt \<or>
    (st_Version (rt_State rt') = st_Version (rt_State rt) + 1 \<and>
     (\<exists>cmd. cmd_ExpectedVersion cmd = st_Version (rt_State rt) \<and>
        \<not> fm_has (st_AppliedCommands (rt_State rt)) (cmd_ID cmd) \<and>
        rt_Store rt' = (rt_Store rt)\<lparr>ims_wal := ims_wal (rt_Store rt) @
          [\<lparr>lr_Index = st_LastLogIndex (rt_State rt) + 1, lr_Command = cmd\<rparr>]\<rparr>))"
  using assms
proof (cases rule: rt_step.cases)
  case (commit cmd cl plan nxt s')
  have "validateCommand (rt_State rt) cmd = Inr None" using executed_validated[OF commit(2)] .
  then have "cmd_ExpectedVersion cmd = st_Version (rt_State rt)" "\<not> fm_has (st_AppliedCommands (rt_State rt)) (cmd_ID cmd)"
    by (auto simp: validateCommand_def res_bind_Inr fm_has_def split: if_splits option.splits)
  with commit nextStateForApplied_fields(1)[OF commit(3)] show ?thesis
    by (auto simp: in_memory_ops_def ims_AppendWAL_def)
next
  case checkpoint
  then show ?thesis by (auto simp: rt_Checkpoint_def Let_def split: prod.splits option.splits)
qed (auto simp: in_memory_ops_def ims_AppendWAL_def)

text \<open>
  C15. Optimistic concurrency: a public call either leaves the runtime exactly as it
  was (rejected, repeated or without effect), or advances the version by one and
  appends exactly one record to the log, for a command that named the current version
  and had not been applied before.  (A checkpoint changes only the record of applied commands.)
\<close>

theorem api_call_version_discipline:
  assumes "list_all api_kind_ok (call # calls)"
  shows "let rt = fold (api_run in_memory_ops) calls fresh_runtime; rt' = api_run in_memory_ops call rt
    in rt_State rt' = (rt_State rt)\<lparr>st_AppliedCommands := fmempty\<rparr> \<or> rt' = rt \<or>
      (st_Version (rt_State rt') = st_Version (rt_State rt) + 1 \<and>
       (\<exists>cmd. cmd_ExpectedVersion cmd = st_Version (rt_State rt) \<and>
          \<not> fm_has (st_AppliedCommands (rt_State rt)) (cmd_ID cmd) \<and>
          rt_Store rt' = (rt_Store rt)\<lparr>ims_wal := ims_wal (rt_Store rt) @
            [\<lparr>lr_Index = st_LastLogIndex (rt_State rt) + 1, lr_Command = cmd\<rparr>]\<rparr>))"
proof -
  let ?rt = "fold (api_run in_memory_ops) calls fresh_runtime"
  have k: "api_kind_ok call" "list_all api_kind_ok calls" using assms by simp_all
  have "rt_step in_memory_ops ?rt (api_run in_memory_ops call ?rt)"
    by (rule api_run_step[OF k(1) fresh_reach(2)[OF k(2)] in_memory_checkpoint_ok])
  from rt_step_in_memory[OF this] show ?thesis by (simp add: Let_def)
qed

theorem api_call_version_discipline_witness:
  "let rt = fresh_runtime; rt' = api_run in_memory_ops (CallBootstrap ex_boot) rt
   in st_Version (rt_State rt') = st_Version (rt_State rt) + 1 \<and>
      (\<exists>cmd. cmd_ExpectedVersion cmd = 0 \<and>
         rt_Store rt' = (rt_Store rt)\<lparr>ims_wal := ims_wal (rt_Store rt) @ [\<lparr>lr_Index = 1, lr_Command = cmd\<rparr>]\<rparr>)"
proof -
  let ?rt' = "api_run in_memory_ops (CallBootstrap ex_boot) fresh_runtime"
  have k: "list_all api_kind_ok [CallBootstrap ex_boot]" by code_simp
  have v: "st_Version (rt_State ?rt') = 1" by code_simp
  have z: "st_Version (rt_State fresh_runtime) = 0" "st_LastLogIndex (rt_State fresh_runtime) = 0"
    by (simp_all add: fresh_runtime_def zeroState_def)
  from v z have "rt_State ?rt' \<noteq> (rt_State fresh_runtime)\<lparr>st_AppliedCommands := fmempty\<rparr>" "?rt' \<noteq> fresh_runtime"
    by auto
  with api_call_version_discipline[OF k] v z show ?thesis by (auto simp: Let_def)
qed

section \<open>Resubmission\<close>

definition applied_le :: "rt_state \<Rightarrow> bool" where
  "applied_le st = fmpred (\<lambda>_ a. ap_Version a \<le> st_Version st) (st_AppliedCommands st)"

lemma applied_le_step:
  assumes "rt_step ops rt rt'" and "applied_le (rt_State rt)"
    and "st_Version (rt_State rt) < st_Version (rt_State rt) + 1"
  shows "applied_le (rt_State rt')"
  using assms
proof (cases rule: rt_step.cases)
  case (commit cmd cl plan nxt s')
  note f = nextStateForApplied_fields(1,10)[OF commit(3)]
  have "v \<le> st_Version (rt_State rt) \<Longrightarrow> v \<le> st_Version (rt_State rt) + 1" for v
    using assms(3) by (meson le_less_trans less_imp_le)
  then show ?thesis
    using assms(2) commit(1) by (auto simp: applied_le_def fmpred_iff f split: if_splits)
next
  case checkpoint
  then show ?thesis by (auto simp: rt_Checkpoint_def Let_def applied_le_def split: prod.splits option.splits)
qed auto

text \<open>The answer recorded for a command that was just applied is the state after it.\<close>

lemma snapshot_just_applied:
  assumes n: "nextStateForApplied st i cmd cl plan = Inr st'" and "normal st'" and "applied_le st'"
  shows "validateCommandPayload cmd = Inr () \<Longrightarrow> cmd_ID cmd \<noteq> [] \<Longrightarrow>
      \<exists>d. executeCommand st' cmd = Inr (Duplicate d) \<and> snapshotForApplied st' d = st' \<and> ap_Plan d = clonePlan plan"
proof -
  assume p: "validateCommandPayload cmd = Inr ()" "cmd_ID cmd \<noteq> []"
  note f = nextStateForApplied_fields[OF n]
  obtain a where a: "fmlookup (st_AppliedCommands st') (cmd_ID cmd) = Some a" and
    af: "ap_Command a = cmd" "ap_Version a = st_Version st'" "ap_LastLogIndex a = st_LastLogIndex st'"
    "ap_Cluster a = st_Cluster st'" "ap_SlotVersions a = st_SlotVersions st'"
    "ap_CompletedProgressBySlot a = st_CompletedProgressBySlot st'"
    "ap_NodeLivenessByID a = st_NodeLivenessByID st'" "ap_PendingBySlot a = st_PendingBySlot st'"
    "ap_Outbox a = st_Outbox st'" "ap_LastPolicy a = st_LastPolicy st'" "ap_Plan a = clonePlan plan"
    by (rule that[OF f(10)[of "cmd_ID cmd", simplified]]) (simp_all add: f(2))
  have keep: "fmfilter (\<lambda>cid. case fmlookup (st_AppliedCommands st') cid of None \<Rightarrow> False
      | Some x \<Rightarrow> ap_Version x \<le> st_Version st') (st_AppliedCommands st') = st_AppliedCommands st'"
    using assms(3) by (intro fmap_ext) (auto simp: applied_le_def fmpred_iff split: option.splits)
  have ncl: "cloneClusterState (st_Cluster st') = st_Cluster st'"
    "fmmap cloneAppliedCommand (st_AppliedCommands st') = st_AppliedCommands st'"
    using assms(2) by (simp_all add: normal_iff)
  have "executeCommand st' cmd = Inr (Duplicate (cloneAppliedCommand a))"
    using a af(1) p by (simp add: executeCommand_def validateCommand_def)
  moreover have cf: "ap_Version (cloneAppliedCommand a) = st_Version st'"
    "ap_LastLogIndex (cloneAppliedCommand a) = st_LastLogIndex st'"
    "ap_Cluster (cloneAppliedCommand a) = st_Cluster st'"
    "ap_SlotVersions (cloneAppliedCommand a) = st_SlotVersions st'"
    "ap_CompletedProgressBySlot (cloneAppliedCommand a) = st_CompletedProgressBySlot st'"
    "ap_NodeLivenessByID (cloneAppliedCommand a) = st_NodeLivenessByID st'"
    "ap_PendingBySlot (cloneAppliedCommand a) = st_PendingBySlot st'"
    "ap_Outbox (cloneAppliedCommand a) = st_Outbox st'" "ap_LastPolicy (cloneAppliedCommand a) = st_LastPolicy st'"
    by (simp_all add: cloneAppliedCommand_def[of a] af ncl)
  then have "snapshotForApplied st' (cloneAppliedCommand a) = st'"
    unfolding snapshotForApplied_def cf keep ncl by simp
  moreover have "ap_Plan (cloneAppliedCommand a) = clonePlan plan" by (simp add: cloneAppliedCommand_def af)
  ultimately show ?thesis by blast
qed

lemma reach_applied_le:
  assumes "rt_reach in_memory_ops NewInMemoryStore n rt" and "n < 2 ^ 64"
  shows "applied_le (rt_State rt) \<and> unat (st_Version (rt_State rt)) \<le> n"
  using assms
proof (induction rule: rt_reach.induct)
  case (opened rt)
  then show ?case by (auto simp: fresh_opened fresh_runtime_def applied_le_def zeroState_def)
next
  case (step n rt rt')
  then have le: "applied_le (rt_State rt)" "unat (st_Version (rt_State rt)) \<le> n" by simp_all
  have inv: "rt_inv (rt_State rt)" "rt_inv (rt_State rt')"
    using rt_inv_reach[OF step.hyps(1)] rt_inv_reach[OF rt_reach.step[OF step.hyps]]
    by (auto simp: fresh_opened fresh_runtime_def rt_inv_zero)
  have "rt_reach in_memory_ops NewInMemoryStore (Suc n) rt'" using rt_reach.step[OF step.hyps] .
  from memory.reach_durable[OF this _ step.prems] inv(2)
  have bound: "unat (st_Version (rt_State rt')) \<le> Suc n"
    by (simp add: rt_inv_def ims_contents_def NewInMemoryStore_def)
  have "unat (st_Version (rt_State rt)) + 1 < 2 ^ LENGTH(64)" using le(2) step.prems by simp
  then have "unat (st_Version (rt_State rt) + 1) = unat (st_Version (rt_State rt)) + 1"
    by (simp add: unat_word_ariths)
  then have "st_Version (rt_State rt) < st_Version (rt_State rt) + 1" by (simp add: word_less_nat_alt)
  with applied_le_step[OF step.hyps(2) le(1)] bound show ?case by simp
qed



end
