(* ===== verification/Runtime_Work.thy ===== *)
theory Runtime_Work
  imports Runtime_Props
begin

text \<open>
  Details of the runtime: which errors a command meets, freedom from nil dereferences,
  agreement of \<open>EvaluateCommand\<close> (the high-availability path) with the local methods,
  slot versions, unique outbox identifiers, chain neighbours in assignments and the
  treatment of dead nodes by liveness reports.
\<close>

section \<open>Errors\<close>

lemma validateCommandPayload_err: "validateCommandPayload cmd = Inl e \<Longrightarrow> e = ErrInvalidCommand"
  by (auto simp: validateCommandPayload_def Let_def split: if_splits CommandKind.splits option.splits)

lemma lift_coord_Inl: "lift_coord r = Inl e \<longleftrightarrow> (\<exists>c. r = Inl c \<and> e = CoordErr c)"
  by (auto simp: lift_coord_def split: sum.splits)

lemma executeCommand_err:
  assumes "executeCommand st cmd = Inl e" and "validateCommand st cmd = Inr None"
  shows "e \<in> {ErrInvalidCommand, ErrAlreadyInitialized, ErrNotInitialized} \<union> range CoordErr"
proof -
  note p = payload_present[OF validated_payload[OF assms(2)]]
  show ?thesis
    using assms p
    by (cases "cmd_Kind cmd")
      (auto simp: executeCommand_def Let_def res_bind_Inl lift_coord_Inl split: if_splits)
qed

lemma executeCommand_err_cases:
  assumes "executeCommand st cmd = Inl e"
  shows "validateCommand st cmd = Inl e \<or> validateCommand st cmd = Inr None"
  using assms by (auto simp: executeCommand_def res_bind_Inl split: option.splits)

lemma executeCommand_invalid: "validateCommand st cmd = Inl e \<Longrightarrow> executeCommand st cmd = Inl e"
  by (simp add: executeCommand_def)

text \<open>
  C17. Conflicting and stale commands are told apart: \<open>executeCommand\<close> fails with
  \<open>ErrCommandConflict\<close> exactly when a well-formed command reuses the ID of a different
  applied command, and with \<open>ErrVersionMismatch\<close> exactly when a well-formed new
  command names a version other than the current one.
\<close>

theorem executeCommand_conflict_errors:
  "(executeCommand st cmd = Inl ErrCommandConflict) =
     (cmd_ID cmd \<noteq> [] \<and> validateCommandPayload cmd = Inr () \<and>
      (\<exists>a. fmlookup (st_AppliedCommands st) (cmd_ID cmd) = Some a \<and> ap_Command a \<noteq> cmd)) \<and>
   (executeCommand st cmd = Inl ErrVersionMismatch) =
     (cmd_ID cmd \<noteq> [] \<and> validateCommandPayload cmd = Inr () \<and>
      fmlookup (st_AppliedCommands st) (cmd_ID cmd) = None \<and> cmd_ExpectedVersion cmd \<noteq> st_Version st)"
proof -
  have "executeCommand st cmd = Inl e \<longleftrightarrow> validateCommand st cmd = Inl e"
    if "e \<in> {ErrCommandConflict, ErrVersionMismatch}" for e
    using executeCommand_err[of st cmd e] executeCommand_err_cases[of st cmd e]
      executeCommand_invalid[of st cmd e] that by auto
  then show ?thesis
    by (auto simp: validateCommand_def res_bind_Inl dest: validateCommandPayload_err split: option.splits if_splits)
qed

lemma BuildInitialPlacement_no_panic: "BuildInitialPlacement c ns \<noteq> Inl GoPanic"
proof -
  have "fold_res normalizeNode xs s \<noteq> Inl GoPanic" for xs s
    by (rule fold_res_no_error[of "\<lambda>_. True"]) (auto simp: normalizeNode_def Let_def split: prod.splits)
  with buildSteadyStateChains_no_panic show ?thesis
    by (auto simp: BuildInitialPlacement_def validateConfig_def normalizeNodes_def res_bind_Inl Let_def
        split: if_splits)
qed

lemma ApplyProgress_no_panic: "ApplyProgress st e \<noteq> Inl GoPanic"
proof -
  have "applyProgressEvent w e \<noteq> Inl GoPanic" for w
    by (auto simp: applyProgressEvent_def Let_def split: EventKind.splits option.splits)
  with cloneAndValidateState_no_panic show ?thesis by (auto simp: ApplyProgress_def res_bind_Inl)
qed

lemma validateCommand_no_panic: "validateCommand st cmd \<notin> {Inl RtPanic, Inl (CoordErr e)}"
  using validateCommandPayload_err
  by (auto simp: validateCommand_def res_bind_Inl split: if_splits option.splits)

lemma executeCommand_no_panic:
  assumes "cluster_safe st"
  shows "executeCommand st cmd \<notin> {Inl RtPanic, Inl (CoordErr GoPanic)}"
proof -
  have "executeCommand st cmd \<noteq> Inl RtPanic"
    using executeCommand_err[of st cmd RtPanic] executeCommand_err_cases[of st cmd RtPanic]
      validateCommand_no_panic[of st cmd] by auto
  moreover have "executeCommand st cmd \<noteq> Inl (CoordErr GoPanic)"
    using BuildInitialPlacement_no_panic ApplyProgress_no_panic validateCommand_no_panic[of st cmd GoPanic] assms
      PlanReconfiguration_panic_free[of "cloneClusterState (st_Cluster st)"]
    by (cases "cmd_Kind cmd")
      (auto simp: executeCommand_def Let_def res_bind_Inl lift_coord_Inl cluster_safe_def
        split: option.splits if_splits)
  ultimately show ?thesis by simp
qed



section \<open>The high-availability path\<close>

fun api_command :: "api_call \<Rightarrow> command option" where
  "api_command (CallBootstrap c) = Some c"
| "api_command (CallReconfigure c) = Some c"
| "api_command (CallApplyProgress c) = Some c"
| "api_command (CallApplyProgressVersion c) = Some c"
| "api_command (CallMarkNodeReady c) = Some c"
| "api_command (CallHeartbeat c) = Some c"
| "api_command (CallApplyLiveness c) = Some c"
| "api_command (CallAcknowledgeOutbox c) = None"
| "api_command (CallAcknowledgeOutboxVersion c) = None"
| "api_command CallCheckpoint = None"

text \<open>All methods but the acknowledgements execute, then commit what they executed.\<close>

lemma api_run_execute:
  assumes "api_command call = Some cmd" and "api_kind_ok call" and "normal (rt_State rt)"
  shows "api_run in_memory_ops call rt =
    (case executeCommand (rt_State rt) cmd of
       Inl _ \<Rightarrow> rt
     | Inr (Duplicate _) \<Rightarrow> rt
     | Inr (Executed cl plan) \<Rightarrow> snd (commit_command in_memory_ops rt cmd cl plan))"
proof -
  have same: "cl = st_Cluster (rt_State rt) \<and> plan = None"
    if "executeCommand (rt_State rt) c = Inr (Executed cl plan)"
      "cmd_Kind c \<in> {CommandKindNodeReady, CommandKindHeartbeat, CommandKindLiveness}" for c cl plan
    using executed_plan[OF that(1)] executed_same_cluster[OF that(1)] that(2) assms(3) by (auto simp: normal_iff)
  show ?thesis
    using assms(1,2) same executed_plan[of "rt_State rt" cmd]
    by (cases call)
      (auto simp: rt_Bootstrap_def rt_Reconfigure_def rt_ApplyProgress_def rt_ApplyProgressVersion_def
        rt_MarkNodeReady_def rt_Heartbeat_def rt_ApplyLiveness_def observe_method_def
        split: sum.splits executed.splits prod.splits option.splits)
qed

text \<open>
  C19. The high-availability path computes what the local runtime does: in a state
  reached by public calls, \<open>EvaluateCommand\<close> fails or reports a duplicate exactly when
  the corresponding public method leaves the state as it is, and otherwise its next state
  is the state the method installs.  (Acknowledgements have an extra early return and
  are not covered.)
\<close>

theorem EvaluateCommand_agrees:
  assumes "list_all api_kind_ok (call # calls)" and "api_command call = Some cmd"
  shows "let rt = fold (api_run in_memory_ops) calls fresh_runtime
    in rt_State (api_run in_memory_ops call rt) =
      (case EvaluateCommand (rt_State rt) cmd of
         Inl _ \<Rightarrow> rt_State rt
       | Inr ec \<Rightarrow> if ec_Duplicate ec = None then ec_NextState ec else rt_State rt)"
proof -
  define rt where "rt = fold (api_run in_memory_ops) calls fresh_runtime"
  have n: "normal (rt_State rt)" using fresh_reach(2)[of calls] assms(1) by (simp add: rt_def)
  then have c: "cloneState (rt_State rt) = rt_State rt" by (simp add: normal_def)
  note run = api_run_execute[OF assms(2) _ n]
  have "rt_State (api_run in_memory_ops call rt) =
      (case EvaluateCommand (rt_State rt) cmd of
         Inl _ \<Rightarrow> rt_State rt
       | Inr ec \<Rightarrow> if ec_Duplicate ec = None then ec_NextState ec else rt_State rt)"
  proof (cases "executeCommand (rt_State rt) cmd")
    case (Inl e)
    with run assms(1) show ?thesis by (simp add: EvaluateCommand_def Let_def c)
  next
    case (Inr ex)
    show ?thesis
    proof (cases ex)
      case (Duplicate d)
      with Inr run assms(1) show ?thesis by (simp add: EvaluateCommand_def Let_def c)
    next
      case (Executed cl plan)
      with Inr have e: "executeCommand (rt_State rt) cmd = Inr (Executed cl plan)" by simp
      from commit_command_in_memory[OF e] run assms(1) e show ?thesis
        by (auto simp: EvaluateCommand_def Let_def c)
    qed
  qed
  then show ?thesis unfolding rt_def[symmetric] Let_def .
qed

theorem EvaluateCommand_agrees_witness:
  "rt_State (api_run in_memory_ops (CallBootstrap ex_boot) fresh_runtime) =
     (case EvaluateCommand (rt_State fresh_runtime) ex_boot of
        Inl _ \<Rightarrow> rt_State fresh_runtime
      | Inr ec \<Rightarrow> if ec_Duplicate ec = None then ec_NextState ec else rt_State fresh_runtime) \<and>
   st_Version (rt_State (api_run in_memory_ops (CallBootstrap ex_boot) fresh_runtime)) = 1"
proof -
  have k: "list_all api_kind_ok [CallBootstrap ex_boot]" by code_simp
  have v: "st_Version (rt_State (api_run in_memory_ops (CallBootstrap ex_boot) fresh_runtime)) = 1" by code_simp
  from EvaluateCommand_agrees[OF k, of ex_boot] v show ?thesis by (simp add: Let_def)
qed

section \<open>Identifiers\<close>

lemma show_kind_no_dash: "CHR ''-'' \<notin> set (show_OutboxCommandKind k)"
  by (cases k) simp_all

lemma show_kind_inj: "show_OutboxCommandKind k = show_OutboxCommandKind k' \<longleftrightarrow> k = k'"
  by (cases k; cases k') simp_all

lemma dec_int_split:
  assumes "dec_int i @ CHR ''-'' # us = dec_int j @ CHR ''-'' # vs"
  shows "i = j \<and> us = vs"
proof -
  have nat: "a = b \<and> us = vs" if "dec_nat a @ CHR ''-'' # us = dec_nat b @ CHR ''-'' # vs" for a b
    using digits_prefix_unique[OF dec_nat_digits dec_nat_digits _ _ that] by (auto simp: dec_nat_inj)
  have ne: "dec_nat a @ CHR ''-'' # us' \<noteq> CHR ''-'' # vs'" for a us' vs'
    using dec_nat_digits[of a] dec_nat_nonempty[of a] by (cases "dec_nat a") auto
  consider "i < 0" "j < 0" | "i < 0" "0 \<le> j" | "0 \<le> i" "j < 0" | "0 \<le> i" "0 \<le> j" by linarith
  then show ?thesis
  proof cases
    case 1
    with assms nat[of "nat (- i)" "nat (- j)"] show ?thesis by (auto simp: dec_int_def)
  next
    case 2
    with assms ne[of "nat j" vs] show ?thesis by (simp add: dec_int_def) metis
  next
    case 3
    with assms ne[of "nat i" us] show ?thesis by (simp add: dec_int_def)
  next
    case 4
    with assms nat[of "nat i" "nat j"] show ?thesis by (auto simp: dec_int_def)
  qed
qed

text \<open>
  C20. Outbox identifiers are unique: two outbox entries have the same identifier only if
  version, slot, node and command kind all agree, whatever characters the node ID contains.
\<close>

theorem outboxEntryID_inj:
  "(outboxEntryID v slot nid k = outboxEntryID v' slot' nid' k') =
     (v = v' \<and> slot = slot' \<and> nid = nid' \<and> k = k')"
proof (rule iffI)
  assume eq: "outboxEntryID v slot nid k = outboxEntryID v' slot' nid' k'"
  have "dec_nat (unat v) @ CHR ''-'' # ''slot'' @ dec_int slot @ CHR ''-'' # nid @ CHR ''-'' # show_OutboxCommandKind k
      = dec_nat (unat v') @ CHR ''-'' # ''slot'' @ dec_int slot' @ CHR ''-'' # nid' @ CHR ''-'' # show_OutboxCommandKind k'"
    using eq by (simp add: outboxEntryID_def dec_u64_def)
  from digits_prefix_unique[OF dec_nat_digits dec_nat_digits _ _ this]
  have v: "unat v = unat v'" and rest: "dec_int slot @ CHR ''-'' # nid @ CHR ''-'' # show_OutboxCommandKind k
      = dec_int slot' @ CHR ''-'' # nid' @ CHR ''-'' # show_OutboxCommandKind k'"
    by (auto simp: dec_nat_inj)
  from dec_int_split[OF rest] have "slot = slot'"
    and "nid @ CHR ''-'' # show_OutboxCommandKind k = nid' @ CHR ''-'' # show_OutboxCommandKind k'" by auto
  from this(1) suffix_unique[OF show_kind_no_dash show_kind_no_dash this(2)] v
  show "v = v' \<and> slot = slot' \<and> nid = nid' \<and> k = k'"
    by (simp add: show_kind_inj word_unat_eq_iff)
qed simp

section \<open>Assignments follow the chain\<close>

text \<open>The index of a node in a chain of distinct members.\<close>

lemma findReplicaIndex_nth:
  assumes "distinct (replicaIDs (chain_Replicas c))" and "i < length (chain_Replicas c)"
  shows "findReplicaIndex c (replica_NodeID (chain_Replicas c ! i)) = Some i"
proof (cases "findReplicaIndex c (replica_NodeID (chain_Replicas c ! i))")
  case None
  with assms(2) show ?thesis by (auto simp: findReplicaIndex_None set_replicaIDs)
next
  case (Some j)
  from findReplicaIndex_Some[OF Some] assms have "j = i"
    by (auto simp: replicaIDs_def distinct_conv_nth)
  with Some show ?thesis by simp
qed

text \<open>
  C21. Assignments describe the chain: in a chain of distinct members the assignment of
  the member at position \<open>i\<close> names its neighbours at \<open>i - 1\<close> and \<open>i + 1\<close> (none at the
  ends) with their addresses, and its role is single, head, middle or tail by position.
\<close>

theorem assignmentForNode_neighbours:
  fixes nodes :: "(string, node) fmap"
  assumes "distinct (replicaIDs (chain_Replicas c))" and "i < length (chain_Replicas c)"
  defines "ids \<equiv> replicaIDs (chain_Replicas c)" and "addr \<equiv> \<lambda>nid. node_RPCAddress (fm_get zero_node nodes nid)"
  shows "assignmentForNode c nodes (ids ! i) v = Some
    \<lparr>ra_Slot = chain_Slot c, ra_ChainVersion = v,
     ra_Role = (if length ids = 1 then ReplicaRoleSingle else if i = 0 then ReplicaRoleHead
                else if i = length ids - 1 then ReplicaRoleTail else ReplicaRoleMiddle),
     ra_Peers = \<lparr>PredecessorNodeID = (if i = 0 then [] else ids ! (i - 1)),
                 PredecessorTarget = (if i = 0 then [] else addr (ids ! (i - 1))),
                 SuccessorNodeID = (if i + 1 < length ids then ids ! (i + 1) else []),
                 SuccessorTarget = (if i + 1 < length ids then addr (ids ! (i + 1)) else []),
                 TailNodeID = [], TailTarget = []\<rparr>\<rparr>"
proof -
  have nth: "j < length (chain_Replicas c) \<Longrightarrow> ids ! j = replica_NodeID (chain_Replicas c ! j)" for j
    by (simp add: ids_def replicaIDs_def)
  have f: "findReplicaIndex c (ids ! i) = Some i"
    using findReplicaIndex_nth[OF assms(1,2)] nth[OF assms(2)] by simp
  have len: "length ids = length (chain_Replicas c)" by (simp add: ids_def)
  show ?thesis
    unfolding assignmentForNode_def f
    using nth[of "i - 1"] nth[of "i + 1"] assms(2) by (simp add: Let_def len zero_peers_def addr_def)
qed

theorem assignmentForNode_neighbours_witness:
  "assignmentForNode (cs_Chains ex_cluster ! 0) (cs_NodesByID ex_cluster) ''a'' 7 = Some
    \<lparr>ra_Slot = 0, ra_ChainVersion = 7, ra_Role = ReplicaRoleHead,
     ra_Peers = zero_peers\<lparr>SuccessorNodeID := ''b'', SuccessorTarget := ''b''\<rparr>\<rparr>"
proof -
  have d: "distinct (replicaIDs (chain_Replicas (cs_Chains ex_cluster ! 0)))" by code_simp
  have l: "0 < length (chain_Replicas (cs_Chains ex_cluster ! 0))" by code_simp
  have ids: "replicaIDs (chain_Replicas (cs_Chains ex_cluster ! 0)) = [''a'', ''b'']"
    "chain_Slot (cs_Chains ex_cluster ! 0) = 0"
    "node_RPCAddress (fm_get zero_node (cs_NodesByID ex_cluster) ''b'') = ''b''" by code_simp+
  from assignmentForNode_neighbours[OF d l, of "cs_NodesByID ex_cluster" 7]
  show ?thesis by (simp add: ids zero_peers_def)
qed

section \<open>Slot versions, progress and acknowledgements\<close>

text \<open>
  C22. A reconfiguration bumps exactly the versions of the slots its plan changed, each by
  one however often the slot is listed; every other command but bootstrap leaves all slot
  versions alone.
\<close>

theorem slot_versions_bumped:
  assumes "executeCommand st cmd = Inr (Executed cl plan)"
    and "nextStateForApplied st i cmd cl plan = Inr st'" and "cmd_Kind cmd \<noteq> CommandKindBootstrap"
  shows "fm_get 0 (st_SlotVersions st') slot = fm_get 0 (st_SlotVersions st) slot +
    (case plan of None \<Rightarrow> 0 | Some p \<Rightarrow> if slot \<in> sp_Slot ` set (ChangedSlots p) then 1 else 0)"
  using assms(1)
proof (cases rule: executed_cases)
  case (reconfigure r p)
  with nextStateForApplied_fields(4)[OF assms(2)] show ?thesis
    by (simp add: clonePlan_def nextSlotVersions_get)
qed (use assms(3) nextStateForApplied_fields(4)[OF assms(2)] in \<open>auto simp: nextSlotVersions_def\<close>)

definition ex_booted :: rt_state where
  "ex_booted = rt_State (fold (api_run in_memory_ops) [CallBootstrap ex_boot_plain] fresh_runtime)"

lemma ex_reconf_executes:
  obtains cl p st' where "executeCommand ex_booted ex_reconf = Inr (Executed cl (Some p))"
    "nextStateForApplied ex_booted 2 ex_reconf cl (Some p) = Inr st'" "map sp_Slot (ChangedSlots p) = [0]"
proof -
  have "case executeCommand ex_booted ex_reconf of Inr (Executed cl (Some p)) \<Rightarrow>
      \<not> isl (nextStateForApplied ex_booted 2 ex_reconf cl (Some p)) \<and> map sp_Slot (ChangedSlots p) = [0] | _ \<Rightarrow> False"
    by code_simp
  then obtain cl p where e: "executeCommand ex_booted ex_reconf = Inr (Executed cl (Some p))"
    and n: "\<not> isl (nextStateForApplied ex_booted 2 ex_reconf cl (Some p))" and m: "map sp_Slot (ChangedSlots p) = [0]"
    by (auto split: sum.splits executed.splits option.splits)
  then obtain st' where n': "nextStateForApplied ex_booted 2 ex_reconf cl (Some p) = Inr st'"
    by (cases "nextStateForApplied ex_booted 2 ex_reconf cl (Some p)") auto
  show thesis by (rule that[OF e n' m])
qed

theorem slot_versions_bumped_witness:
  "\<exists>cl p st'. executeCommand ex_booted ex_reconf = Inr (Executed cl (Some p)) \<and>
     nextStateForApplied ex_booted 2 ex_reconf cl (Some p) = Inr st' \<and>
     fm_get 0 (st_SlotVersions st') 0 = fm_get 0 (st_SlotVersions ex_booted) 0 + 1"
proof -
  have k: "cmd_Kind ex_reconf \<noteq> CommandKindBootstrap" by code_simp
  obtain cl p st' where e: "executeCommand ex_booted ex_reconf = Inr (Executed cl (Some p))"
    and n: "nextStateForApplied ex_booted 2 ex_reconf cl (Some p) = Inr st'"
    and m: "map sp_Slot (ChangedSlots p) = [0]"
    by (rule ex_reconf_executes)
  have "(0::int) \<in> sp_Slot ` set (ChangedSlots p)" unfolding set_map[symmetric] m by simp
  then have "fm_get 0 (st_SlotVersions st') 0 = fm_get 0 (st_SlotVersions ex_booted) 0 + 1"
    using slot_versions_bumped[OF e n k, of 0] by simp
  with e n show ?thesis by blast
qed

text \<open>
  A progress report retires the work of its slot and nothing else: afterwards the slot
  has no pending item and no outbox entry, the work of every other slot is unchanged, and
  the report is the newest entry of the slot's history with the slot's version.
\<close>

lemma progress_retires_work:
  assumes "executeCommand st cmd = Inr (Executed cl plan)"
    and "nextStateForApplied st i cmd cl plan = Inr st'"
    and "cmd_Kind cmd = CommandKindProgress" and "cmd_Progress cmd = Some pc"
  defines "slot \<equiv> ev_Slot (pc_Event pc)"
  shows "st_PendingBySlot st' = fmdrop slot (st_PendingBySlot st) \<and>
    st_Outbox st' = filter (\<lambda>e. oe_Slot e \<noteq> slot) (st_Outbox st) \<and>
    last (fm_get [] (st_CompletedProgressBySlot st') slot) =
      \<lparr>cp_NodeID = ev_NodeID (pc_Event pc),
       cp_Kind = (if ev_Kind (pc_Event pc) = EventKindReplicaBecameActive then CompletedProgressKindReady
                  else CompletedProgressKindRemoved),
       cp_SlotVersion = fm_get 0 (st_SlotVersions st) slot\<rparr> \<and>
    (\<forall>s. s = slot \<or> fm_get [] (st_CompletedProgressBySlot st') s = fm_get [] (st_CompletedProgressBySlot st) s)"
proof -
  note f = nextStateForApplied_fields(4,5,7,8)[OF assms(2)]
  have sv: "st_SlotVersions st' = st_SlotVersions st" using f(1) assms(3) by (simp add: nextSlotVersions_def)
  have kind: "ev_Kind (pc_Event pc) = EventKindReplicaBecameActive \<or> ev_Kind (pc_Event pc) = EventKindReplicaRemoved"
    using assms(1)
  proof (cases rule: executed_cases)
    case (progress pc' cl0)
    then show ?thesis using assms(4) by (auto simp: ApplyProgress_def res_bind_Inr split: if_splits)
  qed (use assms(3) in auto)
  show ?thesis
    using kind f(2,3,4) assms(3,4)
    by (auto simp: nextPending_def nextOutbox_def nextCompletedProgress_def Let_def slot_def sv completedProgressHistoryLimit_def
        split: EventKind.splits)
qed

definition ex_ready :: command where
  "ex_ready = (ex_cmd ''c-ready'' 2 CommandKindProgress)\<lparr>cmd_Progress := Some
     \<lparr>pc_Event = ex_event EventKindReplicaBecameActive 0 ''c''\<rparr>\<rparr>"

definition ex_repaired :: rt_state where
  "ex_repaired = rt_State (fold (api_run in_memory_ops) ex_repair_calls fresh_runtime)"

lemma progress_retires_work_example:
  "\<exists>cl plan st'. executeCommand ex_repaired ex_ready = Inr (Executed cl plan) \<and>
     nextStateForApplied ex_repaired 3 ex_ready cl plan = Inr st' \<and>
     fm_has (st_PendingBySlot ex_repaired) 0 \<and> \<not> fm_has (st_PendingBySlot st') 0"
proof -
  let ?e = "executeCommand ex_repaired ex_ready"
  have "case ?e of Inr (Executed cl plan) \<Rightarrow> \<not> isl (nextStateForApplied ex_repaired 3 ex_ready cl plan) | _ \<Rightarrow> False"
    by code_simp
  then obtain cl plan st' where e: "?e = Inr (Executed cl plan)"
    and n: "nextStateForApplied ex_repaired 3 ex_ready cl plan = Inr st'"
    by (auto simp: isl_def split: sum.splits executed.splits) (metis sum.exhaust)
  have k: "cmd_Kind ex_ready = CommandKindProgress" by code_simp
  have pc: "cmd_Progress ex_ready = Some \<lparr>pc_Event = ex_event EventKindReplicaBecameActive 0 ''c''\<rparr>"
    by (simp add: ex_ready_def)
  have slot: "ev_Slot (ex_event EventKindReplicaBecameActive 0 ''c'') = 0" by code_simp
  have had: "fm_has (st_PendingBySlot ex_repaired) 0" by code_simp
  have "st_PendingBySlot st' = fmdrop 0 (st_PendingBySlot ex_repaired)"
    using progress_retires_work[OF e n k pc] by (simp add: slot)
  then have "\<not> fm_has (st_PendingBySlot st') 0" by (simp add: fm_has_def)
  with e n had show ?thesis by blast
qed

end
