(* ===== verification/Storage_Data.thy ===== *)
theory Storage_Data
  imports Storage_Types
begin

text \<open>
  The data of a storage node (\<open>storage/storage.go\<close>): errors, objects and their metadata,
  write operations, the messages between replicas and from clients, write conditions.
  Times are instants counted in nanoseconds (all times the node creates are in UTC, so
  Go's \<open>==\<close> on them is equality of instants).  Copies of values are the values.
\<close>

lemma fmdrop_absent: "fmlookup m k = None \<Longrightarrow> fmdrop k m = m"
  by (metis fmdrop_idle fmdom_notI)

section \<open>Errors\<close>

datatype RoutingMismatchReason =
    RoutingMismatchReasonUnknownSlot
  | RoutingMismatchReasonWrongVersion
  | RoutingMismatchReasonWrongRole
  | RoutingMismatchReasonInactiveReplica

record routing_mismatch =
  rm_Slot :: int
  rm_ExpectedChainVersion :: u64
  rm_CurrentChainVersion :: u64
  rm_CurrentRole :: ReplicaRole
  rm_CurrentState :: storage_ReplicaState
  rm_Reason :: RoutingMismatchReason

datatype BackpressureResource =
    BackpressureResourceClientWrite
  | BackpressureResourceReplicaBuffer
  | BackpressureResourceCatchup

record backpressure =
  bp_Slot :: int
  bp_Current :: int
  bp_Limit :: int
  bp_Resource :: BackpressureResource

text \<open>\<open>ExternalError\<close> stands for an error of a context, a transport or a store given as a parameter.\<close>

datatype storage_err =
    ErrInvalidConfig_s
  | ErrReplicaExists
  | ErrUnknownReplica
  | ErrInvalidTransition
  | ErrSnapshotSourceUnavailable
  | ErrWriteRejected
  | ErrSequenceMismatch
  | ErrPeerMismatch
  | ErrStateMismatch
  | ErrProtocolConflict
  | ErrConditionFailed
  | ErrWriteTimeout
  | ErrBackpressure backpressure
  | ErrRoutingMismatch routing_mismatch
  | ErrReadDependency int u64 string storage_err  \<comment> \<open>slot, expected version, tail, cause\<close>
  | ExternalError string

definition newWriteBackpressureError :: "int \<Rightarrow> int \<Rightarrow> int \<Rightarrow> storage_err" where
  "newWriteBackpressureError slot current limit = ErrBackpressure
     \<lparr>bp_Slot = slot, bp_Current = current, bp_Limit = limit, bp_Resource = BackpressureResourceClientWrite\<rparr>"

definition newReplicaBackpressureError :: "int \<Rightarrow> int \<Rightarrow> int \<Rightarrow> storage_err" where
  "newReplicaBackpressureError slot current limit = ErrBackpressure
     \<lparr>bp_Slot = slot, bp_Current = current, bp_Limit = limit, bp_Resource = BackpressureResourceReplicaBuffer\<rparr>"

definition newCatchupBackpressureError :: "int \<Rightarrow> int \<Rightarrow> storage_err" where
  "newCatchupBackpressureError current limit = ErrBackpressure
     \<lparr>bp_Slot = -1, bp_Current = current, bp_Limit = limit, bp_Resource = BackpressureResourceCatchup\<rparr>"

definition newRoutingMismatch ::
  "int \<Rightarrow> u64 \<Rightarrow> replica_assignment \<Rightarrow> storage_ReplicaState \<Rightarrow> RoutingMismatchReason \<Rightarrow> storage_err" where
  "newRoutingMismatch slot expectedChainVersion assignment st reason = ErrRoutingMismatch
     \<lparr>rm_Slot = slot, rm_ExpectedChainVersion = expectedChainVersion,
      rm_CurrentChainVersion = ra_ChainVersion assignment, rm_CurrentRole = ra_Role assignment,
      rm_CurrentState = st, rm_Reason = reason\<rparr>"

section \<open>Objects and operations\<close>

record object_metadata =
  om_Version :: u64
  om_CreatedAt :: int
  om_UpdatedAt :: int

record committed_object =
  co_Value :: string
  co_Metadata :: object_metadata

type_synonym snapshot = "(string, committed_object) fmap"

definition zero_metadata :: object_metadata where
  "zero_metadata = \<lparr>om_Version = 0, om_CreatedAt = 0, om_UpdatedAt = 0\<rparr>"

definition zero_object :: committed_object where
  "zero_object = \<lparr>co_Value = [], co_Metadata = zero_metadata\<rparr>"

datatype OperationKind =
    OperationKindPut
  | OperationKindDelete
  | OperationKindOther string

record write_operation =
  wo_Slot :: int
  wo_Sequence :: u64
  wo_Kind :: OperationKind
  wo_Key :: string
  wo_Value :: string
  wo_Metadata :: object_metadata

record forward_request =
  fr_Operation :: write_operation
  fr_FromNodeID :: string
  fr_ChainVersion :: u64

record commit_request =
  cr_Slot :: int
  cr_Sequence :: u64
  cr_FromNodeID :: string
  cr_ChainVersion :: u64

record commit_advance_request =
  ca_Slot :: int
  ca_CommittedThrough :: u64
  ca_FromNodeID :: string
  ca_ChainVersion :: u64

record commit_result =
  cm_Slot :: int
  cm_Sequence :: u64
  cm_Applied :: bool
  cm_Metadata :: "object_metadata option"

record persisted_replica =
  pr_Assignment :: replica_assignment
  pr_LastKnownState :: storage_ReplicaState
  pr_HighestCommittedSequence :: u64
  pr_HighestUpstreamConfirmedSequence :: u64
  pr_HasCommittedData :: bool

record durable_commit =
  dc_Operation :: write_operation
  dc_Persisted :: persisted_replica
  dc_UpstreamConfirmedSequence :: u64

definition sameForwardRequest :: "forward_request \<Rightarrow> forward_request \<Rightarrow> bool" where
  "sameForwardRequest l r = (fr_FromNodeID l = fr_FromNodeID r \<and> fr_ChainVersion l = fr_ChainVersion r \<and>
     fr_Operation l = fr_Operation r)"

definition sameForwardRequestIgnoringChain :: "forward_request \<Rightarrow> forward_request \<Rightarrow> bool" where
  "sameForwardRequestIgnoringChain l r =
     (fr_FromNodeID l = fr_FromNodeID r \<and> fr_Operation l = fr_Operation r)"

definition sameCommitRequest :: "commit_request \<Rightarrow> commit_request \<Rightarrow> bool" where
  "sameCommitRequest l r = (l = r)"

definition peerTransportTarget :: "string \<Rightarrow> string \<Rightarrow> string" where
  "peerTransportTarget target fallbackNodeID = (if target \<noteq> [] then target else fallbackNodeID)"

lemma sameForwardRequest_eq: "sameForwardRequest l r \<longleftrightarrow> l = r"
  by (auto simp: sameForwardRequest_def)

section \<open>The effect of an operation on the object map\<close>

text \<open>
  What applying an operation to the committed objects means, wherever the code does it: a
  put stores the value with its metadata, a delete removes the key.  No component applies
  an operation of another kind; each refuses it first.
\<close>

definition op_object :: "write_operation \<Rightarrow> committed_object" where
  "op_object op = \<lparr>co_Value = wo_Value op, co_Metadata = wo_Metadata op\<rparr>"

definition apply_op :: "write_operation \<Rightarrow> snapshot \<Rightarrow> snapshot" where
  "apply_op op m = (if wo_Kind op = OperationKindDelete then fmdrop (wo_Key op) m
                    else fmupd (wo_Key op) (op_object op) m)"

definition supported :: "write_operation \<Rightarrow> bool" where
  "supported op = (wo_Kind op = OperationKindPut \<or> wo_Kind op = OperationKindDelete)"

definition op_effect :: "write_operation \<Rightarrow> committed_object option" where
  "op_effect op = (if wo_Kind op = OperationKindDelete then None else Some (op_object op))"

lemma apply_op_lookup:
  "fmlookup (apply_op op m) k = (if k = wo_Key op then op_effect op else fmlookup m k)"
  by (simp add: apply_op_def op_effect_def)

text \<open>After a run of operations a key holds what the last operation on it left there.\<close>

lemma fold_apply_op_lookup:
  "fmlookup (fold apply_op ops m) k =
     (case filter (\<lambda>op. wo_Key op = k) ops of [] \<Rightarrow> fmlookup m k | os \<Rightarrow> op_effect (last os))"
proof (induction ops rule: rev_induct)
  case (snoc op ops)
  then show ?case by (cases "filter (\<lambda>op. wo_Key op = k) ops") (auto simp: apply_op_lookup)
qed simp

section \<open>Write conditions\<close>

datatype ComparisonOperator =
    ComparisonOperatorEqual
  | ComparisonOperatorLessThan
  | ComparisonOperatorLessThanOrEqual
  | ComparisonOperatorGreaterThan
  | ComparisonOperatorGreaterThanOrEqual
  | ComparisonOperatorOther string

record version_comparison =
  vc_Operator :: ComparisonOperator
  vc_Value :: u64

record time_comparison =
  tc_Operator :: ComparisonOperator
  tc_Value :: int

record write_conditions =
  wc_Exists :: "bool option"
  wc_Version :: "version_comparison option"
  wc_UpdatedAt :: "time_comparison option"

definition compareUint64 :: "u64 \<Rightarrow> version_comparison \<Rightarrow> bool" where
  "compareUint64 current c =
     (case vc_Operator c of
        ComparisonOperatorEqual \<Rightarrow> current = vc_Value c
      | ComparisonOperatorLessThan \<Rightarrow> current < vc_Value c
      | ComparisonOperatorLessThanOrEqual \<Rightarrow> current \<le> vc_Value c
      | ComparisonOperatorGreaterThan \<Rightarrow> vc_Value c < current
      | ComparisonOperatorGreaterThanOrEqual \<Rightarrow> vc_Value c \<le> current
      | ComparisonOperatorOther _ \<Rightarrow> False)"

definition compareTime :: "int \<Rightarrow> time_comparison \<Rightarrow> bool" where
  "compareTime current c =
     (case tc_Operator c of
        ComparisonOperatorEqual \<Rightarrow> current = tc_Value c
      | ComparisonOperatorLessThan \<Rightarrow> current < tc_Value c
      | ComparisonOperatorLessThanOrEqual \<Rightarrow> current < tc_Value c \<or> current = tc_Value c
      | ComparisonOperatorGreaterThan \<Rightarrow> tc_Value c < current
      | ComparisonOperatorGreaterThanOrEqual \<Rightarrow> tc_Value c < current \<or> current = tc_Value c
      | ComparisonOperatorOther _ \<Rightarrow> False)"

definition evaluateWriteConditions :: "write_conditions \<Rightarrow> bool \<Rightarrow> committed_object \<Rightarrow> storage_err option" where
  "evaluateWriteConditions conditions found current =
     (if wc_Exists conditions \<noteq> None \<and> found \<noteq> the (wc_Exists conditions) then Some ErrConditionFailed
      else if wc_Version conditions \<noteq> None \<and>
         (\<not> found \<or> \<not> compareUint64 (om_Version (co_Metadata current)) (the (wc_Version conditions)))
      then Some ErrConditionFailed
      else if wc_UpdatedAt conditions \<noteq> None \<and>
         (\<not> found \<or> \<not> compareTime (om_UpdatedAt (co_Metadata current)) (the (wc_UpdatedAt conditions)))
      then Some ErrConditionFailed
      else None)"

definition no_conditions :: write_conditions where
  "no_conditions = \<lparr>wc_Exists = None, wc_Version = None, wc_UpdatedAt = None\<rparr>"

text \<open>The metadata of the next write of a key, with the node's clock as an argument.\<close>

definition nextObjectMetadata :: "int \<Rightarrow> bool \<Rightarrow> object_metadata option \<Rightarrow> object_metadata" where
  "nextObjectMetadata now found current =
     (case current of
        Some c \<Rightarrow> if found then \<lparr>om_Version = om_Version c + 1, om_CreatedAt = om_CreatedAt c, om_UpdatedAt = now\<rparr>
                  else \<lparr>om_Version = 1, om_CreatedAt = now, om_UpdatedAt = now\<rparr>
      | None \<Rightarrow> \<lparr>om_Version = 1, om_CreatedAt = now, om_UpdatedAt = now\<rparr>)"

end
