(* ===== verification/Backend.thy ===== *)
theory Backend
  imports Storage_Data
begin

text \<open>
  The in-memory storage backend (\<open>storage/inmemory.go\<close>, \<open>InMemoryBackend\<close>): committed
  objects, staged operations and the commit cursor of every slot.  Each method holds the
  mutex for its whole body and becomes a function on the map of replicas.  A method that
  leaves the backend alone when it fails returns a sum; \<open>ApplyCommittedBatch\<close> may fail
  half way and returns its error beside the state it leaves.  The bound local state
  store is never read by the backend and is left out.

  The locale \<open>commit_backend\<close> is what the rest of a node relies on: a backend shows, per
  slot, the committed objects and the cursor, and moves both only by the next operation in
  sequence or by installing a snapshot.  The in-memory backend provides it.
\<close>

section \<open>State and operations\<close>

record staged_operation =
  so_kind :: OperationKind
  so_key :: string
  so_value :: string
  so_metadata :: object_metadata

record replica_data =
  rd_committed :: snapshot
  rd_staged :: "(u64, staged_operation) fmap"
  rd_highestCommitted :: u64
  rd_highestUpstreamConfirmed :: u64

type_synonym mem_backend = "(int, replica_data) fmap"

definition NewInMemoryBackend :: mem_backend where
  "NewInMemoryBackend = fmempty"

definition mb_CreateReplica :: "int \<Rightarrow> mem_backend \<Rightarrow> storage_err + mem_backend" where
  "mb_CreateReplica slot b =
     (case fmlookup b slot of
        Some _ \<Rightarrow> Inl ErrReplicaExists
      | None \<Rightarrow> Inr (fmupd slot \<lparr>rd_committed = fmempty, rd_staged = fmempty, rd_highestCommitted = 0,
                            rd_highestUpstreamConfirmed = 0\<rparr> b))"

definition mb_DeleteReplica :: "int \<Rightarrow> mem_backend \<Rightarrow> storage_err + mem_backend" where
  "mb_DeleteReplica slot b =
     (case fmlookup b slot of None \<Rightarrow> Inl ErrUnknownReplica | Some _ \<Rightarrow> Inr (fmdrop slot b))"

definition with_replica ::
  "int \<Rightarrow> (replica_data \<Rightarrow> storage_err + 'a) \<Rightarrow> mem_backend \<Rightarrow> storage_err + 'a" where
  "with_replica slot f b = (case fmlookup b slot of None \<Rightarrow> Inl ErrUnknownReplica | Some r \<Rightarrow> f r)"

definition mb_Snapshot :: "int \<Rightarrow> mem_backend \<Rightarrow> storage_err + snapshot" where
  "mb_Snapshot slot b = with_replica slot (\<lambda>r. Inr (rd_committed r)) b"

definition mb_InstallSnapshot :: "int \<Rightarrow> snapshot \<Rightarrow> mem_backend \<Rightarrow> storage_err + mem_backend" where
  "mb_InstallSnapshot slot snap b =
     with_replica slot (\<lambda>r. Inr (fmupd slot (r\<lparr>rd_committed := snap, rd_staged := fmempty\<rparr>) b)) b"

definition mb_SetHighestCommittedSequence :: "int \<Rightarrow> u64 \<Rightarrow> mem_backend \<Rightarrow> storage_err + mem_backend" where
  "mb_SetHighestCommittedSequence slot sequence b =
     with_replica slot (\<lambda>r. Inr (fmupd slot (r\<lparr>rd_highestCommitted := sequence,
        rd_highestUpstreamConfirmed := sequence, rd_staged := fmempty\<rparr>) b)) b"

text \<open>The body of the loop of \<open>ApplyCommittedBatch\<close>: one durable commit.\<close>

definition apply_commit :: "durable_commit \<Rightarrow> mem_backend \<Rightarrow> storage_err + mem_backend" where
  "apply_commit commit b =
     (let op = dc_Operation commit
      in with_replica (wo_Slot op) (\<lambda>r.
           if wo_Sequence op \<noteq> rd_highestCommitted r + 1 then Inl ErrSequenceMismatch
           else let finish = (\<lambda>committed.
                  Inr (fmupd (wo_Slot op) (r\<lparr>rd_committed := committed,
                     rd_staged := fmdrop (wo_Sequence op) (rd_staged r),
                     rd_highestCommitted := wo_Sequence op,
                     rd_highestUpstreamConfirmed := dc_UpstreamConfirmedSequence commit\<rparr>) b))
                in case wo_Kind op of
                     OperationKindPut \<Rightarrow> finish (fmupd (wo_Key op)
                        \<lparr>co_Value = wo_Value op, co_Metadata = wo_Metadata op\<rparr> (rd_committed r))
                   | OperationKindDelete \<Rightarrow> finish (fmdrop (wo_Key op) (rd_committed r))
                   | OperationKindOther _ \<Rightarrow> Inl ErrInvalidConfig_s) b)"

fun mb_ApplyCommittedBatch :: "durable_commit list \<Rightarrow> mem_backend \<Rightarrow> storage_err option \<times> mem_backend" where
  "mb_ApplyCommittedBatch [] b = (None, b)"
| "mb_ApplyCommittedBatch (commit # commits) b =
     (case apply_commit commit b of
        Inl e \<Rightarrow> (Some e, b)
      | Inr b' \<Rightarrow> mb_ApplyCommittedBatch commits b')"

definition zero_persisted :: persisted_replica where
  "zero_persisted = \<lparr>pr_Assignment = zero_assignment, pr_LastKnownState = ReplicaStateOther_s [],
     pr_HighestCommittedSequence = 0, pr_HighestUpstreamConfirmedSequence = 0, pr_HasCommittedData = False\<rparr>"

definition mb_ApplyCommitted ::
  "write_operation \<Rightarrow> persisted_replica option \<Rightarrow> mem_backend \<Rightarrow> storage_err option \<times> mem_backend" where
  "mb_ApplyCommitted operation persisted b =
     mb_ApplyCommittedBatch
       [\<lparr>dc_Operation = operation, dc_Persisted = zero_persisted,
         dc_UpstreamConfirmedSequence =
           (case persisted of None \<Rightarrow> wo_Sequence operation
            | Some p \<Rightarrow> pr_HighestUpstreamConfirmedSequence p)\<rparr>] b"

definition mb_HighestUpstreamConfirmedSequence :: "int \<Rightarrow> mem_backend \<Rightarrow> storage_err + u64" where
  "mb_HighestUpstreamConfirmedSequence slot b = with_replica slot (\<lambda>r. Inr (rd_highestUpstreamConfirmed r)) b"

definition mb_SetHighestUpstreamConfirmedSequence ::
  "int \<Rightarrow> u64 \<Rightarrow> mem_backend \<Rightarrow> storage_err + mem_backend" where
  "mb_SetHighestUpstreamConfirmedSequence slot sequence b =
     with_replica slot (\<lambda>r. Inr (fmupd slot (r\<lparr>rd_highestUpstreamConfirmed := sequence\<rparr>) b)) b"

definition mb_Put :: "int \<Rightarrow> string \<Rightarrow> string \<Rightarrow> object_metadata \<Rightarrow> mem_backend \<Rightarrow> storage_err + mem_backend" where
  "mb_Put slot key val metadata b =
     with_replica slot (\<lambda>r. Inr (fmupd slot (r\<lparr>rd_committed :=
        fmupd key \<lparr>co_Value = val, co_Metadata = metadata\<rparr> (rd_committed r)\<rparr>) b)) b"

definition stage ::
  "int \<Rightarrow> u64 \<Rightarrow> staged_operation \<Rightarrow> mem_backend \<Rightarrow> storage_err + mem_backend" where
  "stage slot sequence op b =
     with_replica slot (\<lambda>r. if fm_has (rd_staged r) sequence then Inl ErrSequenceMismatch
        else Inr (fmupd slot (r\<lparr>rd_staged := fmupd sequence op (rd_staged r)\<rparr>) b)) b"

definition mb_StagePut ::
  "int \<Rightarrow> u64 \<Rightarrow> string \<Rightarrow> string \<Rightarrow> object_metadata \<Rightarrow> mem_backend \<Rightarrow> storage_err + mem_backend" where
  "mb_StagePut slot sequence key val metadata b = stage slot sequence
     \<lparr>so_kind = OperationKindPut, so_key = key, so_value = val, so_metadata = metadata\<rparr> b"

definition mb_StageDelete ::
  "int \<Rightarrow> u64 \<Rightarrow> string \<Rightarrow> object_metadata \<Rightarrow> mem_backend \<Rightarrow> storage_err + mem_backend" where
  "mb_StageDelete slot sequence key metadata b = stage slot sequence
     \<lparr>so_kind = OperationKindDelete, so_key = key, so_value = [], so_metadata = metadata\<rparr> b"

definition mb_CommitSequence :: "int \<Rightarrow> u64 \<Rightarrow> mem_backend \<Rightarrow> storage_err + mem_backend" where
  "mb_CommitSequence slot sequence b =
     with_replica slot (\<lambda>r.
       if sequence \<noteq> rd_highestCommitted r + 1 then Inl ErrSequenceMismatch
       else case fmlookup (rd_staged r) sequence of
              None \<Rightarrow> Inl ErrSequenceMismatch
            | Some operation \<Rightarrow>
                let finish = (\<lambda>committed.
                      Inr (fmupd slot (r\<lparr>rd_committed := committed,
                         rd_staged := fmdrop sequence (rd_staged r), rd_highestCommitted := sequence,
                         rd_highestUpstreamConfirmed := sequence\<rparr>) b))
                in case so_kind operation of
                     OperationKindPut \<Rightarrow> finish (fmupd (so_key operation)
                        \<lparr>co_Value = so_value operation, co_Metadata = so_metadata operation\<rparr> (rd_committed r))
                   | OperationKindDelete \<Rightarrow> finish (fmdrop (so_key operation) (rd_committed r))
                   | OperationKindOther _ \<Rightarrow> Inl ErrInvalidConfig_s) b"

definition mb_CommittedSnapshot :: "int \<Rightarrow> mem_backend \<Rightarrow> storage_err + snapshot" where
  "mb_CommittedSnapshot slot b = mb_Snapshot slot b"

definition mb_GetCommitted :: "int \<Rightarrow> string \<Rightarrow> mem_backend \<Rightarrow> storage_err + committed_object option" where
  "mb_GetCommitted slot key b = with_replica slot (\<lambda>r. Inr (fmlookup (rd_committed r) key)) b"

definition mb_HighestCommittedSequence :: "int \<Rightarrow> mem_backend \<Rightarrow> storage_err + u64" where
  "mb_HighestCommittedSequence slot b = with_replica slot (\<lambda>r. Inr (rd_highestCommitted r)) b"

definition mb_StagedSequences :: "int \<Rightarrow> mem_backend \<Rightarrow> storage_err + u64 list" where
  "mb_StagedSequences slot b = with_replica slot (\<lambda>r. Inr (sorted_list_of_fset (fmdom (rd_staged r)))) b"

section \<open>The contract of a backend\<close>

text \<open>A run of commits that starts at the cursor and has no gap.\<close>

fun contiguous :: "int \<Rightarrow> u64 \<Rightarrow> durable_commit list \<Rightarrow> bool" where
  "contiguous slot h [] = True"
| "contiguous slot h (c # cs) =
     (wo_Slot (dc_Operation c) = slot \<and> supported (dc_Operation c) \<and> wo_Sequence (dc_Operation c) = h + 1 \<and>
      contiguous slot (h + 1) cs)"

text \<open>
  \<open>view b slot\<close> is what a backend shows of a slot: its committed objects and its commit
  cursor, nothing when it has no replica there.
\<close>

locale commit_backend =
  fixes view :: "'b \<Rightarrow> int \<Rightarrow> (snapshot \<times> u64) option"
    and commit :: "durable_commit \<Rightarrow> 'b \<Rightarrow> storage_err + 'b"
    and install :: "int \<Rightarrow> snapshot \<Rightarrow> 'b \<Rightarrow> storage_err + 'b"
    and set_cursor :: "int \<Rightarrow> u64 \<Rightarrow> 'b \<Rightarrow> storage_err + 'b"
  assumes commit_ok: "view b (wo_Slot (dc_Operation c)) = Some (m, h) \<Longrightarrow> supported (dc_Operation c) \<Longrightarrow>
      wo_Sequence (dc_Operation c) = h + 1 \<Longrightarrow>
      \<exists>b'. commit c b = Inr b' \<and> view b' = (view b)(wo_Slot (dc_Operation c) \<mapsto> (apply_op (dc_Operation c) m, h + 1))"
    and commit_inv: "commit c b = Inr b' \<Longrightarrow>
      \<exists>m h. view b (wo_Slot (dc_Operation c)) = Some (m, h) \<and> supported (dc_Operation c) \<and>
        wo_Sequence (dc_Operation c) = h + 1"
    and install_ok: "view b slot = Some (m, h) \<Longrightarrow>
      \<exists>b'. install slot m' b = Inr b' \<and> view b' = (view b)(slot \<mapsto> (m', h))"
    and set_cursor_ok: "view b slot = Some (m, h) \<Longrightarrow>
      \<exists>b'. set_cursor slot h' b = Inr b' \<and> view b' = (view b)(slot \<mapsto> (m, h'))"
begin

text \<open>A contiguous run is accepted as a whole and adds up.\<close>

lemma run_ok:
  assumes "view b slot = Some (m, h)" and "contiguous slot h cs"
  shows "\<exists>b'. fold_res commit cs b = Inr b' \<and>
    view b' = (view b)(slot \<mapsto> (fold apply_op (map dc_Operation cs) m, h + of_nat (length cs)))"
  using assms
proof (induction cs arbitrary: b m h)
  case Nil
  then show ?case by (auto simp: fun_upd_idem)
next
  case (Cons c cs)
  from Cons.prems commit_ok[of b c m h]
  obtain b1 where b1: "commit c b = Inr b1" "view b1 = (view b)(slot \<mapsto> (apply_op (dc_Operation c) m, h + 1))"
    by auto
  from Cons.prems b1 have "view b1 slot = Some (apply_op (dc_Operation c) m, h + 1)" "contiguous slot (h + 1) cs" by auto
  from Cons.IH[OF this] b1 show ?case by (auto simp: add.assoc fun_eq_iff)
qed

text \<open>Whatever run is accepted was contiguous for each slot: no operation is skipped or repeated.\<close>

lemma run_inv:
  assumes "fold_res commit cs b = Inr b'" and "view b slot = Some (m, h)"
  defines "mine \<equiv> filter (\<lambda>c. wo_Slot (dc_Operation c) = slot) cs"
  shows "contiguous slot h mine \<and>
    view b' slot = Some (fold apply_op (map dc_Operation mine) m, h + of_nat (length mine))"
  using assms(1,2) unfolding mine_def
proof (induction cs arbitrary: b m h)
  case (Cons c cs)
  from Cons.prems(1) obtain b1 where b1: "commit c b = Inr b1" "fold_res commit cs b1 = Inr b'"
    by (auto simp: res_bind_Inr)
  from commit_inv[OF b1(1)] obtain mc hc where c: "view b (wo_Slot (dc_Operation c)) = Some (mc, hc)"
    "supported (dc_Operation c)" "wo_Sequence (dc_Operation c) = hc + 1" by auto
  from commit_ok[OF c] b1(1)
  have v: "view b1 = (view b)(wo_Slot (dc_Operation c) \<mapsto> (apply_op (dc_Operation c) mc, hc + 1))" by auto
  show ?case
  proof (cases "wo_Slot (dc_Operation c) = slot")
    case True
    with c Cons.prems(2) have [simp]: "mc = m" "hc = h" by auto
    from v True have "view b1 slot = Some (apply_op (dc_Operation c) m, h + 1)" by simp
    from Cons.IH[OF b1(2) this] True c show ?thesis by (simp add: add.assoc)
  next
    case False
    with v Cons.prems(2) have "view b1 slot = Some (m, h)" by simp
    from Cons.IH[OF b1(2) this] False show ?thesis by simp
  qed
qed simp

text \<open>
  State transfer: a replica that installs the snapshot another one took at cursor \<open>h\<close> and
  then commits the same later operations ends with the same objects and cursor.
\<close>

lemma transfer:
  assumes "view src slot = Some (m, h)" and "view dst slot = Some (m0, h0)" and "contiguous slot h cs"
  shows "\<exists>dst' src'. res_bind (install slot m dst) (\<lambda>d. res_bind (set_cursor slot h d) (fold_res commit cs)) = Inr dst' \<and>
    fold_res commit cs src = Inr src' \<and> view dst' slot = view src' slot"
proof -
  obtain d1 where d1: "install slot m dst = Inr d1" "view d1 slot = Some (m, h0)"
    using install_ok[OF assms(2), of m] by auto
  obtain d2 where d2: "set_cursor slot h d1 = Inr d2" "view d2 slot = Some (m, h)"
    using set_cursor_ok[OF d1(2), of h] by auto
  from run_ok[OF d2(2) assms(3)] run_ok[OF assms(1,3)] d1 d2 show ?thesis by auto
qed

end

section \<open>The in-memory backend provides the contract\<close>

definition mb_view :: "mem_backend \<Rightarrow> int \<Rightarrow> (snapshot \<times> u64) option" where
  "mb_view b slot = map_option (\<lambda>r. (rd_committed r, rd_highestCommitted r)) (fmlookup b slot)"

lemma apply_commit_cases:
  assumes "fmlookup b (wo_Slot (dc_Operation c)) = Some r" and "supported (dc_Operation c)"
    and "wo_Sequence (dc_Operation c) = rd_highestCommitted r + 1"
  shows "apply_commit c b = Inr (fmupd (wo_Slot (dc_Operation c))
    (r\<lparr>rd_committed := apply_op (dc_Operation c) (rd_committed r),
       rd_staged := fmdrop (wo_Sequence (dc_Operation c)) (rd_staged r),
       rd_highestCommitted := wo_Sequence (dc_Operation c),
       rd_highestUpstreamConfirmed := dc_UpstreamConfirmedSequence c\<rparr>) b)"
  using assms
  by (auto simp: apply_commit_def with_replica_def Let_def supported_def apply_op_def op_object_def
      split: OperationKind.splits)

lemma apply_commit_inv:
  assumes "apply_commit c b = Inr b'"
  obtains r where "fmlookup b (wo_Slot (dc_Operation c)) = Some r" "supported (dc_Operation c)"
    "wo_Sequence (dc_Operation c) = rd_highestCommitted r + 1"
  using assms
  by (auto simp: apply_commit_def with_replica_def Let_def supported_def
      split: option.splits if_splits OperationKind.splits)

interpretation mem: commit_backend mb_view apply_commit mb_InstallSnapshot mb_SetHighestCommittedSequence
proof unfold_locales
  fix b :: mem_backend and c :: durable_commit and m h
  assume v: "mb_view b (wo_Slot (dc_Operation c)) = Some (m, h)" and s: "supported (dc_Operation c)"
    and q: "wo_Sequence (dc_Operation c) = h + 1"
  from v obtain r where "fmlookup b (wo_Slot (dc_Operation c)) = Some r" "m = rd_committed r"
    "h = rd_highestCommitted r" by (auto simp: mb_view_def)
  with apply_commit_cases[OF _ s, of b r] q
  show "\<exists>b'. apply_commit c b = Inr b' \<and>
    mb_view b' = (mb_view b)(wo_Slot (dc_Operation c) \<mapsto> (apply_op (dc_Operation c) m, h + 1))"
    by (auto simp: mb_view_def fun_eq_iff)
next
  fix c :: durable_commit and b b' :: mem_backend
  assume "apply_commit c b = Inr b'"
  then show "\<exists>m h. mb_view b (wo_Slot (dc_Operation c)) = Some (m, h) \<and> supported (dc_Operation c) \<and>
      wo_Sequence (dc_Operation c) = h + 1"
    by (rule apply_commit_inv) (auto simp: mb_view_def)
qed (auto simp: mb_view_def mb_InstallSnapshot_def mb_SetHighestCommittedSequence_def with_replica_def fun_eq_iff)

section \<open>Properties\<close>

text \<open>A batch stops at the first commit it refuses and keeps what it applied before.\<close>

lemma mb_ApplyCommittedBatch_prefix:
  assumes "mb_ApplyCommittedBatch cs b = (e, b')"
  obtains n where "n \<le> length cs" "fold_res apply_commit (take n cs) b = Inr b'"
    "e = None \<longleftrightarrow> n = length cs" "\<And>err. e = Some err \<Longrightarrow> apply_commit (cs ! n) b' = Inl err"
  using assms
proof (induction cs arbitrary: b thesis)
  case Nil
  then show ?case by auto
next
  case (Cons c cs)
  show ?case
  proof (cases "apply_commit c b")
    case (Inl err)
    with Cons.prems(2) show ?thesis by (intro Cons.prems(1)[of 0]) auto
  next
    case (Inr b1)
    with Cons.prems(2) have "mb_ApplyCommittedBatch cs b1 = (e, b')" by simp
    from Cons.IH[OF _ this] obtain n where n: "n \<le> length cs" "fold_res apply_commit (take n cs) b1 = Inr b'"
      "e = None \<longleftrightarrow> n = length cs" "\<And>err. e = Some err \<Longrightarrow> apply_commit (cs ! n) b' = Inl err" by metis
    show ?thesis by (rule Cons.prems(1)[of "Suc n"]) (use n Inr in auto)
  qed
qed

text \<open>
  C23. The backend is a log of operations: whatever batch of commits it is given, it
  applies a prefix of it (all of it exactly when it reports no error), and for every slot
  the operations of that prefix are consecutive from the slot's cursor, the objects are
  their fold over the old objects and the cursor advances by their number.
\<close>

theorem ApplyCommittedBatch_log:
  assumes "mb_ApplyCommittedBatch cs b = (e, b')" and "mb_view b slot = Some (m, h)"
  shows "\<exists>n \<le> length cs. (e = None \<longleftrightarrow> n = length cs) \<and>
    (let mine = filter (\<lambda>c. wo_Slot (dc_Operation c) = slot) (take n cs)
     in contiguous slot h mine \<and>
        mb_view b' slot = Some (fold apply_op (map dc_Operation mine) m, h + of_nat (length mine)))"
proof -
  from assms(1) obtain n where n: "n \<le> length cs" "fold_res apply_commit (take n cs) b = Inr b'"
    "e = None \<longleftrightarrow> n = length cs"
    by (rule mb_ApplyCommittedBatch_prefix)
  from mem.run_inv[OF n(2) assms(2)] n(1,3) show ?thesis unfolding Let_def by blast
qed

definition ex_op :: "u64 \<Rightarrow> OperationKind \<Rightarrow> string \<Rightarrow> string \<Rightarrow> write_operation" where
  "ex_op sequence kind key val = \<lparr>wo_Slot = 3, wo_Sequence = sequence, wo_Kind = kind, wo_Key = key,
     wo_Value = val, wo_Metadata = \<lparr>om_Version = 1, om_CreatedAt = 5, om_UpdatedAt = 5\<rparr>\<rparr>"

definition ex_commit :: "write_operation \<Rightarrow> durable_commit" where
  "ex_commit op = \<lparr>dc_Operation = op, dc_Persisted = zero_persisted,
     dc_UpstreamConfirmedSequence = wo_Sequence op\<rparr>"

definition ex_commits :: "durable_commit list" where
  "ex_commits = map ex_commit [ex_op 1 OperationKindPut ''k'' ''v'', ex_op 2 OperationKindDelete ''k'' [],
     ex_op 4 OperationKindPut ''j'' ''w'']"

definition ex_backend :: mem_backend where
  "ex_backend = (case mb_CreateReplica 3 NewInMemoryBackend of Inr b \<Rightarrow> b | Inl _ \<Rightarrow> fmempty)"

theorem ApplyCommittedBatch_log_witness:
  "\<exists>b'. mb_ApplyCommittedBatch ex_commits ex_backend = (Some ErrSequenceMismatch, b') \<and>
     (\<exists>n < 3. mb_view b' 3 =
       Some (fold apply_op (map dc_Operation (filter (\<lambda>c. wo_Slot (dc_Operation c) = 3) (take n ex_commits))) fmempty,
             of_nat (length (filter (\<lambda>c. wo_Slot (dc_Operation c) = 3) (take n ex_commits)))))"
proof -
  have e: "fst (mb_ApplyCommittedBatch ex_commits ex_backend) = Some ErrSequenceMismatch" by code_simp
  then obtain b' where b: "mb_ApplyCommittedBatch ex_commits ex_backend = (Some ErrSequenceMismatch, b')"
    by (cases "mb_ApplyCommittedBatch ex_commits ex_backend") auto
  have v: "mb_view ex_backend 3 = Some (fmempty, 0)" by code_simp
  have l: "length ex_commits = 3" by code_simp
  from ApplyCommittedBatch_log[OF b v] l b show ?thesis
    by (auto simp: Let_def intro!: exI[of _ b']) (metis le_neq_implies_less)
qed

text \<open>
  Staging and committing is the same as applying: for the next operation in sequence of
  a slot where nothing is staged under its number, staging it and committing that sequence
  leaves the backend exactly as applying the operation does.
\<close>

lemma stage_commit_equals_apply:
  assumes "mb_view b (wo_Slot op) = Some (m, h)" and "supported op" and "wo_Sequence op = h + 1"
    and "mb_StagedSequences (wo_Slot op) b = Inr staged" and "wo_Sequence op \<notin> set staged"
  shows "mb_ApplyCommitted op None b =
    (None, projr (res_bind
       (if wo_Kind op = OperationKindPut
        then mb_StagePut (wo_Slot op) (wo_Sequence op) (wo_Key op) (wo_Value op) (wo_Metadata op) b
        else mb_StageDelete (wo_Slot op) (wo_Sequence op) (wo_Key op) (wo_Metadata op) b)
       (mb_CommitSequence (wo_Slot op) (wo_Sequence op))))"
proof -
  from assms(1) obtain r where r: "fmlookup b (wo_Slot op) = Some r" "h = rd_highestCommitted r"
    by (auto simp: mb_view_def)
  have fresh: "fmlookup (rd_staged r) (wo_Sequence op) = None"
    using assms(4,5) r by (auto simp: mb_StagedSequences_def with_replica_def sorted_list_of_fset.rep_eq fmlookup_dom_iff)
  then have drop: "fmdrop (wo_Sequence op) (rd_staged r) = rd_staged r"
    by (rule fmdrop_absent)
  have same: "fmdrop (wo_Sequence op) (fmupd (wo_Sequence op) x (rd_staged r)) = rd_staged r" for x
    using drop by (simp add: fmap_ext fmlookup_drop fresh)
  show ?thesis
    using assms(2,3) r fresh drop same
    by (auto simp: mb_ApplyCommitted_def apply_commit_def with_replica_def Let_def supported_def
        mb_StagePut_def mb_StageDelete_def stage_def mb_CommitSequence_def fm_has_def)
qed

lemma stage_commit_equals_apply_example:
  "fst (mb_ApplyCommitted (ex_op 1 OperationKindPut ''k'' ''v'') None ex_backend) = None"
proof -
  let ?op = "ex_op 1 OperationKindPut ''k'' ''v''"
  have "mb_view ex_backend (wo_Slot ?op) = Some (fmempty, 0)" "supported ?op" "wo_Sequence ?op = 0 + 1"
    "mb_StagedSequences (wo_Slot ?op) ex_backend = Inr []"
    "wo_Sequence ?op \<notin> set []" by code_simp+
  then show ?thesis using stage_commit_equals_apply[of ex_backend ?op fmempty 0 "[]"] by simp
qed

text \<open>
  C24. State transfer is exact: installing on one replica the snapshot and cursor another
  replica shows for a slot, and then committing the operations the source commits after
  that, gives the destination the same objects and cursor as the source.
\<close>

theorem snapshot_transfer_converges:
  assumes "mb_Snapshot slot src = Inr m" and "mb_HighestCommittedSequence slot src = Inr h"
    and "mb_CreateReplica slot dst = Inr dst0" and "contiguous slot h cs"
  shows "\<exists>dst1 dst2 dst3 src'. mb_InstallSnapshot slot m dst0 = Inr dst1 \<and>
    mb_SetHighestCommittedSequence slot h dst1 = Inr dst2 \<and>
    mb_ApplyCommittedBatch cs dst2 = (None, dst3) \<and> mb_ApplyCommittedBatch cs src = (None, src') \<and>
    mb_Snapshot slot dst3 = mb_Snapshot slot src' \<and>
    mb_HighestCommittedSequence slot dst3 = mb_HighestCommittedSequence slot src'"
proof -
  have v: "mb_view src slot = Some (m, h)" "mb_view dst0 slot = Some (fmempty, 0)"
    using assms(1-3)
    by (auto simp: mb_view_def mb_Snapshot_def mb_HighestCommittedSequence_def with_replica_def mb_CreateReplica_def
        split: option.splits)
  have batch: "fold_res apply_commit cs b = Inr b' \<Longrightarrow> mb_ApplyCommittedBatch cs b = (None, b')" for b b'
    by (induction cs arbitrary: b) (auto simp: res_bind_Inr)
  have shown: "mb_view x slot = mb_view y slot \<Longrightarrow> mb_Snapshot slot x = mb_Snapshot slot y \<and>
      mb_HighestCommittedSequence slot x = mb_HighestCommittedSequence slot y" for x y
    by (cases "fmlookup x slot"; cases "fmlookup y slot")
      (auto simp: mb_view_def mb_Snapshot_def mb_HighestCommittedSequence_def with_replica_def)
  from mem.transfer[OF v assms(4)] obtain dst3 src' dst1 dst2 where
    "mb_InstallSnapshot slot m dst0 = Inr dst1" "mb_SetHighestCommittedSequence slot h dst1 = Inr dst2"
    "fold_res apply_commit cs dst2 = Inr dst3" "fold_res apply_commit cs src = Inr src'"
    "mb_view dst3 slot = mb_view src' slot"
    by (auto simp: res_bind_Inr)
  then show ?thesis using batch shown by meson
qed

theorem snapshot_transfer_converges_witness:
  "\<exists>dst1 dst2 dst3 src'. mb_InstallSnapshot 3 fmempty ex_backend = Inr dst1 \<and>
    mb_SetHighestCommittedSequence 3 0 dst1 = Inr dst2 \<and>
    mb_ApplyCommittedBatch (take 2 ex_commits) dst2 = (None, dst3) \<and>
    mb_ApplyCommittedBatch (take 2 ex_commits) ex_backend = (None, src') \<and>
    mb_Snapshot 3 dst3 = mb_Snapshot 3 src'"
proof -
  have "mb_Snapshot 3 ex_backend = Inr fmempty" "mb_HighestCommittedSequence 3 ex_backend = Inr 0"
    "mb_CreateReplica 3 NewInMemoryBackend = Inr ex_backend" "contiguous 3 0 (take 2 ex_commits)" by code_simp+
  from snapshot_transfer_converges[OF this] show ?thesis by blast
qed

end
