(* ===== verification/Slot_Reducer.thy ===== *)
theory Slot_Reducer
  imports Backend
begin

text \<open>
  The protocol state of one slot on one node and its pure transitions
  (\<open>storage/slot_reducer.go\<close>, the record and the source checks of \<open>storage/storage.go\<close>,
  the record functions of \<open>storage/slot_owner_support.go\<close>).  A missing Go map and an
  empty one are the same value, so \<open>ensureProtocolReplicaState\<close> is the identity.  The
  channel a waiting client listens on is not part of the record; who is waiting is kept by
  the slot runtime.
\<close>

section \<open>The replica record\<close>

record pending_write =
  pw_completed :: bool
  pw_result :: commit_result
  pw_operation :: "write_operation option"

record commit_source =
  cs_FromNodeID :: string
  cs_ChainVersion :: u64

record dirty_entry =
  de_Sequence :: u64
  de_Operation :: write_operation

record replica_record =
  rr_assignment :: replica_assignment
  rr_state :: storage_ReplicaState
  rr_nextSequence :: u64
  rr_highestPreparedDurable :: u64
  rr_highestCommitTokenReceived :: u64
  rr_highestCommittedSequence :: u64
  rr_materializedCommittedSequence :: u64
  rr_highestUpstreamConfirmedSequence :: u64
  rr_localDataPresent :: bool
  rr_lastKnownState :: storage_ReplicaState
  rr_pendingWrites :: "(u64, pending_write) fmap"
  rr_preparedEntries :: "(u64, write_operation) fmap"
  rr_expectedCommitSources :: "(u64, commit_source) fmap"
  rr_stagedForwards :: "(u64, forward_request) fmap"
  rr_bufferedForwards :: "(u64, forward_request) fmap"
  rr_bufferedCommits :: "(u64, commit_request) fmap"
  rr_recentCommittedForwards :: "(u64, forward_request) fmap"
  rr_recentCommittedCommits :: "(u64, commit_request) fmap"
  rr_recentForwardOrder :: "u64 list"
  rr_recentCommitOrder :: "u64 list"
  rr_dirtyByKey :: "(string, dirty_entry list) fmap"
  rr_committedOverlay :: "(string, dirty_entry) fmap"
  rr_inFlightClientWrites :: int

definition zero_record :: replica_record where
  "zero_record = \<lparr>rr_assignment = zero_assignment, rr_state = ReplicaStateOther_s [], rr_nextSequence = 0,
     rr_highestPreparedDurable = 0, rr_highestCommitTokenReceived = 0, rr_highestCommittedSequence = 0,
     rr_materializedCommittedSequence = 0, rr_highestUpstreamConfirmedSequence = 0, rr_localDataPresent = False,
     rr_lastKnownState = ReplicaStateOther_s [], rr_pendingWrites = fmempty, rr_preparedEntries = fmempty,
     rr_expectedCommitSources = fmempty, rr_stagedForwards = fmempty, rr_bufferedForwards = fmempty,
     rr_bufferedCommits = fmempty, rr_recentCommittedForwards = fmempty, rr_recentCommittedCommits = fmempty,
     rr_recentForwardOrder = [], rr_recentCommitOrder = [], rr_dirtyByKey = fmempty,
     rr_committedOverlay = fmempty, rr_inFlightClientWrites = 0\<rparr>"

abbreviation rr_peers :: "replica_record \<Rightarrow> chain_peers" where
  "rr_peers r \<equiv> ra_Peers (rr_assignment r)"

abbreviation rr_version :: "replica_record \<Rightarrow> u64" where
  "rr_version r \<equiv> ra_ChainVersion (rr_assignment r)"

record buffer_limits =
  bl_perSlotLimit :: int
  bl_perNodeLimit :: int
  bl_nodeBufferedNow :: int

datatype slotReducerAction =
    slotReducerActionApply
  | slotReducerActionBuffer
  | slotReducerActionIgnore

section \<open>Who may send\<close>

definition validateForwardSource :: "replica_record \<Rightarrow> forward_request \<Rightarrow> storage_err option" where
  "validateForwardSource record req =
     (let sequence = wo_Sequence (fr_Operation req);
          (expectedNodeID, expectedChainVersion) =
            (case fmlookup (rr_stagedForwards record) sequence of
               Some e \<Rightarrow> (fr_FromNodeID e, fr_ChainVersion e)
             | None \<Rightarrow> (case fmlookup (rr_bufferedForwards record) sequence of
                 Some e \<Rightarrow> (fr_FromNodeID e, fr_ChainVersion e)
               | None \<Rightarrow> (case fmlookup (rr_recentCommittedForwards record) sequence of
                   Some e \<Rightarrow> (fr_FromNodeID e, fr_ChainVersion e)
                 | None \<Rightarrow> (PredecessorNodeID (rr_peers record), rr_version record))))
      in if expectedNodeID = [] \<or> expectedNodeID \<noteq> fr_FromNodeID req then Some ErrPeerMismatch
         else if expectedChainVersion \<noteq> fr_ChainVersion req then
           (if PredecessorNodeID (rr_peers record) = fr_FromNodeID req \<and> rr_version record = fr_ChainVersion req
            then None else Some ErrPeerMismatch)
         else None)"

definition validateCommitSource :: "replica_record \<Rightarrow> commit_request \<Rightarrow> storage_err option" where
  "validateCommitSource record req =
     (let sequence = cr_Sequence req;
          fallback =
            (let (expectedNodeID, expectedChainVersion) =
               (case fmlookup (rr_bufferedCommits record) sequence of
                  Some e \<Rightarrow> (cr_FromNodeID e, cr_ChainVersion e)
                | None \<Rightarrow> (case fmlookup (rr_recentCommittedCommits record) sequence of
                    Some e \<Rightarrow> (cr_FromNodeID e, cr_ChainVersion e)
                  | None \<Rightarrow> (case fmlookup (rr_stagedForwards record) sequence of
                      Some s \<Rightarrow> (SuccessorNodeID (rr_peers record), fr_ChainVersion s)
                    | None \<Rightarrow> (SuccessorNodeID (rr_peers record), rr_version record))))
             in if expectedNodeID = [] \<or> expectedNodeID \<noteq> cr_FromNodeID req then Some ErrPeerMismatch
                else if expectedChainVersion \<noteq> cr_ChainVersion req then Some ErrPeerMismatch
                else None)
      in case fmlookup (rr_expectedCommitSources record) sequence of
           None \<Rightarrow> fallback
         | Some expected \<Rightarrow>
             if cs_FromNodeID expected = [] then fallback
             else if cs_FromNodeID expected \<noteq> cr_FromNodeID req then Some ErrPeerMismatch
             else if cs_ChainVersion expected = cr_ChainVersion req then None
             else if SuccessorNodeID (rr_peers record) = cr_FromNodeID req \<and> rr_version record = cr_ChainVersion req
             then None else Some ErrPeerMismatch)"

definition validateCommitAdvanceSource :: "replica_record \<Rightarrow> commit_advance_request \<Rightarrow> storage_err option" where
  "validateCommitAdvanceSource record req =
     (let expectedNodeID = SuccessorNodeID (rr_peers record)
      in if expectedNodeID = [] \<or> expectedNodeID \<noteq> ca_FromNodeID req then Some ErrPeerMismatch
         else if rr_version record \<noteq> ca_ChainVersion req then Some ErrPeerMismatch
         else None)"

section \<open>Dirty entries\<close>

text \<open>
  \<open>sort.Slice\<close> is not stable; the entries of a key have distinct sequences, so every
  sorting of them is the same list.
\<close>

fun replace_entry :: "write_operation \<Rightarrow> dirty_entry list \<Rightarrow> dirty_entry list" where
  "replace_entry op [] = []"
| "replace_entry op (e # es) =
     (if de_Sequence e = wo_Sequence op then e\<lparr>de_Operation := op\<rparr> # es else e # replace_entry op es)"

definition reduceAddDirtyEntry :: "replica_record \<Rightarrow> write_operation \<Rightarrow> replica_record" where
  "reduceAddDirtyEntry record operation =
     (let entries = fm_get [] (rr_dirtyByKey record) (wo_Key operation);
          entries' = (if list_ex (\<lambda>e. de_Sequence e = wo_Sequence operation) entries
                      then replace_entry operation entries
                      else sort_key de_Sequence
                        (entries @ [\<lparr>de_Sequence = wo_Sequence operation, de_Operation = operation\<rparr>]))
      in record\<lparr>rr_dirtyByKey := fmupd (wo_Key operation) entries' (rr_dirtyByKey record)\<rparr>)"

definition reduceRemoveDirtyEntry :: "replica_record \<Rightarrow> string \<Rightarrow> u64 \<Rightarrow> replica_record" where
  "reduceRemoveDirtyEntry record key sequence =
     (case fmlookup (rr_dirtyByKey record) key of
        None \<Rightarrow> record
      | Some entries \<Rightarrow>
          let filtered = filter (\<lambda>e. de_Sequence e \<noteq> sequence) entries
          in record\<lparr>rr_dirtyByKey := (if filtered = [] then fmdrop key (rr_dirtyByKey record)
                                     else fmupd key filtered (rr_dirtyByKey record))\<rparr>)"

definition dirtyEntriesForKey :: "replica_record \<Rightarrow> string \<Rightarrow> dirty_entry list" where
  "dirtyEntriesForKey record key = fm_get [] (rr_dirtyByKey record) key"

section \<open>Submitting and forwarding\<close>

definition submit_result :: "write_operation \<Rightarrow> commit_result" where
  "submit_result operation = \<lparr>cm_Slot = wo_Slot operation, cm_Sequence = wo_Sequence operation,
     cm_Applied = True, cm_Metadata = Some (wo_Metadata operation)\<rparr>"

definition successor_source :: "replica_record \<Rightarrow> commit_source" where
  "successor_source record = \<lparr>cs_FromNodeID = SuccessorNodeID (rr_peers record), cs_ChainVersion = rr_version record\<rparr>"

definition reduceSubmitWrite :: "replica_record \<Rightarrow> write_operation \<Rightarrow> replica_record \<times> commit_result" where
  "reduceSubmitWrite record operation =
     (let sequence = wo_Sequence operation;
          r1 = record\<lparr>
            rr_pendingWrites := fmupd sequence \<lparr>pw_completed = False, pw_result = submit_result operation,
               pw_operation = Some operation\<rparr> (rr_pendingWrites record),
            rr_preparedEntries := fmupd sequence operation (rr_preparedEntries record),
            rr_expectedCommitSources := fmupd sequence (successor_source record) (rr_expectedCommitSources record)\<rparr>;
          r2 = reduceAddDirtyEntry r1 operation
      in (r2\<lparr>rr_nextSequence := rr_nextSequence r2 + 1\<rparr>, submit_result operation))"

definition reduceStageForward :: "replica_record \<Rightarrow> forward_request \<Rightarrow> replica_record" where
  "reduceStageForward record req =
     (let operation = fr_Operation req; sequence = wo_Sequence operation;
          r0 = record\<lparr>rr_bufferedForwards := fmdrop sequence (rr_bufferedForwards record)\<rparr>
      in if fm_has (rr_stagedForwards r0) sequence then r0
         else let r1 = r0\<lparr>
                    rr_stagedForwards := fmupd sequence req (rr_stagedForwards r0),
                    rr_preparedEntries := fmupd sequence operation (rr_preparedEntries r0),
                    rr_expectedCommitSources := fmupd sequence (successor_source r0) (rr_expectedCommitSources r0)\<rparr>;
                  r2 = reduceAddDirtyEntry r1 operation
              in r2\<lparr>rr_nextSequence := rr_nextSequence r2 + 1\<rparr>)"

definition same_or_rechained :: "replica_record \<Rightarrow> forward_request \<Rightarrow> forward_request \<Rightarrow> bool" where
  "same_or_rechained record kept req =
     (sameForwardRequest kept req \<or>
      (sameForwardRequestIgnoringChain kept req \<and> PredecessorNodeID (rr_peers record) = fr_FromNodeID req \<and>
       rr_version record = fr_ChainVersion req))"

definition reduceHandlePastForward :: "replica_record \<Rightarrow> forward_request \<Rightarrow> storage_err option" where
  "reduceHandlePastForward record req =
     (case fmlookup (rr_stagedForwards record) (wo_Sequence (fr_Operation req)) of
        Some staged \<Rightarrow> if same_or_rechained record staged req then None else Some ErrProtocolConflict
      | None \<Rightarrow> (case fmlookup (rr_recentCommittedForwards record) (wo_Sequence (fr_Operation req)) of
          Some committed \<Rightarrow> if same_or_rechained record committed req then None else Some ErrProtocolConflict
        | None \<Rightarrow> Some ErrSequenceMismatch))"

definition fm_size :: "('k, 'v) fmap \<Rightarrow> int" where
  "fm_size m = int (fcard (fmdom m))"

definition reduceTotalBufferedMessages :: "replica_record \<Rightarrow> int" where
  "reduceTotalBufferedMessages record = fm_size (rr_bufferedForwards record) + fm_size (rr_bufferedCommits record)"

definition buffer_room :: "replica_record \<Rightarrow> int \<Rightarrow> buffer_limits \<Rightarrow> storage_err option" where
  "buffer_room record slot limits =
     (if reduceTotalBufferedMessages record \<ge> bl_perSlotLimit limits
      then Some (newReplicaBackpressureError slot (reduceTotalBufferedMessages record) (bl_perSlotLimit limits))
      else if bl_perNodeLimit limits > 0 \<and> bl_nodeBufferedNow limits \<ge> bl_perNodeLimit limits
      then Some (newReplicaBackpressureError slot (bl_nodeBufferedNow limits) (bl_perNodeLimit limits))
      else None)"

definition reduceBufferFutureForward ::
  "replica_record \<Rightarrow> forward_request \<Rightarrow> buffer_limits \<Rightarrow> storage_err + replica_record" where
  "reduceBufferFutureForward record req limits =
     (let sequence = wo_Sequence (fr_Operation req)
      in case fmlookup (rr_bufferedForwards record) sequence of
           Some existing \<Rightarrow> if sameForwardRequest existing req then Inr record else Inl ErrProtocolConflict
         | None \<Rightarrow> (case buffer_room record (wo_Slot (fr_Operation req)) limits of
             Some e \<Rightarrow> Inl e
           | None \<Rightarrow> Inr (record\<lparr>rr_bufferedForwards := fmupd sequence req (rr_bufferedForwards record)\<rparr>)))"

definition reduceForwardWrite ::
  "replica_record \<Rightarrow> forward_request \<Rightarrow> buffer_limits \<Rightarrow> storage_err + replica_record \<times> slotReducerAction" where
  "reduceForwardWrite record req limits =
     (case validateForwardSource record req of
        Some e \<Rightarrow> Inl e
      | None \<Rightarrow>
          let sequence = wo_Sequence (fr_Operation req)
          in if sequence < rr_nextSequence record then
               (case reduceHandlePastForward record req of
                  Some e \<Rightarrow> Inl e | None \<Rightarrow> Inr (record, slotReducerActionIgnore))
             else if rr_nextSequence record < sequence then
               res_bind (reduceBufferFutureForward record req limits) (\<lambda>r. Inr (r, slotReducerActionBuffer))
             else Inr (reduceStageForward record req, slotReducerActionApply))"

section \<open>Committing\<close>

definition reduceHandlePastCommit :: "replica_record \<Rightarrow> commit_request \<Rightarrow> storage_err option" where
  "reduceHandlePastCommit record req =
     (case fmlookup (rr_recentCommittedCommits record) (cr_Sequence req) of
        Some committed \<Rightarrow> if sameCommitRequest committed req then None else Some ErrProtocolConflict
      | None \<Rightarrow> Some ErrSequenceMismatch)"

definition reduceBufferFutureCommit ::
  "replica_record \<Rightarrow> commit_request \<Rightarrow> buffer_limits \<Rightarrow> storage_err + replica_record" where
  "reduceBufferFutureCommit record req limits =
     (case fmlookup (rr_bufferedCommits record) (cr_Sequence req) of
        Some existing \<Rightarrow> if sameCommitRequest existing req then Inr record else Inl ErrProtocolConflict
      | None \<Rightarrow> (case buffer_room record (cr_Slot req) limits of
          Some e \<Rightarrow> Inl e
        | None \<Rightarrow> Inr (record\<lparr>rr_bufferedCommits := fmupd (cr_Sequence req) req (rr_bufferedCommits record)\<rparr>)))"

definition reduceHasStagedForward :: "replica_record \<Rightarrow> u64 \<Rightarrow> bool" where
  "reduceHasStagedForward record sequence = fm_has (rr_stagedForwards record) sequence"

definition reduceHasCommittableSequence :: "replica_record \<Rightarrow> u64 \<Rightarrow> bool" where
  "reduceHasCommittableSequence record sequence = (sequence \<le> rr_highestPreparedDurable record)"

definition reduceCommittableOperation :: "replica_record \<Rightarrow> u64 \<Rightarrow> storage_err + write_operation" where
  "reduceCommittableOperation record sequence =
     (if rr_highestPreparedDurable record < sequence then Inl ErrSequenceMismatch
      else case fmlookup (rr_preparedEntries record) sequence of
             Some operation \<Rightarrow> Inr operation | None \<Rightarrow> Inl ErrSequenceMismatch)"

definition reduceCommitWrite ::
  "replica_record \<Rightarrow> commit_request \<Rightarrow> buffer_limits \<Rightarrow> storage_err + replica_record \<times> slotReducerAction" where
  "reduceCommitWrite record req limits =
     (case validateCommitSource record req of
        Some e \<Rightarrow> Inl e
      | None \<Rightarrow>
          if cr_Sequence req \<le> rr_highestCommittedSequence record then
            (case reduceHandlePastCommit record req of
               Some e \<Rightarrow> Inl e | None \<Rightarrow> Inr (record, slotReducerActionIgnore))
          else if rr_highestCommittedSequence record + 1 < cr_Sequence req \<or>
                  \<not> reduceHasCommittableSequence record (cr_Sequence req) then
            res_bind (reduceBufferFutureCommit record req limits) (\<lambda>r. Inr (r, slotReducerActionBuffer))
          else Inr (record, slotReducerActionApply))"

text \<open>
  Evicting the oldest retained messages beyond the limit.  The limit is a node setting
  that \<open>OpenNode\<close> checks to be non-negative.
\<close>

fun evict :: "int \<Rightarrow> u64 list \<Rightarrow> (u64, 'a) fmap \<Rightarrow> u64 list \<times> (u64, 'a) fmap" where
  "evict limit [] m = ([], m)"
| "evict limit (s # order) m =
     (if int (length (s # order)) > limit then evict limit order (fmdrop s m) else (s # order, m))"

definition reduceRecordCommittedForward :: "replica_record \<Rightarrow> forward_request \<Rightarrow> int \<Rightarrow> replica_record" where
  "reduceRecordCommittedForward record req retentionLimit =
     (let sequence = wo_Sequence (fr_Operation req);
          (order, kept) = evict retentionLimit (rr_recentForwardOrder record @ [sequence])
                            (fmupd sequence req (rr_recentCommittedForwards record))
      in record\<lparr>rr_recentForwardOrder := order, rr_recentCommittedForwards := kept\<rparr>)"

definition reduceRecordCommittedCommit :: "replica_record \<Rightarrow> commit_request \<Rightarrow> int \<Rightarrow> replica_record" where
  "reduceRecordCommittedCommit record req retentionLimit =
     (let (order, kept) = evict retentionLimit (rr_recentCommitOrder record @ [cr_Sequence req])
                            (fmupd (cr_Sequence req) req (rr_recentCommittedCommits record))
      in record\<lparr>rr_recentCommitOrder := order, rr_recentCommittedCommits := kept\<rparr>)"

definition reduceApplyCommittedSequence ::
  "replica_record \<Rightarrow> write_operation \<Rightarrow> u64 \<Rightarrow> int \<Rightarrow> replica_record" where
  "reduceApplyCommittedSequence record operation sequence retentionLimit =
     (let r1 = record\<lparr>rr_highestCommittedSequence := sequence, rr_localDataPresent := True\<rparr>;
          r2 = (if rr_state r1 \<noteq> ReplicaStateRecovered_s then r1\<lparr>rr_lastKnownState := rr_state r1\<rparr> else r1);
          r3 = (case fmlookup (rr_stagedForwards r2) sequence of
                  None \<Rightarrow> r2
                | Some staged \<Rightarrow> reduceRecordCommittedForward
                    (r2\<lparr>rr_stagedForwards := fmdrop sequence (rr_stagedForwards r2)\<rparr>) staged retentionLimit);
          r4 = r3\<lparr>rr_expectedCommitSources := fmdrop sequence (rr_expectedCommitSources r3),
                  rr_pendingWrites := fmdrop sequence (rr_pendingWrites r3)\<rparr>
      in reduceRemoveDirtyEntry r4 (wo_Key operation) sequence)"

definition reduceRecordCommitApplied :: "replica_record \<Rightarrow> commit_request \<Rightarrow> int \<Rightarrow> replica_record" where
  "reduceRecordCommitApplied record req retentionLimit =
     (let r1 = reduceRecordCommittedCommit
                 (record\<lparr>rr_bufferedCommits := fmdrop (cr_Sequence req) (rr_bufferedCommits record)\<rparr>) req retentionLimit
      in case fmlookup (rr_pendingWrites r1) (cr_Sequence req) of
           None \<Rightarrow> r1
         | Some pending \<Rightarrow> r1\<lparr>rr_pendingWrites :=
             fmupd (cr_Sequence req) (pending\<lparr>pw_completed := True\<rparr>) (rr_pendingWrites r1)\<rparr>)"

section \<open>The committed overlay\<close>

text \<open>
  Operations that are committed but not yet written to the backend live in an overlay that
  shadows the backend's objects.
\<close>

definition recordWithCommittedOverlay :: "replica_record \<Rightarrow> write_operation \<Rightarrow> replica_record" where
  "recordWithCommittedOverlay record operation =
     record\<lparr>rr_committedOverlay := fmupd (wo_Key operation)
       \<lparr>de_Sequence = wo_Sequence operation, de_Operation = operation\<rparr> (rr_committedOverlay record)\<rparr>"

definition recordPruneMaterializedOverlay :: "replica_record \<Rightarrow> u64 \<Rightarrow> replica_record" where
  "recordPruneMaterializedOverlay record highestMaterialized =
     (let m1 = (if rr_materializedCommittedSequence record < highestMaterialized then highestMaterialized
                else rr_materializedCommittedSequence record)
      in record\<lparr>
           rr_preparedEntries := fmfilter (\<lambda>s. highestMaterialized < s) (rr_preparedEntries record),
           rr_committedOverlay := fmfilter (\<lambda>k. highestMaterialized <
              de_Sequence (the (fmlookup (rr_committedOverlay record) k))) (rr_committedOverlay record),
           rr_materializedCommittedSequence :=
             (if rr_highestCommittedSequence record < m1 then rr_highestCommittedSequence record else m1)\<rparr>)"

text \<open>\<open>None\<close>: the overlay says nothing of the key; \<open>Some None\<close>: the key is deleted.\<close>

definition recordCommittedOverlayObject :: "replica_record \<Rightarrow> string \<Rightarrow> committed_object option option" where
  "recordCommittedOverlayObject record key =
     (case fmlookup (rr_committedOverlay record) key of
        None \<Rightarrow> None
      | Some entry \<Rightarrow> (case wo_Kind (de_Operation entry) of
          OperationKindPut \<Rightarrow> Some (Some \<lparr>co_Value = wo_Value (de_Operation entry),
             co_Metadata = wo_Metadata (de_Operation entry)\<rparr>)
        | OperationKindDelete \<Rightarrow> Some None
        | OperationKindOther _ \<Rightarrow> None))"

text \<open>The loop over the overlay touches each key once, so its order does not matter.\<close>

definition recordMergedCommittedSnapshot :: "replica_record \<Rightarrow> snapshot \<Rightarrow> snapshot" where
  "recordMergedCommittedSnapshot record base =
     fold (\<lambda>key merged. case recordCommittedOverlayObject record key of
             None \<Rightarrow> merged
           | Some None \<Rightarrow> fmdrop key merged
           | Some (Some object) \<Rightarrow> fmupd key object merged)
       (sorted_list_of_fset (fmdom (rr_committedOverlay record))) base"

definition has_no_upstream :: "replica_record \<Rightarrow> bool" where
  "has_no_upstream record = (ra_Role (rr_assignment record) = ReplicaRoleHead \<or>
     ra_Role (rr_assignment record) = ReplicaRoleSingle \<or> PredecessorNodeID (rr_peers record) = [])"

definition normalizeUpstreamConfirmedSequence :: "replica_record \<Rightarrow> u64" where
  "normalizeUpstreamConfirmedSequence record =
     (if has_no_upstream record then rr_highestCommittedSequence record
      else if rr_highestCommittedSequence record < rr_highestUpstreamConfirmedSequence record
      then rr_highestCommittedSequence record
      else rr_highestUpstreamConfirmedSequence record)"

definition upstreamConfirmedSequenceForLocalCommit :: "replica_record \<Rightarrow> u64 \<Rightarrow> u64" where
  "upstreamConfirmedSequenceForLocalCommit record sequence =
     (if has_no_upstream record then sequence
      else let confirmed = normalizeUpstreamConfirmedSequence record
           in if sequence < confirmed then sequence else confirmed)"

definition persistedReplica :: "replica_record \<Rightarrow> persisted_replica" where
  "persistedReplica record = \<lparr>pr_Assignment = rr_assignment record, pr_LastKnownState = rr_lastKnownState record,
     pr_HighestCommittedSequence = rr_highestCommittedSequence record,
     pr_HighestUpstreamConfirmedSequence = normalizeUpstreamConfirmedSequence record,
     pr_HasCommittedData = rr_localDataPresent record\<rparr>"

definition dirtyKeyCount :: "replica_record \<Rightarrow> int" where
  "dirtyKeyCount record = fm_size (rr_dirtyByKey record)"

end
