(* ===== verification/Slot_Log.thy ===== *)
theory Slot_Log
  imports Slot_Reducer
begin

text \<open>
  The meaning of the slot record: a replica follows a history.  The history of a slot is
  the list of all operations its head has numbered; operation number \<open>s\<close> is at position
  \<open>s - 1\<close>.  A record follows a history when its cursors lie inside it, when its prepared,
  staged and buffered operations are the history's operations of those numbers, and when
  its dirty entries are exactly the operations between the commit cursor and the next
  sequence.  Every reducer keeps this.
\<close>

section \<open>Histories\<close>

definition hist_ok :: "write_operation list \<Rightarrow> bool" where
  "hist_ok H \<longleftrightarrow> length H + 1 < 2 ^ 64 \<and>
     (\<forall>i < length H. unat (wo_Sequence (H ! i)) = i + 1 \<and> supported (H ! i))"

definition hist_op :: "write_operation list \<Rightarrow> u64 \<Rightarrow> write_operation option" where
  "hist_op H s = (if 0 < unat s \<and> unat s \<le> length H then Some (H ! (unat s - 1)) else None)"

definition dirty_of :: "write_operation list \<Rightarrow> string \<Rightarrow> dirty_entry list" where
  "dirty_of ops k = map (\<lambda>op. \<lparr>de_Sequence = wo_Sequence op, de_Operation = op\<rparr>)
     (filter (\<lambda>op. wo_Key op = k) ops)"

text \<open>The operations a replica holds beyond its commit cursor.\<close>

definition window :: "write_operation list \<Rightarrow> replica_record \<Rightarrow> write_operation list" where
  "window H r = drop (unat (rr_highestCommittedSequence r)) (take (unat (rr_nextSequence r) - 1) H)"

definition follows :: "write_operation list \<Rightarrow> replica_record \<Rightarrow> bool" where
  "follows H r \<longleftrightarrow> hist_ok H \<and>
     0 < unat (rr_nextSequence r) \<and> unat (rr_nextSequence r) \<le> length H + 1 \<and>
     unat (rr_highestCommittedSequence r) \<le> unat (rr_highestPreparedDurable r) \<and>
     unat (rr_highestPreparedDurable r) < unat (rr_nextSequence r) \<and>
     (\<forall>s. unat (rr_highestCommittedSequence r) < unat s \<longrightarrow> unat s < unat (rr_nextSequence r) \<longrightarrow>
        fmlookup (rr_preparedEntries r) s = hist_op H s) \<and>
     (\<forall>s op. fmlookup (rr_preparedEntries r) s = Some op \<longrightarrow>
        unat s < unat (rr_nextSequence r) \<and> hist_op H s = Some op) \<and>
     (\<forall>s req. fmlookup (rr_stagedForwards r) s = Some req \<longrightarrow>
        unat (rr_highestCommittedSequence r) < unat s \<and> unat s < unat (rr_nextSequence r) \<and>
        hist_op H s = Some (fr_Operation req)) \<and>
     (\<forall>s req. fmlookup (rr_bufferedForwards r) s = Some req \<longrightarrow> hist_op H s = Some (fr_Operation req)) \<and>
     (\<forall>k. fm_get [] (rr_dirtyByKey r) k = dirty_of (window H r) k)"

lemma followsD:
  assumes "follows H r"
  shows "hist_ok H"
    and "0 < unat (rr_nextSequence r)"
    and "unat (rr_nextSequence r) \<le> length H + 1"
    and "unat (rr_highestCommittedSequence r) \<le> unat (rr_highestPreparedDurable r)"
    and "unat (rr_highestPreparedDurable r) < unat (rr_nextSequence r)"
    and "unat (rr_highestCommittedSequence r) < unat s \<Longrightarrow> unat s < unat (rr_nextSequence r) \<Longrightarrow>
        fmlookup (rr_preparedEntries r) s = hist_op H s"
    and "fmlookup (rr_preparedEntries r) s = Some op \<Longrightarrow>
        unat s < unat (rr_nextSequence r) \<and> hist_op H s = Some op"
    and "fmlookup (rr_stagedForwards r) s = Some req \<Longrightarrow>
        unat (rr_highestCommittedSequence r) < unat s \<and> unat s < unat (rr_nextSequence r) \<and>
        hist_op H s = Some (fr_Operation req)"
    and "fmlookup (rr_bufferedForwards r) s = Some req \<Longrightarrow> hist_op H s = Some (fr_Operation req)"
    and "fm_get [] (rr_dirtyByKey r) k = dirty_of (window H r) k"
  using assms unfolding follows_def by blast+

lemma followsI:
  assumes "hist_ok H"
    and "0 < unat (rr_nextSequence r)"
    and "unat (rr_nextSequence r) \<le> length H + 1"
    and "unat (rr_highestCommittedSequence r) \<le> unat (rr_highestPreparedDurable r)"
    and "unat (rr_highestPreparedDurable r) < unat (rr_nextSequence r)"
    and "\<And>s. unat (rr_highestCommittedSequence r) < unat s \<Longrightarrow> unat s < unat (rr_nextSequence r) \<Longrightarrow>
        fmlookup (rr_preparedEntries r) s = hist_op H s"
    and "\<And>s op. fmlookup (rr_preparedEntries r) s = Some op \<Longrightarrow>
        unat s < unat (rr_nextSequence r) \<and> hist_op H s = Some op"
    and "\<And>s req. fmlookup (rr_stagedForwards r) s = Some req \<Longrightarrow>
        unat (rr_highestCommittedSequence r) < unat s \<and> unat s < unat (rr_nextSequence r) \<and>
        hist_op H s = Some (fr_Operation req)"
    and "\<And>s req. fmlookup (rr_bufferedForwards r) s = Some req \<Longrightarrow> hist_op H s = Some (fr_Operation req)"
    and "\<And>k. fm_get [] (rr_dirtyByKey r) k = dirty_of (window H r) k"
  shows "follows H r"
  using assms unfolding follows_def by blast

lemma hist_op_seq: "hist_ok H \<Longrightarrow> hist_op H s = Some op \<Longrightarrow> wo_Sequence op = s \<and> supported op"
  by (auto simp: hist_ok_def hist_op_def word_unat_eq_iff split: if_splits)

lemma unat_suc: "unat (s :: u64) + 1 < 2 ^ 64 \<Longrightarrow> unat (s + 1) = unat s + 1"
  by (simp add: unat_word_ariths)

lemma hist_op_append: "hist_op H s = Some op \<Longrightarrow> hist_op (H @ G) s = Some op"
  by (auto simp: hist_op_def nth_append split: if_splits)

lemma dirty_of_append: "dirty_of (xs @ ys) k = dirty_of xs k @ dirty_of ys k"
  by (simp add: dirty_of_def)

text \<open>The sequences of a stretch of a history increase strictly.\<close>

lemma hist_sorted:
  assumes "hist_ok H"
  shows "sorted_wrt (<) (map wo_Sequence H)"
  using assms by (auto simp: sorted_wrt_iff_nth_less hist_ok_def word_less_nat_alt)

lemma sorted_wrt_sub: "sorted_wrt (<) xs \<Longrightarrow> sorted_wrt (<) (drop a (take b xs))"
  by (simp add: sorted_wrt_drop sorted_wrt_take)

lemma window_sorted:
  "hist_ok H \<Longrightarrow> sorted_wrt (<) (map wo_Sequence (drop a (take b H)))"
  using sorted_wrt_sub[OF hist_sorted, of H a b] by (simp add: drop_map take_map)

lemma dirty_of_sorted:
  assumes "sorted_wrt (<) (map wo_Sequence ops)"
  shows "sorted_wrt (<) (map de_Sequence (dirty_of ops k))"
proof -
  have "map de_Sequence (dirty_of ops k) = map wo_Sequence (filter (\<lambda>op. wo_Key op = k) ops)"
    by (simp add: dirty_of_def comp_def)
  moreover have "sorted_wrt (\<lambda>x y. wo_Sequence x < wo_Sequence y) (filter (\<lambda>op. wo_Key op = k) ops)"
    using assms by (intro sorted_wrt_filter) (simp add: sorted_wrt_map)
  ultimately show ?thesis by (simp add: sorted_wrt_map)
qed

section \<open>Reducers keep following\<close>

lemma follows_mono:
  assumes f: "follows H r" and H: "hist_ok (H @ G)"
  shows "follows (H @ G) r"
proof -
  note D = followsD[OF f]
  have w: "window (H @ G) r = window H r" using D(3) by (auto simp: window_def)
  have op: "hist_op (H @ G) s = hist_op H s" if "unat s < unat (rr_nextSequence r)" for s
    using D(3) that by (auto simp: hist_op_def nth_append)
  show ?thesis
  proof (rule followsI)
    show "fmlookup (rr_preparedEntries r) s = hist_op (H @ G) s"
      if "unat (rr_highestCommittedSequence r) < unat s" "unat s < unat (rr_nextSequence r)" for s
      using D(6)[OF that] op[OF that(2)] by simp
    show "unat s < unat (rr_nextSequence r) \<and> hist_op (H @ G) s = Some op'"
      if "fmlookup (rr_preparedEntries r) s = Some op'" for s op'
      using D(7)[OF that] op[of s] by simp
    show "unat (rr_highestCommittedSequence r) < unat s \<and> unat s < unat (rr_nextSequence r) \<and>
        hist_op (H @ G) s = Some (fr_Operation req)" if "fmlookup (rr_stagedForwards r) s = Some req" for s req
      using D(8)[OF that] op[of s] by simp
    show "hist_op (H @ G) s = Some (fr_Operation req)" if "fmlookup (rr_bufferedForwards r) s = Some req" for s req
      using hist_op_append[OF D(9)[OF that]] .
    show "fm_get [] (rr_dirtyByKey r) k = dirty_of (window (H @ G) r) k" for k using D(10) w by simp
  qed (use H D(2-5) in simp_all)
qed

text \<open>Adding the operation at the next sequence to the dirty entries.\<close>

lemma add_dirty:
  assumes d: "\<forall>k. fm_get [] (rr_dirtyByKey r) k = dirty_of ops k"
    and s: "sorted_wrt (<) (map wo_Sequence (ops @ [op]))"
  shows "fm_get [] (rr_dirtyByKey (reduceAddDirtyEntry r op)) k = dirty_of (ops @ [op]) k"
proof -
  have less: "\<forall>o' \<in> set ops. wo_Sequence o' < wo_Sequence op" using s by (simp add: sorted_wrt_append)
  have fresh: "\<not> list_ex (\<lambda>e. de_Sequence e = wo_Sequence op) (dirty_of ops (wo_Key op))"
    using less by (auto simp: list_ex_iff dirty_of_def)
  have "sorted (map de_Sequence (dirty_of (ops @ [op]) (wo_Key op)))"
    using strict_sorted_imp_sorted[OF dirty_of_sorted[OF s]] .
  then have "sort_key de_Sequence (dirty_of (ops @ [op]) (wo_Key op)) = dirty_of (ops @ [op]) (wo_Key op)"
    by (rule sort_key_id_if_sorted)
  then have e: "sort_key de_Sequence (dirty_of ops (wo_Key op) @
      [\<lparr>de_Sequence = wo_Sequence op, de_Operation = op\<rparr>]) = dirty_of (ops @ [op]) (wo_Key op)"
    by (simp add: dirty_of_def)
  show ?thesis
  proof (cases "k = wo_Key op")
    case True
    then show ?thesis using d fresh e by (simp add: reduceAddDirtyEntry_def Let_def)
  next
    case False
    then show ?thesis using d by (simp add: reduceAddDirtyEntry_def Let_def dirty_of_def)
  qed
qed

lemma reduceAddDirtyEntry_fields [simp]:
  "rr_nextSequence (reduceAddDirtyEntry r op) = rr_nextSequence r"
  "rr_highestCommittedSequence (reduceAddDirtyEntry r op) = rr_highestCommittedSequence r"
  "rr_highestPreparedDurable (reduceAddDirtyEntry r op) = rr_highestPreparedDurable r"
  "rr_highestCommitTokenReceived (reduceAddDirtyEntry r op) = rr_highestCommitTokenReceived r"
  "rr_preparedEntries (reduceAddDirtyEntry r op) = rr_preparedEntries r"
  "rr_stagedForwards (reduceAddDirtyEntry r op) = rr_stagedForwards r"
  "rr_bufferedForwards (reduceAddDirtyEntry r op) = rr_bufferedForwards r"
  "rr_bufferedCommits (reduceAddDirtyEntry r op) = rr_bufferedCommits r"
  "rr_assignment (reduceAddDirtyEntry r op) = rr_assignment r"
  "rr_state (reduceAddDirtyEntry r op) = rr_state r"
  "rr_committedOverlay (reduceAddDirtyEntry r op) = rr_committedOverlay r"
  "rr_pendingWrites (reduceAddDirtyEntry r op) = rr_pendingWrites r"
  by (simp_all add: reduceAddDirtyEntry_def Let_def)

text \<open>
  One more operation at the next sequence: the shared core of submitting and of staging a
  forward.  \<open>r'\<close> is the record afterwards.
\<close>

lemma follows_extend:
  assumes f: "follows H r" and op: "hist_op H (rr_nextSequence r) = Some op"
    and n: "rr_nextSequence r' = rr_nextSequence r + 1"
    and same: "rr_highestCommittedSequence r' = rr_highestCommittedSequence r"
      "rr_highestPreparedDurable r' = rr_highestPreparedDurable r"
      "rr_preparedEntries r' = fmupd (rr_nextSequence r) op (rr_preparedEntries r)"
      "rr_dirtyByKey r' = rr_dirtyByKey (reduceAddDirtyEntry r op)"
    and staged: "\<And>s req. fmlookup (rr_stagedForwards r') s = Some req \<Longrightarrow>
      fmlookup (rr_stagedForwards r) s = Some req \<or> s = rr_nextSequence r \<and> fr_Operation req = op"
    and buffered: "\<And>s req. fmlookup (rr_bufferedForwards r') s = Some req \<Longrightarrow>
      fmlookup (rr_bufferedForwards r) s = Some req"
  shows "follows H r'"
proof -
  let ?n = "unat (rr_nextSequence r)" and ?c = "unat (rr_highestCommittedSequence r)"
  have H: "hist_ok H" and n0: "0 < ?n" "?n \<le> length H" and c: "?c < ?n"
    using followsD(1-5)[OF f] op by (auto simp: hist_op_def split: if_splits)
  then have n1: "unat (rr_nextSequence r') = ?n + 1" unfolding n by (intro unat_suc) (auto simp: hist_ok_def)
  have opn: "op = H ! (?n - 1)" using op n0 by (simp add: hist_op_def)
  have w: "window H r' = window H r @ [op]"
  proof -
    have "take ?n H = take (?n - 1) H @ [op]"
      using n0 opn take_Suc_conv_app_nth[of "?n - 1" H] by (cases ?n) auto
    moreover have "?c \<le> ?n - 1" using c by simp
    ultimately show ?thesis using n0 by (simp add: window_def n1 same)
  qed
  have d: "fm_get [] (rr_dirtyByKey r') k = dirty_of (window H r') k" for k
    unfolding same w
  proof (rule add_dirty)
    show "\<forall>k. fm_get [] (rr_dirtyByKey r) k = dirty_of (window H r) k" using f by (simp add: follows_def)
    show "sorted_wrt (<) (map wo_Sequence (window H r @ [op]))"
      using window_sorted[OF H, of ?c ?n] w unfolding window_def n1 same by simp
  qed
  note D = followsD[OF f]
  show ?thesis
  proof (rule followsI)
    fix s :: u64 assume s: "unat (rr_highestCommittedSequence r') < unat s" "unat s < unat (rr_nextSequence r')"
    show "fmlookup (rr_preparedEntries r') s = hist_op H s"
    proof (cases "s = rr_nextSequence r")
      case True
      then show ?thesis using op by (simp add: same)
    next
      case False
      then have "unat s < ?n" using s n1 by (auto simp: word_unat_eq_iff)
      with D(6)[of s] s False show ?thesis by (simp add: same)
    qed
  next
    fix s op' assume a: "fmlookup (rr_preparedEntries r') s = Some op'"
    show "unat s < unat (rr_nextSequence r') \<and> hist_op H s = Some op'"
    proof (cases "s = rr_nextSequence r")
      case True
      then show ?thesis using op a n1 by (simp add: same)
    next
      case False
      then show ?thesis using D(7)[of s op'] a n1 by (simp add: same)
    qed
  next
    fix s req assume "fmlookup (rr_stagedForwards r') s = Some req"
    from staged[OF this]
    show "unat (rr_highestCommittedSequence r') < unat s \<and> unat s < unat (rr_nextSequence r') \<and>
      hist_op H s = Some (fr_Operation req)"
      using D(8)[of s req] op n1 c by (auto simp: same)
  next
    fix s req assume "fmlookup (rr_bufferedForwards r') s = Some req"
    from D(9)[OF buffered[OF this]] show "hist_op H s = Some (fr_Operation req)" .
  next
    show "fm_get [] (rr_dirtyByKey r') k = dirty_of (window H r') k" for k by (rule d)
  qed (use H n0 n1 D(2-5) in \<open>simp_all add: same\<close>)
qed

lemma reduceStageForward_follows:
  assumes "follows H r" and "wo_Sequence (fr_Operation req) = rr_nextSequence r"
    and "hist_op H (rr_nextSequence r) = Some (fr_Operation req)"
  shows "follows H (reduceStageForward r req)"
proof -
  have fresh: "fmlookup (rr_stagedForwards r) (rr_nextSequence r) = None"
    using assms(1) by (cases "fmlookup (rr_stagedForwards r) (rr_nextSequence r)") (auto simp: follows_def)
  show ?thesis
    by (rule follows_extend[OF assms(1,3)])
      (use assms(2) fresh in \<open>auto simp: reduceStageForward_def Let_def fm_has_def reduceAddDirtyEntry_def split: if_splits\<close>)
qed

lemma reduceSubmitWrite_follows:
  assumes "follows H r" and "wo_Sequence op = rr_nextSequence r" and "unat (rr_nextSequence r) = length H + 1"
    and "supported op" and "length H + 2 < 2 ^ 64"
  shows "follows (H @ [op]) (fst (reduceSubmitWrite r op))"
proof -
  have H: "hist_ok (H @ [op])"
    using assms by (auto simp: hist_ok_def follows_def nth_append less_Suc_eq)
  have op: "hist_op (H @ [op]) (rr_nextSequence r) = Some op" using assms(3) by (simp add: hist_op_def nth_append)
  show ?thesis
    by (rule follows_extend[OF follows_mono[OF assms(1) H] op])
      (use assms(2) in \<open>auto simp: reduceSubmitWrite_def Let_def reduceAddDirtyEntry_def\<close>)
qed

lemma reduceBufferFutureForward_cases:
  assumes "reduceBufferFutureForward r req limits = Inr r'"
  obtains (kept) "fmlookup (rr_bufferedForwards r) (wo_Sequence (fr_Operation req)) = Some req" "r' = r"
    | (added) "fmlookup (rr_bufferedForwards r) (wo_Sequence (fr_Operation req)) = None"
        "r' = r\<lparr>rr_bufferedForwards := fmupd (wo_Sequence (fr_Operation req)) req (rr_bufferedForwards r)\<rparr>"
proof (cases "fmlookup (rr_bufferedForwards r) (wo_Sequence (fr_Operation req))")
  case None
  then have "r\<lparr>rr_bufferedForwards := fmupd (wo_Sequence (fr_Operation req)) req (rr_bufferedForwards r)\<rparr> = r'"
    using assms by (simp add: reduceBufferFutureForward_def Let_def split: option.splits)
  then show thesis using added None by simp
next
  case (Some e)
  have eq: "(if sameForwardRequest e req then Inr r else Inl ErrProtocolConflict) = Inr r'"
    using assms unfolding reduceBufferFutureForward_def Let_def Some by simp
  show thesis
  proof (cases "sameForwardRequest e req")
    case True
    with eq have "r' = r" by simp
    with True Some show thesis by (intro kept) (simp_all add: sameForwardRequest_eq)
  next
    case False
    with eq show thesis by simp
  qed
qed

lemma reduceForwardWrite_cases:
  assumes "reduceForwardWrite r req limits = Inr (r', action)"
  obtains (past) "wo_Sequence (fr_Operation req) < rr_nextSequence r" "r' = r" "action = slotReducerActionIgnore"
      "reduceHandlePastForward r req = None"
    | (future) "rr_nextSequence r < wo_Sequence (fr_Operation req)" "action = slotReducerActionBuffer"
      "reduceBufferFutureForward r req limits = Inr r'"
    | (staged) "wo_Sequence (fr_Operation req) = rr_nextSequence r" "r' = reduceStageForward r req"
      "action = slotReducerActionApply"
  using assms
  by (auto simp: reduceForwardWrite_def Let_def res_bind_Inr split: option.splits if_splits)

text \<open>Receiving a forward: whatever the reducer decides, the record keeps following.\<close>

lemma reduceForwardWrite_follows:
  assumes f: "follows H r" and op: "hist_op H (wo_Sequence (fr_Operation req)) = Some (fr_Operation req)"
    and red: "reduceForwardWrite r req limits = Inr (r', action)"
  shows "follows H r'"
  using red
proof (cases rule: reduceForwardWrite_cases)
  case past
  with f show ?thesis by simp
next
  case staged
  with reduceStageForward_follows[OF f] op show ?thesis by simp
next
  case future
  from future(3) show ?thesis
  proof (cases rule: reduceBufferFutureForward_cases)
    case added
    note D = followsD[OF f]
    show ?thesis
    proof (rule followsI)
        show "hist_op H s = Some (fr_Operation q)" if "fmlookup (rr_bufferedForwards r') s = Some q" for s q
          using that added(2) op D(9)[of s q] by (auto split: if_splits)
        show "fm_get [] (rr_dirtyByKey r') k = dirty_of (window H r') k" for k
          using D(10)[of k] added(2) by (simp add: window_def)
        show "fmlookup (rr_preparedEntries r') s = hist_op H s"
          if "unat (rr_highestCommittedSequence r') < unat s" "unat s < unat (rr_nextSequence r')" for s
          using D(6)[of s] that added(2) by simp
        show "unat s < unat (rr_nextSequence r') \<and> hist_op H s = Some o'"
          if "fmlookup (rr_preparedEntries r') s = Some o'" for s o' using D(7)[of s o'] that added(2) by simp
        show "unat (rr_highestCommittedSequence r') < unat s \<and> unat s < unat (rr_nextSequence r') \<and>
          hist_op H s = Some (fr_Operation q)" if "fmlookup (rr_stagedForwards r') s = Some q" for s q
          using D(8)[of s q] that added(2) by simp
    qed (use D(1-5) added(2) in simp_all)
  qed (use f in simp)
qed

section \<open>Committing the next operation\<close>

lemma reduceRemoveDirtyEntry_fields [simp]:
  "rr_nextSequence (reduceRemoveDirtyEntry r k s) = rr_nextSequence r"
  "rr_highestCommittedSequence (reduceRemoveDirtyEntry r k s) = rr_highestCommittedSequence r"
  "rr_highestPreparedDurable (reduceRemoveDirtyEntry r k s) = rr_highestPreparedDurable r"
  "rr_highestCommitTokenReceived (reduceRemoveDirtyEntry r k s) = rr_highestCommitTokenReceived r"
  "rr_materializedCommittedSequence (reduceRemoveDirtyEntry r k s) = rr_materializedCommittedSequence r"
  "rr_highestUpstreamConfirmedSequence (reduceRemoveDirtyEntry r k s) = rr_highestUpstreamConfirmedSequence r"
  "rr_preparedEntries (reduceRemoveDirtyEntry r k s) = rr_preparedEntries r"
  "rr_stagedForwards (reduceRemoveDirtyEntry r k s) = rr_stagedForwards r"
  "rr_bufferedForwards (reduceRemoveDirtyEntry r k s) = rr_bufferedForwards r"
  "rr_bufferedCommits (reduceRemoveDirtyEntry r k s) = rr_bufferedCommits r"
  "rr_assignment (reduceRemoveDirtyEntry r k s) = rr_assignment r"
  "rr_state (reduceRemoveDirtyEntry r k s) = rr_state r"
  "rr_committedOverlay (reduceRemoveDirtyEntry r k s) = rr_committedOverlay r"
  "rr_pendingWrites (reduceRemoveDirtyEntry r k s) = rr_pendingWrites r"
  by (simp_all add: reduceRemoveDirtyEntry_def Let_def split: option.splits)

lemma reduceRemoveDirtyEntry_get:
  "fm_get [] (rr_dirtyByKey (reduceRemoveDirtyEntry r k s)) k' =
     (if k' = k then filter (\<lambda>e. de_Sequence e \<noteq> s) (fm_get [] (rr_dirtyByKey r) k)
      else fm_get [] (rr_dirtyByKey r) k')"
  by (auto simp: reduceRemoveDirtyEntry_def Let_def fm_get_def split: option.splits)

lemma reduceApplyCommittedSequence_fields [simp]:
  "rr_nextSequence (reduceApplyCommittedSequence r op s l) = rr_nextSequence r"
  "rr_highestCommittedSequence (reduceApplyCommittedSequence r op s l) = s"
  "rr_highestPreparedDurable (reduceApplyCommittedSequence r op s l) = rr_highestPreparedDurable r"
  "rr_highestCommitTokenReceived (reduceApplyCommittedSequence r op s l) = rr_highestCommitTokenReceived r"
  "rr_materializedCommittedSequence (reduceApplyCommittedSequence r op s l) = rr_materializedCommittedSequence r"
  "rr_highestUpstreamConfirmedSequence (reduceApplyCommittedSequence r op s l) = rr_highestUpstreamConfirmedSequence r"
  "rr_preparedEntries (reduceApplyCommittedSequence r op s l) = rr_preparedEntries r"
  "rr_stagedForwards (reduceApplyCommittedSequence r op s l) = fmdrop s (rr_stagedForwards r)"
  "rr_bufferedForwards (reduceApplyCommittedSequence r op s l) = rr_bufferedForwards r"
  "rr_bufferedCommits (reduceApplyCommittedSequence r op s l) = rr_bufferedCommits r"
  "rr_assignment (reduceApplyCommittedSequence r op s l) = rr_assignment r"
  "rr_state (reduceApplyCommittedSequence r op s l) = rr_state r"
  "rr_committedOverlay (reduceApplyCommittedSequence r op s l) = rr_committedOverlay r"
  by (auto simp: reduceApplyCommittedSequence_def Let_def reduceRecordCommittedForward_def fmdrop_absent
      split: option.splits prod.splits)

lemma reduceApplyCommittedSequence_dirty:
  "fm_get [] (rr_dirtyByKey (reduceApplyCommittedSequence r op s l)) k =
     (if k = wo_Key op then filter (\<lambda>e. de_Sequence e \<noteq> s) (fm_get [] (rr_dirtyByKey r) k)
      else fm_get [] (rr_dirtyByKey r) k)"
  by (auto simp: reduceApplyCommittedSequence_def Let_def reduceRecordCommittedForward_def
      reduceRemoveDirtyEntry_get split: option.splits prod.splits)

lemma dirty_of_drop_first:
  assumes "sorted_wrt (<) (map wo_Sequence (op # ops))"
  shows "dirty_of ops k = (if k = wo_Key op then filter (\<lambda>e. de_Sequence e \<noteq> wo_Sequence op) (dirty_of (op # ops) k)
    else dirty_of (op # ops) k)"
proof -
  have "\<forall>o' \<in> set ops. wo_Sequence o' \<noteq> wo_Sequence op" using assms by auto
  then have "filter (\<lambda>e. de_Sequence e \<noteq> wo_Sequence op) (dirty_of ops k) = dirty_of ops k" for k
    by (auto simp: dirty_of_def filter_id_conv)
  then show ?thesis by (simp add: dirty_of_def)
qed

lemma reduceApplyCommittedSequence_follows:
  assumes f: "follows H r" and s: "s = rr_highestCommittedSequence r + 1"
    and p: "s \<le> rr_highestPreparedDurable r" and op: "fmlookup (rr_preparedEntries r) s = Some op"
  shows "follows H (reduceApplyCommittedSequence r op s l)"
    and "unat s = unat (rr_highestCommittedSequence r) + 1" and "hist_op H s = Some op"
proof -
  let ?c = "unat (rr_highestCommittedSequence r)" and ?r = "reduceApplyCommittedSequence r op s l"
  note D = followsD[OF f]
  from D(3-5) have "?c + 1 < 2 ^ 64" using D(1) by (auto simp: hist_ok_def)
  then show us: "unat s = ?c + 1" unfolding s by (rule unat_suc)
  show ho: "hist_op H s = Some op" using D(7)[OF op] by simp
  have sn: "unat s < unat (rr_nextSequence r)" using D(7)[OF op] by simp
  have opn: "op = H ! ?c" "?c < length H" using ho us by (auto simp: hist_op_def split: if_splits)
  have w: "window H r = op # window H ?r"
  proof -
    have "?c < length (take (unat (rr_nextSequence r) - 1) H)" using sn us opn by simp
    from Cons_nth_drop_Suc[OF this, symmetric] show ?thesis
      using sn us opn by (simp add: window_def)
  qed
  have sorted: "sorted_wrt (<) (map wo_Sequence (op # window H ?r))"
    unfolding w[symmetric] by (simp only: window_def window_sorted[OF D(1)])
  have sq: "wo_Sequence op = s" using hist_op_seq[OF D(1) ho] by simp
  show "follows H ?r"
  proof (rule followsI)
    show "fm_get [] (rr_dirtyByKey ?r) k = dirty_of (window H ?r) k" for k
      using dirty_of_drop_first[OF sorted, of k] D(10)[of k] sq w
      by (cases "k = wo_Key op") (auto simp: reduceApplyCommittedSequence_dirty)
    show "fmlookup (rr_preparedEntries ?r) q = hist_op H q"
      if "unat (rr_highestCommittedSequence ?r) < unat q" "unat q < unat (rr_nextSequence ?r)" for q
      using D(6)[of q] that us by simp
    show "unat q < unat (rr_nextSequence ?r) \<and> hist_op H q = Some o'"
      if "fmlookup (rr_preparedEntries ?r) q = Some o'" for q o' using D(7)[of q o'] that by simp
    show "unat (rr_highestCommittedSequence ?r) < unat q \<and> unat q < unat (rr_nextSequence ?r) \<and>
        hist_op H q = Some (fr_Operation req)" if "fmlookup (rr_stagedForwards ?r) q = Some req" for q req
    proof -
      from that have q: "q \<noteq> s" "fmlookup (rr_stagedForwards r) q = Some req" by (auto split: if_splits)
      then have "unat q \<noteq> unat s" by (simp add: word_unat_eq_iff)
      with D(8)[OF q(2)] us show ?thesis by simp
    qed
    show "hist_op H q = Some (fr_Operation req)" if "fmlookup (rr_bufferedForwards ?r) q = Some req" for q req
      using D(9)[of q req] that by simp
  qed (use D(1-5) p sn in \<open>simp_all add: word_le_nat_alt\<close>)
qed

section \<open>Fields that do not matter, the start, and the prepared cursor\<close>

lemma follows_cong:
  assumes "rr_nextSequence r' = rr_nextSequence r"
    and "rr_highestCommittedSequence r' = rr_highestCommittedSequence r"
    and "rr_highestPreparedDurable r' = rr_highestPreparedDurable r"
    and "rr_preparedEntries r' = rr_preparedEntries r" and "rr_stagedForwards r' = rr_stagedForwards r"
    and "rr_bufferedForwards r' = rr_bufferedForwards r" and "rr_dirtyByKey r' = rr_dirtyByKey r"
  shows "follows H r' \<longleftrightarrow> follows H r"
  by (simp add: follows_def window_def assms)

lemma follows_fresh:
  assumes "hist_ok H" and "rr_nextSequence r = 1" and "rr_highestCommittedSequence r = 0"
    and "rr_highestPreparedDurable r = 0" and "rr_preparedEntries r = fmempty"
    and "rr_stagedForwards r = fmempty" and "rr_bufferedForwards r = fmempty" and "rr_dirtyByKey r = fmempty"
  shows "follows H r"
  by (rule followsI) (use assms in \<open>auto simp: window_def dirty_of_def\<close>)

lemma follows_prepared:
  assumes f: "follows H r" and "rr_highestPreparedDurable r \<le> p" and "p < rr_nextSequence r"
  shows "follows H (r\<lparr>rr_highestPreparedDurable := p\<rparr>)"
proof -
  let ?r = "r\<lparr>rr_highestPreparedDurable := p\<rparr>"
  note D = followsD[OF f]
  show ?thesis
  proof (rule followsI)
    show "fm_get [] (rr_dirtyByKey ?r) k = dirty_of (window H ?r) k" for k
      using D(10)[of k] by (simp add: window_def)
    show "fmlookup (rr_preparedEntries ?r) s = hist_op H s"
      if "unat (rr_highestCommittedSequence ?r) < unat s" "unat s < unat (rr_nextSequence ?r)" for s
      using D(6)[of s] that by simp
    show "unat s < unat (rr_nextSequence ?r) \<and> hist_op H s = Some op"
      if "fmlookup (rr_preparedEntries ?r) s = Some op" for s op using D(7)[of s op] that by simp
    show "unat (rr_highestCommittedSequence ?r) < unat s \<and> unat s < unat (rr_nextSequence ?r) \<and>
        hist_op H s = Some (fr_Operation req)" if "fmlookup (rr_stagedForwards ?r) s = Some req" for s req
      using D(8)[of s req] that by simp
    show "hist_op H s = Some (fr_Operation req)" if "fmlookup (rr_bufferedForwards ?r) s = Some req" for s req
      using D(9)[of s req] that by simp
    show "unat (rr_highestCommittedSequence ?r) \<le> unat (rr_highestPreparedDurable ?r)"
      using D(4) assms(2) by (simp add: word_le_nat_alt)
    show "unat (rr_highestPreparedDurable ?r) < unat (rr_nextSequence ?r)"
      using assms(3) by (simp add: word_less_nat_alt)
  qed (use D(1-3) in simp_all)
qed

section \<open>Redelivery, order and bounds\<close>

lemma fm_size_upd: "fm_size (fmupd k v m) = (if fm_has m k then fm_size m else fm_size m + 1)"
  by (auto simp: fm_size_def fm_has_dom finsert_absorb fcard_finsert_disjoint)

lemma fm_size_drop: "fm_size (fmdrop k m) \<le> fm_size m"
  unfolding fm_size_def fmdom_drop by (intro of_nat_mono fcard_mono) blast

lemma reduceStageForward_fields:
  assumes "follows H r" and "wo_Sequence (fr_Operation req) = rr_nextSequence r"
  shows "rr_nextSequence (reduceStageForward r req) = rr_nextSequence r + 1"
    and "rr_stagedForwards (reduceStageForward r req) = fmupd (rr_nextSequence r) req (rr_stagedForwards r)"
    and "rr_assignment (reduceStageForward r req) = rr_assignment r"
proof -
  have "fmlookup (rr_stagedForwards r) (rr_nextSequence r) = None"
    using followsD(8)[OF assms(1), of "rr_nextSequence r"] by (cases "fmlookup (rr_stagedForwards r) (rr_nextSequence r)") auto
  then show "rr_nextSequence (reduceStageForward r req) = rr_nextSequence r + 1"
    "rr_stagedForwards (reduceStageForward r req) = fmupd (rr_nextSequence r) req (rr_stagedForwards r)"
    "rr_assignment (reduceStageForward r req) = rr_assignment r"
    using assms(2) by (simp_all add: reduceStageForward_def Let_def fm_has_def)
qed

text \<open>
  C25. Delivering a forward twice is harmless: after a forwarded write has been taken in, at
  once or into the buffer, the same message again changes nothing; it is ignored or found
  in the buffer, never applied a second time.
\<close>

theorem forward_redelivery_idempotent:
  assumes f: "follows H r" and op: "hist_op H (wo_Sequence (fr_Operation req)) = Some (fr_Operation req)"
    and red: "reduceForwardWrite r req limits = Inr (r', action)"
  shows "\<exists>again. reduceForwardWrite r' req limits' = Inr (r', again) \<and> again \<noteq> slotReducerActionApply"
  using red
proof (cases rule: reduceForwardWrite_cases)
  case past
  then show ?thesis using red by (auto simp: reduceForwardWrite_def Let_def split: option.splits if_splits)
next
  case future
  let ?s = "wo_Sequence (fr_Operation req)"
  from future(3) have b: "fmlookup (rr_bufferedForwards r') ?s = Some req \<and> rr_nextSequence r' = rr_nextSequence r \<and>
    rr_stagedForwards r' = rr_stagedForwards r \<and> rr_assignment r' = rr_assignment r"
    by (cases rule: reduceBufferFutureForward_cases) simp_all
  have st: "fmlookup (rr_stagedForwards r) ?s = None"
    using followsD(8)[OF f, of ?s] future(1) by (cases "fmlookup (rr_stagedForwards r) ?s") (auto simp: word_less_nat_alt)
  have ne: "fr_FromNodeID req \<noteq> []"
    using red by (auto simp: reduceForwardWrite_def validateForwardSource_def Let_def split: option.splits if_splits prod.splits)
  show ?thesis using b st ne future(1)
    by (auto simp: reduceForwardWrite_def validateForwardSource_def reduceBufferFutureForward_def Let_def
        sameForwardRequest_eq)
next
  case staged
  note sf = reduceStageForward_fields[OF f staged(1)]
  have ne: "fr_FromNodeID req \<noteq> []"
    using red by (auto simp: reduceForwardWrite_def validateForwardSource_def Let_def split: option.splits if_splits prod.splits)
  have "unat (rr_nextSequence r) + 1 < 2 ^ 64"
    using op staged(1) followsD(1)[OF f] by (auto simp: hist_op_def hist_ok_def split: if_splits)
  then have lt: "rr_nextSequence r < rr_nextSequence r + 1" by (simp add: word_less_nat_alt unat_suc)
  show ?thesis unfolding staged(2)
    using sf staged(1) ne lt
    by (auto simp: reduceForwardWrite_def validateForwardSource_def reduceHandlePastForward_def same_or_rechained_def
        sameForwardRequest_eq Let_def)
qed

definition refused_with_room :: "int \<Rightarrow> storage_err \<Rightarrow> bool" where
  "refused_with_room slot e \<longleftrightarrow> (\<forall>b. e = ErrBackpressure b \<longrightarrow> bp_Slot b = slot \<and> bp_Limit b \<le> bp_Current b)"

lemma reduceStageForward_bounded:
  "reduceTotalBufferedMessages r \<le> n \<Longrightarrow> reduceTotalBufferedMessages (reduceStageForward r req) \<le> n"
  using fm_size_drop[of "wo_Sequence (fr_Operation req)" "rr_bufferedForwards r"]
  by (simp add: reduceTotalBufferedMessages_def reduceStageForward_def Let_def)

lemma reduceBufferFutureForward_bounded:
  assumes "reduceTotalBufferedMessages r \<le> bl_perSlotLimit limits"
  shows "case reduceBufferFutureForward r req limits of
      Inr r' \<Rightarrow> reduceTotalBufferedMessages r' \<le> bl_perSlotLimit limits
    | Inl e \<Rightarrow> refused_with_room (wo_Slot (fr_Operation req)) e"
  using assms
  by (auto simp: reduceBufferFutureForward_def Let_def buffer_room_def reduceTotalBufferedMessages_def
      fm_size_upd fm_has_def newReplicaBackpressureError_def refused_with_room_def split: option.splits)

lemma reduceBufferFutureCommit_bounded:
  assumes "reduceTotalBufferedMessages r \<le> bl_perSlotLimit limits"
  shows "case reduceBufferFutureCommit r creq limits of
      Inr r' \<Rightarrow> reduceTotalBufferedMessages r' \<le> bl_perSlotLimit limits
    | Inl e \<Rightarrow> refused_with_room (cr_Slot creq) e"
  using assms
  by (auto simp: reduceBufferFutureCommit_def Let_def buffer_room_def reduceTotalBufferedMessages_def
      fm_size_upd fm_has_def newReplicaBackpressureError_def refused_with_room_def split: option.splits)

lemma source_checks_refuse:
  "validateForwardSource r req = Some e \<Longrightarrow> refused_with_room slot e"
  "validateCommitSource r creq = Some e \<Longrightarrow> refused_with_room slot e"
  "reduceHandlePastForward r req = Some e \<Longrightarrow> refused_with_room slot e"
  "reduceHandlePastCommit r creq = Some e \<Longrightarrow> refused_with_room slot e"
  by (auto simp: validateForwardSource_def validateCommitSource_def reduceHandlePastForward_def
      reduceHandlePastCommit_def refused_with_room_def Let_def split: option.splits prod.splits if_splits)

text \<open>
  C26. Future messages are buffered within limits: starting below the slot limit the number
  of buffered messages never exceeds it, whatever forwards and commits arrive; a message
  refused for lack of room is reported as backpressure with the current count and the limit.
\<close>

theorem buffered_within_limit:
  assumes "reduceTotalBufferedMessages r \<le> bl_perSlotLimit limits"
  shows "(case reduceForwardWrite r req limits of
            Inr (r', _) \<Rightarrow> reduceTotalBufferedMessages r' \<le> bl_perSlotLimit limits
          | Inl e \<Rightarrow> refused_with_room (wo_Slot (fr_Operation req)) e) \<and>
         (case reduceCommitWrite r creq limits of
            Inr (r', _) \<Rightarrow> reduceTotalBufferedMessages r' \<le> bl_perSlotLimit limits
          | Inl e \<Rightarrow> refused_with_room (cr_Slot creq) e)"
proof
  note refuse = source_checks_refuse
  show "case reduceForwardWrite r req limits of
      Inr (r', _) \<Rightarrow> reduceTotalBufferedMessages r' \<le> bl_perSlotLimit limits
    | Inl e \<Rightarrow> refused_with_room (wo_Slot (fr_Operation req)) e"
  proof (cases "reduceForwardWrite r req limits")
    case (Inl e)
    then show ?thesis using refuse(1,3) reduceBufferFutureForward_bounded[OF assms, of req]
      by (auto simp: reduceForwardWrite_def Let_def res_bind_Inl split: option.splits if_splits)
  next
    case (Inr x)
    then obtain r' action where x: "reduceForwardWrite r req limits = Inr (r', action)" by (cases x) auto
    then have "reduceTotalBufferedMessages r' \<le> bl_perSlotLimit limits"
      by (cases rule: reduceForwardWrite_cases)
        (use assms reduceStageForward_bounded reduceBufferFutureForward_bounded[OF assms, of req] in auto)
    with x show ?thesis by simp
  qed
  show "case reduceCommitWrite r creq limits of
      Inr (r', _) \<Rightarrow> reduceTotalBufferedMessages r' \<le> bl_perSlotLimit limits
    | Inl e \<Rightarrow> refused_with_room (cr_Slot creq) e"
    using assms refuse(2,4) reduceBufferFutureCommit_bounded[OF assms, of creq]
    by (cases "validateCommitSource r creq"; cases "reduceHandlePastCommit r creq";
        cases "reduceBufferFutureCommit r creq limits") (auto simp: reduceCommitWrite_def)
qed

section \<open>Examples\<close>

text \<open>A middle replica of a chain \<open>a \<rightarrow> b \<rightarrow> c\<close>, the slot's first two operations, and their forwards.\<close>

definition ex_assignment :: replica_assignment where
  "ex_assignment = \<lparr>ra_Slot = 3, ra_ChainVersion = 4, ra_Role = ReplicaRoleMiddle,
     ra_Peers = \<lparr>PredecessorNodeID = ''a'', PredecessorTarget = [], SuccessorNodeID = ''c'',
       SuccessorTarget = [], TailNodeID = ''c'', TailTarget = []\<rparr>\<rparr>"

definition ex_hist :: "write_operation list" where
  "ex_hist = [ex_op 1 OperationKindPut ''k'' ''v'', ex_op 2 OperationKindPut ''k'' ''w'']"

definition ex_forward :: "nat \<Rightarrow> forward_request" where
  "ex_forward i = \<lparr>fr_Operation = ex_hist ! i, fr_FromNodeID = ''a'', fr_ChainVersion = 4\<rparr>"

definition ex_record :: replica_record where
  "ex_record = zero_record\<lparr>rr_assignment := ex_assignment, rr_state := ReplicaStateActive_s, rr_nextSequence := 1\<rparr>"

definition ex_limits :: buffer_limits where
  "ex_limits = \<lparr>bl_perSlotLimit = 1, bl_perNodeLimit = 0, bl_nodeBufferedNow = 0\<rparr>"

lemma ex_hist_ok: "hist_ok ex_hist"
  by (auto simp: hist_ok_def ex_hist_def ex_op_def supported_def less_Suc_eq nth_Cons')

lemma ex_record_follows: "follows ex_hist ex_record"
  by (rule follows_fresh) (simp_all add: ex_hist_ok ex_record_def zero_record_def)

theorem forward_redelivery_idempotent_witness:
  "\<exists>r' again. reduceForwardWrite ex_record (ex_forward 0) ex_limits = Inr (r', slotReducerActionApply) \<and>
     reduceForwardWrite r' (ex_forward 0) ex_limits = Inr (r', again) \<and> again \<noteq> slotReducerActionApply"
proof -
  have "case reduceForwardWrite ex_record (ex_forward 0) ex_limits of
      Inr (_, a) \<Rightarrow> a = slotReducerActionApply | Inl _ \<Rightarrow> False" by code_simp
  then obtain r' where r: "reduceForwardWrite ex_record (ex_forward 0) ex_limits = Inr (r', slotReducerActionApply)"
    by (auto split: sum.splits prod.splits)
  have op: "hist_op ex_hist (wo_Sequence (fr_Operation (ex_forward 0))) = Some (fr_Operation (ex_forward 0))" by code_simp
  from forward_redelivery_idempotent[OF ex_record_follows op r] r show ?thesis by blast
qed

theorem buffered_within_limit_witness:
  "case reduceForwardWrite ex_record (ex_forward 1) ex_limits of
     Inr (r', _) \<Rightarrow> reduceTotalBufferedMessages r' \<le> 1 | Inl e \<Rightarrow> refused_with_room 3 e"
proof -
  have b: "reduceTotalBufferedMessages ex_record \<le> bl_perSlotLimit ex_limits" by code_simp
  have s: "wo_Slot (fr_Operation (ex_forward 1)) = 3" "bl_perSlotLimit ex_limits = 1" by code_simp+
  from buffered_within_limit[OF b, of "ex_forward 1"] show ?thesis unfolding s by (rule conjunct1)
qed

end
