(* ===== verification/Slot_Read.thy ===== *)
theory Slot_Read
  imports Slot_Log
begin

text \<open>
  Reads (\<open>Node.resolveRead\<close>, \<open>Node.committedObject\<close> of \<open>storage/storage.go\<close> and
  \<open>slotRuntime.handleClientGet\<close>, \<open>handleCommittedSnapshotWithSequence\<close>, \<open>markMaterialized\<close>
  of \<open>storage/slot_owner.go\<close>).  The backend's committed lookup and the transport's request
  for the tail's commit cursor are arguments.  The first part gives the meaning of what a
  replica holds (backend objects plus overlay) as a prefix of the slot's history.
\<close>

section \<open>The committed objects of a replica\<close>

definition replay :: "write_operation list \<Rightarrow> snapshot \<Rightarrow> nat \<Rightarrow> snapshot" where
  "replay H m0 n = fold apply_op (take n H) m0"

text \<open>
  The backend holds the history up to the materialized cursor; the overlay holds, for
  every key written since, the last operation on it.
\<close>

definition holds :: "write_operation list \<Rightarrow> snapshot \<Rightarrow> nat \<Rightarrow> replica_record \<Rightarrow> snapshot \<Rightarrow> bool" where
  "holds H m0 mat r m \<longleftrightarrow> mat \<le> unat (rr_highestCommittedSequence r) \<and>
     unat (rr_highestCommittedSequence r) \<le> length H \<and>
     (\<forall>k. fmlookup m k = fmlookup (replay H m0 mat) k) \<and>
     (\<forall>k. case fmlookup (rr_committedOverlay r) k of
        Some e \<Rightarrow> (let os = filter (\<lambda>op. wo_Key op = k) (take (unat (rr_highestCommittedSequence r)) H)
                   in os \<noteq> [] \<and> e = \<lparr>de_Sequence = wo_Sequence (last os), de_Operation = last os\<rparr>)
      | None \<Rightarrow> filter (\<lambda>op. wo_Key op = k) (drop mat (take (unat (rr_highestCommittedSequence r)) H)) = [])"

definition committedObject ::
  "(int \<Rightarrow> string \<Rightarrow> storage_err + committed_object option) \<Rightarrow> replica_record \<Rightarrow> int \<Rightarrow> string
     \<Rightarrow> storage_err + committed_object option" where
  "committedObject getCommitted record slot key =
     (case recordCommittedOverlayObject record key of
        Some overlay \<Rightarrow> Inr overlay
      | None \<Rightarrow> getCommitted slot key)"

definition markMaterialized :: "replica_record \<Rightarrow> u64 \<Rightarrow> replica_record" where
  "markMaterialized record highest = recordPruneMaterializedOverlay record highest"

lemma replay_split: "a \<le> b \<Longrightarrow> replay H m0 b = fold apply_op (drop a (take b H)) (replay H m0 a)"
proof -
  assume "a \<le> b"
  then have "take b H = take a H @ drop a (take b H)" by (metis append_take_drop_id min.absorb1 take_take)
  then show ?thesis unfolding replay_def by (metis comp_apply fold_append)
qed

lemma replay_unchanged:
  assumes "a \<le> b" and "filter (\<lambda>op. wo_Key op = k) (drop a (take b H)) = []"
  shows "fmlookup (replay H m0 b) k = fmlookup (replay H m0 a) k"
  using assms by (simp add: replay_split fold_apply_op_lookup)

lemma overlay_object:
  assumes "fmlookup (rr_committedOverlay r) k = Some e" and "supported (de_Operation e)"
  shows "recordCommittedOverlayObject r k = Some (op_effect (de_Operation e))"
  using assms by (auto simp: recordCommittedOverlayObject_def supported_def op_effect_def op_object_def)

text \<open>A replica that holds a prefix of the history answers committed lookups from that prefix.\<close>

lemma holds_lookup:
  assumes h: "holds H m0 mat r m" and H: "hist_ok H"
  shows "(case recordCommittedOverlayObject r k of Some x \<Rightarrow> x | None \<Rightarrow> fmlookup m k) =
    fmlookup (replay H m0 (unat (rr_highestCommittedSequence r))) k"
proof -
  let ?c = "unat (rr_highestCommittedSequence r)"
  let ?os = "filter (\<lambda>op. wo_Key op = k) (take ?c H)"
  show ?thesis
  proof (cases "fmlookup (rr_committedOverlay r) k")
    case None
    then have "filter (\<lambda>op. wo_Key op = k) (drop mat (take ?c H)) = []" "mat \<le> ?c"
      "fmlookup m k = fmlookup (replay H m0 mat) k"
      using h unfolding holds_def by (auto dest!: spec[of _ k] split: option.splits)
    with replay_unchanged[of mat ?c k H m0] None show ?thesis by (simp add: recordCommittedOverlayObject_def)
  next
    case (Some e)
    then have e: "?os \<noteq> []" "de_Operation e = last ?os"
      using h unfolding holds_def Let_def by (auto dest!: spec[of _ k] split: option.splits)
    have "supported op" if "op \<in> set H" for op using H that by (auto simp: hist_ok_def in_set_conv_nth)
    moreover have "last ?os \<in> set H" using last_in_set[OF e(1)] by (auto dest: in_set_takeD)
    ultimately have "recordCommittedOverlayObject r k = Some (op_effect (last ?os))"
      using overlay_object[OF Some] e by simp
    then show ?thesis using e(1) by (simp add: replay_def fold_apply_op_lookup split: list.splits)
  qed
qed

text \<open>Committing the next operation extends the prefix by it.\<close>

lemma commit_holds:
  assumes h: "holds H m0 mat r m" and f: "follows H r" and s: "s = rr_highestCommittedSequence r + 1"
    and p: "s \<le> rr_highestPreparedDurable r" and op: "fmlookup (rr_preparedEntries r) s = Some op"
  shows "holds H m0 mat (recordWithCommittedOverlay (reduceApplyCommittedSequence r op s l) op) m"
proof -
  let ?c = "unat (rr_highestCommittedSequence r)"
  let ?r = "recordWithCommittedOverlay (reduceApplyCommittedSequence r op s l) op"
  have us: "unat s = ?c + 1" and ho: "hist_op H s = Some op"
    using reduceApplyCommittedSequence_follows(2,3)[OF f s p op] by auto
  then have c: "?c < length H" "op = H ! ?c" by (auto simp: hist_op_def split: if_splits)
  have t: "take (Suc ?c) H = take ?c H @ [op]" using c by (simp add: take_Suc_conv_app_nth)
  have cur: "unat (rr_highestCommittedSequence ?r) = Suc ?c" using us by (simp add: recordWithCommittedOverlay_def)
  have mat: "mat \<le> ?c" using h by (simp add: holds_def)
  have "case fmlookup (rr_committedOverlay ?r) k of
      Some e \<Rightarrow> (let os = filter (\<lambda>op. wo_Key op = k) (take (Suc ?c) H)
                 in os \<noteq> [] \<and> e = \<lparr>de_Sequence = wo_Sequence (last os), de_Operation = last os\<rparr>)
    | None \<Rightarrow> filter (\<lambda>op. wo_Key op = k) (drop mat (take (Suc ?c) H)) = []" for k
  proof (cases "k = wo_Key op")
    case True
    then show ?thesis by (simp add: t recordWithCommittedOverlay_def Let_def)
  next
    case False
    then have "fmlookup (rr_committedOverlay ?r) k = fmlookup (rr_committedOverlay r) k"
      by (simp add: recordWithCommittedOverlay_def)
    then show ?thesis using h False mat c
      unfolding holds_def t Let_def by (auto dest!: spec[of _ k] split: option.splits)
  qed
  then show ?thesis using h c mat unfolding holds_def cur by simp
qed

lemma late_writes:
  assumes H: "hist_ok H" and le: "unat (wo_Sequence (last (filter P (take c H)))) \<le> a" and ne: "filter P (take c H) \<noteq> []"
  shows "filter P (drop a (take c H)) = []"
proof (rule ccontr)
  let ?os = "filter P (take c H)" and ?late = "filter P (drop a (take c H))"
  assume late: "?late \<noteq> []"
  have "?os = filter P (take a (take c H)) @ ?late" by (metis append_take_drop_id filter_append)
  then have "last ?os = last ?late" using late by simp
  then have "last ?os \<in> set (drop a (take c H))" using last_in_set[OF late] by auto
  then obtain j where j: "j < length (drop a (take c H))" "drop a (take c H) ! j = last ?os"
    unfolding in_set_conv_nth by blast
  then have "a + j < length H" "a + j < c" "a \<le> length (take c H)" by auto
  with j(2) have "a + j < length H" "H ! (a + j) = last ?os" by (simp_all only: nth_drop nth_take)
  then have "unat (wo_Sequence (last ?os)) = a + j + 1" using H by (metis hist_ok_def)
  then show False using le by simp
qed

lemma prune_holds:
  assumes h: "holds H m0 mat r m" and H: "hist_ok H" and hi: "unat hi \<le> mat"
  shows "holds H m0 mat (markMaterialized r hi) m"
proof -
  let ?c = "unat (rr_highestCommittedSequence r)" and ?r = "markMaterialized r hi"
  have cur: "rr_highestCommittedSequence ?r = rr_highestCommittedSequence r"
    by (simp add: markMaterialized_def recordPruneMaterializedOverlay_def Let_def)
  have look: "fmlookup (rr_committedOverlay ?r) k = (case fmlookup (rr_committedOverlay r) k of
      None \<Rightarrow> None | Some e \<Rightarrow> if hi < de_Sequence e then Some e else None)" for k
    by (simp add: markMaterialized_def recordPruneMaterializedOverlay_def Let_def split: option.split)
  have "case fmlookup (rr_committedOverlay ?r) k of
      Some e \<Rightarrow> (let os = filter (\<lambda>op. wo_Key op = k) (take ?c H)
                 in os \<noteq> [] \<and> e = \<lparr>de_Sequence = wo_Sequence (last os), de_Operation = last os\<rparr>)
    | None \<Rightarrow> filter (\<lambda>op. wo_Key op = k) (drop mat (take ?c H)) = []" for k
  proof (cases "fmlookup (rr_committedOverlay r) k")
    case None
    then show ?thesis using h by (auto simp: look holds_def dest!: spec[of _ k] split: option.splits)
  next
    case (Some e)
    let ?os = "filter (\<lambda>op. wo_Key op = k) (take ?c H)"
    have e: "?os \<noteq> []" "e = \<lparr>de_Sequence = wo_Sequence (last ?os), de_Operation = last ?os\<rparr>"
      using Some h unfolding holds_def Let_def by (auto dest!: spec[of _ k] split: option.splits)
    show ?thesis
    proof (cases "hi < de_Sequence e")
      case True
      then show ?thesis using Some e by (simp add: look)
    next
      case False
      then have "unat (wo_Sequence (last ?os)) \<le> mat" using e(2) hi by (simp add: word_less_nat_alt)
      from late_writes[OF H this e(1)] show ?thesis using False Some by (simp add: look)
    qed
  qed
  then show ?thesis using h unfolding holds_def cur by simp
qed

text \<open>
  Once the backend holds the history up to a later cursor, the overlay entries up to that
  cursor are redundant and dropping them changes nothing a reader sees.
\<close>

lemma materialize_holds:
  assumes h: "holds H m0 mat r m" and H: "hist_ok H"
    and mat: "mat \<le> unat mat'" "unat mat' \<le> unat (rr_highestCommittedSequence r)"
    and m': "\<forall>k. fmlookup m' k = fmlookup (replay H m0 (unat mat')) k"
  shows "holds H m0 (unat mat') (markMaterialized r mat') m'"
proof -
  let ?c = "unat (rr_highestCommittedSequence r)" and ?r = "markMaterialized r mat'"
  have cur: "rr_highestCommittedSequence ?r = rr_highestCommittedSequence r"
    by (simp add: markMaterialized_def recordPruneMaterializedOverlay_def Let_def)
  have "case fmlookup (rr_committedOverlay ?r) k of
      Some e \<Rightarrow> (let os = filter (\<lambda>op. wo_Key op = k) (take ?c H)
                 in os \<noteq> [] \<and> e = \<lparr>de_Sequence = wo_Sequence (last os), de_Operation = last os\<rparr>)
    | None \<Rightarrow> filter (\<lambda>op. wo_Key op = k) (drop (unat mat') (take ?c H)) = []" for k
  proof (cases "fmlookup (rr_committedOverlay r) k")
    case None
    then have "filter (\<lambda>op. wo_Key op = k) (drop mat (take ?c H)) = []"
      using h unfolding holds_def by (auto dest!: spec[of _ k] split: option.splits)
    then have "filter (\<lambda>op. wo_Key op = k) (drop (unat mat') (take ?c H)) = []"
      using mat(1) set_drop_subset_set_drop[OF mat(1), of "take ?c H"] by (auto simp: filter_empty_conv)
    then show ?thesis using None
      by (simp add: markMaterialized_def recordPruneMaterializedOverlay_def Let_def)
  next
    case (Some e)
    let ?os = "filter (\<lambda>op. wo_Key op = k) (take ?c H)"
    have e: "?os \<noteq> []" "e = \<lparr>de_Sequence = wo_Sequence (last ?os), de_Operation = last ?os\<rparr>"
      using Some h unfolding holds_def Let_def by (auto dest!: spec[of _ k] split: option.splits)
    show ?thesis
    proof (cases "mat' < de_Sequence e")
      case True
      then show ?thesis using Some e
        by (simp add: markMaterialized_def recordPruneMaterializedOverlay_def Let_def)
    next
      case False
      then have "unat (wo_Sequence (last ?os)) \<le> unat mat'" using e(2) by (simp add: word_less_nat_alt)
      from late_writes[OF H this e(1)] have "filter (\<lambda>op. wo_Key op = k) (drop (unat mat') (take ?c H)) = []" .
      then show ?thesis using False Some
        by (simp add: markMaterialized_def recordPruneMaterializedOverlay_def Let_def)
    qed
  qed
  then show ?thesis using h m' mat unfolding holds_def cur by simp
qed

section \<open>Snapshots\<close>

definition handleCommittedSnapshotWithSequence ::
  "(int \<Rightarrow> storage_err + snapshot) \<Rightarrow> int \<Rightarrow> replica_record option \<Rightarrow> storage_err + snapshot \<times> u64" where
  "handleCommittedSnapshotWithSequence committedSnapshot slot record =
     res_bind (committedSnapshot slot) (\<lambda>snapshot.
       case record of
         None \<Rightarrow> Inr (snapshot, 0)
       | Some r \<Rightarrow> Inr (recordMergedCommittedSnapshot r snapshot, rr_highestCommittedSequence r))"

lemma merge_fold_lookup:
  "fmlookup (fold (\<lambda>key merged. case f key of None \<Rightarrow> merged
       | Some None \<Rightarrow> fmdrop key merged | Some (Some object) \<Rightarrow> fmupd key object merged) ks m) k =
     (if k \<in> set ks then (case f k of Some x \<Rightarrow> x | None \<Rightarrow> fmlookup m k) else fmlookup m k)"
  by (induction ks arbitrary: m) (auto split: option.splits)

lemma recordMergedCommittedSnapshot_lookup:
  "fmlookup (recordMergedCommittedSnapshot r m) k =
     (case recordCommittedOverlayObject r k of Some x \<Rightarrow> x | None \<Rightarrow> fmlookup m k)"
proof (cases "fmlookup (rr_committedOverlay r) k")
  case None
  then show ?thesis
    by (simp add: recordMergedCommittedSnapshot_def merge_fold_lookup recordCommittedOverlayObject_def)
next
  case (Some e)
  then have "k \<in> set (sorted_list_of_fset (fmdom (rr_committedOverlay r)))"
    by (auto simp: sorted_list_of_fset.rep_eq fmlookup_dom_iff)
  then show ?thesis by (simp add: recordMergedCommittedSnapshot_def merge_fold_lookup)
qed

text \<open>
  C27. A snapshot is a consistent cut: the objects a replica hands to a joining peer are the
  history of the slot up to exactly the sequence it hands over with them, however far the
  backend lags behind the commit cursor.
\<close>

theorem snapshot_consistent_cut:
  assumes "follows H r" and "holds H m0 mat r m" and "committedSnapshot slot = Inr m"
  shows "\<exists>snap. handleCommittedSnapshotWithSequence committedSnapshot slot (Some r) =
      Inr (snap, rr_highestCommittedSequence r) \<and>
    snap = replay H m0 (unat (rr_highestCommittedSequence r))"
  using holds_lookup[OF assms(2) followsD(1)[OF assms(1)]] assms(3)
  by (auto simp: handleCommittedSnapshotWithSequence_def recordMergedCommittedSnapshot_lookup intro!: fmap_ext)

section \<open>Reads\<close>

datatype ReadConsistency =
    ReadConsistencyLinearizable
  | ReadConsistencyLocalCommitted
  | ReadConsistencyOther string

definition normalizeReadConsistency :: "ReadConsistency \<Rightarrow> ReadConsistency" where
  "normalizeReadConsistency c =
     (case c of ReadConsistencyLocalCommitted \<Rightarrow> ReadConsistencyLocalCommitted
      | _ \<Rightarrow> ReadConsistencyLinearizable)"

record client_get =
  cg_Slot :: int
  cg_Key :: string
  cg_ExpectedChainVersion :: u64
  cg_Consistency :: ReadConsistency

record read_result =
  rs_Slot :: int
  rs_ChainVersion :: u64
  rs_Found :: bool
  rs_Value :: string
  rs_Metadata :: "object_metadata option"

text \<open>The downward scan of the dirty entries for the last one at or below the tail's cursor.\<close>

fun scan_dirty :: "dirty_entry list \<Rightarrow> u64 \<Rightarrow> (storage_err + committed_object option) option" where
  "scan_dirty [] sequence = None"
| "scan_dirty (entry # entries) sequence =
     (if sequence < de_Sequence entry then scan_dirty entries sequence
      else Some (case wo_Kind (de_Operation entry) of
                   OperationKindPut \<Rightarrow> Inr (Some \<lparr>co_Value = wo_Value (de_Operation entry),
                      co_Metadata = wo_Metadata (de_Operation entry)\<rparr>)
                 | OperationKindDelete \<Rightarrow> Inr None
                 | OperationKindOther _ \<Rightarrow> Inl ErrInvalidConfig_s))"

definition resolveRead ::
  "(int \<Rightarrow> string \<Rightarrow> storage_err + committed_object option) \<Rightarrow> (string \<Rightarrow> int \<Rightarrow> storage_err + u64)
     \<Rightarrow> client_get \<Rightarrow> replica_record \<Rightarrow> dirty_entry list \<Rightarrow> ReadConsistency
     \<Rightarrow> storage_err + committed_object option" where
  "resolveRead getCommitted fetchCommittedSequence req record dirtyEntries consistency =
     res_bind (committedObject getCommitted record (cg_Slot req) (cg_Key req)) (\<lambda>object.
       let role = ra_Role (rr_assignment record); peers = rr_peers record
       in if consistency = ReadConsistencyLocalCommitted \<or> role = ReplicaRoleTail \<or> role = ReplicaRoleSingle
          then Inr object
          else if dirtyEntries = [] then Inr object
          else let tailTarget = peerTransportTarget (TailTarget peers) (TailNodeID peers)
               in if tailTarget = []
                  then Inl (ErrReadDependency (cg_Slot req) (cg_ExpectedChainVersion req) (TailNodeID peers) ErrStateMismatch)
                  else case fetchCommittedSequence tailTarget (cg_Slot req) of
                         Inl e \<Rightarrow> Inl (ErrReadDependency (cg_Slot req) (cg_ExpectedChainVersion req) (TailNodeID peers) e)
                       | Inr sequence \<Rightarrow> (case scan_dirty (rev dirtyEntries) sequence of
                           Some result \<Rightarrow> result | None \<Rightarrow> Inr object))"

definition handleClientGet ::
  "(int \<Rightarrow> string \<Rightarrow> storage_err + committed_object option) \<Rightarrow> (string \<Rightarrow> int \<Rightarrow> storage_err + u64)
     \<Rightarrow> replica_record option \<Rightarrow> client_get \<Rightarrow> storage_err + read_result" where
  "handleClientGet getCommitted fetchCommittedSequence rec req =
     (case rec of
        None \<Rightarrow> Inl (newRoutingMismatch (cg_Slot req) (cg_ExpectedChainVersion req) zero_assignment
                   (ReplicaStateOther_s []) RoutingMismatchReasonUnknownSlot)
      | Some record \<Rightarrow>
          if rr_state record \<noteq> ReplicaStateActive_s
          then Inl (newRoutingMismatch (cg_Slot req) (cg_ExpectedChainVersion req) (rr_assignment record)
                      (rr_state record) RoutingMismatchReasonInactiveReplica)
          else if rr_version record \<noteq> cg_ExpectedChainVersion req
          then Inl (newRoutingMismatch (cg_Slot req) (cg_ExpectedChainVersion req) (rr_assignment record)
                      (rr_state record) RoutingMismatchReasonWrongVersion)
          else res_bind (resolveRead getCommitted fetchCommittedSequence req record
                  (dirtyEntriesForKey record (cg_Key req)) (normalizeReadConsistency (cg_Consistency req)))
                (\<lambda>object. Inr \<lparr>rs_Slot = cg_Slot req, rs_ChainVersion = rr_version record,
                   rs_Found = (object \<noteq> None),
                   rs_Value = (case object of None \<Rightarrow> [] | Some x \<Rightarrow> co_Value x),
                   rs_Metadata = map_option co_Metadata object\<rparr>))"

text \<open>What the scan finds in the dirty entries of a stretch of history.\<close>

lemma scan_dirty_of:
  assumes "sorted_wrt (<) (map wo_Sequence ops)" and "\<forall>op \<in> set ops. supported op"
  shows "scan_dirty (rev (dirty_of ops k)) s =
    (let os = filter (\<lambda>op. wo_Key op = k) (takeWhile (\<lambda>op. wo_Sequence op \<le> s) ops)
     in if os = [] then None else Some (Inr (op_effect (last os))))"
  using assms
proof (induction ops rule: rev_induct)
  case Nil
  then show ?case by (simp add: dirty_of_def)
next
  case (snoc op ops)
  have less: "\<forall>o' \<in> set ops. wo_Sequence o' < wo_Sequence op" using snoc.prems(1) by (simp add: sorted_wrt_append)
  have IH: "scan_dirty (rev (dirty_of ops k)) s =
    (let os = filter (\<lambda>op. wo_Key op = k) (takeWhile (\<lambda>op. wo_Sequence op \<le> s) ops)
     in if os = [] then None else Some (Inr (op_effect (last os))))"
    using snoc by (simp add: sorted_wrt_append)
  have sup: "supported op" using snoc.prems(2) by simp
  show ?case
  proof (cases "s < wo_Sequence op")
    case True
    have tw: "takeWhile (\<lambda>op. wo_Sequence op \<le> s) (ops @ [op]) = takeWhile (\<lambda>op. wo_Sequence op \<le> s) ops"
      using True by (induction ops) auto
    then show ?thesis using True IH by (simp add: dirty_of_append) (simp add: dirty_of_def)
  next
    case False
    then have all: "takeWhile (\<lambda>op. wo_Sequence op \<le> s) (ops @ [op]) = ops @ [op]" for s'
      using less by (intro takeWhile_eq_all_conv[THEN iffD2]) (auto simp: not_less intro: order.trans less_imp_le)
    then have all': "takeWhile (\<lambda>op. wo_Sequence op \<le> s) ops = ops"
      using less False by (intro takeWhile_eq_all_conv[THEN iffD2]) (auto simp: not_less intro: order.trans less_imp_le)
    show ?thesis
    proof (cases "wo_Key op = k")
      case True
      then show ?thesis using False sup all
        by (auto simp: dirty_of_def supported_def op_effect_def op_object_def)
    next
      case False
      then show ?thesis using IH all all' by (simp add: dirty_of_def)
    qed
  qed
qed

lemma window_upto:
  assumes H: "hist_ok H" and "unat s \<le> n" and "n \<le> length H"
  shows "takeWhile (\<lambda>op. wo_Sequence op \<le> s) (drop c (take n H)) = drop c (take (unat s) H)"
proof (cases "c \<le> unat s")
  case True
  have seq: "i < length H \<Longrightarrow> unat (wo_Sequence (H ! i)) = i + 1" for i using H by (simp add: hist_ok_def)
  have eq: "take n H = take (unat s) H @ drop (unat s) (take n H)"
    using append_take_drop_id[of "unat s" "take n H", symmetric] assms(2) by (simp add: min_absorb1)
  have split: "drop c (take n H) = drop c (take (unat s) H) @ drop (unat s) (take n H)"
    by (subst eq, subst drop_append) (use True assms in simp)
  have early: "\<forall>op \<in> set (drop c (take (unat s) H)). wo_Sequence op \<le> s"
    using seq assms by (auto simp: in_set_conv_nth word_le_nat_alt)
  have late: "\<forall>op \<in> set (drop (unat s) (take n H)). \<not> wo_Sequence op \<le> s"
    using seq assms by (auto simp: in_set_conv_nth word_le_nat_alt)
  have "takeWhile (\<lambda>op. wo_Sequence op \<le> s) (drop (unat s) (take n H)) = []"
    using late by (cases "drop (unat s) (take n H)") auto
  then show ?thesis unfolding split using early by (simp add: takeWhile_append)
next
  case False
  have "takeWhile (\<lambda>op. wo_Sequence op \<le> s) (drop c (take n H)) = []"
  proof (cases "drop c (take n H)")
    case (Cons op ops)
    then have "op = H ! c" "c < length H" using assms
      by (metis drop_eq_Nil2 length_take list.distinct(1) list.sel(1) min_less_iff_conj not_le hd_drop_conv_nth nth_take)+
    then have "\<not> wo_Sequence op \<le> s" using H False by (simp add: hist_ok_def word_le_nat_alt)
    then show ?thesis using Cons by simp
  qed simp
  then show ?thesis using False by simp
qed

text \<open>
  What a read at the tail's cursor \<open>s\<close> finds: the newest dirty entry at or below it, or
  the committed object; either way the history up to \<open>s\<close>.
\<close>

lemma dirty_read_value:
  fixes k :: string
  assumes f: "follows H r" and h: "holds H m0 mat r m"
    and s: "rr_highestCommittedSequence r \<le> s" "s < rr_nextSequence r"
  defines "committed \<equiv> (case recordCommittedOverlayObject r k of Some x \<Rightarrow> x | None \<Rightarrow> fmlookup m k)"
  shows "(case scan_dirty (rev (dirtyEntriesForKey r k)) s of Some result \<Rightarrow> result | None \<Rightarrow> Inr committed) =
    Inr (fmlookup (replay H m0 (unat s)) k)"
    and "dirtyEntriesForKey r k = [] \<Longrightarrow> committed = fmlookup (replay H m0 (unat s)) k"
proof -
  let ?c = "unat (rr_highestCommittedSequence r)" and ?n = "unat (rr_nextSequence r) - 1"
  note D = followsD[OF f]
  have le: "?c \<le> unat s" "unat s \<le> ?n" "?n \<le> length H"
    using s D(3) by (auto simp: word_le_nat_alt word_less_nat_alt)
  have com: "committed = fmlookup (replay H m0 ?c) k"
    unfolding committed_def by (rule holds_lookup[OF h D(1)])
  have d: "dirtyEntriesForKey r k = dirty_of (drop ?c (take ?n H)) k"
    using D(10)[of k] by (simp add: dirtyEntriesForKey_def window_def)
  let ?os = "filter (\<lambda>op. wo_Key op = k) (drop ?c (take (unat s) H))"
  have sup: "\<forall>op \<in> set (drop ?c (take ?n H)). supported op"
    using D(1) by (auto simp: hist_ok_def in_set_conv_nth dest!: in_set_dropD in_set_takeD)
  have scan: "scan_dirty (rev (dirtyEntriesForKey r k)) s = (if ?os = [] then None else Some (Inr (op_effect (last ?os))))"
    unfolding d using scan_dirty_of[OF window_sorted[OF D(1)] sup, of k s] window_upto[OF D(1) le(2,3)]
    by (simp add: Let_def)
  have val: "fmlookup (replay H m0 (unat s)) k = (if ?os = [] then committed else op_effect (last ?os))"
    unfolding replay_split[OF le(1)] com by (simp add: fold_apply_op_lookup split: list.splits)
  show "(case scan_dirty (rev (dirtyEntriesForKey r k)) s of Some result \<Rightarrow> result | None \<Rightarrow> Inr committed) =
    Inr (fmlookup (replay H m0 (unat s)) k)"
    using scan val by simp
  assume "dirtyEntriesForKey r k = []"
  then have "?os = []" using scan by (simp split: if_splits)
  with val show "committed = fmlookup (replay H m0 (unat s)) k" by simp
qed

text \<open>
  Reads are linearizable at the tail: when a replica that follows the slot's history is
  asked for a linearizable read and the tail's commit cursor is \<open>s\<close> (at the tail or a single
  replica, its own cursor), the answer is exactly the object the history has after its
  first \<open>s\<close> operations, whether the replica answers from its committed objects or from an
  uncommitted write it resolves with the tail.
\<close>

lemma linearizable_read:
  assumes "follows H r" and "holds H m0 mat r m"
    and "rr_state r = ReplicaStateActive_s" and "cg_ExpectedChainVersion req = rr_version r"
    and "cg_Consistency req \<noteq> ReadConsistencyLocalCommitted"
    and "getCommitted (cg_Slot req) (cg_Key req) = Inr (fmlookup m (cg_Key req))"
    and "if ra_Role (rr_assignment r) \<in> {ReplicaRoleTail, ReplicaRoleSingle} then s = rr_highestCommittedSequence r
         else peerTransportTarget (TailTarget (rr_peers r)) (TailNodeID (rr_peers r)) \<noteq> [] \<and>
              fetch (peerTransportTarget (TailTarget (rr_peers r)) (TailNodeID (rr_peers r))) (cg_Slot req) = Inr s"
    and "rr_highestCommittedSequence r \<le> s" and "s < rr_nextSequence r"
  shows "handleClientGet getCommitted fetch (Some r) req =
    (let object = fmlookup (replay H m0 (unat s)) (cg_Key req)
     in Inr \<lparr>rs_Slot = cg_Slot req, rs_ChainVersion = rr_version r, rs_Found = (object \<noteq> None),
             rs_Value = (case object of None \<Rightarrow> [] | Some x \<Rightarrow> co_Value x),
             rs_Metadata = map_option co_Metadata object\<rparr>)"
proof -
  let ?k = "cg_Key req"
  let ?com = "case recordCommittedOverlayObject r ?k of Some x \<Rightarrow> x | None \<Rightarrow> fmlookup m ?k"
  have com: "committedObject getCommitted r (cg_Slot req) ?k = Inr ?com"
    using assms(6) by (auto simp: committedObject_def split: option.splits)
  have lin: "normalizeReadConsistency (cg_Consistency req) = ReadConsistencyLinearizable"
    using assms(5) by (auto simp: normalizeReadConsistency_def split: ReadConsistency.splits)
  note val = dirty_read_value[OF assms(1,2,8,9), of ?k]
  have own: "?com = fmlookup (replay H m0 (unat (rr_highestCommittedSequence r))) ?k"
    by (rule holds_lookup[OF assms(2) followsD(1)[OF assms(1)]])
  have "resolveRead getCommitted fetch req r (dirtyEntriesForKey r ?k) ReadConsistencyLinearizable =
    Inr (fmlookup (replay H m0 (unat s)) ?k)"
  proof (cases "ra_Role (rr_assignment r) \<in> {ReplicaRoleTail, ReplicaRoleSingle}")
    case True
    then show ?thesis using assms(7) own by (auto simp: resolveRead_def com)
  next
    case False
    then show ?thesis using assms(7) val by (auto simp: resolveRead_def com Let_def)
  qed
  then show ?thesis using assms(3,4) lin by (simp add: handleClientGet_def Let_def)
qed

section \<open>Example\<close>

text \<open>The middle replica after both forwards, with the first operation committed.\<close>

definition ex_staged :: replica_record where
  "ex_staged = (reduceStageForward (reduceStageForward ex_record (ex_forward 0)) (ex_forward 1))
     \<lparr>rr_highestPreparedDurable := 2\<rparr>"

definition ex_replica :: replica_record where
  "ex_replica = recordWithCommittedOverlay (reduceApplyCommittedSequence ex_staged (ex_hist ! 0) 1 64) (ex_hist ! 0)"

lemma ex_staged_follows: "follows ex_hist ex_staged"
proof -
  have 1: "follows ex_hist (reduceStageForward ex_record (ex_forward 0))"
    by (rule reduceStageForward_follows[OF ex_record_follows]) code_simp+
  have 2: "follows ex_hist (reduceStageForward (reduceStageForward ex_record (ex_forward 0)) (ex_forward 1))"
    by (rule reduceStageForward_follows[OF 1]) code_simp+
  show ?thesis unfolding ex_staged_def by (rule follows_prepared[OF 2]) code_simp+
qed

lemma ex_replica_ok: "follows ex_hist ex_replica" "holds ex_hist fmempty 0 ex_replica fmempty"
proof -
  have s: "(1 :: u64) = rr_highestCommittedSequence ex_staged + 1" by code_simp
  have p: "1 \<le> rr_highestPreparedDurable ex_staged" by code_simp
  have op: "fmlookup (rr_preparedEntries ex_staged) 1 = Some (ex_hist ! 0)" by code_simp
  have "follows ex_hist (reduceApplyCommittedSequence ex_staged (ex_hist ! 0) 1 64)"
    by (rule reduceApplyCommittedSequence_follows(1)[OF ex_staged_follows s p op])
  then show "follows ex_hist ex_replica"
    unfolding ex_replica_def by (subst follows_cong) (simp_all add: recordWithCommittedOverlay_def)
  have c: "rr_highestCommittedSequence ex_staged = 0" "rr_committedOverlay ex_staged = fmempty" by code_simp+
  have "holds ex_hist fmempty 0 ex_staged fmempty" by (simp add: holds_def c replay_def)
  from commit_holds[OF this ex_staged_follows s p op]
  show "holds ex_hist fmempty 0 ex_replica fmempty" unfolding ex_replica_def .
qed

theorem snapshot_consistent_cut_witness:
  "\<exists>snap. handleCommittedSnapshotWithSequence (\<lambda>_. Inr fmempty) 3 (Some ex_replica) =
      Inr (snap, rr_highestCommittedSequence ex_replica) \<and>
    snap = replay ex_hist fmempty (unat (rr_highestCommittedSequence ex_replica))"
  by (rule snapshot_consistent_cut[OF ex_replica_ok]) simp

definition ex_get :: client_get where
  "ex_get = \<lparr>cg_Slot = 3, cg_Key = ''k'', cg_ExpectedChainVersion = 4, cg_Consistency = ReadConsistencyLinearizable\<rparr>"

text \<open>The tail has committed the second write, which is still dirty here: the read returns it.\<close>

lemma linearizable_read_example:
  "\<exists>result. handleClientGet (\<lambda>_ _. Inr None) (\<lambda>_ _. Inr 2) (Some ex_replica) ex_get = Inr result \<and>
     rs_Found result \<and> rs_Value result = ''w''"
proof -
  have get: "Inr None = Inr (fmlookup fmempty (cg_Key ex_get))" by simp
  have st: "rr_state ex_replica = ReplicaStateActive_s" "cg_ExpectedChainVersion ex_get = rr_version ex_replica"
    "cg_Consistency ex_get \<noteq> ReadConsistencyLocalCommitted"
    "rr_highestCommittedSequence ex_replica \<le> 2" "2 < rr_nextSequence ex_replica" by code_simp+
  have tail: "if ra_Role (rr_assignment ex_replica) \<in> {ReplicaRoleTail, ReplicaRoleSingle}
      then 2 = rr_highestCommittedSequence ex_replica
      else peerTransportTarget (TailTarget (rr_peers ex_replica)) (TailNodeID (rr_peers ex_replica)) \<noteq> [] \<and>
        (Inr 2 :: storage_err + u64) = Inr 2" by code_simp
  have v: "fmlookup (replay ex_hist fmempty (unat (2 :: u64))) (cg_Key ex_get) =
    Some \<lparr>co_Value = ''w'', co_Metadata = \<lparr>om_Version = 1, om_CreatedAt = 5, om_UpdatedAt = 5\<rparr>\<rparr>" by code_simp
  from linearizable_read[OF ex_replica_ok st(1-3), of "\<lambda>_ _. Inr None" "2" "\<lambda>_ _. Inr 2"] get tail st(4,5) v
  show ?thesis by (simp add: Let_def)
qed

end
