(* ===== verification/Slot_Runtime.thy ===== *)
theory Slot_Runtime
  imports Slot_Read "HOL-Library.Monad_Syntax"
begin

text \<open>
  The runtime of one slot on one node (\<open>storage/slot_owner.go\<close>).  A slot owner runs the
  functions sent to it one at a time, so each of them is a function on the runtime's state.
  What a function starts and does not wait for (a journal write, a message to a peer, a
  reply on a channel) is an effect appended to \<open>rt_out\<close>; the callback it registers becomes a
  separate function, called with the effect's outcome.  What a function reads of the rest of
  the node is the argument \<open>env\<close>: limits, the journal's commit mark, the clock, whether the
  journal and the transport accept submissions.  The replica's published copy is written
  whenever the record is, so it is a function of the record and no part of this state; trace
  events, metrics and the time-stamped breadcrumbs are left out.

  The functions that move the commit cursor call one another in a cycle with a loop in it.
  They take an amount of fuel and return \<open>None\<close> when it runs out.
\<close>

section \<open>State, environment and effects\<close>

datatype acceptedCommitStage =
    acceptedCommitWaitingForTurn
  | acceptedCommitDurableInFlight
  | acceptedCommitDurableCompleteWaiting
  | acceptedCommitApplied

text \<open>Reply channels are numbers; a waiter is the channel it answers on.\<close>

type_synonym channel = nat

record accepted_entry =
  ac_request :: commit_request
  ac_stage :: acceptedCommitStage
  ac_strict :: bool
  ac_waiters :: "channel list"

datatype on_complete =
    OnHeadWrite u64  \<comment> \<open>the callback of \<open>handleSubmitWrite\<close>, with the sequence it waits for\<close>
  | OnForward "channel option"  \<comment> \<open>the callback of \<open>applyForward\<close> and \<open>applyForwardAccepted\<close>\<close>

record forward_pipeline =
  fp_prepareDone :: bool
  fp_forwardDone :: bool
  fp_finished :: bool
  fp_operation :: write_operation
  fp_onComplete :: on_complete

datatype after_prepare =
    AfterSingle u64
  | AfterTail "channel option"
  | AfterPipeline nat

record sync_plan =
  sp_sourceNodeID :: string
  sp_sourceTarget :: string
  sp_chainVersion :: u64
  sp_currentHighest :: u64

record peer_key =
  pk_version :: u64
  pk_nodeID :: string
  pk_target :: string

datatype submit_response =
    SubmitFailed storage_err
  | SubmitDone commit_result
  | SubmitWaiting commit_result

datatype slot_effect =
    EffPrepare durable_commit after_prepare
  | EffForward string forward_request nat peer_key
  | EffReplayForward string forward_request peer_key
  | EffHeadCommitRange replica_assignment u64
  | EffCommitAdvance string commit_advance_request peer_key
  | EffConfirm replica_assignment u64
  | EffFetchSnapshot sync_plan
  | EffMaterialize "durable_commit list"
  | EffDropSlot
  | EffAllowSlot
  | EffInstallSnapshot snapshot
  | EffSetHighest u64
  | EffPersist persisted_replica
  | EffCreateReplica
  | EffDeleteReplica
  | EffDeleteLocal
  | EffReportRemoved
  | EffAdmitCatchup
  | EffReleaseCatchup
  | EffEvictOwner
  | EffReply channel "storage_err option"
  | EffSubmitReply channel submit_response
  | EffWaiter u64 "storage_err option"
  | EffAdmitWrite
  | EffReleaseWrite
  | EffScheduleDrain
  | EffScheduleReplay

record slot_runtime =
  rt_slot :: int
  rt_exists :: bool
  rt_record :: replica_record
  rt_committedMetadata :: "(string, object_metadata option) fmap"
  rt_commitEffectInFlight :: bool
  rt_commitEffectSequence :: u64
  rt_highestWatermarkSent :: u64
  rt_acceptedCommits :: "(u64, accepted_entry) fmap"
  rt_upstreamCommitInFlight :: bool
  rt_upstreamCommitHighSent :: u64
  rt_preparedReplayRetryScheduled :: bool
  rt_catchupSyncInFlight :: bool
  rt_drainScheduled :: bool
  rt_progressionGap :: bool
  rt_progressionGapSequence :: u64
  rt_pipelines :: "(nat, forward_pipeline) fmap"
  rt_nextPipeline :: nat
  rt_out :: "slot_effect list"

record node_env =
  ne_nodeID :: string
  ne_slotLimit :: int
  ne_nodeLimit :: int
  ne_othersBuffered :: int
  ne_maxWritesPerNode :: int
  ne_maxWritesPerSlot :: int
  ne_nodeInFlight :: int
  ne_durable :: u64
  ne_journalErr :: "storage_err option"
  ne_forwardErr :: "storage_err option"
  ne_ctxErr :: "channel \<Rightarrow> storage_err option"
  ne_now :: int
  ne_getCommitted :: "string \<Rightarrow> storage_err + committed_object option"
  ne_installErr :: "storage_err option"
  ne_setHighestErr :: "storage_err option"
  ne_persistErr :: "storage_err option"
  ne_createErr :: "storage_err option"
  ne_deleteErr :: "storage_err option"
  ne_localDeleteErr :: "storage_err option"
  ne_reportErr :: "storage_err option"
  ne_backendHighest :: "storage_err + u64"
  ne_creationReplayed :: bool
  ne_autoActivate :: bool
  ne_maxCatchups :: int
  ne_inFlightCatchups :: int

definition err_canceled :: storage_err where
  "err_canceled = ExternalError ''context canceled''"

definition new_runtime :: "int \<Rightarrow> bool \<Rightarrow> replica_record \<Rightarrow> slot_runtime" where
  "new_runtime slot present record = \<lparr>rt_slot = slot, rt_exists = present, rt_record = record,
     rt_committedMetadata = fmempty, rt_commitEffectInFlight = False, rt_commitEffectSequence = 0,
     rt_highestWatermarkSent = 0, rt_acceptedCommits = fmempty, rt_upstreamCommitInFlight = False,
     rt_upstreamCommitHighSent = 0, rt_preparedReplayRetryScheduled = False, rt_catchupSyncInFlight = False,
     rt_drainScheduled = False, rt_progressionGap = False, rt_progressionGapSequence = 0,
     rt_pipelines = fmempty, rt_nextPipeline = 0, rt_out = []\<rparr>"

definition emit :: "slot_effect \<Rightarrow> slot_runtime \<Rightarrow> slot_runtime" where
  "emit e rt = rt\<lparr>rt_out := rt_out rt @ [e]\<rparr>"

definition reply :: "channel option \<Rightarrow> storage_err option \<Rightarrow> slot_runtime \<Rightarrow> slot_runtime" where
  "reply resp err rt = (case resp of None \<Rightarrow> rt | Some c \<Rightarrow> emit (EffReply c err) rt)"

definition node_buffered :: "node_env \<Rightarrow> slot_runtime \<Rightarrow> int" where
  "node_buffered env rt = ne_othersBuffered env +
     (if rt_exists rt then reduceTotalBufferedMessages (rt_record rt) else 0)"

definition buffer_limits_of :: "node_env \<Rightarrow> slot_runtime \<Rightarrow> buffer_limits" where
  "buffer_limits_of env rt = \<lparr>bl_perSlotLimit = ne_slotLimit env, bl_perNodeLimit = ne_nodeLimit env,
     bl_nodeBufferedNow = node_buffered env rt\<rparr>"

text \<open>The sequences after \<open>lo\<close> up to \<open>hi\<close>, as a loop \<open>for seq := lo+1; seq <= hi; seq++\<close> visits them.\<close>

definition seqs_upto :: "u64 \<Rightarrow> u64 \<Rightarrow> u64 list" where
  "seqs_upto lo hi = map (\<lambda>i. lo + of_nat (i + 1)) [0..<unat hi - unat lo]"

section \<open>The ledger of accepted commits\<close>

definition acceptedCommit :: "slot_runtime \<Rightarrow> u64 \<Rightarrow> accepted_entry option" where
  "acceptedCommit rt sequence = fmlookup (rt_acceptedCommits rt) sequence"

definition set_stage :: "u64 \<Rightarrow> acceptedCommitStage \<Rightarrow> acceptedCommitStage \<Rightarrow> slot_runtime \<Rightarrow> slot_runtime" where
  "set_stage sequence old new rt =
     (case acceptedCommit rt sequence of
        Some entry \<Rightarrow> if ac_stage entry = old
          then rt\<lparr>rt_acceptedCommits := fmupd sequence (entry\<lparr>ac_stage := new\<rparr>) (rt_acceptedCommits rt)\<rparr> else rt
      | None \<Rightarrow> rt)"

definition acceptedCommitEntryWithStrict :: "u64 \<Rightarrow> commit_request \<Rightarrow> bool \<Rightarrow> slot_runtime \<Rightarrow> accepted_entry \<times> slot_runtime" where
  "acceptedCommitEntryWithStrict sequence req strict rt =
     (let entry = (case acceptedCommit rt sequence of
                     Some e \<Rightarrow> e
                   | None \<Rightarrow> \<lparr>ac_request = req, ac_stage = acceptedCommitWaitingForTurn, ac_strict = strict, ac_waiters = []\<rparr>);
          entry' = (if strict then entry\<lparr>ac_strict := True\<rparr> else entry)
      in (entry', rt\<lparr>rt_acceptedCommits := fmupd sequence entry' (rt_acceptedCommits rt)\<rparr>))"

definition acceptedCommitWaiterResult :: "node_env \<Rightarrow> channel \<Rightarrow> storage_err option \<Rightarrow> storage_err option" where
  "acceptedCommitWaiterResult env waiter err = (case err of Some e \<Rightarrow> Some e | None \<Rightarrow> ne_ctxErr env waiter)"

definition releaseAcceptedCommitWaiters :: "node_env \<Rightarrow> u64 \<Rightarrow> storage_err option \<Rightarrow> slot_runtime \<Rightarrow> slot_runtime" where
  "releaseAcceptedCommitWaiters env sequence err rt =
     (case acceptedCommit rt sequence of
        None \<Rightarrow> rt
      | Some entry \<Rightarrow>
          fold (\<lambda>w. emit (EffReply w (acceptedCommitWaiterResult env w err))) (ac_waiters entry)
            (rt\<lparr>rt_acceptedCommits := fmupd sequence (entry\<lparr>ac_waiters := []\<rparr>) (rt_acceptedCommits rt)\<rparr>))"

definition deleteAcceptedCommit :: "u64 \<Rightarrow> slot_runtime \<Rightarrow> slot_runtime" where
  "deleteAcceptedCommit sequence rt = rt\<lparr>rt_acceptedCommits := fmdrop sequence (rt_acceptedCommits rt)\<rparr>"

definition parkAcceptedCommitWaiter :: "u64 \<Rightarrow> channel \<Rightarrow> slot_runtime \<Rightarrow> slot_runtime" where
  "parkAcceptedCommitWaiter sequence resp rt =
     (case acceptedCommit rt sequence of
        None \<Rightarrow> rt
      | Some entry \<Rightarrow> rt\<lparr>rt_acceptedCommits :=
          fmupd sequence (entry\<lparr>ac_waiters := ac_waiters entry @ [resp]\<rparr>) (rt_acceptedCommits rt)\<rparr>)"

text \<open>Go visits the ledger in no fixed order; each entry is released on its own, so any order will do.\<close>

definition pruneAcceptedCommits :: "node_env \<Rightarrow> replica_record \<Rightarrow> slot_runtime \<Rightarrow> slot_runtime" where
  "pruneAcceptedCommits env record rt =
     fold (\<lambda>sequence rt. case acceptedCommit rt sequence of
             None \<Rightarrow> rt
           | Some entry \<Rightarrow>
               if sequence \<le> rr_highestCommittedSequence record \<or> ac_stage entry = acceptedCommitApplied
               then deleteAcceptedCommit sequence (releaseAcceptedCommitWaiters env sequence None rt)
               else rt)
       (sorted_list_of_fset (fmdom (rt_acceptedCommits rt))) rt"

definition clearAcceptedCommits :: "node_env \<Rightarrow> storage_err \<Rightarrow> slot_runtime \<Rightarrow> slot_runtime" where
  "clearAcceptedCommits env err rt =
     fold (\<lambda>sequence rt. deleteAcceptedCommit sequence (releaseAcceptedCommitWaiters env sequence (Some err) rt))
       (sorted_list_of_fset (fmdom (rt_acceptedCommits rt))) rt"

definition syncAcceptedCommitsFromRecord :: "node_env \<Rightarrow> replica_record \<Rightarrow> slot_runtime \<Rightarrow> slot_runtime" where
  "syncAcceptedCommitsFromRecord env record rt =
     pruneAcceptedCommits env record
       (fold (\<lambda>sequence rt. case fmlookup (rr_bufferedCommits record) sequence of
                None \<Rightarrow> rt
              | Some req \<Rightarrow>
                  if sequence \<le> rr_highestCommittedSequence record \<or> fm_has (rt_acceptedCommits rt) sequence then rt
                  else rt\<lparr>rt_acceptedCommits := fmupd sequence
                         \<lparr>ac_request = req, ac_stage = acceptedCommitWaitingForTurn, ac_strict = False, ac_waiters = []\<rparr>
                         (rt_acceptedCommits rt)\<rparr>)
          (sorted_list_of_fset (fmdom (rr_bufferedCommits record))) rt)"

section \<open>The record\<close>

definition setRecord :: "node_env \<Rightarrow> replica_record \<Rightarrow> slot_runtime \<Rightarrow> slot_runtime" where
  "setRecord env record rt =
     (let rt1 = pruneAcceptedCommits env record (rt\<lparr>rt_exists := True, rt_record := record\<rparr>)
      in if rt_exists rt then rt1 else emit EffAllowSlot rt1)"

definition removeRecord :: "node_env \<Rightarrow> slot_runtime \<Rightarrow> slot_runtime" where
  "removeRecord env rt =
     (clearAcceptedCommits env err_canceled
        (rt\<lparr>rt_exists := False, rt_record := zero_record, rt_committedMetadata := fmempty\<rparr>))
     \<lparr>rt_upstreamCommitHighSent := 0, rt_preparedReplayRetryScheduled := False, rt_progressionGap := False,
      rt_progressionGapSequence := 0\<rparr>"

definition rememberCommittedMetadata :: "string \<Rightarrow> object_metadata option \<Rightarrow> slot_runtime \<Rightarrow> slot_runtime" where
  "rememberCommittedMetadata key metadata rt =
     (if key = [] then rt else rt\<lparr>rt_committedMetadata := fmupd key metadata (rt_committedMetadata rt)\<rparr>)"

definition rememberCommittedOperation :: "write_operation \<Rightarrow> slot_runtime \<Rightarrow> slot_runtime" where
  "rememberCommittedOperation operation rt =
     (case wo_Kind operation of
        OperationKindPut \<Rightarrow> rememberCommittedMetadata (wo_Key operation) (Some (wo_Metadata operation)) rt
      | OperationKindDelete \<Rightarrow> rememberCommittedMetadata (wo_Key operation) None rt
      | OperationKindOther _ \<Rightarrow> rt)"

definition committedMetadataState ::
  "node_env \<Rightarrow> string \<Rightarrow> slot_runtime \<Rightarrow> (storage_err + object_metadata option) \<times> slot_runtime" where
  "committedMetadataState env key rt =
     (case recordCommittedOverlayObject (rt_record rt) key of
        Some overlay \<Rightarrow> (Inr (map_option co_Metadata overlay),
                         rememberCommittedMetadata key (map_option co_Metadata overlay) rt)
      | None \<Rightarrow> (case fmlookup (rt_committedMetadata rt) key of
          Some entry \<Rightarrow> (Inr entry, rt)
        | None \<Rightarrow> (case ne_getCommitted env key of
            Inl e \<Rightarrow> (Inl e, rt)
          | Inr object \<Rightarrow> (Inr (map_option co_Metadata object),
                           rememberCommittedMetadata key (map_option co_Metadata object) rt))))"

definition mirrorAcceptedCommit ::
  "node_env \<Rightarrow> slot_runtime \<Rightarrow> replica_record \<Rightarrow> commit_request \<Rightarrow> storage_err + replica_record" where
  "mirrorAcceptedCommit env rt record req =
     (if cr_Sequence req \<le> rr_highestCommittedSequence record then Inr record
      else case fmlookup (rr_bufferedCommits record) (cr_Sequence req) of
             Some existing \<Rightarrow> if sameCommitRequest existing req then Inr record else Inl ErrProtocolConflict
           | None \<Rightarrow> reduceBufferFutureCommit record req (buffer_limits_of env rt))"

text \<open>The loop that moves the token over buffered commits that have become next in line.\<close>

function ingest_ready :: "replica_record \<Rightarrow> replica_record" where
  "ingest_ready record =
     (let upcoming = rr_highestCommitTokenReceived record + 1
      in if fm_has (rr_bufferedCommits record) upcoming
         then ingest_ready (record\<lparr>rr_bufferedCommits := fmdrop upcoming (rr_bufferedCommits record),
                                  rr_highestCommitTokenReceived := upcoming\<rparr>)
         else record)"
  by pat_completeness auto

termination ingest_ready
proof (relation "measure (\<lambda>r. fcard (fmdom (rr_bufferedCommits r)))")
  fix r :: replica_record and upcoming
  assume "upcoming = rr_highestCommitTokenReceived r + 1" "fm_has (rr_bufferedCommits r) upcoming"
  then have "fcard (fmdom (rr_bufferedCommits r) |-| {|upcoming|}) < fcard (fmdom (rr_bufferedCommits r))"
    by (intro fcard_fminus1_less) (simp add: fm_has_dom)
  then show "(r\<lparr>rr_bufferedCommits := fmdrop upcoming (rr_bufferedCommits r),
      rr_highestCommitTokenReceived := upcoming\<rparr>, r) \<in> measure (\<lambda>r. fcard (fmdom (rr_bufferedCommits r)))" by simp
qed simp

definition ingestCommitToken :: "replica_record \<Rightarrow> commit_request \<Rightarrow> replica_record" where
  "ingestCommitToken record req =
     (if cr_Sequence req \<le> rr_highestCommitTokenReceived record
      then record\<lparr>rr_bufferedCommits := fmdrop (cr_Sequence req) (rr_bufferedCommits record)\<rparr>
      else if cr_Sequence req = rr_highestCommitTokenReceived record + 1
      then ingest_ready (record\<lparr>rr_highestCommitTokenReceived := cr_Sequence req,
             rr_bufferedCommits := fmdrop (cr_Sequence req) (rr_bufferedCommits record)\<rparr>)
      else record\<lparr>rr_bufferedCommits := fmupd (cr_Sequence req) req (rr_bufferedCommits record)\<rparr>)"

definition syntheticCommitRequest :: "replica_record \<Rightarrow> u64 \<Rightarrow> commit_request option" where
  "syntheticCommitRequest record sequence =
     map_option (\<lambda>expected. \<lparr>cr_Slot = ra_Slot (rr_assignment record), cr_Sequence = sequence,
        cr_FromNodeID = cs_FromNodeID expected, cr_ChainVersion = cs_ChainVersion expected\<rparr>)
       (fmlookup (rr_expectedCommitSources record) sequence)"

definition contiguousPreparedHighWater :: "replica_record \<Rightarrow> u64" where
  "contiguousPreparedHighWater record = rr_highestPreparedDurable record"

definition activeRecord :: "slot_runtime \<Rightarrow> storage_err + replica_record" where
  "activeRecord rt =
     (if \<not> rt_exists rt then Inl ErrUnknownReplica
      else if rt_progressionGap rt then Inl ErrStateMismatch
      else if rr_state (rt_record rt) \<noteq> ReplicaStateActive_s then Inl ErrWriteRejected
      else Inr (rt_record rt))"

definition replicationRecord :: "slot_runtime \<Rightarrow> storage_err + replica_record" where
  "replicationRecord rt =
     (if \<not> rt_exists rt then Inl ErrUnknownReplica
      else if rr_state (rt_record rt) \<noteq> ReplicaStateActive_s \<and> rr_state (rt_record rt) \<noteq> ReplicaStateCatchingUp_s
      then Inl ErrWriteRejected
      else Inr (rt_record rt))"

section \<open>Preparing and forwarding\<close>

definition persisted_prepare :: "replica_record \<Rightarrow> write_operation \<Rightarrow> durable_commit" where
  "persisted_prepare record operation = \<lparr>dc_Operation = operation, dc_Persisted = persistedReplica record,
     dc_UpstreamConfirmedSequence = 0\<rparr>"

text \<open>
  \<open>prepareForwardPipeline.resolve\<close>: records one outcome and returns the callback to run when
  the pipeline finishes with it.
\<close>

definition resolve :: "nat \<Rightarrow> bool \<Rightarrow> storage_err option \<Rightarrow> slot_runtime \<Rightarrow> on_complete option \<times> slot_runtime" where
  "resolve p prepareDone err rt =
     (case fmlookup (rt_pipelines rt) p of
        None \<Rightarrow> (None, rt)
      | Some pipeline \<Rightarrow>
          let store = (\<lambda>pl. rt\<lparr>rt_pipelines := fmupd p pl (rt_pipelines rt)\<rparr>);
              finish = (\<lambda>pl. (Some (fp_onComplete pl), store (pl\<lparr>fp_finished := True\<rparr>)))
          in if fp_finished pipeline then (None, rt)
             else if err \<noteq> None then finish pipeline
             else if prepareDone then
               (let pl = pipeline\<lparr>fp_prepareDone := True\<rparr> in if fp_forwardDone pl then finish pl else (None, store pl))
             else
               (let pl = pipeline\<lparr>fp_forwardDone := True\<rparr> in if fp_prepareDone pl then finish pl else (None, store pl)))"

text \<open>The callbacks' error branches, which touch nothing but the waiting client or peer.\<close>

definition onComplete_failed :: "on_complete \<Rightarrow> storage_err \<Rightarrow> slot_runtime \<Rightarrow> slot_runtime" where
  "onComplete_failed k err rt =
     (case k of OnHeadWrite s \<Rightarrow> emit (EffWaiter s (Some err)) rt | OnForward resp \<Rightarrow> reply resp (Some err) rt)"

definition resolve_failed :: "nat \<Rightarrow> bool \<Rightarrow> storage_err \<Rightarrow> slot_runtime \<Rightarrow> slot_runtime" where
  "resolve_failed p prepareDone err rt =
     (case resolve p prepareDone (Some err) rt of
        (None, rt1) \<Rightarrow> rt1 | (Some k, rt1) \<Rightarrow> onComplete_failed k err rt1)"

definition afterPrepare_failed :: "after_prepare \<Rightarrow> storage_err \<Rightarrow> slot_runtime \<Rightarrow> slot_runtime" where
  "afterPrepare_failed after err rt =
     (case after of
        AfterSingle s \<Rightarrow> emit (EffWaiter s (Some err)) rt
      | AfterTail resp \<Rightarrow> reply resp (Some err) rt
      | AfterPipeline p \<Rightarrow> resolve_failed p True err rt)"

definition startPrepareEffect ::
  "node_env \<Rightarrow> replica_record \<Rightarrow> write_operation \<Rightarrow> after_prepare \<Rightarrow> slot_runtime \<Rightarrow> slot_runtime" where
  "startPrepareEffect env record operation after rt =
     (case ne_journalErr env of
        None \<Rightarrow> emit (EffPrepare (persisted_prepare record operation) after) rt
      | Some err \<Rightarrow> afterPrepare_failed after err rt)"

definition successor_key :: "replica_record \<Rightarrow> peer_key" where
  "successor_key record = \<lparr>pk_version = rr_version record, pk_nodeID = SuccessorNodeID (rr_peers record),
     pk_target = SuccessorTarget (rr_peers record)\<rparr>"

definition forward_of :: "node_env \<Rightarrow> replica_record \<Rightarrow> write_operation \<Rightarrow> forward_request" where
  "forward_of env record operation = \<lparr>fr_Operation = operation, fr_FromNodeID = ne_nodeID env,
     fr_ChainVersion = rr_version record\<rparr>"

text \<open>The closure \<open>dispatchForward\<close> for a record that has a successor.\<close>

definition dispatchForward ::
  "node_env \<Rightarrow> nat \<Rightarrow> write_operation \<Rightarrow> replica_record \<Rightarrow> slot_runtime \<Rightarrow> storage_err option \<times> slot_runtime" where
  "dispatchForward env p operation record rt =
     (case ne_forwardErr env of
        Some err \<Rightarrow> (Some err, rt)
      | None \<Rightarrow> (None, emit (EffForward
          (peerTransportTarget (SuccessorTarget (rr_peers record)) (SuccessorNodeID (rr_peers record)))
          (forward_of env record operation) p (successor_key record)) rt))"

definition startPreparedForwardPipeline ::
  "node_env \<Rightarrow> replica_record \<Rightarrow> write_operation \<Rightarrow> on_complete \<Rightarrow> slot_runtime \<Rightarrow> storage_err option \<times> slot_runtime" where
  "startPreparedForwardPipeline env record operation k rt =
     (if SuccessorNodeID (rr_peers record) = [] then (Some ErrStateMismatch, rt)
      else let p = rt_nextPipeline rt;
               rt1 = rt\<lparr>rt_pipelines := fmupd p \<lparr>fp_prepareDone = False, fp_forwardDone = False, fp_finished = False,
                          fp_operation = operation, fp_onComplete = k\<rparr> (rt_pipelines rt),
                        rt_nextPipeline := p + 1\<rparr>;
               rt2 = startPrepareEffect env record operation (AfterPipeline p) rt1
           in case dispatchForward env p operation record rt2 of
                (Some err, rt3) \<Rightarrow> (Some err, resolve_failed p False err rt3)
              | (None, rt3) \<Rightarrow> (None, rt3))"

text \<open>
  \<open>applyForward\<close> and \<open>applyForwardAccepted\<close> differ in the metrics and events they record, and
  in that only the first is ever given no reply channel.
\<close>

definition applyForward :: "node_env \<Rightarrow> forward_request \<Rightarrow> channel option \<Rightarrow> slot_runtime \<Rightarrow> slot_runtime" where
  "applyForward env req resp rt =
     (if \<not> rt_exists rt then reply resp (Some ErrUnknownReplica) rt
      else if SuccessorNodeID (rr_peers (rt_record rt)) = []
      then startPrepareEffect env (rt_record rt) (fr_Operation req) (AfterTail resp) rt
      else case startPreparedForwardPipeline env (rt_record rt) (fr_Operation req) (OnForward resp) rt of
             (None, rt1) \<Rightarrow> rt1
           | (Some err, rt1) \<Rightarrow> reply resp (Some err) rt1)"

section \<open>Confirming upstream, gaps, catching up\<close>

definition ensureUpstreamCommitReplay :: "node_env \<Rightarrow> slot_runtime \<Rightarrow> slot_runtime" where
  "ensureUpstreamCommitReplay env rt =
     (let record = rt_record rt; peers = rr_peers record; committed = rr_highestCommittedSequence record
      in if \<not> rt_exists rt then rt
         else if PredecessorNodeID peers = [] then
           (if rr_highestUpstreamConfirmedSequence record \<noteq> committed
            then setRecord env (record\<lparr>rr_highestUpstreamConfirmedSequence := committed\<rparr>) rt else rt)
         else if rt_upstreamCommitInFlight rt \<or> committed \<le> rr_highestUpstreamConfirmedSequence record then rt
         else emit (EffCommitAdvance (peerTransportTarget (PredecessorTarget peers) (PredecessorNodeID peers))
                \<lparr>ca_Slot = rt_slot rt, ca_CommittedThrough = committed, ca_FromNodeID = ne_nodeID env,
                 ca_ChainVersion = rr_version record\<rparr>
                \<lparr>pk_version = rr_version record, pk_nodeID = PredecessorNodeID peers,
                 pk_target = PredecessorTarget peers\<rparr>)
              (rt\<lparr>rt_upstreamCommitInFlight := True, rt_upstreamCommitHighSent := committed\<rparr>))"

definition enterProgressionGap :: "u64 \<Rightarrow> slot_runtime \<Rightarrow> slot_runtime" where
  "enterProgressionGap sequence rt =
     (if sequence = 0 then rt else rt\<lparr>rt_progressionGap := True, rt_progressionGapSequence := sequence\<rparr>)"

definition clearProgressionGap :: "slot_runtime \<Rightarrow> slot_runtime" where
  "clearProgressionGap rt =
     (if rt_progressionGap rt then rt\<lparr>rt_progressionGap := False, rt_progressionGapSequence := 0\<rparr> else rt)"

definition buildPredecessorSyncPlan :: "slot_runtime \<Rightarrow> storage_err + sync_plan option" where
  "buildPredecessorSyncPlan rt =
     (let record = rt_record rt; peers = rr_peers record
      in if \<not> rt_exists rt then Inl ErrUnknownReplica
         else if PredecessorNodeID peers = [] then Inr None
         else Inr (Some \<lparr>sp_sourceNodeID = PredecessorNodeID peers, sp_sourceTarget = PredecessorTarget peers,
                         sp_chainVersion = rr_version record, sp_currentHighest = rr_highestCommittedSequence record\<rparr>))"

definition hasBufferedGap :: "slot_runtime \<Rightarrow> bool" where
  "hasBufferedGap rt =
     (let record = rt_record rt; upcoming = rr_highestCommittedSequence record + 1
      in rt_exists rt \<and> PredecessorNodeID (rr_peers record) \<noteq> [] \<and>
         (list_ex (\<lambda>s. upcoming < s) (sorted_list_of_fset (fmdom (rr_bufferedForwards record))) \<or>
          list_ex (\<lambda>s. upcoming < s) (sorted_list_of_fset (fmdom (rr_bufferedCommits record)))))"

definition ensureGapCatchup :: "slot_runtime \<Rightarrow> slot_runtime" where
  "ensureGapCatchup rt =
     (if \<not> hasBufferedGap rt \<or> rt_catchupSyncInFlight rt then rt
      else case buildPredecessorSyncPlan rt of
             Inr (Some plan) \<Rightarrow> emit (EffFetchSnapshot plan) (rt\<lparr>rt_catchupSyncInFlight := True\<rparr>)
           | _ \<Rightarrow> rt)"

definition enqueueMaterializationUpTo :: "u64 \<Rightarrow> slot_runtime \<Rightarrow> slot_runtime" where
  "enqueueMaterializationUpTo sequence rt =
     (if \<not> rt_exists rt \<or> sequence = 0 then rt
      else let record = rt_record rt;
               commits = List.map_filter (\<lambda>s. map_option (persisted_prepare record) (fmlookup (rr_preparedEntries record) s))
                           (seqs_upto (rr_materializedCommittedSequence record) sequence)
           in if commits = [] then rt else emit (EffMaterialize commits) rt)"

section \<open>Moving the commit cursor\<close>

text \<open>
  The loop of \<open>applyCommitWatermark\<close> over the sequences to commit.  It stops at a sequence that
  cannot be committed (\<open>Inl\<close>).
\<close>

fun commit_loop :: "node_env \<Rightarrow> u64 list \<Rightarrow> replica_record \<Rightarrow> slot_runtime
    \<Rightarrow> (u64 \<times> replica_record + replica_record) \<times> slot_runtime" where
  "commit_loop env [] record rt = (Inr record, rt)"
| "commit_loop env (s # ss) record rt =
     (case reduceCommittableOperation record s of
        Inl _ \<Rightarrow> (Inl (s, record), rt)
      | Inr operation \<Rightarrow>
          let r1 = reduceApplyCommittedSequence record operation s (ne_slotLimit env);
              r2 = (case syntheticCommitRequest record s of
                      None \<Rightarrow> r1 | Some req \<Rightarrow> reduceRecordCommitApplied r1 req (ne_slotLimit env));
              r3 = recordWithCommittedOverlay r2 operation;
              rt1 = rememberCommittedOperation operation rt;
              rt2 = (if fm_has (rr_pendingWrites record) s then emit (EffWaiter s None) rt1 else rt1)
          in commit_loop env ss r3 (deleteAcceptedCommit s (releaseAcceptedCommitWaiters env s None rt2)))"

text \<open>
  Records share their maps: when the loop stops half way the runtime's record keeps its
  cursors and its order lists but its maps have been changed in place.
\<close>

definition shared_maps :: "replica_record \<Rightarrow> replica_record \<Rightarrow> replica_record" where
  "shared_maps old new = old\<lparr>
     rr_pendingWrites := rr_pendingWrites new, rr_preparedEntries := rr_preparedEntries new,
     rr_expectedCommitSources := rr_expectedCommitSources new, rr_stagedForwards := rr_stagedForwards new,
     rr_bufferedForwards := rr_bufferedForwards new, rr_bufferedCommits := rr_bufferedCommits new,
     rr_recentCommittedForwards := rr_recentCommittedForwards new,
     rr_recentCommittedCommits := rr_recentCommittedCommits new, rr_dirtyByKey := rr_dirtyByKey new,
     rr_committedOverlay := rr_committedOverlay new\<rparr>"

definition finish_watermark :: "node_env \<Rightarrow> u64 \<Rightarrow> replica_record \<Rightarrow> slot_runtime \<Rightarrow> slot_runtime" where
  "finish_watermark env sequence record rt =
     (let rt1 = (if rt_commitEffectInFlight rt \<and> rt_commitEffectSequence rt \<noteq> 0 \<and> rt_commitEffectSequence rt \<le> sequence
                 then rt\<lparr>rt_commitEffectInFlight := False, rt_commitEffectSequence := 0\<rparr> else rt);
          record1 = (if PredecessorNodeID (rr_peers record) = []
                     then record\<lparr>rr_highestUpstreamConfirmedSequence := sequence\<rparr> else record)
      in ensureUpstreamCommitReplay env (enqueueMaterializationUpTo sequence (setRecord env record1 rt1)))"

definition ready_sequence :: "replica_record \<Rightarrow> u64" where
  "ready_sequence record = min (rr_highestCommitTokenReceived record) (contiguousPreparedHighWater record)"

definition is_head :: "replica_record \<Rightarrow> bool" where
  "is_head record = (ra_Role (rr_assignment record) = ReplicaRoleHead \<or> ra_Role (rr_assignment record) = ReplicaRoleSingle)"

text \<open>The part of \<open>submitCommitWatermarkReady\<close> for a head: the commit range goes to the journal first.\<close>

definition submit_head_range :: "node_env \<Rightarrow> replica_record \<Rightarrow> u64 \<Rightarrow> slot_runtime \<Rightarrow> slot_runtime" where
  "submit_head_range env record ready rt =
     (let seqs = seqs_upto (rr_highestCommittedSequence record) ready;
          rt1 = fold (\<lambda>s. set_stage s acceptedCommitWaitingForTurn acceptedCommitDurableInFlight) seqs rt;
          rt2 = rt1\<lparr>rt_commitEffectInFlight := True, rt_commitEffectSequence := max (rt_commitEffectSequence rt1) ready,
                    rt_highestWatermarkSent := ready\<rparr>
      in case ne_journalErr env of
           None \<Rightarrow> emit (EffHeadCommitRange (rr_assignment record) ready) rt2
         | Some _ \<Rightarrow>
             fold (\<lambda>s. set_stage s acceptedCommitDurableInFlight acceptedCommitWaitingForTurn) seqs
               (rt2\<lparr>rt_highestWatermarkSent := rr_highestCommittedSequence record,
                    rt_commitEffectInFlight := False, rt_commitEffectSequence := 0\<rparr>))"

text \<open>What \<open>drainReadyBuffered\<close> does once progress has been made and no commit is in flight.\<close>

datatype drain_step =
    DrainForward forward_request replica_record
  | DrainCommit u64 commit_request
  | DrainStop
  | DrainGap

definition drain_choice :: "node_env \<Rightarrow> slot_runtime \<Rightarrow> drain_step" where
  "drain_choice env rt =
     (let record = rt_record rt; nextCommit = rr_highestCommittedSequence record + 1
      in case fmlookup (rr_bufferedForwards record) (rr_nextSequence record) of
           Some req \<Rightarrow> (case reduceForwardWrite record req (buffer_limits_of env rt) of
               Inr (record', slotReducerActionApply) \<Rightarrow> DrainForward req record' | _ \<Rightarrow> DrainStop)
         | None \<Rightarrow> (case fmlookup (rr_bufferedCommits record) nextCommit of
             Some req \<Rightarrow> if reduceHasCommittableSequence record nextCommit then DrainCommit nextCommit req else DrainGap
           | None \<Rightarrow> DrainGap))"

text \<open>
  \<open>applyCommitWatermark\<close> ends by draining, and draining may apply a watermark again.  The five
  functions below take the draining they end with as their first argument;
  \<open>drainReadyBuffered\<close> ties the knot, on fuel.
\<close>

type_synonym drainer = "slot_runtime \<Rightarrow> slot_runtime option"

definition applyCommitWatermark :: "drainer \<Rightarrow> node_env \<Rightarrow> u64 \<Rightarrow> slot_runtime \<Rightarrow> slot_runtime option" where
  "applyCommitWatermark drain env sequence rt =
     (let record = rt_record rt; committed = rr_highestCommittedSequence record;
          sequence' = min sequence (ready_sequence record)
      in if \<not> rt_exists rt \<or> sequence \<le> committed \<or> sequence' \<le> committed then Some rt
         else case commit_loop env (seqs_upto committed sequence') record rt of
                (Inl (s, record'), rt1) \<Rightarrow>
                  Some (enterProgressionGap s (rt1\<lparr>rt_record := shared_maps record record'\<rparr>))
              | (Inr record', rt1) \<Rightarrow> drain (finish_watermark env sequence' record' rt1))"

definition reconcileDurableCommitProgress :: "drainer \<Rightarrow> node_env \<Rightarrow> slot_runtime \<Rightarrow> (bool \<times> slot_runtime) option" where
  "reconcileDurableCommitProgress drain env rt =
     (let record = rt_record rt; d = min (ne_durable env) (ready_sequence record)
      in if \<not> rt_exists rt \<or> \<not> rt_commitEffectInFlight rt \<or> rt_commitEffectSequence rt = 0 \<or>
            ne_durable env < rt_commitEffectSequence rt then Some (False, rt)
         else if d \<le> rr_highestCommittedSequence record
         then Some (True, rt\<lparr>rt_commitEffectInFlight := False, rt_commitEffectSequence := 0\<rparr>)
         else map_option (Pair True) (applyCommitWatermark drain env d rt))"

definition detectAcceptedCommitGap ::
  "drainer \<Rightarrow> node_env \<Rightarrow> replica_record \<Rightarrow> slot_runtime \<Rightarrow> (bool \<times> slot_runtime) option" where
  "detectAcceptedCommitGap drain env record rt =
     (let rt1 = syncAcceptedCommitsFromRecord env record rt; upcoming = rr_highestCommittedSequence record + 1
      in if acceptedCommit rt1 upcoming \<noteq> None \<or>
            \<not> rt_commitEffectInFlight rt1 \<and> rt_acceptedCommits rt1 = fmempty \<or>
            ne_durable env < upcoming
         then Some (False, clearProgressionGap rt1)
         else do {
           (reconciled, rt2) \<leftarrow> reconcileDurableCommitProgress drain env rt1;
           if reconciled then Some (False, clearProgressionGap rt2)
           else let rt3 = enterProgressionGap upcoming rt2 in Some (rt_progressionGap rt3, rt3) })"

definition submitCommitWatermarkReady :: "drainer \<Rightarrow> node_env \<Rightarrow> replica_record \<Rightarrow> slot_runtime \<Rightarrow> slot_runtime option" where
  "submitCommitWatermarkReady drain env record rt =
     (let raised = (SuccessorNodeID (rr_peers record) = [] \<and>
                    rr_highestCommitTokenReceived record < rr_highestPreparedDurable record);
          record1 = (if raised then record\<lparr>rr_highestCommitTokenReceived := rr_highestPreparedDurable record\<rparr> else record);
          rt1 = (if raised then setRecord env record1 rt else rt);
          ready = ready_sequence record1; committed = rr_highestCommittedSequence record1
      in if \<not> is_head record1 then
           (if committed < ready then applyCommitWatermark drain env ready rt1
            else Some (ensureUpstreamCommitReplay env rt1))
         else if ready \<le> committed \<or> ready \<le> rt_highestWatermarkSent rt1 then Some rt1
         else Some (submit_head_range env record1 ready rt1))"

text \<open>The loop of \<open>advanceAcceptedCommitProgress\<close> takes fuel of its own.\<close>

fun advanceAcceptedCommitProgress :: "nat \<Rightarrow> drainer \<Rightarrow> node_env \<Rightarrow> slot_runtime \<Rightarrow> slot_runtime option" where
  "advanceAcceptedCommitProgress 0 drain env rt = None"
| "advanceAcceptedCommitProgress (Suc n) drain env rt =
     (if \<not> rt_exists rt then Some rt
      else let record = rt_record rt in do {
        (gap, rt2) \<leftarrow> detectAcceptedCommitGap drain env record (syncAcceptedCommitsFromRecord env record rt);
        if gap then Some rt2
        else do {
          (again, rt3) \<leftarrow> (if rt_commitEffectInFlight rt2 then reconcileDurableCommitProgress drain env rt2 else Some (False, rt2));
          if again then advanceAcceptedCommitProgress n drain env rt3
          else if rr_highestCommittedSequence record < ready_sequence record \<and> rt_highestWatermarkSent rt3 < ready_sequence record
          then submitCommitWatermarkReady drain env record rt3
          else Some rt3 }})"

fun drainReadyBuffered :: "nat \<Rightarrow> node_env \<Rightarrow> channel option \<Rightarrow> slot_runtime \<Rightarrow> slot_runtime option" where
  "drainReadyBuffered 0 env resp rt = None"
| "drainReadyBuffered (Suc n) env resp rt =
     (let drain = drainReadyBuffered n env None
      in if \<not> rt_exists rt then Some (reply resp None rt)
         else do {
           (_, rt1) \<leftarrow> reconcileDurableCommitProgress drain env rt;
           rt2 \<leftarrow> advanceAcceptedCommitProgress n drain env rt1;
           if rt_commitEffectInFlight rt2 then Some (reply resp None rt2)
           else case drain_choice env rt2 of
                  DrainForward req record' \<Rightarrow> Some (applyForward env req resp (setRecord env record' rt2))
                | DrainCommit upcoming req \<Rightarrow> do {
                    rt3 \<leftarrow> advanceAcceptedCommitProgress n drain env (snd (acceptedCommitEntryWithStrict upcoming req False rt2));
                    Some (reply resp None rt3) }
                | DrainGap \<Rightarrow> Some (reply resp None (ensureGapCatchup rt2))
                | DrainStop \<Rightarrow> Some (reply resp None rt2) })"

end
