(* ===== verification/Slot_Handlers.thy ===== *)
theory Slot_Handlers
  imports Slot_Runtime
begin

text \<open>
  What a slot owner can be asked to run: requests of clients and peers, the completions of
  the effects it started, and its scheduled functions (\<open>storage/slot_owner.go\<close>).  Each handler
  takes the fuel of the draining it may end in.
\<close>

abbreviation drainer_of :: "nat \<Rightarrow> node_env \<Rightarrow> drainer" where
  "drainer_of n env \<equiv> drainReadyBuffered n env None"

section \<open>Client writes\<close>

definition tryAdmitNodeClientWrite :: "node_env \<Rightarrow> int \<Rightarrow> int \<Rightarrow> storage_err option" where
  "tryAdmitNodeClientWrite env slot slotCurrent =
     (if ne_maxWritesPerNode env > 0 \<and> ne_nodeInFlight env \<ge> ne_maxWritesPerNode env
      then Some (newWriteBackpressureError slot (ne_nodeInFlight env) (ne_maxWritesPerNode env))
      else if ne_maxWritesPerSlot env > 0 \<and> slotCurrent \<ge> ne_maxWritesPerSlot env
      then Some (newWriteBackpressureError slot slotCurrent (ne_maxWritesPerSlot env))
      else None)"

definition current_object :: "object_metadata option \<Rightarrow> committed_object" where
  "current_object metadata = zero_object\<lparr>co_Metadata := (case metadata of None \<Rightarrow> zero_metadata | Some m \<Rightarrow> m)\<rparr>"

definition write_of :: "node_env \<Rightarrow> slot_runtime \<Rightarrow> OperationKind \<Rightarrow> string \<Rightarrow> string \<Rightarrow> object_metadata option
    \<Rightarrow> write_operation" where
  "write_of env rt kind key val metadata = \<lparr>wo_Slot = rt_slot rt, wo_Sequence = rr_nextSequence (rt_record rt),
     wo_Kind = kind, wo_Key = key, wo_Value = val,
     wo_Metadata = nextObjectMetadata (ne_now env) (metadata \<noteq> None) metadata\<rparr>"

text \<open>The second half of \<open>handleSubmitWrite\<close>, after the write has been admitted.\<close>

definition submit_admitted :: "node_env \<Rightarrow> write_operation \<Rightarrow> channel \<Rightarrow> slot_runtime \<Rightarrow> slot_runtime" where
  "submit_admitted env operation resp rt =
     (let record = rt_record rt; sequence = wo_Sequence operation;
          (record', result) = reduceSubmitWrite
             (record\<lparr>rr_inFlightClientWrites := rr_inFlightClientWrites record + 1\<rparr>) operation;
          rt1 = setRecord env record' (emit EffAdmitWrite rt);
          rt2 = (if ra_Role (rr_assignment record') = ReplicaRoleSingle
                 then startPrepareEffect env record' operation (AfterSingle sequence) rt1
                 else if SuccessorNodeID (rr_peers record') = []
                 then emit (EffWaiter sequence (Some ErrStateMismatch)) rt1
                 else case startPreparedForwardPipeline env record' operation (OnHeadWrite sequence) rt1 of
                        (None, rt') \<Rightarrow> rt'
                      | (Some err, rt') \<Rightarrow> emit (EffWaiter sequence (Some err)) rt')
      in emit (EffSubmitReply resp (SubmitWaiting result)) rt2)"

definition handleSubmitWrite ::
  "node_env \<Rightarrow> OperationKind \<Rightarrow> string \<Rightarrow> string \<Rightarrow> write_conditions \<Rightarrow> channel \<Rightarrow> slot_runtime \<Rightarrow> slot_runtime" where
  "handleSubmitWrite env kind key val conditions resp rt =
     (let failed = (\<lambda>e rt. emit (EffSubmitReply resp (SubmitFailed e)) rt)
      in case activeRecord rt of
           Inl e \<Rightarrow> failed e rt
         | Inr record \<Rightarrow>
             if \<not> is_head record then failed ErrWriteRejected rt
             else case committedMetadataState env key rt of
                    (Inl e, rt1) \<Rightarrow> failed e rt1
                  | (Inr metadata, rt1) \<Rightarrow>
                      (case evaluateWriteConditions conditions (metadata \<noteq> None) (current_object metadata) of
                         Some e \<Rightarrow> failed e rt1
                       | None \<Rightarrow>
                           if kind = OperationKindDelete \<and> metadata = None
                           then emit (EffSubmitReply resp (SubmitDone
                                  \<lparr>cm_Slot = rt_slot rt, cm_Sequence = 0, cm_Applied = False, cm_Metadata = None\<rparr>)) rt1
                           else case tryAdmitNodeClientWrite env (rt_slot rt) (rr_inFlightClientWrites record) of
                                  Some e \<Rightarrow> failed e rt1
                                | None \<Rightarrow> submit_admitted env (write_of env rt1 kind key val metadata) resp rt1))"

definition releaseClientWrite :: "node_env \<Rightarrow> slot_runtime \<Rightarrow> slot_runtime" where
  "releaseClientWrite env rt =
     emit EffReleaseWrite
       (if \<not> rt_exists rt then rt
        else let record = rt_record rt
             in setRecord env (if rr_inFlightClientWrites record > 0
                  then record\<lparr>rr_inFlightClientWrites := rr_inFlightClientWrites record - 1\<rparr> else record) rt)"

section \<open>Completions\<close>

definition scheduleDrainReadyBuffered :: "slot_runtime \<Rightarrow> slot_runtime" where
  "scheduleDrainReadyBuffered rt =
     (if rt_drainScheduled rt then rt else emit EffScheduleDrain (rt\<lparr>rt_drainScheduled := True\<rparr>))"

definition scheduled_drain :: "nat \<Rightarrow> node_env \<Rightarrow> slot_runtime \<Rightarrow> slot_runtime option" where
  "scheduled_drain n env rt = drainReadyBuffered n env None (rt\<lparr>rt_drainScheduled := False\<rparr>)"

definition onComplete_ok :: "nat \<Rightarrow> node_env \<Rightarrow> on_complete \<Rightarrow> slot_runtime \<Rightarrow> slot_runtime option" where
  "onComplete_ok n env k rt =
     (case k of
        OnHeadWrite s \<Rightarrow> Some (if rt_exists rt then rt else emit (EffWaiter s (Some ErrUnknownReplica)) rt)
      | OnForward resp \<Rightarrow>
          if \<not> rt_exists rt then Some (reply resp (Some ErrUnknownReplica) rt)
          else do {
            rt1 \<leftarrow> (if SuccessorNodeID (rr_peers (rt_record rt)) = []
                    then submitCommitWatermarkReady (drainer_of n env) env (rt_record rt) rt else Some rt);
            Some (scheduleDrainReadyBuffered (reply resp None rt1)) })"

definition afterPrepare_ok :: "nat \<Rightarrow> node_env \<Rightarrow> after_prepare \<Rightarrow> slot_runtime \<Rightarrow> slot_runtime option" where
  "afterPrepare_ok n env after rt =
     (case after of
        AfterSingle s \<Rightarrow> Some rt
      | AfterTail resp \<Rightarrow> do {
          rt1 \<leftarrow> submitCommitWatermarkReady (drainer_of n env) env (rt_record rt) rt;
          Some (scheduleDrainReadyBuffered (reply resp None rt1)) }
      | AfterPipeline p \<Rightarrow> (case resolve p True None rt of
          (None, rt1) \<Rightarrow> Some rt1 | (Some k, rt1) \<Rightarrow> onComplete_ok n env k rt1))"

text \<open>The callback \<open>startPrepareEffect\<close> registers with the journal.\<close>

definition note_prepared :: "u64 \<Rightarrow> replica_record \<Rightarrow> replica_record" where
  "note_prepared sequence record =
     (let r1 = (if rr_highestPreparedDurable record < sequence
                then record\<lparr>rr_highestPreparedDurable := sequence\<rparr> else record)
      in if SuccessorNodeID (rr_peers r1) = [] \<and> rr_highestCommitTokenReceived r1 < sequence
         then r1\<lparr>rr_highestCommitTokenReceived := sequence\<rparr> else r1)"

definition prepare_done ::
  "nat \<Rightarrow> node_env \<Rightarrow> write_operation \<Rightarrow> after_prepare \<Rightarrow> storage_err option \<Rightarrow> slot_runtime \<Rightarrow> slot_runtime option" where
  "prepare_done n env operation after err rt =
     (case err of
        Some e \<Rightarrow> Some (afterPrepare_failed after e rt)
      | None \<Rightarrow> do {
          rt1 \<leftarrow> (if \<not> rt_exists rt then Some rt
                  else let current = note_prepared (wo_Sequence operation) (rt_record rt)
                       in submitCommitWatermarkReady (drainer_of n env) env current
                            (if current = rt_record rt then rt else setRecord env current rt));
          afterPrepare_ok n env after rt1 })"

text \<open>The callback of a forwarded write, which is sent again when the successor has changed.\<close>

definition forward_done :: "nat \<Rightarrow> node_env \<Rightarrow> nat \<Rightarrow> peer_key \<Rightarrow> storage_err option \<Rightarrow> slot_runtime \<Rightarrow> slot_runtime option" where
  "forward_done n env p key err rt =
     (let latest = rt_record rt;
          ok = (case resolve p False None rt of (None, rt1) \<Rightarrow> Some rt1 | (Some k, rt1) \<Rightarrow> onComplete_ok n env k rt1)
      in case err of
           Some e \<Rightarrow> Some (resolve_failed p False e rt)
         | None \<Rightarrow>
             if \<not> rt_exists rt then Some (resolve_failed p False ErrUnknownReplica rt)
             else if SuccessorNodeID (rr_peers latest) = [] then ok
             else if successor_key latest \<noteq> key then
               (case fmlookup (rt_pipelines rt) p of
                  None \<Rightarrow> Some rt
                | Some pipeline \<Rightarrow> (case dispatchForward env p (fp_operation pipeline) latest rt of
                    (None, rt1) \<Rightarrow> Some rt1
                  | (Some e, rt1) \<Rightarrow> Some (resolve_failed p False e rt1)))
             else ok)"

text \<open>The callback of the journal for a head's commit range.\<close>

definition head_range_done :: "nat \<Rightarrow> node_env \<Rightarrow> u64 \<Rightarrow> storage_err option \<Rightarrow> slot_runtime \<Rightarrow> slot_runtime option" where
  "head_range_done n env ready err rt =
     (case err of
        None \<Rightarrow> applyCommitWatermark (drainer_of n env) env ready rt
      | Some _ \<Rightarrow>
          let committed = rr_highestCommittedSequence (rt_record rt);
              rt1 = (if rt_highestWatermarkSent rt = ready then rt\<lparr>rt_highestWatermarkSent := committed\<rparr> else rt);
              rt2 = (if rt_commitEffectSequence rt1 \<le> ready
                     then rt1\<lparr>rt_commitEffectInFlight := False, rt_commitEffectSequence := 0\<rparr> else rt1)
          in Some (fold (\<lambda>s. set_stage s acceptedCommitDurableInFlight acceptedCommitWaitingForTurn)
                     (seqs_upto committed ready) rt2))"

definition predecessor_key :: "replica_record \<Rightarrow> peer_key" where
  "predecessor_key record = \<lparr>pk_version = rr_version record, pk_nodeID = PredecessorNodeID (rr_peers record),
     pk_target = PredecessorTarget (rr_peers record)\<rparr>"

definition persistUpstreamConfirmedSequenceAsync :: "node_env \<Rightarrow> replica_assignment \<Rightarrow> u64 \<Rightarrow> slot_runtime \<Rightarrow> slot_runtime" where
  "persistUpstreamConfirmedSequenceAsync env assignment sequence rt =
     (case ne_journalErr env of None \<Rightarrow> emit (EffConfirm assignment sequence) rt | Some _ \<Rightarrow> rt)"

definition upstream_done :: "node_env \<Rightarrow> u64 \<Rightarrow> peer_key \<Rightarrow> storage_err option \<Rightarrow> slot_runtime \<Rightarrow> slot_runtime" where
  "upstream_done env committedThrough key err rt =
     (let rt1 = rt\<lparr>rt_upstreamCommitInFlight := False\<rparr>; current = rt_record rt1;
          confirmed = rr_highestUpstreamConfirmedSequence current
      in if err \<noteq> None then
           (if committedThrough \<le> rt_upstreamCommitHighSent rt1 then rt1\<lparr>rt_upstreamCommitHighSent := 0\<rparr> else rt1)
         else if \<not> rt_exists rt1 then rt1
         else if predecessor_key current \<noteq> key then
           ensureUpstreamCommitReplay env
             (if confirmed < committedThrough then rt1\<lparr>rt_upstreamCommitHighSent := confirmed\<rparr> else rt1)
         else ensureUpstreamCommitReplay env
           (if confirmed < committedThrough
            then persistUpstreamConfirmedSequenceAsync env (rr_assignment current) committedThrough
                   (setRecord env (current\<lparr>rr_highestUpstreamConfirmedSequence := committedThrough\<rparr>) rt1)
            else rt1))"

section \<open>Messages from peers\<close>

definition handleForwardWrite ::
  "nat \<Rightarrow> node_env \<Rightarrow> forward_request \<Rightarrow> channel \<Rightarrow> slot_runtime \<Rightarrow> slot_runtime option" where
  "handleForwardWrite n env req resp rt = do {
     (_, rt1) \<leftarrow> reconcileDurableCommitProgress (drainer_of n env) env rt;
     Some (case replicationRecord rt1 of
         Inl e \<Rightarrow> reply (Some resp) (Some e) rt1
       | Inr record \<Rightarrow>
           if SuccessorNodeID (rr_peers record) = [] \<and> rt_commitEffectInFlight rt1 \<and>
              wo_Sequence (fr_Operation req) = rr_nextSequence record then
             (case reduceBufferFutureForward record req (buffer_limits_of env rt1) of
                Inl e \<Rightarrow> reply (Some resp) (Some e) rt1
              | Inr buffered \<Rightarrow> reply (Some resp) None (setRecord env buffered rt1))
           else (case reduceForwardWrite record req (buffer_limits_of env rt1) of
                Inl e \<Rightarrow> reply (Some resp) (Some e) rt1
              | Inr (record', action) \<Rightarrow> (case action of
                  slotReducerActionIgnore \<Rightarrow> reply (Some resp) None rt1
                | slotReducerActionBuffer \<Rightarrow> reply (Some resp) None (ensureGapCatchup (setRecord env record' rt1))
                | slotReducerActionApply \<Rightarrow> applyForward env req (Some resp) (setRecord env record' rt1)))) }"

definition handleCommitAdvanceRequest ::
  "nat \<Rightarrow> node_env \<Rightarrow> commit_advance_request \<Rightarrow> channel \<Rightarrow> slot_runtime \<Rightarrow> slot_runtime option" where
  "handleCommitAdvanceRequest n env req resp rt = do {
     (_, rt1) \<leftarrow> reconcileDurableCommitProgress (drainer_of n env) env rt;
     case replicationRecord rt1 of
       Inl e \<Rightarrow> Some (reply (Some resp) (Some e) rt1)
     | Inr record \<Rightarrow> (case validateCommitAdvanceSource record req of
         Some e \<Rightarrow> Some (reply (Some resp) (Some e) rt1)
       | None \<Rightarrow>
           let raised = rr_highestCommitTokenReceived record < ca_CommittedThrough req;
               record' = (if raised then record\<lparr>rr_highestCommitTokenReceived := ca_CommittedThrough req\<rparr> else record);
               rt2 = (if raised then setRecord env record' rt1 else rt1)
           in if ca_CommittedThrough req \<le> rr_highestCommittedSequence record'
              then Some (reply (Some resp) None rt2)
              else do {
                rt3 \<leftarrow> submitCommitWatermarkReady (drainer_of n env) env record' rt2;
                Some (reply (Some resp) None rt3) }) }"

definition handleCommitTokenRequest ::
  "nat \<Rightarrow> node_env \<Rightarrow> commit_request \<Rightarrow> bool \<Rightarrow> channel \<Rightarrow> slot_runtime \<Rightarrow> slot_runtime option" where
  "handleCommitTokenRequest n env req strict resp rt = do {
     (_, rt1) \<leftarrow> reconcileDurableCommitProgress (drainer_of n env) env rt;
     let failed = (\<lambda>e rt. Some (reply (Some resp) (Some e) rt))
     in case replicationRecord rt1 of
       Inl e \<Rightarrow> failed e rt1
     | Inr record \<Rightarrow> (case validateCommitSource record req of
         Some e \<Rightarrow> failed e rt1
       | None \<Rightarrow>
           if cr_Sequence req \<le> rr_highestCommittedSequence record then
             (case reduceHandlePastCommit record req of
                Some e \<Rightarrow> failed e rt1 | None \<Rightarrow> Some (reply (Some resp) None rt1))
           else let (entry, rt2) = acceptedCommitEntryWithStrict (cr_Sequence req) req strict rt1
                in if \<not> sameCommitRequest (ac_request entry) req then failed ErrProtocolConflict rt2
                   else case (if rr_highestCommitTokenReceived record + 1 < cr_Sequence req
                              then mirrorAcceptedCommit env rt2 record req else Inr record) of
                          Inl e \<Rightarrow> failed e rt2
                        | Inr record1 \<Rightarrow>
                            let record2 = ingestCommitToken record1 req; rt3 = setRecord env record2 rt2
                            in if cr_Sequence req \<le> rr_highestCommittedSequence record2
                               then Some (reply (Some resp) None
                                      (if strict then deleteAcceptedCommit (cr_Sequence req)
                                          (releaseAcceptedCommitWaiters env (cr_Sequence req) None rt3) else rt3))
                               else do {
                                 rt4 \<leftarrow> submitCommitWatermarkReady (drainer_of n env) env record2
                                         (if strict then parkAcceptedCommitWaiter (cr_Sequence req) resp rt3 else rt3);
                                 Some (if strict then rt4 else reply (Some resp) None rt4) }) }"

definition drain_request :: "nat \<Rightarrow> node_env \<Rightarrow> channel \<Rightarrow> slot_runtime \<Rightarrow> slot_runtime option" where
  "drain_request n env resp rt = drainReadyBuffered n env (Some resp) rt"

section \<open>Catching up from the predecessor\<close>

definition keep_after :: "u64 \<Rightarrow> (u64, 'a) fmap \<Rightarrow> (u64, 'a) fmap" where
  "keep_after sequence m = fmfilter (\<lambda>s. sequence < s) m"

text \<open>Go rebuilds the dirty entries in map order; the entries of a key end up sorted by sequence whatever that order.\<close>

definition reduceSyncedPredecessorState :: "replica_record \<Rightarrow> u64 \<Rightarrow> replica_record" where
  "reduceSyncedPredecessorState record highest =
     (let r1 = record\<lparr>rr_highestCommittedSequence := highest, rr_highestPreparedDurable := highest,
                rr_highestCommitTokenReceived := highest, rr_materializedCommittedSequence := highest,
                rr_highestUpstreamConfirmedSequence := highest,
                rr_nextSequence := (if rr_nextSequence record < highest + 1 then highest + 1 else rr_nextSequence record),
                rr_pendingWrites := keep_after highest (rr_pendingWrites record),
                rr_stagedForwards := keep_after highest (rr_stagedForwards record),
                rr_bufferedForwards := keep_after highest (rr_bufferedForwards record),
                rr_bufferedCommits := keep_after highest (rr_bufferedCommits record),
                rr_dirtyByKey := fmempty, rr_committedOverlay := fmempty\<rparr>;
          r2 = fold (\<lambda>s r. case pw_operation (the (fmlookup (rr_pendingWrites r1) s)) of
                        None \<Rightarrow> r | Some operation \<Rightarrow> reduceAddDirtyEntry r operation)
                 (sorted_list_of_fset (fmdom (rr_pendingWrites r1))) r1
      in fold (\<lambda>s r. reduceAddDirtyEntry r (fr_Operation (the (fmlookup (rr_stagedForwards r1) s))))
           (sorted_list_of_fset (fmdom (rr_stagedForwards r1))) r2)"

definition applyFetchedPredecessorSnapshot ::
  "node_env \<Rightarrow> sync_plan \<Rightarrow> snapshot \<Rightarrow> u64 \<Rightarrow> slot_runtime \<Rightarrow> storage_err option \<times> slot_runtime" where
  "applyFetchedPredecessorSnapshot env plan snap highest rt =
     (let record = rt_record rt
      in if \<not> rt_exists rt \<or>
            predecessor_key record \<noteq> \<lparr>pk_version = sp_chainVersion plan, pk_nodeID = sp_sourceNodeID plan,
              pk_target = sp_sourceTarget plan\<rparr> \<or>
            highest \<le> rr_highestCommittedSequence record then (None, rt)
         else let rt1 = emit (EffInstallSnapshot snap) (emit EffDropSlot rt)
              in case ne_installErr env of
                   Some e \<Rightarrow> (Some e, rt1)
                 | None \<Rightarrow>
                     let rt2 = emit (EffSetHighest highest) (rt1\<lparr>rt_committedMetadata := fmempty\<rparr>)
                     in case ne_setHighestErr env of
                          Some e \<Rightarrow> (Some e, rt2)
                        | None \<Rightarrow>
                            let record' = reduceSyncedPredecessorState record highest;
                                rt3 = emit (EffPersist (persistedReplica record')) (emit EffAllowSlot (setRecord env record' rt2))
                            in (ne_persistErr env, rt3))"

text \<open>The callback of \<open>ensureGapCatchup\<close>.\<close>

definition snapshot_fetched ::
  "nat \<Rightarrow> node_env \<Rightarrow> sync_plan \<Rightarrow> storage_err + snapshot \<times> u64 \<Rightarrow> slot_runtime \<Rightarrow> slot_runtime option" where
  "snapshot_fetched n env plan result rt =
     (let rt1 = rt\<lparr>rt_catchupSyncInFlight := False\<rparr>
      in case result of
           Inl _ \<Rightarrow> Some rt1
         | Inr (snap, highest) \<Rightarrow>
             if highest \<le> sp_currentHighest plan then drainReadyBuffered n env None rt1
             else case applyFetchedPredecessorSnapshot env plan snap highest rt1 of
                    (Some _, rt2) \<Rightarrow> Some rt2
                  | (None, rt2) \<Rightarrow> drainReadyBuffered n env None rt2)"

text \<open>\<open>syncFromPredecessor\<close>, with the transport's answer to the fetch as an argument.\<close>

definition syncFromPredecessor ::
  "node_env \<Rightarrow> (sync_plan \<Rightarrow> storage_err + snapshot \<times> u64) \<Rightarrow> slot_runtime \<Rightarrow> storage_err option \<times> slot_runtime" where
  "syncFromPredecessor env fetch rt =
     (case buildPredecessorSyncPlan rt of
        Inl e \<Rightarrow> (Some e, rt)
      | Inr None \<Rightarrow> (None, rt)
      | Inr (Some plan) \<Rightarrow> (case fetch plan of
          Inl e \<Rightarrow> (Some e, rt)
        | Inr (snap, highest) \<Rightarrow>
            if highest \<le> sp_currentHighest plan then (None, rt)
            else applyFetchedPredecessorSnapshot env plan snap highest rt))"

definition prepareActivation ::
  "node_env \<Rightarrow> (sync_plan \<Rightarrow> storage_err + snapshot \<times> u64) \<Rightarrow> slot_runtime \<Rightarrow> storage_err option \<times> slot_runtime" where
  "prepareActivation env fetch rt =
     (if \<not> rt_exists rt then (Some ErrUnknownReplica, rt)
      else if rr_state (rt_record rt) \<noteq> ReplicaStateCatchingUp_s then (None, rt)
      else syncFromPredecessor env fetch rt)"

section \<open>Replaying prepared writes to a new successor\<close>

definition replayPreparedForwards :: "node_env \<Rightarrow> slot_runtime \<Rightarrow> slot_runtime" where
  "replayPreparedForwards env rt =
     (let record = rt_record rt; high = contiguousPreparedHighWater record
      in if \<not> rt_exists rt \<or> SuccessorNodeID (rr_peers record) = [] \<or> high \<le> rr_highestCommittedSequence record then rt
         else fold (\<lambda>s. emit (EffReplayForward
                   (peerTransportTarget (SuccessorTarget (rr_peers record)) (SuccessorNodeID (rr_peers record)))
                   (forward_of env record (the (fmlookup (rr_preparedEntries record) s))) (successor_key record)))
                (takeWhile (\<lambda>s. fm_has (rr_preparedEntries record) s) (seqs_upto (rr_highestCommittedSequence record) high))
                (rt\<lparr>rt_preparedReplayRetryScheduled := False\<rparr>))"

definition schedulePreparedForwardReplayRetry :: "slot_runtime \<Rightarrow> slot_runtime" where
  "schedulePreparedForwardReplayRetry rt =
     (let record = rt_record rt
      in if \<not> rt_exists rt \<or> rt_preparedReplayRetryScheduled rt \<or> SuccessorNodeID (rr_peers record) = [] \<or>
            contiguousPreparedHighWater record \<le> rr_highestCommittedSequence record then rt
         else emit EffScheduleReplay (rt\<lparr>rt_preparedReplayRetryScheduled := True\<rparr>))"

definition scheduled_replay :: "node_env \<Rightarrow> slot_runtime \<Rightarrow> slot_runtime" where
  "scheduled_replay env rt = replayPreparedForwards env (rt\<lparr>rt_preparedReplayRetryScheduled := False\<rparr>)"

definition replay_done :: "nat \<Rightarrow> node_env \<Rightarrow> u64 \<Rightarrow> peer_key \<Rightarrow> storage_err option \<Rightarrow> slot_runtime \<Rightarrow> slot_runtime option" where
  "replay_done n env sequence key err rt =
     (case err of
        None \<Rightarrow> drainReadyBuffered n env None rt
      | Some _ \<Rightarrow> Some (if rt_exists rt \<and> successor_key (rt_record rt) = key \<and>
                           rr_highestCommittedSequence (rt_record rt) < sequence
                        then schedulePreparedForwardReplayRetry rt else rt))"

section \<open>Queries\<close>

definition rt_markMaterialized :: "node_env \<Rightarrow> u64 \<Rightarrow> slot_runtime \<Rightarrow> slot_runtime" where
  "rt_markMaterialized env highest rt =
     (if \<not> rt_exists rt then rt else setRecord env (markMaterialized (rt_record rt) highest) rt)"

definition slotPrepareWindow :: int where "slotPrepareWindow = 32"

definition slotCommitTokenWindow :: int where "slotCommitTokenWindow = 16"

definition replicationAvailableCredit :: "node_env \<Rightarrow> string \<Rightarrow> slot_runtime \<Rightarrow> int" where
  "replicationAvailableCredit env kind rt =
     (if \<not> rt_exists rt \<or> rt_progressionGap rt then 0
      else let record = rt_record rt;
               available = ne_slotLimit env - reduceTotalBufferedMessages record;
               available1 =
                 (if kind = ''forward'' then
                    min available (slotPrepareWindow - sint (rr_nextSequence record - 1 - rr_highestPreparedDurable record))
                  else if kind = ''commit'' then
                    min available (slotCommitTokenWindow - sint (rr_highestCommitTokenReceived record - rr_highestCommittedSequence record))
                  else if kind = ''commit_advance'' then
                    (if rt_upstreamCommitInFlight rt then 0 else min available 1)
                  else available);
               available2 = (if ne_nodeLimit env > 0 then min available1 (ne_nodeLimit env - node_buffered env rt) else available1)
           in max 0 available2)"

definition handleStagedSequences :: "storage_err + u64 list \<Rightarrow> slot_runtime \<Rightarrow> storage_err + u64 list" where
  "handleStagedSequences backendStaged rt =
     (if \<not> rt_exists rt then Inl ErrUnknownReplica
      else let own = fmdom (rr_pendingWrites (rt_record rt)) |\<union>| fmdom (rr_stagedForwards (rt_record rt))
           in case backendStaged of
                Inr seqs \<Rightarrow> Inr (sorted_list_of_fset (own |\<union>| fset_of_list seqs))
              | Inl e \<Rightarrow> if e = ErrUnknownReplica then Inr (sorted_list_of_fset own) else Inl e)"

definition handleBufferedForwardSequences :: "slot_runtime \<Rightarrow> storage_err + u64 list" where
  "handleBufferedForwardSequences rt =
     (if \<not> rt_exists rt then Inl ErrUnknownReplica
      else Inr (sorted_list_of_fset (fmdom (rr_bufferedForwards (rt_record rt)))))"

definition handleBufferedCommitSequences :: "slot_runtime \<Rightarrow> storage_err + u64 list" where
  "handleBufferedCommitSequences rt =
     (if \<not> rt_exists rt then Inl ErrUnknownReplica
      else Inr (sorted_list_of_fset (fmdom (rr_bufferedCommits (rt_record rt)))))"

end
