(* ===== verification/Slot_Frame.thy ===== *)
theory Slot_Frame
  imports Slot_Handlers
begin

text \<open>
  What the helpers of the slot runtime leave alone and what they emit.  The relation
  \<open>adds P rt rt'\<close> says that \<open>rt'\<close> emitted only effects satisfying \<open>P\<close> beyond those of \<open>rt\<close>.
\<close>

named_theorems frame

section \<open>Emitted effects\<close>

definition adds :: "(slot_effect \<Rightarrow> bool) \<Rightarrow> slot_runtime \<Rightarrow> slot_runtime \<Rightarrow> bool" where
  "adds P rt rt' \<longleftrightarrow> (\<exists>es. rt_out rt' = rt_out rt @ es \<and> list_all P es)"

lemma adds_refl [simp, intro]: "adds P rt rt"
  by (simp add: adds_def)

lemma adds_same: "rt_out rt' = rt_out rt \<Longrightarrow> adds P rt rt'"
  by (simp add: adds_def)

lemma adds_trans [trans]: "adds P a b \<Longrightarrow> adds P b c \<Longrightarrow> adds P a c"
  unfolding adds_def by force

lemma adds_mono: "adds P a b \<Longrightarrow> (\<And>e. P e \<Longrightarrow> Q e) \<Longrightarrow> adds Q a b"
  unfolding adds_def by (metis list_all_iff)

lemma adds_emit: "P e \<Longrightarrow> adds P rt (emit e rt)"
  by (simp add: adds_def emit_def)

lemma adds_emit_trans: "adds P a b \<Longrightarrow> P e \<Longrightarrow> adds P a (emit e b)"
  by (blast intro: adds_trans adds_emit)

lemma adds_reply_trans: "adds P a b \<Longrightarrow> (\<And>c. resp = Some c \<Longrightarrow> P (EffReply c err)) \<Longrightarrow> adds P a (reply resp err b)"
  by (auto simp: reply_def intro: adds_emit_trans split: option.split)

text \<open>The effects that say nothing about the log: replies, and what schedules or controls the materializer.\<close>

fun quiet :: "slot_effect \<Rightarrow> bool" where
  "quiet (EffReply c e) = True"
| "quiet (EffWaiter s e) = (e \<noteq> None)"
| "quiet (EffPrepare p a) = False"
| "quiet (EffForward t r p k) = False"
| "quiet (EffReplayForward t r k) = False"
| "quiet (EffHeadCommitRange a s) = False"
| "quiet (EffCommitAdvance t r k) = False"
| "quiet (EffMaterialize cs) = False"
| "quiet _ = True"

section \<open>What stays\<close>

text \<open>The part of the runtime that bookkeeping of waiters, metadata and gaps does not touch.\<close>

definition core :: "slot_runtime \<Rightarrow> int \<times> bool \<times> replica_record \<times> bool \<times> u64 \<times> u64" where
  "core rt = (rt_slot rt, rt_exists rt, rt_record rt, rt_commitEffectInFlight rt, rt_commitEffectSequence rt,
     rt_highestWatermarkSent rt)"

lemma core_eqD:
  assumes "core a = core b"
  shows "rt_slot a = rt_slot b" "rt_exists a = rt_exists b" "rt_record a = rt_record b"
    "rt_commitEffectInFlight a = rt_commitEffectInFlight b" "rt_commitEffectSequence a = rt_commitEffectSequence b"
    "rt_highestWatermarkSent a = rt_highestWatermarkSent b"
  using assms by (simp_all add: core_def)

text \<open>The operations the forwarding pipelines hold.\<close>

definition pipe_ops :: "slot_runtime \<Rightarrow> write_operation set" where
  "pipe_ops rt = {op. \<exists>p pl. fmlookup (rt_pipelines rt) p = Some pl \<and> fp_operation pl = op}"

lemma pipe_ops_same: "rt_pipelines rt' = rt_pipelines rt \<Longrightarrow> pipe_ops rt' = pipe_ops rt"
  by (simp add: pipe_ops_def)

definition quietly :: "slot_runtime \<Rightarrow> slot_runtime \<Rightarrow> bool" where
  "quietly rt rt' \<longleftrightarrow> core rt' = core rt \<and> pipe_ops rt' \<subseteq> pipe_ops rt \<and> adds quiet rt rt'"

lemma quietly_refl [simp, intro]: "quietly rt rt"
  by (simp add: quietly_def)

lemma quietly_trans [trans]: "quietly a b \<Longrightarrow> quietly b c \<Longrightarrow> quietly a c"
  by (auto simp: quietly_def intro: adds_trans)

lemma quietlyD:
  assumes "quietly rt rt'"
  shows "rt_slot rt' = rt_slot rt" "rt_exists rt' = rt_exists rt" "rt_record rt' = rt_record rt"
    "rt_commitEffectInFlight rt' = rt_commitEffectInFlight rt"
    "rt_commitEffectSequence rt' = rt_commitEffectSequence rt"
    "rt_highestWatermarkSent rt' = rt_highestWatermarkSent rt" "adds quiet rt rt'" "pipe_ops rt' \<subseteq> pipe_ops rt"
  using assms by (auto simp: quietly_def core_def)

lemma quietly_update:
  "core rt' = core rt \<Longrightarrow> rt_pipelines rt' = rt_pipelines rt \<Longrightarrow> rt_out rt' = rt_out rt \<Longrightarrow> quietly rt rt'"
  using pipe_ops_same[of rt' rt] by (simp add: quietly_def adds_same)

lemma quietly_fold: "(\<And>x rt. quietly rt (f x rt)) \<Longrightarrow> quietly rt (fold f xs rt)"
  by (induction xs arbitrary: rt) (auto intro: quietly_trans)

lemma quietly_emit [frame]: "quiet e \<Longrightarrow> quietly rt (emit e rt)"
  by (simp add: quietly_def adds_emit) (simp add: core_def emit_def pipe_ops_def)

lemma quietly_reply [frame]: "quietly rt (reply resp err rt)"
  by (auto simp: reply_def intro: quietly_emit split: option.split)

lemma quietly_release [frame]: "quietly rt (releaseAcceptedCommitWaiters env s err rt)"
proof (cases "acceptedCommit rt s")
  case (Some entry)
  let ?rt = "rt\<lparr>rt_acceptedCommits := fmupd s (entry\<lparr>ac_waiters := []\<rparr>) (rt_acceptedCommits rt)\<rparr>"
  have "quietly rt ?rt" by (rule quietly_update) (simp_all add: core_def)
  also have "quietly ?rt (releaseAcceptedCommitWaiters env s err rt)"
    unfolding releaseAcceptedCommitWaiters_def Some by (simp add: quietly_fold quietly_emit)
  finally show ?thesis .
qed (simp add: releaseAcceptedCommitWaiters_def)

lemma quietly_delete [frame]: "quietly rt (deleteAcceptedCommit s rt)"
  by (rule quietly_update) (simp_all add: core_def deleteAcceptedCommit_def)

lemma quietly_park [frame]: "quietly rt (parkAcceptedCommitWaiter s c rt)"
  by (rule quietly_update) (simp_all add: core_def parkAcceptedCommitWaiter_def split: option.splits)

lemma quietly_set_stage [frame]: "quietly rt (set_stage s a b rt)"
  by (rule quietly_update) (simp_all add: core_def set_stage_def split: option.splits)

lemma quietly_entry [frame]: "quietly rt (snd (acceptedCommitEntryWithStrict s req strict rt))"
  by (rule quietly_update) (simp_all add: core_def acceptedCommitEntryWithStrict_def Let_def)

lemma quietly_prune [frame]: "quietly rt (pruneAcceptedCommits env r rt)"
  unfolding pruneAcceptedCommits_def
  by (rule quietly_fold)
    (auto split: option.split intro: quietly_trans[OF quietly_release quietly_delete])

lemma quietly_clear [frame]: "quietly rt (clearAcceptedCommits env err rt)"
  unfolding clearAcceptedCommits_def
  by (rule quietly_fold) (rule quietly_trans[OF quietly_release quietly_delete])

lemma quietly_sync [frame]: "quietly rt (syncAcceptedCommitsFromRecord env r rt)"
  unfolding syncAcceptedCommitsFromRecord_def
  by (rule quietly_trans[OF quietly_fold quietly_prune], rule quietly_update)
    (simp_all add: core_def split: option.split)

lemma quietly_remember [frame]: "quietly rt (rememberCommittedMetadata k md rt)"
  by (rule quietly_update) (simp_all add: core_def rememberCommittedMetadata_def)

lemma quietly_remember_op [frame]: "quietly rt (rememberCommittedOperation op rt)"
  by (auto simp: rememberCommittedOperation_def quietly_remember split: OperationKind.split)

lemma quietly_metadata [frame]: "quietly rt (snd (committedMetadataState env k rt))"
  by (auto simp: committedMetadataState_def quietly_remember split: option.split sum.split)

lemma quietly_gap [frame]: "quietly rt (enterProgressionGap s rt)" "quietly rt (clearProgressionGap rt)"
  by (rule quietly_update; simp add: core_def enterProgressionGap_def clearProgressionGap_def)+

lemma quietly_catchup [frame]: "quietly rt (ensureGapCatchup rt)"
proof -
  have "quietly rt (emit (EffFetchSnapshot p) (rt\<lparr>rt_catchupSyncInFlight := True\<rparr>))" for p
    by (rule quietly_trans[OF quietly_update quietly_emit]) (simp_all add: core_def)
  then show ?thesis by (auto simp: ensureGapCatchup_def split: sum.split option.split)
qed

lemma quietly_schedule [frame]: "quietly rt (scheduleDrainReadyBuffered rt)"
proof -
  have "quietly rt (emit EffScheduleDrain (rt\<lparr>rt_drainScheduled := True\<rparr>))"
    by (rule quietly_trans[OF quietly_update quietly_emit]) (simp_all add: core_def)
  then show ?thesis by (simp add: scheduleDrainReadyBuffered_def)
qed

lemma quietly_resolve [frame]: "quietly rt (snd (resolve p d err rt))"
proof (cases "fmlookup (rt_pipelines rt) p")
  case (Some pl)
  have "quietly rt (rt\<lparr>rt_pipelines := fmupd p pl' (rt_pipelines rt)\<rparr>)" if "fp_operation pl' = fp_operation pl" for pl'
    using Some that by (auto simp: quietly_def core_def pipe_ops_def adds_same split: if_splits)
  then show ?thesis using Some by (auto simp: resolve_def Let_def)
qed (simp add: resolve_def)

lemma quietly_onComplete_failed [frame]: "quietly rt (onComplete_failed k err rt)"
  by (auto simp: onComplete_failed_def intro: frame split: on_complete.split)

lemma quietly_resolve_failed [frame]: "quietly rt (resolve_failed p d err rt)"
  using quietly_resolve[of rt p d "Some err"]
  by (auto simp: resolve_failed_def split: prod.split option.split intro: quietly_trans[OF _ quietly_onComplete_failed])

lemma quietly_afterPrepare_failed [frame]: "quietly rt (afterPrepare_failed after err rt)"
  by (auto simp: afterPrepare_failed_def intro: frame split: after_prepare.split)

section \<open>The record\<close>

lemma setRecord_quietly: "quietly (rt\<lparr>rt_exists := True, rt_record := r\<rparr>) (setRecord env r rt)"
  by (auto simp: setRecord_def Let_def intro: quietly_prune quietly_trans[OF quietly_prune quietly_emit])

lemma setRecord_fields [simp]:
  "rt_slot (setRecord env r rt) = rt_slot rt" "rt_exists (setRecord env r rt)" "rt_record (setRecord env r rt) = r"
  "rt_commitEffectInFlight (setRecord env r rt) = rt_commitEffectInFlight rt"
  "rt_commitEffectSequence (setRecord env r rt) = rt_commitEffectSequence rt"
  "rt_highestWatermarkSent (setRecord env r rt) = rt_highestWatermarkSent rt"
  using quietlyD[OF setRecord_quietly[where rt = rt and r = r and env = env]] by simp_all

lemma setRecord_pipes: "pipe_ops (setRecord env r rt) \<subseteq> pipe_ops rt"
  using quietlyD(8)[OF setRecord_quietly[where rt = rt and r = r and env = env]] by (simp add: pipe_ops_def)

lemma setRecord_adds: "adds quiet rt (setRecord env r rt)"
  using quietlyD(7)[OF setRecord_quietly[where rt = rt and r = r and env = env]] by (simp add: adds_def)

lemma emit_fields [simp]:
  "rt_slot (emit e rt) = rt_slot rt" "rt_exists (emit e rt) = rt_exists rt" "rt_record (emit e rt) = rt_record rt"
  "rt_commitEffectInFlight (emit e rt) = rt_commitEffectInFlight rt"
  "rt_commitEffectSequence (emit e rt) = rt_commitEffectSequence rt"
  "rt_highestWatermarkSent (emit e rt) = rt_highestWatermarkSent rt"
  by (simp_all add: emit_def)

lemma pipe_ops_emit [simp]: "pipe_ops (emit e rt) = pipe_ops rt"
  by (simp add: emit_def pipe_ops_def)

end
