(* ===== verification/Slot_Safety.thy ===== *)
theory Slot_Safety
  imports Slot_Frame
begin

text \<open>
  The slot runtime follows the slot's history.  The ghost state of a slot is the history of
  all writes its head has numbered, the objects before the first of them, and what the
  backend of this replica holds: the objects after \<open>g_mat\<close> operations.  \<open>rec_ok\<close> is the
  invariant of the record, \<open>eff_ok\<close> says which effects a record justifies, and the lemmas show
  that the functions moving the commit cursor return (with the fuel given), keep the
  invariant and emit justified effects only.
\<close>

section \<open>The invariant\<close>

record ghost =
  g_hist :: "write_operation list"
  g_base :: snapshot
  g_mat :: nat
  g_backend :: snapshot

definition rec_ok :: "ghost \<Rightarrow> replica_record \<Rightarrow> bool" where
  "rec_ok g r \<longleftrightarrow> follows (g_hist g) r \<and> holds (g_hist g) (g_base g) (g_mat g) r (g_backend g) \<and>
     unat (rr_materializedCommittedSequence r) \<le> g_mat g \<and>
     (\<forall>s. rr_materializedCommittedSequence r < s \<longrightarrow> s \<le> rr_highestCommittedSequence r \<longrightarrow>
        fmlookup (rr_preparedEntries r) s = hist_op (g_hist g) s) \<and>
     rr_highestCommittedSequence r \<le> rr_highestCommitTokenReceived r \<and>
     (SuccessorNodeID (rr_peers r) = [] \<longrightarrow> rr_highestPreparedDurable r \<le> rr_highestCommitTokenReceived r) \<and>
     (\<forall>s pw. fmlookup (rr_pendingWrites r) s = Some pw \<longrightarrow>
        rr_highestCommittedSequence r < s \<and> s < rr_nextSequence r \<and> pw_operation pw = hist_op (g_hist g) s) \<and>
     (\<forall>s. rr_highestCommittedSequence r < s \<longrightarrow> s < rr_nextSequence r \<longrightarrow>
        fm_has (rr_pendingWrites r) s \<or> fm_has (rr_stagedForwards r) s) \<and> fmlookup (rr_bufferedCommits r) 0 = None"

lemma rec_okD:
  assumes "rec_ok g r"
  shows "follows (g_hist g) r" "holds (g_hist g) (g_base g) (g_mat g) r (g_backend g)"
    "unat (rr_materializedCommittedSequence r) \<le> g_mat g"
    "rr_materializedCommittedSequence r < s \<Longrightarrow> s \<le> rr_highestCommittedSequence r \<Longrightarrow>
        fmlookup (rr_preparedEntries r) s = hist_op (g_hist g) s"
    "rr_highestCommittedSequence r \<le> rr_highestCommitTokenReceived r"
    "SuccessorNodeID (rr_peers r) = [] \<Longrightarrow> rr_highestPreparedDurable r \<le> rr_highestCommitTokenReceived r"
    "fmlookup (rr_pendingWrites r) s = Some pw \<Longrightarrow>
        rr_highestCommittedSequence r < s \<and> s < rr_nextSequence r \<and> pw_operation pw = hist_op (g_hist g) s"
    "rr_highestCommittedSequence r < s \<Longrightarrow> s < rr_nextSequence r \<Longrightarrow>
        fm_has (rr_pendingWrites r) s \<or> fm_has (rr_stagedForwards r) s"
    "fmlookup (rr_bufferedCommits r) 0 = None"
  using assms unfolding rec_ok_def by blast+

lemma rec_okI:
  assumes "follows (g_hist g) r" "holds (g_hist g) (g_base g) (g_mat g) r (g_backend g)"
    "unat (rr_materializedCommittedSequence r) \<le> g_mat g"
    "\<And>s. rr_materializedCommittedSequence r < s \<Longrightarrow> s \<le> rr_highestCommittedSequence r \<Longrightarrow>
        fmlookup (rr_preparedEntries r) s = hist_op (g_hist g) s"
    "rr_highestCommittedSequence r \<le> rr_highestCommitTokenReceived r"
    "SuccessorNodeID (rr_peers r) = [] \<Longrightarrow> rr_highestPreparedDurable r \<le> rr_highestCommitTokenReceived r"
    "\<And>s pw. fmlookup (rr_pendingWrites r) s = Some pw \<Longrightarrow>
        rr_highestCommittedSequence r < s \<and> s < rr_nextSequence r \<and> pw_operation pw = hist_op (g_hist g) s"
    "\<And>s. rr_highestCommittedSequence r < s \<Longrightarrow> s < rr_nextSequence r \<Longrightarrow>
        fm_has (rr_pendingWrites r) s \<or> fm_has (rr_stagedForwards r) s"
    "fmlookup (rr_bufferedCommits r) 0 = None"
  shows "rec_ok g r"
  using assms unfolding rec_ok_def by blast

text \<open>The fields the invariant reads.\<close>

lemma holds_cong:
  assumes "rr_highestCommittedSequence r' = rr_highestCommittedSequence r"
    "rr_committedOverlay r' = rr_committedOverlay r"
  shows "holds H m0 mat r' m \<longleftrightarrow> holds H m0 mat r m"
  unfolding holds_def assms ..

lemma rec_ok_cong:
  assumes "rr_nextSequence r' = rr_nextSequence r"
    "rr_highestCommittedSequence r' = rr_highestCommittedSequence r"
    "rr_highestPreparedDurable r' = rr_highestPreparedDurable r"
    "rr_highestCommitTokenReceived r' = rr_highestCommitTokenReceived r"
    "rr_materializedCommittedSequence r' = rr_materializedCommittedSequence r"
    "rr_preparedEntries r' = rr_preparedEntries r" "rr_stagedForwards r' = rr_stagedForwards r"
    "rr_bufferedForwards r' = rr_bufferedForwards r" "rr_dirtyByKey r' = rr_dirtyByKey r"
    "rr_committedOverlay r' = rr_committedOverlay r" "rr_pendingWrites r' = rr_pendingWrites r"
    "SuccessorNodeID (rr_peers r') = SuccessorNodeID (rr_peers r)"
    "fmlookup (rr_bufferedCommits r') 0 = fmlookup (rr_bufferedCommits r) 0"
  shows "rec_ok g r' \<longleftrightarrow> rec_ok g r"
  unfolding rec_ok_def follows_cong[OF assms(1-3,6-9)] holds_cong[OF assms(2,10)] unfolding assms ..

fun eff_ok :: "string \<Rightarrow> ghost \<Rightarrow> replica_record \<Rightarrow> slot_effect \<Rightarrow> bool" where
  "eff_ok nid g r (EffPrepare p a) = (hist_op (g_hist g) (wo_Sequence (dc_Operation p)) = Some (dc_Operation p) \<and>
     wo_Sequence (dc_Operation p) < rr_nextSequence r)"
| "eff_ok nid g r (EffForward t req p k) = (hist_op (g_hist g) (wo_Sequence (fr_Operation req)) = Some (fr_Operation req) \<and>
     wo_Sequence (fr_Operation req) < rr_nextSequence r \<and> fr_FromNodeID req = nid)"
| "eff_ok nid g r (EffReplayForward t req k) = (hist_op (g_hist g) (wo_Sequence (fr_Operation req)) = Some (fr_Operation req) \<and>
     wo_Sequence (fr_Operation req) < rr_nextSequence r \<and> fr_FromNodeID req = nid)"
| "eff_ok nid g r (EffHeadCommitRange a q) = (q \<le> rr_highestCommitTokenReceived r \<and> q \<le> rr_highestPreparedDurable r)"
| "eff_ok nid g r (EffCommitAdvance t req k) = (ca_CommittedThrough req \<le> rr_highestCommittedSequence r \<and>
     ca_FromNodeID req = nid)"
| "eff_ok nid g r (EffMaterialize cs) = (\<exists>a b. a \<le> g_mat g \<and> b \<le> unat (rr_highestCommittedSequence r) \<and>
     map dc_Operation cs = drop a (take b (g_hist g)))"
| "eff_ok nid g r (EffWaiter s e) = (e = None \<longrightarrow> s \<le> rr_highestCommittedSequence r)"
| "eff_ok nid g r _ = True"

lemma eff_ok_quiet: "quiet e \<Longrightarrow> eff_ok nid g r e"
  by (cases e) auto

text \<open>How the record of a slot may move.\<close>

definition grows :: "replica_record \<Rightarrow> replica_record \<Rightarrow> bool" where
  "grows r r' \<longleftrightarrow> rr_assignment r' = rr_assignment r \<and> rr_state r' = rr_state r \<and>
     rr_highestCommittedSequence r \<le> rr_highestCommittedSequence r' \<and>
     rr_highestCommitTokenReceived r \<le> rr_highestCommitTokenReceived r' \<and>
     rr_highestPreparedDurable r \<le> rr_highestPreparedDurable r' \<and> rr_nextSequence r \<le> rr_nextSequence r'"

lemma grows_refl [simp, intro]: "grows r r"
  by (simp add: grows_def)

lemma grows_trans [trans]: "grows a b \<Longrightarrow> grows b c \<Longrightarrow> grows a c"
  by (auto simp: grows_def)

lemma eff_ok_grows: "eff_ok nid g r e \<Longrightarrow> grows r r' \<Longrightarrow> eff_ok nid g r' e"
proof (cases e)
  case (EffMaterialize cs)
  assume "eff_ok nid g r e" "grows r r'"
  moreover from this have "unat (rr_highestCommittedSequence r) \<le> unat (rr_highestCommittedSequence r')"
    by (simp add: grows_def word_le_nat_alt)
  ultimately show ?thesis unfolding EffMaterialize eff_ok.simps by (meson order_trans)
qed (auto simp: grows_def intro: order_trans order_less_le_trans)

text \<open>One run of a function of the runtime.\<close>

definition moves :: "string \<Rightarrow> ghost \<Rightarrow> slot_runtime \<Rightarrow> slot_runtime \<Rightarrow> bool" where
  "moves nid g rt rt' \<longleftrightarrow> rt_slot rt' = rt_slot rt \<and> rt_exists rt' = rt_exists rt \<and>
     grows (rt_record rt) (rt_record rt') \<and> (rt_exists rt \<longrightarrow> rec_ok g (rt_record rt')) \<and>
     (\<not> rt_exists rt \<longrightarrow> rt_record rt' = rt_record rt) \<and>
     (\<forall>op \<in> pipe_ops rt'. op \<in> pipe_ops rt \<or>
        hist_op (g_hist g) (wo_Sequence op) = Some op \<and> wo_Sequence op < rr_nextSequence (rt_record rt')) \<and>
     adds (eff_ok nid g (rt_record rt')) rt rt'"

lemma movesD:
  assumes "moves nid g rt rt'"
  shows "rt_slot rt' = rt_slot rt" "rt_exists rt' = rt_exists rt" "grows (rt_record rt) (rt_record rt')"
    "rt_exists rt \<Longrightarrow> rec_ok g (rt_record rt')" "adds (eff_ok nid g (rt_record rt')) rt rt'"
    "op \<in> pipe_ops rt' \<Longrightarrow> op \<in> pipe_ops rt \<or>
       hist_op (g_hist g) (wo_Sequence op) = Some op \<and> wo_Sequence op < rr_nextSequence (rt_record rt')"
    "\<not> rt_exists rt \<Longrightarrow> rt_record rt' = rt_record rt"
  using assms by (auto simp: moves_def)

lemma moves_trans [trans]:
  assumes "moves nid g a b" "moves nid g b c"
  shows "moves nid g a c"
proof -
  have "adds (eff_ok nid g (rt_record c)) a b"
    using movesD(5)[OF assms(1)] by (rule adds_mono) (rule eff_ok_grows[OF _ movesD(3)[OF assms(2)]])
  moreover have "rr_nextSequence (rt_record b) \<le> rr_nextSequence (rt_record c)"
    using movesD(3)[OF assms(2)] by (simp add: grows_def)
  ultimately show ?thesis
    using adds_trans[OF _ movesD(5)[OF assms(2)]] assms by (auto simp: moves_def intro: grows_trans)
qed

lemma moves_refl: "(rt_exists rt \<Longrightarrow> rec_ok g (rt_record rt)) \<Longrightarrow> moves nid g rt rt"
  by (simp add: moves_def)

lemma moves_quietly:
  assumes "quietly rt rt'" "rt_exists rt \<Longrightarrow> rec_ok g (rt_record rt)"
  shows "moves nid g rt rt'"
  using quietlyD[OF assms(1)] assms(2) adds_mono[of quiet rt rt' "eff_ok nid g (rt_record rt')"]
  by (auto simp: moves_def eff_ok_quiet)

lemma moves_setRecord:
  assumes "rt_exists rt" "grows (rt_record rt) r" "rec_ok g r"
  shows "moves nid g rt (setRecord env r rt)"
  using assms adds_mono[OF setRecord_adds, of "eff_ok nid g r"] setRecord_pipes[of env r rt]
  by (auto simp: moves_def eff_ok_quiet)

lemma moves_emit:
  assumes "rt_exists rt \<Longrightarrow> rec_ok g (rt_record rt)" "eff_ok nid g (rt_record rt) e"
  shows "moves nid g rt (emit e rt)"
  using assms by (auto simp: moves_def emit_def pipe_ops_def intro: adds_emit[unfolded emit_def])

section \<open>Sequences\<close>

lemma u64_suc: "(a :: u64) < b \<Longrightarrow> unat (a + 1) = unat a + 1"
  using unsigned_less[of b, where 'a = nat] by (intro unat_suc) (simp add: word_less_nat_alt)

lemma seqs_upto_Nil: "hi \<le> lo \<Longrightarrow> seqs_upto lo hi = []"
  by (simp add: seqs_upto_def word_le_nat_alt)

lemma seqs_upto_Cons:
  assumes "lo < hi"
  shows "seqs_upto lo hi = (lo + 1) # seqs_upto (lo + 1) hi"
proof -
  have "unat hi - unat lo = Suc (unat hi - unat (lo + 1))"
    using assms u64_suc[OF assms] by (simp add: word_less_nat_alt)
  then show ?thesis
    unfolding seqs_upto_def by (simp only: upt_conv_Cons zero_less_Suc map_Suc_upt[symmetric] list.map map_map comp_def)
      (simp add: algebra_simps del: upt_Suc)
qed

lemma seqs_upto_induct [consumes 0, case_names step]:
  assumes "\<And>lo. (lo < hi \<Longrightarrow> P (lo + 1)) \<Longrightarrow> P lo"
  shows "P (lo :: u64)"
proof (induction "unat hi - unat lo" arbitrary: lo rule: less_induct)
  case less
  show ?case
  proof (rule assms)
    assume "lo < hi"
    then have "unat hi - unat (lo + 1) < unat hi - unat lo" by (simp add: u64_suc word_less_nat_alt)
    from less[OF this] show "P (lo + 1)" .
  qed
qed

lemma set_seqs_upto: "set (seqs_upto lo hi) = {s. lo < s \<and> s \<le> hi}"
proof (induction lo rule: seqs_upto_induct[where hi = hi])
  case (step lo)
  show ?case
  proof (cases "lo < hi")
    case True
    have "lo < s \<longleftrightarrow> s = lo + 1 \<or> lo + 1 < s" for s
      using True by (auto simp: word_less_nat_alt word_unat_eq_iff u64_suc)
    moreover have "lo + 1 \<le> hi" using True by (simp add: inc_le)
    ultimately show ?thesis using step[OF True] by (auto simp: seqs_upto_Cons[OF True])
  next
    case False
    then show ?thesis by (auto simp: seqs_upto_Nil not_less)
  qed
qed

section \<open>Committing a run of sequences\<close>

text \<open>One turn of the loop.\<close>

definition commit_one :: "node_env \<Rightarrow> u64 \<Rightarrow> write_operation \<Rightarrow> replica_record \<Rightarrow> replica_record" where
  "commit_one env s operation r =
     (let r1 = reduceApplyCommittedSequence r operation s (ne_slotLimit env)
      in recordWithCommittedOverlay (case syntheticCommitRequest r s of
           None \<Rightarrow> r1 | Some req \<Rightarrow> reduceRecordCommitApplied r1 req (ne_slotLimit env)) operation)"

lemma apply_pending [simp]:
  "rr_pendingWrites (reduceApplyCommittedSequence r op s l) = fmdrop s (rr_pendingWrites r)"
  by (auto simp: reduceApplyCommittedSequence_def Let_def reduceRecordCommittedForward_def
      split: option.splits prod.splits)

lemma recordCommitApplied_fields [simp]:
  "rr_nextSequence (reduceRecordCommitApplied r q l) = rr_nextSequence r"
  "rr_highestCommittedSequence (reduceRecordCommitApplied r q l) = rr_highestCommittedSequence r"
  "rr_highestPreparedDurable (reduceRecordCommitApplied r q l) = rr_highestPreparedDurable r"
  "rr_highestCommitTokenReceived (reduceRecordCommitApplied r q l) = rr_highestCommitTokenReceived r"
  "rr_materializedCommittedSequence (reduceRecordCommitApplied r q l) = rr_materializedCommittedSequence r"
  "rr_preparedEntries (reduceRecordCommitApplied r q l) = rr_preparedEntries r"
  "rr_stagedForwards (reduceRecordCommitApplied r q l) = rr_stagedForwards r"
  "rr_bufferedForwards (reduceRecordCommitApplied r q l) = rr_bufferedForwards r"
  "rr_dirtyByKey (reduceRecordCommitApplied r q l) = rr_dirtyByKey r"
  "rr_committedOverlay (reduceRecordCommitApplied r q l) = rr_committedOverlay r"
  "rr_assignment (reduceRecordCommitApplied r q l) = rr_assignment r"
  "rr_state (reduceRecordCommitApplied r q l) = rr_state r"
  by (simp_all add: reduceRecordCommitApplied_def reduceRecordCommittedCommit_def Let_def split: option.splits prod.splits)

lemma recordCommitApplied_pending:
  "fmlookup (rr_pendingWrites r) (cr_Sequence q) = None \<Longrightarrow>
     rr_pendingWrites (reduceRecordCommitApplied r q l) = rr_pendingWrites r"
  by (simp add: reduceRecordCommitApplied_def reduceRecordCommittedCommit_def Let_def split: option.splits prod.splits)

lemma commit_one_fields:
  "rr_nextSequence (commit_one env s op r) = rr_nextSequence r"
  "rr_highestCommittedSequence (commit_one env s op r) = s"
  "rr_highestPreparedDurable (commit_one env s op r) = rr_highestPreparedDurable r"
  "rr_highestCommitTokenReceived (commit_one env s op r) = rr_highestCommitTokenReceived r"
  "rr_materializedCommittedSequence (commit_one env s op r) = rr_materializedCommittedSequence r"
  "rr_preparedEntries (commit_one env s op r) = rr_preparedEntries r"
  "rr_stagedForwards (commit_one env s op r) = fmdrop s (rr_stagedForwards r)"
  "rr_bufferedForwards (commit_one env s op r) = rr_bufferedForwards r"
  "rr_pendingWrites (commit_one env s op r) = fmdrop s (rr_pendingWrites r)"
  "rr_assignment (commit_one env s op r) = rr_assignment r"
  "rr_state (commit_one env s op r) = rr_state r"
proof -
  have "fmlookup (rr_pendingWrites (reduceApplyCommittedSequence r op s l)) s = None" for l by simp
  then show "rr_pendingWrites (commit_one env s op r) = fmdrop s (rr_pendingWrites r)"
    by (auto simp: commit_one_def Let_def recordWithCommittedOverlay_def syntheticCommitRequest_def
        recordCommitApplied_pending split: option.split)
qed (simp_all add: commit_one_def Let_def recordWithCommittedOverlay_def split: option.split)

lemma commit_one_buffered:
  "fmlookup (rr_bufferedCommits r) q = None \<Longrightarrow> fmlookup (rr_bufferedCommits (commit_one env s op r)) q = None"
  by (auto simp: commit_one_def Let_def recordWithCommittedOverlay_def reduceRecordCommitApplied_def
      reduceRecordCommittedCommit_def split: option.split prod.split)

lemma commit_one_overlay:
  "rr_dirtyByKey (commit_one env s op r) = rr_dirtyByKey (reduceApplyCommittedSequence r op s (ne_slotLimit env))"
  "rr_committedOverlay (commit_one env s op r) =
     rr_committedOverlay (recordWithCommittedOverlay (reduceApplyCommittedSequence r op s (ne_slotLimit env)) op)"
  by (simp_all add: commit_one_def Let_def recordWithCommittedOverlay_def split: option.split)

lemma commit_one_ok:
  assumes ok: "rec_ok g r" and s: "rr_highestCommittedSequence r < p" "s = rr_highestCommittedSequence r + 1"
    and p: "p \<le> rr_highestPreparedDurable r" "p \<le> rr_highestCommitTokenReceived r"
  obtains op where "reduceCommittableOperation r s = Inr op" "rec_ok g (commit_one env s op r)"
    "grows r (commit_one env s op r)"
proof -
  let ?H = "g_hist g"
  note D = followsD[OF rec_okD(1)[OF ok]]
  have us: "unat s = unat (rr_highestCommittedSequence r) + 1" using s u64_suc[OF s(1)] by simp
  have sp: "s \<le> rr_highestPreparedDurable r" "s \<le> rr_highestCommitTokenReceived r"
    using s p us by (auto simp: word_le_nat_alt word_less_nat_alt)
  have sn: "unat s < unat (rr_nextSequence r)" using sp D(5) by (simp add: word_le_nat_alt)
  have "fmlookup (rr_preparedEntries r) s = hist_op ?H s" using D(6)[of s] us sn by simp
  moreover have "hist_op ?H s \<noteq> None" using us sn D(3) by (simp add: hist_op_def)
  ultimately obtain op where op: "fmlookup (rr_preparedEntries r) s = Some op" "hist_op ?H s = Some op" by auto
  let ?a = "reduceApplyCommittedSequence r op s (ne_slotLimit env)" and ?r = "commit_one env s op r"
  note f = commit_one_fields[of env s op r]
  have "follows ?H ?a" using reduceApplyCommittedSequence_follows(1)[OF rec_okD(1)[OF ok] s(2) sp(1) op(1)] .
  then have fol: "follows ?H ?r" by (subst follows_cong) (simp_all add: f commit_one_overlay)
  have "holds ?H (g_base g) (g_mat g) (recordWithCommittedOverlay ?a op) (g_backend g)"
    by (rule commit_holds[OF rec_okD(2)[OF ok] rec_okD(1)[OF ok] s(2) sp(1) op(1)])
  then have hol: "holds ?H (g_base g) (g_mat g) ?r (g_backend g)"
    by (subst (asm) holds_cong) (simp_all add: f commit_one_overlay recordWithCommittedOverlay_def)
  have later: "q \<noteq> s \<Longrightarrow> rr_highestCommittedSequence r < q \<longleftrightarrow> s < q" for q
    using us by (auto simp: word_less_nat_alt word_unat_eq_iff)
  have "rec_ok g ?r"
  proof (rule rec_okI[OF fol hol])
    fix q assume "rr_materializedCommittedSequence ?r < q" "q \<le> rr_highestCommittedSequence ?r"
    then show "fmlookup (rr_preparedEntries ?r) q = hist_op ?H q"
      using rec_okD(4)[OF ok, of q] op later[of q] by (cases "q = s") (auto simp: f)
  next
    fix q pw assume "fmlookup (rr_pendingWrites ?r) q = Some pw"
    then have q: "q \<noteq> s" "fmlookup (rr_pendingWrites r) q = Some pw" by (auto simp: f split: if_splits)
    then show "rr_highestCommittedSequence ?r < q \<and> q < rr_nextSequence ?r \<and> pw_operation pw = hist_op ?H q"
      using rec_okD(7)[OF ok q(2)] later[OF q(1)] by (simp add: f)
  next
    fix q assume "rr_highestCommittedSequence ?r < q" "q < rr_nextSequence ?r"
    then show "fm_has (rr_pendingWrites ?r) q \<or> fm_has (rr_stagedForwards ?r) q"
      using rec_okD(8)[OF ok, of q] later[of q] by (auto simp: f fm_has_def)
  qed (use rec_okD(3,6,9)[OF ok] sp in \<open>simp_all add: f commit_one_buffered\<close>)
  moreover have "grows r ?r" using us by (simp add: grows_def f word_le_nat_alt)
  moreover have "reduceCommittableOperation r s = Inr op" using sp op by (simp add: reduceCommittableOperation_def)
  ultimately show thesis using that by blast
qed

lemma commit_loop_ok:
  assumes "rec_ok g r" "q \<le> rr_highestPreparedDurable r" "q \<le> rr_highestCommitTokenReceived r"
  shows "\<exists>r' rt'. commit_loop env (seqs_upto (rr_highestCommittedSequence r) q) r rt = (Inr r', rt') \<and>
    rec_ok g r' \<and> grows r r' \<and> rr_highestPreparedDurable r' = rr_highestPreparedDurable r \<and>
    rr_highestCommitTokenReceived r' = rr_highestCommitTokenReceived r \<and>
    rr_highestCommittedSequence r' = max (rr_highestCommittedSequence r) q \<and>
    core rt' = core rt \<and> pipe_ops rt' \<subseteq> pipe_ops rt \<and>
    adds (\<lambda>e. quiet e \<or> (\<exists>s \<le> q. e = EffWaiter s None)) rt rt'"
  using assms
proof (induction "rr_highestCommittedSequence r" arbitrary: r rt rule: seqs_upto_induct[where hi = q])
  case step
  show ?case
  proof (cases "rr_highestCommittedSequence r < q")
    case True
    let ?s = "rr_highestCommittedSequence r + 1"
    obtain op where op: "reduceCommittableOperation r ?s = Inr op" "rec_ok g (commit_one env ?s op r)"
      "grows r (commit_one env ?s op r)"
      using commit_one_ok[OF step.prems(1) True refl step.prems(2,3)] .
    let ?r = "commit_one env ?s op r"
    let ?w = "if fm_has (rr_pendingWrites r) ?s then emit (EffWaiter ?s None) (rememberCommittedOperation op rt)
      else rememberCommittedOperation op rt"
    let ?rt = "deleteAcceptedCommit ?s (releaseAcceptedCommitWaiters env ?s None ?w)"
    let ?P = "\<lambda>e. quiet e \<or> (\<exists>s \<le> q. e = EffWaiter s None)"
    note f = commit_one_fields[of env ?s op r]
    have sq: "?s \<le> q" using True by (simp add: inc_le)
    have q: "quietly ?w ?rt" by (rule quietly_trans[OF quietly_release quietly_delete])
    have "adds ?P rt (rememberCommittedOperation op rt)"
      using quietlyD(7)[OF quietly_remember_op[of rt op]] by (rule adds_mono) simp
    then have "adds ?P rt ?w" using sq by (auto intro: adds_emit_trans)
    moreover have "adds ?P ?w ?rt" using quietlyD(7)[OF q] by (rule adds_mono) simp
    ultimately have a: "adds ?P rt ?rt" by (rule adds_trans)
    have c: "core ?rt = core rt" "pipe_ops ?rt \<subseteq> pipe_ops rt"
      using q quietly_remember_op[of rt op] by (auto simp: quietly_def core_def split: if_splits)
    have "?s = rr_highestCommittedSequence ?r" by (simp add: f)
    from step.hyps[OF True this op(2), of ?rt, unfolded f, OF step.prems(2,3)] obtain r' rt' where
      IH: "commit_loop env (seqs_upto ?s q) ?r ?rt = (Inr r', rt')" "rec_ok g r'" "grows ?r r'"
        "rr_highestPreparedDurable r' = rr_highestPreparedDurable r"
        "rr_highestCommitTokenReceived r' = rr_highestCommitTokenReceived r"
        "rr_highestCommittedSequence r' = max ?s q" "core rt' = core ?rt" "adds ?P ?rt rt'"
        "pipe_ops rt' \<subseteq> pipe_ops ?rt"
      by blast
    have "commit_loop env (seqs_upto (rr_highestCommittedSequence r) q) r rt = (Inr r', rt')"
      unfolding seqs_upto_Cons[OF True] using op(1) IH(1) by (simp add: commit_one_def Let_def)
    moreover have "rr_highestCommittedSequence r' = max (rr_highestCommittedSequence r) q"
      using IH(6) max_absorb2[OF sq] max_absorb2[OF less_imp_le[OF True]] by simp
    ultimately show ?thesis
      using IH grows_trans[OF op(3) IH(3)] adds_trans[OF a IH(8)] c by (auto simp only: subset_eq)
  next
    case False
    then show ?thesis using step.prems(1) by (auto simp: seqs_upto_Nil not_less max_def)
  qed
qed

section \<open>Small steps\<close>

text \<open>Inside the cycle neither the prepared cursor nor the token moves.\<close>

definition nests :: "string \<Rightarrow> ghost \<Rightarrow> slot_runtime \<Rightarrow> slot_runtime \<Rightarrow> bool" where
  "nests nid g rt rt' \<longleftrightarrow> moves nid g rt rt' \<and>
     rr_highestPreparedDurable (rt_record rt') = rr_highestPreparedDurable (rt_record rt) \<and>
     rr_highestCommitTokenReceived (rt_record rt') = rr_highestCommitTokenReceived (rt_record rt)"

lemma nests_trans [trans]: "nests nid g a b \<Longrightarrow> nests nid g b c \<Longrightarrow> nests nid g a c"
  by (auto simp: nests_def intro: moves_trans)

lemma nests_refl: "(rt_exists rt \<Longrightarrow> rec_ok g (rt_record rt)) \<Longrightarrow> nests nid g rt rt"
  by (simp add: nests_def moves_refl)

lemma nests_quietly:
  assumes "quietly rt rt'" "rt_exists rt \<Longrightarrow> rec_ok g (rt_record rt)"
  shows "nests nid g rt rt'"
  using moves_quietly[OF assms] quietlyD(3)[OF assms(1)] by (simp add: nests_def)

lemma nests_update:
  assumes "rt_slot rt' = rt_slot rt" "rt_exists rt' = rt_exists rt" "rt_record rt' = rt_record rt" "rt_out rt' = rt_out rt"
    and "rt_pipelines rt' = rt_pipelines rt"
    and "rt_exists rt \<Longrightarrow> rec_ok g (rt_record rt)"
  shows "nests nid g rt rt'"
  using assms pipe_ops_same[OF assms(5)] by (simp add: nests_def moves_def adds_same)

lemma nestsD:
  assumes "nests nid g rt rt'"
  shows "moves nid g rt rt'" "rt_exists rt' = rt_exists rt" "rt_exists rt \<Longrightarrow> rec_ok g (rt_record rt')"
    "rr_assignment (rt_record rt') = rr_assignment (rt_record rt)"
    "rr_highestPreparedDurable (rt_record rt') = rr_highestPreparedDurable (rt_record rt)"
    "rr_highestCommitTokenReceived (rt_record rt') = rr_highestCommitTokenReceived (rt_record rt)"
    "rr_highestCommittedSequence (rt_record rt) \<le> rr_highestCommittedSequence (rt_record rt')"
  using assms by (auto simp: nests_def moves_def grows_def)

lemma ensureUpstream_nests:
  assumes "rt_exists rt \<Longrightarrow> rec_ok g (rt_record rt)"
  shows "nests (ne_nodeID env) g rt (ensureUpstreamCommitReplay env rt)"
    "rt_commitEffectInFlight (ensureUpstreamCommitReplay env rt) = rt_commitEffectInFlight rt"
    "rr_highestCommittedSequence (rt_record (ensureUpstreamCommitReplay env rt)) = rr_highestCommittedSequence (rt_record rt)"
proof -
  let ?r = "rt_record rt" and ?c = "rr_highestCommittedSequence (rt_record rt)"
  have set: "nests (ne_nodeID env) g rt (setRecord env (?r\<lparr>rr_highestUpstreamConfirmedSequence := ?c\<rparr>) rt)"
    if e: "rt_exists rt"
  proof -
    have "rec_ok g (?r\<lparr>rr_highestUpstreamConfirmedSequence := ?c\<rparr>)"
      by (rule rec_ok_cong[where r = ?r, THEN iffD2]) (use assms[OF e] in simp_all)
    with moves_setRecord[OF e _ this] show ?thesis by (simp add: nests_def grows_def)
  qed
  have send: "nests (ne_nodeID env) g rt (emit (EffCommitAdvance t \<lparr>ca_Slot = sl, ca_CommittedThrough = ?c,
      ca_FromNodeID = ne_nodeID env, ca_ChainVersion = v\<rparr> k) (rt\<lparr>rt_upstreamCommitInFlight := True, rt_upstreamCommitHighSent := h\<rparr>))"
    for t sl v k h
    using assms by (auto simp: nests_def moves_def adds_def emit_def pipe_ops_def)
  show "nests (ne_nodeID env) g rt (ensureUpstreamCommitReplay env rt)"
    using set send nests_refl[OF assms] by (auto simp: ensureUpstreamCommitReplay_def Let_def)
qed (simp_all add: ensureUpstreamCommitReplay_def Let_def)

lemma prepared_stretch:
  assumes "\<And>s. a < s \<Longrightarrow> s \<le> q \<Longrightarrow> fmlookup m s = hist_op H s" "unat q \<le> length H" "a \<le> q"
  shows "List.map_filter (\<lambda>s. map_option f (fmlookup m s)) (seqs_upto a q) = map f (drop (unat a) (take (unat q) H))"
  using assms
proof (induction a rule: seqs_upto_induct[where hi = q])
  case (step a)
  show ?case
  proof (cases "a < q")
    case True
    note s = u64_suc[OF True]
    have lt: "unat a < unat q" using True by (simp add: word_less_nat_alt)
    have "a < a + 1" "a + 1 \<le> q" using True s by (simp_all add: word_less_nat_alt word_le_nat_alt)
    then have "fmlookup m (a + 1) = Some (H ! unat a)"
      using step.prems(1)[of "a + 1"] step.prems(2) s lt by (simp add: hist_op_def)
    moreover have "drop (unat a) (take (unat q) H) = H ! unat a # drop (unat (a + 1)) (take (unat q) H)"
      using Cons_nth_drop_Suc[of "unat a" "take (unat q) H"] step.prems(2) s lt by simp
    moreover have "List.map_filter (\<lambda>s. map_option f (fmlookup m s)) (seqs_upto (a + 1) q) =
        map f (drop (unat (a + 1)) (take (unat q) H))"
      using step.IH[OF True] step.prems \<open>a < a + 1\<close> \<open>a + 1 \<le> q\<close> by (meson order_less_trans)
    ultimately show ?thesis by (simp add: seqs_upto_Cons[OF True] List.map_filter_simps)
  next
    case False
    then show ?thesis using step.prems(3) by (simp add: seqs_upto_Nil List.map_filter_simps not_less word_le_nat_alt)
  qed
qed

lemma enqueueMaterialization_nests:
  assumes ok: "rt_exists rt \<Longrightarrow> rec_ok g (rt_record rt)" and q: "q = rr_highestCommittedSequence (rt_record rt)"
  shows "nests nid g rt (enqueueMaterializationUpTo q rt)"
    "rt_commitEffectInFlight (enqueueMaterializationUpTo q rt) = rt_commitEffectInFlight rt"
    "rt_record (enqueueMaterializationUpTo q rt) = rt_record rt"
proof -
  let ?r = "rt_record rt" and ?H = "g_hist g"
  let ?cs = "List.map_filter (\<lambda>s. map_option (persisted_prepare ?r) (fmlookup (rr_preparedEntries ?r) s))
    (seqs_upto (rr_materializedCommittedSequence ?r) q)"
  have "nests nid g rt (emit (EffMaterialize ?cs) rt)" if e: "rt_exists rt"
  proof -
    note D = followsD[OF rec_okD(1)[OF ok[OF e]]]
    have h: "g_mat g \<le> unat q" "unat q \<le> length ?H" using rec_okD(2)[OF ok[OF e]] by (simp_all add: holds_def q)
    then have "?cs = map (persisted_prepare ?r) (drop (unat (rr_materializedCommittedSequence ?r)) (take (unat q) ?H))"
      by (intro prepared_stretch) (use rec_okD(3,4)[OF ok[OF e]] q in \<open>auto simp: word_le_nat_alt\<close>)
    then have "map dc_Operation ?cs = drop (unat (rr_materializedCommittedSequence ?r)) (take (unat q) ?H)"
      by (simp add: persisted_prepare_def comp_def)
    then have "eff_ok nid g ?r (EffMaterialize ?cs)"
      using rec_okD(3)[OF ok[OF e]] q by auto
    then show ?thesis using ok[OF e] moves_emit[of rt g nid] by (simp add: nests_def)
  qed
  then show "nests nid g rt (enqueueMaterializationUpTo q rt)"
    using nests_refl[OF ok] by (auto simp: enqueueMaterializationUpTo_def Let_def)
qed (simp_all add: enqueueMaterializationUpTo_def Let_def)

end
