(* ===== verification/Slot_Progress.thy ===== *)
theory Slot_Progress
  imports Slot_Safety
begin

text \<open>
  The functions that move the commit cursor return and keep the invariant.  What is left to
  commit, \<open>undone\<close>, decreases whenever draining is entered again from \<open>applyCommitWatermark\<close>,
  and every further turn of the loop of \<open>advanceAcceptedCommitProgress\<close> either commits
  something or ends an in-flight commit.
\<close>

definition undone :: "slot_runtime \<Rightarrow> nat" where
  "undone rt = unat (rr_highestPreparedDurable (rt_record rt)) - unat (rr_highestCommittedSequence (rt_record rt))"

lemma nests_undone: "nests nid g rt rt' \<Longrightarrow> undone rt' \<le> undone rt"
  using nestsD(5,7)[of nid g rt rt'] by (auto simp: undone_def word_le_nat_alt)

definition drains :: "string \<Rightarrow> ghost \<Rightarrow> nat \<Rightarrow> drainer \<Rightarrow> bool" where
  "drains nid g k drain \<longleftrightarrow> (\<forall>rt. rt_exists rt \<longrightarrow> rec_ok g (rt_record rt) \<longrightarrow> undone rt < k \<longrightarrow>
     (\<exists>rt'. drain rt = Some rt' \<and> nests nid g rt rt'))"

section \<open>Applying a watermark\<close>

lemma finish_watermark_ok:
  assumes loop: "commit_loop env (seqs_upto c q) (rt_record rt) rt = (Inr r', rt1)"
    and c: "c = rr_highestCommittedSequence (rt_record rt)" "c < q"
    and q: "q \<le> rr_highestPreparedDurable (rt_record rt)" "q \<le> rr_highestCommitTokenReceived (rt_record rt)"
    and ok: "rt_exists rt" "rec_ok g (rt_record rt)"
  shows "nests (ne_nodeID env) g rt (finish_watermark env q r' rt1)"
    "undone (finish_watermark env q r' rt1) < undone rt"
proof -
  let ?P = "\<lambda>e. quiet e \<or> (\<exists>s \<le> q. e = EffWaiter s None)"
  from commit_loop_ok[OF ok(2) q, of env rt] loop c(1) have
    r': "rec_ok g r'" "grows (rt_record rt) r'" "rr_highestPreparedDurable r' = rr_highestPreparedDurable (rt_record rt)"
    "rr_highestCommitTokenReceived r' = rr_highestCommitTokenReceived (rt_record rt)"
    "rr_highestCommittedSequence r' = max c q" "core rt1 = core rt" "adds ?P rt rt1"
    "pipe_ops rt1 \<subseteq> pipe_ops rt" by auto
  have cq: "rr_highestCommittedSequence r' = q" using r'(5) max_absorb2[OF less_imp_le[OF c(2)]] by simp
  define rt2 where "rt2 = (if rt_commitEffectInFlight rt1 \<and> rt_commitEffectSequence rt1 \<noteq> 0 \<and>
    rt_commitEffectSequence rt1 \<le> q then rt1\<lparr>rt_commitEffectInFlight := False, rt_commitEffectSequence := 0\<rparr> else rt1)"
  define r2 where "r2 = (if PredecessorNodeID (rr_peers r') = []
    then r'\<lparr>rr_highestUpstreamConfirmedSequence := q\<rparr> else r')"
  have f: "rt_slot rt2 = rt_slot rt" "rt_exists rt2" "rt_record rt2 = rt_record rt" "rt_out rt2 = rt_out rt1"
    "pipe_ops rt2 = pipe_ops rt1"
    using core_eqD[OF r'(6)] ok(1) by (simp_all add: rt2_def pipe_ops_def)
  have ok2: "rec_ok g r2"
    by (rule rec_ok_cong[where r = r', THEN iffD2]) (use r'(1) in \<open>simp_all add: r2_def\<close>)
  have r2: "rr_highestCommittedSequence r2 = q" "rr_highestPreparedDurable r2 = rr_highestPreparedDurable (rt_record rt)"
    "rr_highestCommitTokenReceived r2 = rr_highestCommitTokenReceived (rt_record rt)" "grows (rt_record rt) r2"
    using r'(2-4) cq by (simp_all add: r2_def grows_def)
  have "adds (eff_ok (ne_nodeID env) g r2) rt rt1"
    using r'(7) by (rule adds_mono) (auto simp: eff_ok_quiet r2(1))
  then have "adds (eff_ok (ne_nodeID env) g r2) rt rt2" by (simp add: adds_def f(4))
  moreover have "adds (eff_ok (ne_nodeID env) g r2) rt2 (setRecord env r2 rt2)"
    by (rule adds_mono[OF setRecord_adds]) (rule eff_ok_quiet)
  ultimately have "adds (eff_ok (ne_nodeID env) g r2) rt (setRecord env r2 rt2)" by (rule adds_trans)
  then have s: "nests (ne_nodeID env) g rt (setRecord env r2 rt2)"
    using f ok(1) ok2 r2 r'(8) setRecord_pipes[of env r2 rt2] by (auto simp: nests_def moves_def)
  let ?m = "enqueueMaterializationUpTo q (setRecord env r2 rt2)"
  have m: "nests (ne_nodeID env) g (setRecord env r2 rt2) ?m" "rt_record ?m = r2"
    using enqueueMaterialization_nests(1,3)[of "setRecord env r2 rt2" g q] ok2 r2(1) by simp_all
  note up = ensureUpstream_nests(1,3)[where rt = ?m and g = g and env = env]
  have eq: "finish_watermark env q r' rt1 = ensureUpstreamCommitReplay env ?m"
    by (simp add: finish_watermark_def Let_def rt2_def r2_def)
  have okm: "rec_ok g (rt_record ?m)" using m(2) ok2 by simp
  show n: "nests (ne_nodeID env) g rt (finish_watermark env q r' rt1)"
    unfolding eq using nests_trans[OF nests_trans[OF s m(1)] up(1)] okm by simp
  have "rr_highestCommittedSequence (rt_record (finish_watermark env q r' rt1)) = q"
    unfolding eq using up(2) okm m(2) r2(1) by simp
  then show "undone (finish_watermark env q r' rt1) < undone rt"
    using nestsD(5)[OF n] c q(1) by (simp add: undone_def word_less_nat_alt word_le_nat_alt)
qed

lemma applyCommitWatermark_ok:
  assumes d: "drains (ne_nodeID env) g (undone rt) drain" and ok: "rt_exists rt \<Longrightarrow> rec_ok g (rt_record rt)"
  shows "\<exists>rt'. applyCommitWatermark drain env q rt = Some rt' \<and> nests (ne_nodeID env) g rt rt' \<and>
    (rt_exists rt \<and> rr_highestCommittedSequence (rt_record rt) < min q (ready_sequence (rt_record rt)) \<longrightarrow>
       undone rt' < undone rt)"
proof -
  let ?r = "rt_record rt" let ?c = "rr_highestCommittedSequence ?r" and ?q = "min q (ready_sequence ?r)"
  show ?thesis
  proof (cases "\<not> rt_exists rt \<or> q \<le> ?c \<or> ?q \<le> ?c")
    case True
    then show ?thesis using nests_refl[OF ok] by (auto simp: applyCommitWatermark_def Let_def min_le_iff_disj)
  next
    case False
    then have e: "rt_exists rt" "?c < ?q" "\<not> q \<le> ?c" using not_le by blast+
    have q: "?q \<le> rr_highestPreparedDurable ?r" "?q \<le> rr_highestCommitTokenReceived ?r"
      by (simp_all add: ready_sequence_def contiguousPreparedHighWater_def min.coboundedI2)
    from commit_loop_ok[OF ok[OF e(1)] q, of env rt] obtain r' rt1 where
      l: "commit_loop env (seqs_upto ?c ?q) ?r rt = (Inr r', rt1)" by blast
    note f = finish_watermark_ok[OF l refl e(2) q e(1) ok[OF e(1)]]
    let ?f = "finish_watermark env ?q r' rt1"
    have "rt_exists ?f" "rec_ok g (rt_record ?f)" using nestsD(2,3)[OF f(1)] e(1) by simp_all
    with d f(2) obtain rt' where rt': "drain ?f = Some rt'" "nests (ne_nodeID env) g ?f rt'"
      unfolding drains_def by blast
    have "applyCommitWatermark drain env q rt = Some rt'"
      using False l rt'(1) by (simp add: applyCommitWatermark_def Let_def)
    moreover have "undone rt' < undone rt" using nests_undone[OF rt'(2)] f(2) by simp
    ultimately show ?thesis using nests_trans[OF f(1) rt'(2)] by blast
  qed
qed

lemma reconcile_ok:
  assumes d: "drains (ne_nodeID env) g (undone rt) drain" and ok: "rt_exists rt \<Longrightarrow> rec_ok g (rt_record rt)"
  shows "\<exists>b rt'. reconcileDurableCommitProgress drain env rt = Some (b, rt') \<and> nests (ne_nodeID env) g rt rt' \<and>
    (if b then rt_commitEffectInFlight rt \<and> (undone rt' < undone rt \<or> \<not> rt_commitEffectInFlight rt') else rt' = rt)"
proof -
  let ?r = "rt_record rt"
  let ?d = "min (ne_durable env) (ready_sequence ?r)"
  let ?idle = "\<not> rt_exists rt \<or> \<not> rt_commitEffectInFlight rt \<or> rt_commitEffectSequence rt = 0 \<or>
    ne_durable env < rt_commitEffectSequence rt"
  consider (idle) ?idle | (over) "\<not> ?idle" "?d \<le> rr_highestCommittedSequence ?r"
    | (go) "\<not> ?idle" "rr_highestCommittedSequence ?r < ?d" using not_le by blast
  then show ?thesis
  proof cases
    case idle
    then show ?thesis using nests_refl[OF ok] by (auto simp: reconcileDurableCommitProgress_def Let_def)
  next
    case over
    let ?rt = "rt\<lparr>rt_commitEffectInFlight := False, rt_commitEffectSequence := 0\<rparr>"
    have "nests (ne_nodeID env) g rt ?rt" by (rule nests_update) (use ok in simp_all)
    with over show ?thesis by (auto simp: reconcileDurableCommitProgress_def Let_def)
  next
    case go
    have m: "min ?d (ready_sequence ?r) = ?d" by (simp add: min.assoc)
    from applyCommitWatermark_ok[OF d ok, of ?d] go obtain rt' where
      a: "applyCommitWatermark drain env ?d rt = Some rt'" "nests (ne_nodeID env) g rt rt'" "undone rt' < undone rt"
      unfolding m by blast
    from go(2) have "\<not> ?d \<le> rr_highestCommittedSequence ?r" by (simp only: not_le)
    with go(1) a(1) have "reconcileDurableCommitProgress drain env rt = Some (True, rt')"
      unfolding reconcileDurableCommitProgress_def Let_def by (simp only: if_False option.map)
    with a go(1) show ?thesis by (intro exI[of _ True] exI[of _ rt']) simp
  qed
qed

lemma drains_mono: "drains nid g k drain \<Longrightarrow> j \<le> k \<Longrightarrow> drains nid g j drain"
  unfolding drains_def by (meson order_less_le_trans)

section \<open>Progress\<close>

lemma detect_ok:
  assumes d: "drains (ne_nodeID env) g (undone rt) drain" and ok: "rt_exists rt \<Longrightarrow> rec_ok g (rt_record rt)"
  shows "\<exists>gap rt'. detectAcceptedCommitGap drain env r rt = Some (gap, rt') \<and> nests (ne_nodeID env) g rt rt' \<and>
    (undone rt' < undone rt \<or> (rt_commitEffectInFlight rt' \<longrightarrow> rt_commitEffectInFlight rt))"
proof -
  let ?rt = "syncAcceptedCommitsFromRecord env r rt" and ?u = "rr_highestCommittedSequence r + 1"
  note q = quietlyD[OF quietly_sync[of rt env r]]
  have n: "nests (ne_nodeID env) g rt ?rt" by (rule nests_quietly[OF quietly_sync ok])
  have u: "undone ?rt = undone rt" by (simp add: undone_def q(3))
  have ok1: "rt_exists ?rt \<Longrightarrow> rec_ok g (rt_record ?rt)" using ok q by simp
  note clear = nests_quietly[OF quietly_gap(2)] quietlyD[OF quietly_gap(2)]
  let ?quick = "acceptedCommit ?rt ?u \<noteq> None \<or> \<not> rt_commitEffectInFlight ?rt \<and> rt_acceptedCommits ?rt = fmempty \<or>
    ne_durable env < ?u"
  show ?thesis
  proof (cases ?quick)
    case True
    then have "detectAcceptedCommitGap drain env r rt = Some (False, clearProgressionGap ?rt)"
      by (auto simp: detectAcceptedCommitGap_def Let_def)
    moreover have "nests (ne_nodeID env) g rt (clearProgressionGap ?rt)"
      using nests_trans[OF n clear(1)[OF ok1]] .
    ultimately show ?thesis using clear(5)[of ?rt] q(4) by auto
  next
    case False
    from reconcile_ok[OF _ ok1, of env drain] d u obtain b rt2 where
      r: "reconcileDurableCommitProgress drain env ?rt = Some (b, rt2)" "nests (ne_nodeID env) g ?rt rt2"
      "if b then rt_commitEffectInFlight ?rt \<and> (undone rt2 < undone ?rt \<or> \<not> rt_commitEffectInFlight rt2) else rt2 = ?rt"
      by auto
    have ok2: "rt_exists rt2 \<Longrightarrow> rec_ok g (rt_record rt2)" using nestsD(2,3)[OF r(2)] by simp
    show ?thesis
    proof (cases b)
      case True
      then have "detectAcceptedCommitGap drain env r rt = Some (False, clearProgressionGap rt2)"
        using False r(1) by (auto simp: detectAcceptedCommitGap_def Let_def)
      moreover have "nests (ne_nodeID env) g rt (clearProgressionGap rt2)"
        using nests_trans[OF nests_trans[OF n r(2)] clear(1)[OF ok2]] .
      moreover have "undone (clearProgressionGap rt2) = undone rt2" by (simp add: undone_def clear(4))
      ultimately show ?thesis using r(3) True clear(5)[of rt2] u by auto
    next
      case False2: False
      let ?e = "enterProgressionGap ?u rt2"
      have "detectAcceptedCommitGap drain env r rt = Some (rt_progressionGap ?e, ?e)"
        using False False2 r(1) by (auto simp: detectAcceptedCommitGap_def Let_def)
      moreover have "nests (ne_nodeID env) g rt ?e"
        using nests_trans[OF nests_trans[OF n r(2)] nests_quietly[OF quietly_gap(1) ok2]] .
      ultimately show ?thesis using r(3) False2 quietlyD(4)[OF quietly_gap(1)[of rt2 ?u]] q(4) by auto
    qed
  qed
qed

text \<open>The record handed to \<open>submitCommitWatermarkReady\<close> may lag behind in its commit cursor only.\<close>

definition lags :: "replica_record \<Rightarrow> replica_record \<Rightarrow> bool" where
  "lags r0 r \<longleftrightarrow> rr_assignment r0 = rr_assignment r \<and> rr_highestPreparedDurable r0 = rr_highestPreparedDurable r \<and>
     rr_highestCommitTokenReceived r0 = rr_highestCommitTokenReceived r"

lemma submit_head_range_ok:
  assumes ok: "rt_exists rt \<Longrightarrow> rec_ok g (rt_record rt)" and l: "lags r (rt_record rt)" and q: "q = ready_sequence r"
  shows "nests nid g rt (submit_head_range env r q rt)"
proof -
  have fold: "quietly x (fold (\<lambda>s. set_stage s a b) ss x)" for a b ss x by (rule quietly_fold) (rule quietly_set_stage)
  let ?seqs = "seqs_upto (rr_highestCommittedSequence r) q"
  let ?rt1 = "fold (\<lambda>s. set_stage s acceptedCommitWaitingForTurn acceptedCommitDurableInFlight) ?seqs rt"
  let ?rt2 = "?rt1\<lparr>rt_commitEffectInFlight := True, rt_commitEffectSequence := max (rt_commitEffectSequence ?rt1) q,
    rt_highestWatermarkSent := q\<rparr>"
  note k = quietlyD[OF fold[of rt acceptedCommitWaitingForTurn acceptedCommitDurableInFlight ?seqs]]
  have ok1: "rt_exists ?rt1 \<Longrightarrow> rec_ok g (rt_record ?rt1)" using ok k by simp
  have n1: "nests nid g rt ?rt1" by (rule nests_quietly[OF fold ok])
  have n2: "nests nid g ?rt1 (?rt1\<lparr>rt_commitEffectInFlight := a, rt_commitEffectSequence := b, rt_highestWatermarkSent := c\<rparr>)"
    for a b c by (rule nests_update) (use ok1 in simp_all)
  have eff: "eff_ok nid g (rt_record ?rt2) (EffHeadCommitRange (rr_assignment r) q)"
    using l k(3) by (simp add: q lags_def ready_sequence_def contiguousPreparedHighWater_def)
  have emit: "nests nid g ?rt2 (emit (EffHeadCommitRange (rr_assignment r) q) ?rt2)"
    unfolding nests_def by (intro conjI moves_emit[OF _ eff]) (use ok1 in simp_all)
  let ?rt3 = "?rt2\<lparr>rt_highestWatermarkSent := rr_highestCommittedSequence r, rt_commitEffectInFlight := False,
    rt_commitEffectSequence := 0\<rparr>"
  have n3: "nests nid g ?rt2 ?rt3" by (rule nests_update) (use ok1 in simp_all)
  have undo: "nests nid g ?rt3 (fold (\<lambda>s. set_stage s acceptedCommitDurableInFlight acceptedCommitWaitingForTurn) ?seqs ?rt3)"
    by (rule nests_quietly[OF fold]) (use ok1 in simp)
  show ?thesis
  proof (cases "ne_journalErr env")
    case None
    then show ?thesis using nests_trans[OF nests_trans[OF n1 n2] emit] by (simp add: submit_head_range_def Let_def)
  next
    case (Some e)
    then show ?thesis using nests_trans[OF nests_trans[OF nests_trans[OF n1 n2] n3] undo] by (simp add: submit_head_range_def Let_def)
  qed
qed

lemma submitReady_ok:
  assumes d: "drains (ne_nodeID env) g (undone rt) drain" and ok: "rt_exists rt \<Longrightarrow> rec_ok g (rt_record rt)"
    and l: "lags r (rt_record rt)" and tail: "SuccessorNodeID (rr_peers r) = [] \<Longrightarrow>
      rr_highestPreparedDurable r \<le> rr_highestCommitTokenReceived r"
  shows "\<exists>rt'. submitCommitWatermarkReady drain env r rt = Some rt' \<and> nests (ne_nodeID env) g rt rt'"
proof -
  have nr: "\<not> (SuccessorNodeID (rr_peers r) = [] \<and> rr_highestCommitTokenReceived r < rr_highestPreparedDurable r)"
    using tail by auto
  have "\<exists>rt'. applyCommitWatermark drain env (ready_sequence r) rt = Some rt' \<and> nests (ne_nodeID env) g rt rt'"
    using applyCommitWatermark_ok[OF d ok] by blast
  then show ?thesis
    using nr nests_refl[OF ok] ensureUpstream_nests(1)[OF ok] submit_head_range_ok[OF ok l refl]
    by (auto simp: submitCommitWatermarkReady_def Let_def)
qed

lemma lags_nests: "nests nid g rt rt' \<Longrightarrow> lags (rt_record rt) (rt_record rt')"
  using nestsD(4-6)[of nid g rt rt'] by (simp add: lags_def)

lemma advance_ok:
  assumes "drains (ne_nodeID env) g (undone rt) drain" "rt_exists rt \<Longrightarrow> rec_ok g (rt_record rt)"
    and "2 * undone rt + (if rt_commitEffectInFlight rt then 1 else 0) < n"
  shows "\<exists>rt'. advanceAcceptedCommitProgress n drain env rt = Some rt' \<and> nests (ne_nodeID env) g rt rt'"
  using assms
proof (induction n arbitrary: rt)
  case (Suc n)
  note d = Suc.prems(1) and ok = Suc.prems(2) and fuel = Suc.prems(3)
  show ?case
  proof (cases "rt_exists rt")
    case False
    then show ?thesis using nests_refl[OF ok] by simp
  next
    case True
    let ?r = "rt_record rt" and ?s = "syncAcceptedCommitsFromRecord env (rt_record rt) rt"
    note q = quietlyD[OF quietly_sync[of rt env ?r]]
    have us: "undone ?s = undone rt" by (simp add: undone_def q(3))
    have oks: "rt_exists ?s \<Longrightarrow> rec_ok g (rt_record ?s)" using ok q by simp
    from detect_ok[OF _ oks, of env drain ?r] d us obtain gap rt2 where
      g2: "detectAcceptedCommitGap drain env ?r ?s = Some (gap, rt2)" "nests (ne_nodeID env) g ?s rt2"
      "undone rt2 < undone rt \<or> (rt_commitEffectInFlight rt2 \<longrightarrow> rt_commitEffectInFlight rt)"
      using q(4) by auto
    have n2: "nests (ne_nodeID env) g rt rt2" using nests_trans[OF nests_quietly[OF quietly_sync ok] g2(2)] .
    have ok2: "rt_exists rt2 \<Longrightarrow> rec_ok g (rt_record rt2)" using nestsD(2,3)[OF n2] by simp
    have d2: "drains (ne_nodeID env) g (undone rt2) drain" using drains_mono[OF d nests_undone[OF n2]] .
    obtain again rt3 where r3: "(if rt_commitEffectInFlight rt2 then reconcileDurableCommitProgress drain env rt2
        else Some (False, rt2)) = Some (again, rt3)" "nests (ne_nodeID env) g rt2 rt3"
      "again \<Longrightarrow> rt_commitEffectInFlight rt2 \<and> (undone rt3 < undone rt2 \<or> \<not> rt_commitEffectInFlight rt3)"
      using reconcile_ok[OF d2 ok2] nests_refl[OF ok2] by (cases "rt_commitEffectInFlight rt2") (auto split: if_splits)
    have n3: "nests (ne_nodeID env) g rt rt3" using nests_trans[OF n2 r3(2)] .
    have ok3: "rt_exists rt3 \<Longrightarrow> rec_ok g (rt_record rt3)" using nestsD(2,3)[OF n3] by simp
    have d3: "drains (ne_nodeID env) g (undone rt3) drain" using drains_mono[OF d nests_undone[OF n3]] .
    have step: "advanceAcceptedCommitProgress (Suc n) drain env rt =
      (if gap then Some rt2 else if again then advanceAcceptedCommitProgress n drain env rt3
       else if rr_highestCommittedSequence ?r < ready_sequence ?r \<and> rt_highestWatermarkSent rt3 < ready_sequence ?r
       then submitCommitWatermarkReady drain env ?r rt3 else Some rt3)"
      using True g2(1) r3(1) by (simp add: Let_def)
    have submit: "\<exists>rt'. submitCommitWatermarkReady drain env ?r rt3 = Some rt' \<and> nests (ne_nodeID env) g rt rt'"
      using submitReady_ok[OF d3 ok3 lags_nests[OF n3]] rec_okD(6)[OF ok[OF True]] nests_trans[OF n3] by blast
    have loop: "\<exists>rt'. advanceAcceptedCommitProgress n drain env rt3 = Some rt' \<and> nests (ne_nodeID env) g rt rt'" if again
    proof -
      have "2 * undone rt3 + (if rt_commitEffectInFlight rt3 then 1 else 0) < n"
        using r3(3)[OF that] g2(3) nests_undone[OF n2] nests_undone[OF r3(2)] fuel by (auto split: if_splits)
      from Suc.IH[OF d3 ok3 this] show ?thesis using nests_trans[OF n3] by blast
    qed
    show ?thesis unfolding step using n2 n3 submit loop by auto
  qed
qed simp

section \<open>Draining\<close>

text \<open>Staging the buffered forward that is next in line.\<close>

lemma reduceStageForward_ok:
  assumes ok: "rec_ok g r" and s: "wo_Sequence (fr_Operation req) = rr_nextSequence r"
    and op: "hist_op (g_hist g) (rr_nextSequence r) = Some (fr_Operation req)"
  shows "rec_ok g (reduceStageForward r req)" "grows r (reduceStageForward r req)"
    "rr_highestPreparedDurable (reduceStageForward r req) = rr_highestPreparedDurable r"
    "rr_highestCommitTokenReceived (reduceStageForward r req) = rr_highestCommitTokenReceived r"
    "rr_nextSequence r < rr_nextSequence (reduceStageForward r req)"
proof -
  let ?r = "reduceStageForward r req"
  note fol = rec_okD(1)[OF ok] note D = followsD[OF fol]
  note sf = reduceStageForward_fields[OF fol s]
  have fresh: "fmlookup (rr_stagedForwards r) (rr_nextSequence r) = None"
    using D(8)[of "rr_nextSequence r"] by (cases "fmlookup (rr_stagedForwards r) (rr_nextSequence r)") auto
  have same: "rr_highestCommittedSequence ?r = rr_highestCommittedSequence r"
    "rr_highestPreparedDurable ?r = rr_highestPreparedDurable r"
    "rr_highestCommitTokenReceived ?r = rr_highestCommitTokenReceived r"
    "rr_materializedCommittedSequence ?r = rr_materializedCommittedSequence r"
    "rr_committedOverlay ?r = rr_committedOverlay r" "rr_pendingWrites ?r = rr_pendingWrites r" "rr_state ?r = rr_state r"
    "rr_preparedEntries ?r = fmupd (rr_nextSequence r) (fr_Operation req) (rr_preparedEntries r)"
    "rr_bufferedCommits ?r = rr_bufferedCommits r"
    using fresh s by (simp_all add: reduceStageForward_def Let_def fm_has_def reduceAddDirtyEntry_def)
  have "unat (rr_nextSequence r) + 1 < 2 ^ 64" using op D(1) by (auto simp: hist_op_def hist_ok_def split: if_splits)
  then have un: "unat (rr_nextSequence ?r) = unat (rr_nextSequence r) + 1" unfolding sf(1) by (rule unat_suc)
  then show lt: "rr_nextSequence r < rr_nextSequence ?r" by (simp add: word_less_nat_alt)
  have cn: "rr_highestCommittedSequence r < rr_nextSequence r" using D(4,5) by (simp add: word_less_nat_alt)
  show "rec_ok g ?r"
  proof (rule rec_okI)
    show "follows (g_hist g) ?r" using reduceStageForward_follows[OF fol s op] .
    show "holds (g_hist g) (g_base g) (g_mat g) ?r (g_backend g)"
      using rec_okD(2)[OF ok] holds_cong[OF same(1,5)] by blast
    show "fmlookup (rr_preparedEntries ?r) q = hist_op (g_hist g) q"
      if "rr_materializedCommittedSequence ?r < q" "q \<le> rr_highestCommittedSequence ?r" for q
      using rec_okD(4)[OF ok, of q] that cn by (auto simp: same)
    show "rr_highestCommittedSequence ?r < q \<and> q < rr_nextSequence ?r \<and> pw_operation pw = hist_op (g_hist g) q"
      if "fmlookup (rr_pendingWrites ?r) q = Some pw" for q pw
      using rec_okD(7)[OF ok, of q pw] that lt by (auto simp: same)
    show "fm_has (rr_pendingWrites ?r) q \<or> fm_has (rr_stagedForwards ?r) q"
      if "rr_highestCommittedSequence ?r < q" "q < rr_nextSequence ?r" for q
    proof (cases "q = rr_nextSequence r")
      case True
      then show ?thesis by (simp add: sf(2) fm_has_def)
    next
      case False
      then have "q < rr_nextSequence r" using that(2) un by (auto simp: word_less_nat_alt word_unat_eq_iff)
      then show ?thesis using rec_okD(8)[OF ok, of q] that(1) by (auto simp: same sf(2) fm_has_def)
    qed
  qed (use rec_okD(3,5,6,9)[OF ok] in \<open>simp_all add: same sf(3)\<close>)
  show "grows r ?r" using lt by (simp add: grows_def same sf(3))
qed (use assms in \<open>simp_all add: reduceStageForward_def Let_def\<close>)

text \<open>Starting to prepare and forward an operation of the history that has been staged.\<close>

lemma startPrepare_nests:
  assumes ok: "rt_exists rt \<Longrightarrow> rec_ok g (rt_record rt)"
    and op: "hist_op (g_hist g) (wo_Sequence op) = Some op" "wo_Sequence op < rr_nextSequence (rt_record rt)"
  shows "nests nid g rt (startPrepareEffect env r op after rt)"
proof (cases "ne_journalErr env")
  case None
  have "nests nid g rt (emit (EffPrepare (persisted_prepare r op) after) rt)"
    unfolding nests_def by (intro conjI moves_emit[OF ok]) (use op in \<open>simp_all add: persisted_prepare_def\<close>)
  with None show ?thesis by (simp add: startPrepareEffect_def)
next
  case (Some e)
  then show ?thesis using nests_quietly[OF quietly_afterPrepare_failed ok] by (simp add: startPrepareEffect_def)
qed

lemma startPrepare_record: "rt_record (startPrepareEffect env r op after rt) = rt_record rt"
  using quietlyD(3)[OF quietly_afterPrepare_failed[of rt "after"]] by (simp add: startPrepareEffect_def split: option.split)

lemma startPipeline_nests:
  assumes ok: "rt_exists rt \<Longrightarrow> rec_ok g (rt_record rt)"
    and op: "hist_op (g_hist g) (wo_Sequence op) = Some op" "wo_Sequence op < rr_nextSequence (rt_record rt)"
  shows "nests (ne_nodeID env) g rt (snd (startPreparedForwardPipeline env r op k rt))"
proof (cases "SuccessorNodeID (rr_peers r) = []")
  case True
  then show ?thesis using nests_refl[OF ok] by (simp add: startPreparedForwardPipeline_def)
next
  case False
  let ?p = "rt_nextPipeline rt"
  let ?rt1 = "rt\<lparr>rt_pipelines := fmupd ?p \<lparr>fp_prepareDone = False, fp_forwardDone = False, fp_finished = False,
      fp_operation = op, fp_onComplete = k\<rparr> (rt_pipelines rt), rt_nextPipeline := ?p + 1\<rparr>"
  let ?rt2 = "startPrepareEffect env r op (AfterPipeline ?p) ?rt1"
  have n1: "nests (ne_nodeID env) g rt ?rt1"
    using ok op by (auto simp: nests_def moves_def adds_same pipe_ops_def split: if_splits)
  have n2: "nests (ne_nodeID env) g rt ?rt2"
    by (rule nests_trans[OF n1 startPrepare_nests]) (use ok op in simp_all)
  have ok2: "rt_exists ?rt2 \<Longrightarrow> rec_ok g (rt_record ?rt2)" using nestsD(2,3)[OF n2] by simp
  show ?thesis
  proof (cases "ne_forwardErr env")
    case None
    let ?e = "EffForward (peerTransportTarget (SuccessorTarget (rr_peers r)) (SuccessorNodeID (rr_peers r)))
      (forward_of env r op) ?p (successor_key r)"
    have "nests (ne_nodeID env) g ?rt2 (emit ?e ?rt2)"
      unfolding nests_def by (intro conjI moves_emit[OF ok2]) (use op in \<open>simp_all add: forward_of_def startPrepare_record\<close>)
    from nests_trans[OF n2 this] None False show ?thesis
      by (simp add: startPreparedForwardPipeline_def dispatchForward_def Let_def)
  next
    case (Some e)
    from nests_trans[OF n2 nests_quietly[OF quietly_resolve_failed ok2]] Some False show ?thesis
      by (simp add: startPreparedForwardPipeline_def dispatchForward_def Let_def)
  qed
qed

lemma applyForward_nests:
  assumes ok: "rt_exists rt \<Longrightarrow> rec_ok g (rt_record rt)"
    and op: "hist_op (g_hist g) (wo_Sequence (fr_Operation req)) = Some (fr_Operation req)"
      "wo_Sequence (fr_Operation req) < rr_nextSequence (rt_record rt)"
  shows "nests (ne_nodeID env) g rt (applyForward env req resp rt)"
proof -
  let ?p = "startPreparedForwardPipeline env (rt_record rt) (fr_Operation req) (OnForward resp) rt"
  have n: "nests (ne_nodeID env) g rt (snd ?p)" by (rule startPipeline_nests[OF ok op])
  have "nests (ne_nodeID env) g rt (reply resp err (snd ?p))" for err
    by (rule nests_trans[OF n nests_quietly[OF quietly_reply]]) (use nestsD(2,3)[OF n] in simp)
  with n show ?thesis
    using nests_quietly[OF quietly_reply ok] startPrepare_nests[OF ok op]
    by (cases ?p) (auto simp: applyForward_def split: option.split)
qed

lemma drain_choice_forward:
  assumes "drain_choice env rt = DrainForward req r'" "rec_ok g (rt_record rt)"
  shows "r' = reduceStageForward (rt_record rt) req" "wo_Sequence (fr_Operation req) = rr_nextSequence (rt_record rt)"
    "hist_op (g_hist g) (rr_nextSequence (rt_record rt)) = Some (fr_Operation req)"
proof -
  let ?r = "rt_record rt"
  from assms(1) have b: "fmlookup (rr_bufferedForwards ?r) (rr_nextSequence ?r) = Some req"
    and red: "reduceForwardWrite ?r req (buffer_limits_of env rt) = Inr (r', slotReducerActionApply)"
    by (auto simp: drain_choice_def Let_def split: option.splits sum.splits prod.splits slotReducerAction.splits if_splits)
  note D = followsD[OF rec_okD(1)[OF assms(2)]]
  show op: "hist_op (g_hist g) (rr_nextSequence ?r) = Some (fr_Operation req)" using D(9)[OF b] .
  show "wo_Sequence (fr_Operation req) = rr_nextSequence ?r" using hist_op_seq[OF D(1) op] by simp
  show "r' = reduceStageForward ?r req" using red by (cases rule: reduceForwardWrite_cases) simp_all
qed

lemma drain_ok:
  assumes "rt_exists rt \<Longrightarrow> rec_ok g (rt_record rt)" "2 * undone rt + 4 \<le> n"
  shows "\<exists>rt'. drainReadyBuffered n env resp rt = Some rt' \<and> nests (ne_nodeID env) g rt rt'"
  using assms
proof (induction n arbitrary: rt resp)
  case (Suc n)
  note ok = Suc.prems(1) and fuel = Suc.prems(2)
  have rep: "nests (ne_nodeID env) g a (reply resp e b)" if "nests (ne_nodeID env) g a b" for a b resp e
    by (rule nests_trans[OF that nests_quietly[OF quietly_reply]]) (use nestsD(2,3)[OF that] in simp)
  show ?case
  proof (cases "rt_exists rt")
    case False
    then show ?thesis using rep[OF nests_refl[OF ok]] by simp
  next
    case True
    let ?d = "drainReadyBuffered n env None"
    have d: "drains (ne_nodeID env) g (undone rt) ?d"
      unfolding drains_def
    proof (intro allI impI)
      fix x assume x: "rt_exists x" "rec_ok g (rt_record x)" "undone x < undone rt"
      then show "\<exists>rt'. ?d x = Some rt' \<and> nests (ne_nodeID env) g x rt'" using fuel by (intro Suc.IH) simp_all
    qed
    obtain b rt1 where r1: "reconcileDurableCommitProgress ?d env rt = Some (b, rt1)" "nests (ne_nodeID env) g rt rt1"
      using reconcile_ok[OF d ok] by blast
    have ok1: "rt_exists rt1 \<Longrightarrow> rec_ok g (rt_record rt1)" using nestsD(2,3)[OF r1(2)] by simp
    have adv: "\<exists>rt'. advanceAcceptedCommitProgress n ?d env x = Some rt' \<and> nests (ne_nodeID env) g rt rt'"
      if x: "nests (ne_nodeID env) g rt x" for x
    proof -
      have "rt_exists x \<Longrightarrow> rec_ok g (rt_record x)" using nestsD(2,3)[OF x] by simp
      moreover have "2 * undone x + (if rt_commitEffectInFlight x then 1 else 0) < n"
        using nests_undone[OF x] fuel by (auto split: if_splits)
      ultimately show ?thesis
        using advance_ok[OF drains_mono[OF d nests_undone[OF x]]] nests_trans[OF x] by blast
    qed
    obtain rt2 where r2: "advanceAcceptedCommitProgress n ?d env rt1 = Some rt2" "nests (ne_nodeID env) g rt rt2"
      using adv[OF r1(2)] by blast
    have e2: "rt_exists rt2" "rec_ok g (rt_record rt2)" using nestsD(2,3)[OF r2(2)] True by simp_all
    have step: "drainReadyBuffered (Suc n) env resp rt =
      (if rt_commitEffectInFlight rt2 then Some (reply resp None rt2)
       else case drain_choice env rt2 of
              DrainForward req r' \<Rightarrow> Some (applyForward env req resp (setRecord env r' rt2))
            | DrainCommit u req \<Rightarrow> map_option (reply resp None)
                (advanceAcceptedCommitProgress n ?d env (snd (acceptedCommitEntryWithStrict u req False rt2)))
            | DrainGap \<Rightarrow> Some (reply resp None (ensureGapCatchup rt2))
            | DrainStop \<Rightarrow> Some (reply resp None rt2))"
      using True r1(1) r2(1) by (simp add: Let_def map_option_case Option.bind_def split: option.splits drain_step.splits)
    show ?thesis
    proof (cases "rt_commitEffectInFlight rt2")
      case True
      then show ?thesis unfolding step using rep[OF r2(2)] by simp
    next
      case False
      show ?thesis
      proof (cases "drain_choice env rt2")
        case (DrainForward req r')
        note c = drain_choice_forward[OF DrainForward e2(2)]
        note st = reduceStageForward_ok[OF e2(2) c(2,3)]
        have s: "nests (ne_nodeID env) g rt2 (setRecord env r' rt2)"
          using moves_setRecord[OF e2(1) st(2,1)] st(3,4) by (simp add: nests_def c(1))
        have "nests (ne_nodeID env) g (setRecord env r' rt2) (applyForward env req resp (setRecord env r' rt2))"
          by (rule applyForward_nests) (use st(1,5) c in simp_all)
        from nests_trans[OF nests_trans[OF r2(2) s] this] show ?thesis unfolding step using False DrainForward by simp
      next
        case (DrainCommit u req)
        from adv[OF nests_trans[OF r2(2) nests_quietly[OF quietly_entry e2(2)]], of u req False]
        obtain rt3 where "advanceAcceptedCommitProgress n ?d env (snd (acceptedCommitEntryWithStrict u req False rt2)) = Some rt3"
          "nests (ne_nodeID env) g rt rt3" by blast
        with rep show ?thesis unfolding step using False DrainCommit by simp
      next
        case DrainGap
        then show ?thesis unfolding step
          using False rep[OF nests_trans[OF r2(2) nests_quietly[OF quietly_catchup e2(2)]]] by simp
      next
        case DrainStop
        then show ?thesis unfolding step using False rep[OF r2(2)] by simp
      qed
    qed
  qed
qed simp

lemma drainer_drains:
  assumes "2 * undone rt + 4 \<le> n"
  shows "drains (ne_nodeID env) g (undone rt) (drainer_of n env)"
  unfolding drains_def
proof (intro allI impI)
  fix x assume x: "rt_exists x" "rec_ok g (rt_record x)" "undone x < undone rt"
  then show "\<exists>rt'. drainer_of n env x = Some rt' \<and> nests (ne_nodeID env) g x rt'"
    using assms by (intro drain_ok) simp_all
qed

end
