(* ===== verification/Slot_Serve.thy ===== *)
theory Slot_Serve
  imports Slot_Progress
begin

text \<open>
  Every handler of the slot runtime returns and keeps the invariant, given fuel for what is
  prepared.  A handler may assume of its request what the effect that caused it guaranteed
  (\<open>eff_ok\<close>): a forwarded operation is the history's operation of its number, a prepared one
  has been numbered here.
\<close>

section \<open>The invariant of a runtime\<close>

definition slot_inv :: "ghost \<Rightarrow> slot_runtime \<Rightarrow> bool" where
  "slot_inv g rt \<longleftrightarrow> (if rt_exists rt
     then rec_ok g (rt_record rt) \<and> (\<forall>op \<in> pipe_ops rt.
       hist_op (g_hist g) (wo_Sequence op) = Some op \<and> wo_Sequence op < rr_nextSequence (rt_record rt))
     else rt_record rt = zero_record)"

lemma slot_invD: "slot_inv g rt \<Longrightarrow> rt_exists rt \<Longrightarrow> rec_ok g (rt_record rt)"
  by (simp add: slot_inv_def)

lemma moves_inv: "slot_inv g rt \<Longrightarrow> moves nid g rt rt' \<Longrightarrow> slot_inv g rt'"
proof -
  assume inv: "slot_inv g rt" and m: "moves nid g rt rt'"
  have "rr_nextSequence (rt_record rt) \<le> rr_nextSequence (rt_record rt')" using movesD(3)[OF m] by (simp add: grows_def)
  then show ?thesis using inv movesD(2,4,6,7)[OF m] by (fastforce simp: slot_inv_def split: if_splits)
qed

lemmas nests_inv = moves_inv[OF _ nestsD(1)]

definition fuel_ok :: "nat \<Rightarrow> slot_runtime \<Rightarrow> bool" where
  "fuel_ok n rt \<longleftrightarrow> 2 * unat (rr_highestPreparedDurable (rt_record rt)) + 4 \<le> n"

lemma fuel_nests: "fuel_ok n rt \<Longrightarrow> nests nid g rt rt' \<Longrightarrow> fuel_ok n rt'"
  by (simp add: fuel_ok_def nests_def)

lemma fuel_drains:
  assumes "fuel_ok n rt"
  shows "drains (ne_nodeID env) g (undone rt) (drainer_of n env)"
  by (rule drainer_drains) (use assms in \<open>simp add: fuel_ok_def undone_def\<close>)

lemma tail_ok:
  assumes "slot_inv g rt" "SuccessorNodeID (rr_peers (rt_record rt)) = []"
  shows "rr_highestPreparedDurable (rt_record rt) \<le> rr_highestCommitTokenReceived (rt_record rt)"
  using assms rec_okD(6)[of g "rt_record rt"] by (auto simp: slot_inv_def zero_record_def split: if_splits)

text \<open>The two calls most handlers make.\<close>

lemma serve_reconcile:
  assumes "slot_inv g rt" "fuel_ok n rt"
  obtains b rt' where "reconcileDurableCommitProgress (drainer_of n env) env rt = Some (b, rt')"
    "nests (ne_nodeID env) g rt rt'"
  using reconcile_ok[OF fuel_drains[OF assms(2)] slot_invD[OF assms(1)]] by blast

lemma serve_submit:
  assumes "slot_inv g rt" "fuel_ok n rt"
  obtains rt' where "submitCommitWatermarkReady (drainer_of n env) env (rt_record rt) rt = Some rt'"
    "nests (ne_nodeID env) g rt rt'"
  using submitReady_ok[OF fuel_drains[OF assms(2)] slot_invD[OF assms(1)], where r = "rt_record rt"] tail_ok[OF assms(1)]
  by (auto simp: lags_def)

lemma moves_then: "moves nid g a b \<Longrightarrow> quietly b c \<Longrightarrow> moves nid g a c"
  by (rule moves_trans, assumption, rule moves_quietly) (simp_all add: movesD(2,4))

lemma nests_then: "nests nid g a b \<Longrightarrow> quietly b c \<Longrightarrow> nests nid g a c"
  by (rule nests_trans, assumption, rule nests_quietly) (simp_all add: nestsD(2,3))

lemmas nests_reply = nests_then[OF _ quietly_reply]

section \<open>Completions\<close>

lemma onComplete_ok_moves:
  assumes "slot_inv g rt" "fuel_ok n rt"
  shows "\<exists>rt'. onComplete_ok n env k rt = Some rt' \<and> nests (ne_nodeID env) g rt rt'"
proof (cases k)
  case (OnHeadWrite s)
  then show ?thesis using nests_refl[OF slot_invD[OF assms(1)]] nests_quietly[OF quietly_emit slot_invD[OF assms(1)]]
    by (simp add: onComplete_ok_def)
next
  case (OnForward resp)
  obtain rt1 where s: "submitCommitWatermarkReady (drainer_of n env) env (rt_record rt) rt = Some rt1"
    "nests (ne_nodeID env) g rt rt1" by (rule serve_submit[OF assms])
  have "nests (ne_nodeID env) g rt (scheduleDrainReadyBuffered (reply resp None x))" if "nests (ne_nodeID env) g rt x" for x
    by (rule nests_then[OF nests_reply[OF that] quietly_schedule])
  with OnForward s nests_refl[OF slot_invD[OF assms(1)]] nests_quietly[OF quietly_reply slot_invD[OF assms(1)]]
  show ?thesis by (auto simp: onComplete_ok_def)
qed

lemma resolve_ok_moves:
  assumes inv: "slot_inv g rt" and fuel: "fuel_ok n rt"
  shows "\<exists>rt'. (case resolve p d None rt of (None, x) \<Rightarrow> Some x | (Some k, x) \<Rightarrow> onComplete_ok n env k x) = Some rt' \<and>
    nests (ne_nodeID env) g rt rt'"
proof -
  obtain k rt1 where r: "resolve p d None rt = (k, rt1)" by (cases "resolve p d None rt")
  have n: "nests (ne_nodeID env) g rt rt1" using nests_quietly[OF quietly_resolve[of rt p d None] slot_invD[OF inv]] r by simp
  show ?thesis
  proof (cases k)
    case (Some kk)
    from onComplete_ok_moves[OF nests_inv[OF inv n] fuel_nests[OF fuel n], of env kk] r n Some show ?thesis
      by (auto intro: nests_trans)
  qed (use r n in simp)
qed

lemma afterPrepare_ok_moves:
  assumes inv: "slot_inv g rt" and fuel: "fuel_ok n rt"
  shows "\<exists>rt'. afterPrepare_ok n env after rt = Some rt' \<and> nests (ne_nodeID env) g rt rt'"
proof (cases "after")
  case (AfterSingle s)
  then show ?thesis using nests_refl[OF slot_invD[OF inv]] by (simp add: afterPrepare_ok_def)
next
  case (AfterTail resp)
  obtain rt1 where s: "submitCommitWatermarkReady (drainer_of n env) env (rt_record rt) rt = Some rt1"
    "nests (ne_nodeID env) g rt rt1" by (rule serve_submit[OF assms])
  have "nests (ne_nodeID env) g rt (scheduleDrainReadyBuffered (reply resp None rt1))"
    by (rule nests_then[OF nests_reply[OF s(2)] quietly_schedule])
  with s AfterTail show ?thesis by (simp add: afterPrepare_ok_def)
next
  case (AfterPipeline p)
  then show ?thesis using resolve_ok_moves[OF assms] by (simp add: afterPrepare_ok_def)
qed

lemma note_prepared_ok:
  assumes ok: "rec_ok g r" and s: "s < rr_nextSequence r"
  shows "rec_ok g (note_prepared s r)" "grows r (note_prepared s r)"
    "rr_highestPreparedDurable (note_prepared s r) < rr_nextSequence r"
proof -
  let ?p = "max (rr_highestPreparedDurable r) s" and ?r = "note_prepared s r"
  note D = followsD[OF rec_okD(1)[OF ok]]
  have p: "rr_highestPreparedDurable ?r = ?p" by (auto simp: note_prepared_def Let_def max_def)
  have t: "rr_highestCommitTokenReceived r \<le> rr_highestCommitTokenReceived ?r"
    "SuccessorNodeID (rr_peers r) = [] \<Longrightarrow> rr_highestCommitTokenReceived ?r = max (rr_highestCommitTokenReceived r) s"
    by (auto simp: note_prepared_def Let_def max_def)
  have same: "rr_nextSequence ?r = rr_nextSequence r" "rr_highestCommittedSequence ?r = rr_highestCommittedSequence r"
    "rr_materializedCommittedSequence ?r = rr_materializedCommittedSequence r" "rr_preparedEntries ?r = rr_preparedEntries r"
    "rr_stagedForwards ?r = rr_stagedForwards r" "rr_bufferedForwards ?r = rr_bufferedForwards r"
    "rr_dirtyByKey ?r = rr_dirtyByKey r" "rr_committedOverlay ?r = rr_committedOverlay r"
    "rr_pendingWrites ?r = rr_pendingWrites r" "rr_assignment ?r = rr_assignment r" "rr_state ?r = rr_state r"
    "rr_bufferedCommits ?r = rr_bufferedCommits r"
    by (simp_all add: note_prepared_def Let_def)
  have pn: "?p < rr_nextSequence r" using s D(5) by (simp add: word_less_nat_alt max_def)
  then show "rr_highestPreparedDurable ?r < rr_nextSequence r" by (simp add: p)
  show "grows r ?r" using t(1) by (simp add: grows_def same p)
  have "follows (g_hist g) (r\<lparr>rr_highestPreparedDurable := ?p\<rparr>)"
    by (rule follows_prepared[OF rec_okD(1)[OF ok] _ pn]) simp
  then have f: "follows (g_hist g) ?r" by (subst (asm) follows_cong) (simp_all add: same p)
  have h: "holds (g_hist g) (g_base g) (g_mat g) ?r (g_backend g)"
    using rec_okD(2)[OF ok] holds_cong[OF same(2,8)] by blast
  show "rec_ok g ?r"
  proof (rule rec_okI[OF f h])
    show "rr_highestPreparedDurable ?r \<le> rr_highestCommitTokenReceived ?r" if "SuccessorNodeID (rr_peers ?r) = []"
      using rec_okD(6)[OF ok] t(2) that by (auto simp: p same max_def)
    show "rr_highestCommittedSequence ?r \<le> rr_highestCommitTokenReceived ?r"
      using rec_okD(5)[OF ok] t(1) by (simp add: same)
  qed (use rec_okD(3,4,7,8,9)[OF ok] in \<open>simp_all add: same\<close>)
qed

text \<open>A completed prepare needs fuel for the cursor it may move to.\<close>

lemma prepare_done_moves:
  assumes inv: "slot_inv g rt" and s: "rt_exists rt \<Longrightarrow> wo_Sequence op < rr_nextSequence (rt_record rt)"
    and fuel: "2 * unat (rr_nextSequence (rt_record rt)) + 4 \<le> n"
  shows "\<exists>rt'. prepare_done n env op after err rt = Some rt' \<and> moves (ne_nodeID env) g rt rt' \<and>
    (SuccessorNodeID (rr_peers (rt_record rt)) = [] \<or>
     rr_highestCommitTokenReceived (rt_record rt') = rr_highestCommitTokenReceived (rt_record rt))"
proof (cases err)
  case (Some e)
  then show ?thesis using nests_quietly[OF quietly_afterPrepare_failed slot_invD[OF inv]]
    by (auto simp: prepare_done_def nests_def)
next
  case None
  show ?thesis
  proof (cases "rt_exists rt")
    case False
    then have "fuel_ok n rt" using inv fuel by (simp add: slot_inv_def fuel_ok_def zero_record_def)
    from afterPrepare_ok_moves[OF inv this, of env "after"] None False show ?thesis by (auto simp: prepare_done_def nests_def)
  next
    case True
    let ?c = "note_prepared (wo_Sequence op) (rt_record rt)"
    let ?rt = "if ?c = rt_record rt then rt else setRecord env ?c rt"
    note np = note_prepared_ok[OF slot_invD[OF inv True] s[OF True]]
    have m: "moves (ne_nodeID env) g rt ?rt"
      using moves_setRecord[OF True np(2,1)] moves_refl[OF slot_invD[OF inv]] by auto
    have r: "rt_record ?rt = ?c" by simp
    have f: "fuel_ok n ?rt" using np(3) fuel unfolding fuel_ok_def r by (simp add: word_less_nat_alt)
    obtain rt1 where s: "submitCommitWatermarkReady (drainer_of n env) env ?c ?rt = Some rt1"
      "nests (ne_nodeID env) g ?rt rt1"
      using serve_submit[OF moves_inv[OF inv m] f, of env] unfolding r by blast
    from afterPrepare_ok_moves[OF nests_inv[OF moves_inv[OF inv m] s(2)] fuel_nests[OF f s(2)], of env "after"]
    obtain rt2 where a: "afterPrepare_ok n env after rt1 = Some rt2" "nests (ne_nodeID env) g rt1 rt2" by blast
    have "prepare_done n env op after err rt = Some rt2" using None True s(1) a(1) by (simp add: prepare_done_def Let_def)
    moreover have "SuccessorNodeID (rr_peers (rt_record rt)) = [] \<or>
        rr_highestCommitTokenReceived ?c = rr_highestCommitTokenReceived (rt_record rt)"
      by (auto simp: note_prepared_def Let_def)
    then have "SuccessorNodeID (rr_peers (rt_record rt)) = [] \<or>
        rr_highestCommitTokenReceived (rt_record rt2) = rr_highestCommitTokenReceived (rt_record rt)"
      using nestsD(6)[OF a(2)] nestsD(6)[OF s(2)] r by simp
    ultimately show ?thesis using moves_trans[OF moves_trans[OF m nestsD(1)[OF s(2)]] nestsD(1)[OF a(2)]] by blast
  qed
qed

lemma forward_done_moves:
  assumes inv: "slot_inv g rt" and fuel: "fuel_ok n rt"
  shows "\<exists>rt'. forward_done n env p key err rt = Some rt' \<and> nests (ne_nodeID env) g rt rt'"
proof -
  note ok = slot_invD[OF inv]
  have good: "\<exists>rt'. (case resolve p False None rt of (None, x) \<Rightarrow> Some x | (Some k, x) \<Rightarrow> onComplete_ok n env k x) = Some rt' \<and>
      nests (ne_nodeID env) g rt rt'"
    by (rule resolve_ok_moves[OF inv fuel])
  have bad: "nests (ne_nodeID env) g rt (resolve_failed p False e rt)" for e by (rule nests_quietly[OF quietly_resolve_failed ok])
  have again: "\<exists>rt'. (case dispatchForward env p (fp_operation pl) (rt_record rt) rt of
      (None, x) \<Rightarrow> Some x | (Some e, x) \<Rightarrow> Some (resolve_failed p False e x)) = Some rt' \<and> nests (ne_nodeID env) g rt rt'"
    if ex: "rt_exists rt" and pl: "fmlookup (rt_pipelines rt) p = Some pl" for pl
  proof (cases "ne_forwardErr env")
    case None
    have "hist_op (g_hist g) (wo_Sequence (fp_operation pl)) = Some (fp_operation pl)"
      "wo_Sequence (fp_operation pl) < rr_nextSequence (rt_record rt)"
      using inv ex pl by (auto simp: slot_inv_def pipe_ops_def)
    then show ?thesis using None by (auto simp: dispatchForward_def forward_of_def nests_def intro!: moves_emit ok)
  next
    case (Some e)
    then show ?thesis using bad by (simp add: dispatchForward_def)
  qed
  show ?thesis
    using good bad again nests_refl[OF ok]
    by (cases err; cases "fmlookup (rt_pipelines rt) p") (simp_all add: forward_done_def Let_def)
qed

lemma head_range_done_moves:
  assumes inv: "slot_inv g rt" and fuel: "fuel_ok n rt"
  shows "\<exists>rt'. head_range_done n env q err rt = Some rt' \<and> nests (ne_nodeID env) g rt rt'"
proof (cases err)
  case None
  then show ?thesis using applyCommitWatermark_ok[OF fuel_drains[OF fuel] slot_invD[OF inv]]
    by (auto simp: head_range_done_def)
next
  case (Some e)
  let ?c = "rr_highestCommittedSequence (rt_record rt)"
  let ?rt1 = "if rt_highestWatermarkSent rt = q then rt\<lparr>rt_highestWatermarkSent := ?c\<rparr> else rt"
  let ?rt2 = "if rt_commitEffectSequence ?rt1 \<le> q
    then ?rt1\<lparr>rt_commitEffectInFlight := False, rt_commitEffectSequence := 0\<rparr> else ?rt1"
  have "nests (ne_nodeID env) g rt ?rt2" by (rule nests_update) (use slot_invD[OF inv] in simp_all)
  then have "nests (ne_nodeID env) g rt (fold (\<lambda>s. set_stage s a b) ss ?rt2)" for a b ss
    by (rule nests_then[OF _ quietly_fold]) (rule quietly_set_stage)
  with Some show ?thesis by (simp add: head_range_done_def Let_def)
qed

lemma upstream_done_moves:
  assumes inv: "slot_inv g rt"
  shows "nests (ne_nodeID env) g rt (upstream_done env q key err rt)"
proof -
  note ok = slot_invD[OF inv]
  let ?rt = "rt\<lparr>rt_upstreamCommitInFlight := False\<rparr>"
  let ?r = "(rt_record rt)\<lparr>rr_highestUpstreamConfirmedSequence := q\<rparr>"
  have n1: "nests (ne_nodeID env) g rt (rt\<lparr>rt_upstreamCommitInFlight := False, rt_upstreamCommitHighSent := h\<rparr>)"
    "nests (ne_nodeID env) g rt ?rt" for h
    by (rule nests_update; use ok in simp)+
  have up: "nests (ne_nodeID env) g rt (ensureUpstreamCommitReplay env x)" if "nests (ne_nodeID env) g rt x" for x
    by (rule nests_trans[OF that ensureUpstream_nests(1)]) (use nestsD(2,3)[OF that] in simp)
  have set: "nests (ne_nodeID env) g rt (persistUpstreamConfirmedSequenceAsync env a s (setRecord env ?r ?rt))"
    if e: "rt_exists rt" for a s
  proof -
    have "rec_ok g ?r" by (rule rec_ok_cong[where r = "rt_record rt", THEN iffD2]) (use ok[OF e] in simp_all)
    then have "nests (ne_nodeID env) g ?rt (setRecord env ?r ?rt)"
      using moves_setRecord[of ?rt ?r g] e by (simp add: nests_def grows_def)
    moreover have "quietly x (persistUpstreamConfirmedSequenceAsync env a s x)" for x
      by (auto simp: persistUpstreamConfirmedSequenceAsync_def quietly_emit split: option.split)
    ultimately show ?thesis using nests_then[OF nests_trans[OF n1(2)]] by blast
  qed
  show ?thesis
    using n1 up[OF n1(1)] up[OF n1(2)] up[OF set] by (auto simp: upstream_done_def Let_def)
qed

lemma releaseClientWrite_moves:
  assumes inv: "slot_inv g rt"
  shows "nests nid g rt (releaseClientWrite env rt)"
proof -
  note ok = slot_invD[OF inv]
  let ?r = "if rr_inFlightClientWrites (rt_record rt) > 0
    then (rt_record rt)\<lparr>rr_inFlightClientWrites := rr_inFlightClientWrites (rt_record rt) - 1\<rparr> else rt_record rt"
  have "nests nid g rt (setRecord env ?r rt)" if e: "rt_exists rt"
  proof -
    have "rec_ok g ?r" by (rule rec_ok_cong[where r = "rt_record rt", THEN iffD2]) (use ok[OF e] in simp_all)
    then show ?thesis using moves_setRecord[of rt ?r g] e by (simp add: nests_def grows_def)
  qed
  with nests_refl[OF ok] show ?thesis by (auto simp: releaseClientWrite_def Let_def intro!: nests_then[OF _ quietly_emit])
qed

section \<open>Messages from peers\<close>

lemma buffered_ok:
  assumes ok: "rec_ok g r" and op: "hist_op (g_hist g) (wo_Sequence (fr_Operation req)) = Some (fr_Operation req)"
    and red: "reduceBufferFutureForward r req limits = Inr r'"
  shows "rec_ok g r'" "grows r r'" "rr_highestPreparedDurable r' = rr_highestPreparedDurable r"
    "rr_highestCommitTokenReceived r' = rr_highestCommitTokenReceived r"
proof -
  let ?q = "wo_Sequence (fr_Operation req)"
  let ?b = "r\<lparr>rr_bufferedForwards := fmupd ?q req (rr_bufferedForwards r)\<rparr>"
  note D = followsD[OF rec_okD(1)[OF ok]]
  have "follows (g_hist g) ?b"
  proof (rule followsI)
    show "hist_op (g_hist g) s = Some (fr_Operation x)" if "fmlookup (rr_bufferedForwards ?b) s = Some x" for s x
      using that D(9)[of s x] op by (cases "s = ?q") simp_all
    show "fm_get [] (rr_dirtyByKey ?b) k = dirty_of (window (g_hist g) ?b) k" for k using D(10)[of k] by (simp add: window_def)
    show "unat s < unat (rr_nextSequence ?b) \<and> hist_op (g_hist g) s = Some x"
      if "fmlookup (rr_preparedEntries ?b) s = Some x" for s x using D(7)[of s x] that by simp
    show "unat (rr_highestCommittedSequence ?b) < unat s \<and> unat s < unat (rr_nextSequence ?b) \<and>
        hist_op (g_hist g) s = Some (fr_Operation x)" if "fmlookup (rr_stagedForwards ?b) s = Some x" for s x
      using D(8)[of s x] that by simp
  qed (use D(1-6) in simp_all)
  moreover have "holds (g_hist g) (g_base g) (g_mat g) ?b (g_backend g)"
    by (rule holds_cong[where r = r, THEN iffD2]) (use rec_okD(2)[OF ok] in simp_all)
  ultimately have b: "rec_ok g ?b" by (rule rec_okI) (use rec_okD(3-9)[OF ok] in simp_all)
  from red have "r' = r \<or> r' = ?b" by (rule reduceBufferFutureForward_cases) simp_all
  then show "rec_ok g r'" "grows r r'" "rr_highestPreparedDurable r' = rr_highestPreparedDurable r"
    "rr_highestCommitTokenReceived r' = rr_highestCommitTokenReceived r"
    using ok b by (auto simp: grows_def)
qed

lemma handleForwardWrite_moves:
  assumes inv: "slot_inv g rt" and fuel: "fuel_ok n rt"
    and op: "hist_op (g_hist g) (wo_Sequence (fr_Operation req)) = Some (fr_Operation req)"
  shows "\<exists>rt'. handleForwardWrite n env req resp rt = Some rt' \<and> nests (ne_nodeID env) g rt rt'"
proof -
  obtain b rt1 where r1: "reconcileDurableCommitProgress (drainer_of n env) env rt = Some (b, rt1)"
    "nests (ne_nodeID env) g rt rt1" by (rule serve_reconcile[OF inv fuel])
  note ok1 = slot_invD[OF nests_inv[OF inv r1(2)]]
  let ?nid = "ne_nodeID env"
  have rep: "nests ?nid g rt (reply (Some resp) e x)" if "nests ?nid g rt x" for e x by (rule nests_reply[OF that])
  have set: "nests ?nid g rt (setRecord env r' rt1)" if "rt_exists rt1" "rec_ok g r'" "grows (rt_record rt1) r'"
    "rr_highestPreparedDurable r' = rr_highestPreparedDurable (rt_record rt1)"
    "rr_highestCommitTokenReceived r' = rr_highestCommitTokenReceived (rt_record rt1)" for r'
    using moves_setRecord[OF that(1,3,2)] that(4,5) by (intro nests_trans[OF r1(2)]) (simp add: nests_def)
  show ?thesis
  proof (cases "replicationRecord rt1")
    case (Inl e)
    then show ?thesis using r1 rep[OF r1(2)] by (simp add: handleForwardWrite_def)
  next
    case (Inr r)
    then have e: "rt_exists rt1" "r = rt_record rt1" by (auto simp: replicationRecord_def split: if_splits)
    note buf = buffered_ok[OF ok1[OF e(1)] op]
    have b: "nests ?nid g rt (setRecord env r' rt1)" if "reduceBufferFutureForward (rt_record rt1) req l = Inr r'" for r' l
      by (rule set[OF e(1) buf[OF that]])
    define early where "early \<longleftrightarrow> SuccessorNodeID (rr_peers r) = [] \<and> rt_commitEffectInFlight rt1 \<and>
      wo_Sequence (fr_Operation req) = rr_nextSequence r"
    note def = handleForwardWrite_def[of n env req resp rt, unfolded r1(1), simplified, unfolded Inr, simplified, folded early_def]
    show ?thesis
    proof (cases early)
      case True
      then show ?thesis using rep[OF r1(2)] rep[OF b] e(2)
        by (cases "reduceBufferFutureForward r req (buffer_limits_of env rt1)") (simp_all add: def)
    next
      case False
      show ?thesis
      proof (cases "reduceForwardWrite r req (buffer_limits_of env rt1)")
        case (Inl err)
        then show ?thesis using False rep[OF r1(2)] by (simp add: def)
      next
        case red: (Inr pr)
        obtain r' action where pr: "pr = (r', action)" by (cases pr)
        have step: "handleForwardWrite n env req resp rt = Some (case action of
            slotReducerActionIgnore \<Rightarrow> reply (Some resp) None rt1
          | slotReducerActionBuffer \<Rightarrow> reply (Some resp) None (ensureGapCatchup (setRecord env r' rt1))
          | slotReducerActionApply \<Rightarrow> applyForward env req (Some resp) (setRecord env r' rt1))"
          using False red pr by (simp add: def)
        from red[unfolded pr] show ?thesis
        proof (cases rule: reduceForwardWrite_cases)
          case past
          then show ?thesis using step rep[OF r1(2)] by simp
        next
          case future
          then show ?thesis using step rep[OF nests_then[OF b quietly_catchup]] e(2) by simp
        next
          case staged
          note st = reduceStageForward_ok[OF ok1[OF e(1)] staged(1)[unfolded e(2)]]
          have op': "hist_op (g_hist g) (rr_nextSequence (rt_record rt1)) = Some (fr_Operation req)"
            using op staged(1) e(2) by simp
          have s: "nests ?nid g rt (setRecord env r' rt1)"
            using set[OF e(1) st(1)[OF op'] st(2)[OF op'] st(3)[OF op'] st(4)[OF op']] staged(2) e(2) by simp
          have "nests ?nid g (setRecord env r' rt1) (applyForward env req (Some resp) (setRecord env r' rt1))"
            by (rule applyForward_nests[OF _ op]) (use st(1,5)[OF op'] staged e(2) in simp_all)
          with step staged(3) nests_trans[OF s this] show ?thesis by simp
        qed
      qed
    qed
  qed
qed

end
