(* ===== verification/Slot_Steps.thy ===== *)
theory Slot_Steps
  imports Slot_Serve
begin

text \<open>
  The remaining handlers of a slot: commit notices, replays, materialization, catching up
  and client writes, which extend the slot's history; then all events a slot owner serves,
  as one step function, and what holds of every step.
\<close>

section \<open>Commit notices\<close>

text \<open>Raising the token and changing the buffered commits.\<close>

lemma token_ok:
  assumes ok: "rec_ok g r" and t: "rr_highestCommitTokenReceived r \<le> t" and m: "fmlookup m 0 = None"
  shows "rec_ok g (r\<lparr>rr_highestCommitTokenReceived := t, rr_bufferedCommits := m\<rparr>)"
    "grows r (r\<lparr>rr_highestCommitTokenReceived := t, rr_bufferedCommits := m\<rparr>)"
proof -
  let ?r = "r\<lparr>rr_highestCommitTokenReceived := t, rr_bufferedCommits := m\<rparr>"
  have f: "follows (g_hist g) ?r" by (rule follows_cong[where r = r, THEN iffD2]) (use rec_okD(1)[OF ok] in simp_all)
  have h: "holds (g_hist g) (g_base g) (g_mat g) ?r (g_backend g)"
    by (rule holds_cong[where r = r, THEN iffD2]) (use rec_okD(2)[OF ok] in simp_all)
  show "rec_ok g ?r"
    by (rule rec_okI[OF f h]) (use rec_okD(3-8)[OF ok] m t in \<open>auto intro: order_trans\<close>)
  show "grows r ?r" using t by (simp add: grows_def)
qed

declare ingest_ready.simps [simp del]

lemma ingest_ready_form:
  assumes "fmlookup (rr_bufferedCommits r) 0 = None"
  shows "\<exists>t m. ingest_ready r = r\<lparr>rr_highestCommitTokenReceived := t, rr_bufferedCommits := m\<rparr> \<and>
    rr_highestCommitTokenReceived r \<le> t \<and> fmlookup m 0 = None"
  using assms
proof (induction r rule: ingest_ready.induct)
  case (1 r)
  let ?u = "rr_highestCommitTokenReceived r + 1"
  show ?case
  proof (cases "fm_has (rr_bufferedCommits r) ?u")
    case True
    then have "?u \<noteq> 0" using 1(2) by (auto simp: fm_has_def)
    then have le: "rr_highestCommitTokenReceived r \<le> ?u" using unatSuc[of "rr_highestCommitTokenReceived r"] by (simp add: word_le_nat_alt add.commute)
    have z: "fmlookup (rr_bufferedCommits (r\<lparr>rr_bufferedCommits := fmdrop ?u (rr_bufferedCommits r),
        rr_highestCommitTokenReceived := ?u\<rparr>)) 0 = None" using 1(2) by simp
    obtain t m where i: "ingest_ready (r\<lparr>rr_bufferedCommits := fmdrop ?u (rr_bufferedCommits r), rr_highestCommitTokenReceived := ?u\<rparr>)
      = r\<lparr>rr_highestCommitTokenReceived := t, rr_bufferedCommits := m\<rparr>" "?u \<le> t" "fmlookup m 0 = None"
      using 1(1)[OF refl True z] by auto
    have eq: "ingest_ready r = ingest_ready (r\<lparr>rr_bufferedCommits := fmdrop ?u (rr_bufferedCommits r), rr_highestCommitTokenReceived := ?u\<rparr>)"
      by (subst ingest_ready.simps) (simp add: True Let_def)
    show ?thesis unfolding eq using i order_trans[OF le i(2)] by blast
  next
    case False
    then have "ingest_ready r = r\<lparr>rr_highestCommitTokenReceived := rr_highestCommitTokenReceived r, rr_bufferedCommits := rr_bufferedCommits r\<rparr>"
      by (subst ingest_ready.simps) simp
    then show ?thesis using 1(2) by blast
  qed
qed

lemma ingestCommitToken_ok:
  assumes ok: "rec_ok g r" and s: "cr_Sequence req \<noteq> 0"
  shows "rec_ok g (ingestCommitToken r req)" "grows r (ingestCommitToken r req)"
    "rr_highestPreparedDurable (ingestCommitToken r req) = rr_highestPreparedDurable r"
proof -
  let ?t = "rr_highestCommitTokenReceived r" and ?m = "rr_bufferedCommits r" and ?s = "cr_Sequence req"
  let ?r = "r\<lparr>rr_highestCommitTokenReceived := ?s, rr_bufferedCommits := fmdrop ?s ?m\<rparr>"
  have z: "fmlookup ?m 0 = None" by (rule rec_okD(9)[OF ok])
  then have z': "fmlookup (rr_bufferedCommits ?r) 0 = None" by simp
  obtain t m where i: "ingest_ready ?r = r\<lparr>rr_highestCommitTokenReceived := t, rr_bufferedCommits := m\<rparr>" "?s \<le> t" "fmlookup m 0 = None"
    using ingest_ready_form[where r = ?r] z' by auto
  have "\<exists>t m. ingestCommitToken r req = r\<lparr>rr_highestCommitTokenReceived := t, rr_bufferedCommits := m\<rparr> \<and> ?t \<le> t \<and> fmlookup m 0 = None"
  proof (cases "?s \<le> ?t")
    case True
    then have "ingestCommitToken r req = r\<lparr>rr_highestCommitTokenReceived := ?t, rr_bufferedCommits := fmdrop ?s ?m\<rparr>"
      by (simp add: ingestCommitToken_def)
    then show ?thesis using z by (metis fmlookup_drop order_refl)
  next
    case False
    show ?thesis
    proof (cases "?s = ?t + 1")
      case True
      then have "ingestCommitToken r req = r\<lparr>rr_highestCommitTokenReceived := t, rr_bufferedCommits := m\<rparr>"
        using False i(1) by (simp add: ingestCommitToken_def)
      then show ?thesis using i False by (meson nle_le order_trans)
    next
      case n: False
      then have "ingestCommitToken r req = r\<lparr>rr_highestCommitTokenReceived := ?t, rr_bufferedCommits := fmupd ?s req ?m\<rparr>"
        using False by (simp add: ingestCommitToken_def)
      then show ?thesis using z s by (intro exI[of _ ?t] exI[of _ "fmupd ?s req ?m"]) simp
    qed
  qed
  then show "rec_ok g (ingestCommitToken r req)" "grows r (ingestCommitToken r req)"
    "rr_highestPreparedDurable (ingestCommitToken r req) = rr_highestPreparedDurable r"
    using token_ok[OF ok] by auto
qed

lemma mirrorAcceptedCommit_ok:
  assumes ok: "rec_ok g r" and s: "cr_Sequence req \<noteq> 0" and "mirrorAcceptedCommit env rt r req = Inr r'"
  shows "rec_ok g r'" "grows r r'" "rr_highestPreparedDurable r' = rr_highestPreparedDurable r"
    "rr_highestCommittedSequence r' = rr_highestCommittedSequence r"
proof -
  let ?b = "r\<lparr>rr_highestCommitTokenReceived := rr_highestCommitTokenReceived r,
    rr_bufferedCommits := fmupd (cr_Sequence req) req (rr_bufferedCommits r)\<rparr>"
  have "r' = r \<or> r' = ?b"
    using assms(3) by (auto simp: mirrorAcceptedCommit_def reduceBufferFutureCommit_def split: if_splits option.splits)
  then show "rec_ok g r'" "grows r r'" "rr_highestPreparedDurable r' = rr_highestPreparedDurable r"
    "rr_highestCommittedSequence r' = rr_highestCommittedSequence r"
    using ok token_ok[OF ok order_refl, of "fmupd (cr_Sequence req) req (rr_bufferedCommits r)"] rec_okD(9)[OF ok] s by auto
qed

lemma moves_inv_fuel:
  assumes "slot_inv g rt" "fuel_ok n rt" "moves nid g rt rt'"
    "rr_highestPreparedDurable (rt_record rt') = rr_highestPreparedDurable (rt_record rt)"
  shows "slot_inv g rt'" "fuel_ok n rt'"
  using assms moves_inv[OF assms(1,3)] by (simp_all add: fuel_ok_def)

lemma replicationRecord_Inr: "replicationRecord rt = Inr r \<Longrightarrow> rt_exists rt \<and> r = rt_record rt"
  by (auto simp: replicationRecord_def split: if_splits)

lemma handleCommitAdvance_moves:
  assumes inv: "slot_inv g rt" and fuel: "fuel_ok n rt"
  shows "\<exists>rt'. handleCommitAdvanceRequest n env req resp rt = Some rt' \<and> moves (ne_nodeID env) g rt rt' \<and>
    (rr_highestCommitTokenReceived (rt_record rt') = rr_highestCommitTokenReceived (rt_record rt) \<or>
     ca_FromNodeID req = SuccessorNodeID (rr_peers (rt_record rt)) \<and> ca_FromNodeID req \<noteq> [] \<and>
     rr_highestCommitTokenReceived (rt_record rt') = ca_CommittedThrough req)"
proof -
  let ?nid = "ne_nodeID env" and ?q = "ca_CommittedThrough req"
  obtain b rt1 where r1: "reconcileDurableCommitProgress (drainer_of n env) env rt = Some (b, rt1)"
    "nests ?nid g rt rt1" by (rule serve_reconcile[OF inv fuel])
  note inv1 = nests_inv[OF inv r1(2)] and fuel1 = fuel_nests[OF fuel r1(2)]
  let ?r = "rt_record rt1"
  let ?raised = "rr_highestCommitTokenReceived ?r < ?q"
  let ?r2 = "if ?raised then ?r\<lparr>rr_highestCommitTokenReceived := ?q\<rparr> else ?r"
  let ?rt2 = "if ?raised then setRecord env ?r2 rt1 else rt1"
  have rep: "nests ?nid g rt (reply (Some resp) e rt1)" for e by (rule nests_reply[OF r1(2)])
  show ?thesis
  proof (cases "replicationRecord rt1")
    case (Inl e)
    then show ?thesis using r1(1) rep[of "Some e"] by (auto simp: handleCommitAdvanceRequest_def nests_def)
  next
    case (Inr r)
    then have e: "rt_exists rt1" "r = ?r" using replicationRecord_Inr by blast+
    show ?thesis
    proof (cases "validateCommitAdvanceSource ?r req")
      case (Some err)
      then show ?thesis using r1(1) Inr e(2) rep[of "Some err"] by (auto simp: handleCommitAdvanceRequest_def nests_def)
    next
      case None
      then have src: "ca_FromNodeID req = SuccessorNodeID (rr_peers (rt_record rt))" "ca_FromNodeID req \<noteq> []"
        using nestsD(4)[OF r1(2)] by (auto simp: validateCommitAdvanceSource_def Let_def split: if_splits)
      have m2: "moves ?nid g rt1 ?rt2"
      proof (cases ?raised)
        case True
        have eq: "?r\<lparr>rr_highestCommitTokenReceived := ?q, rr_bufferedCommits := rr_bufferedCommits ?r\<rparr> = ?r2"
          using True by simp
        note t = token_ok[OF slot_invD[OF inv1 e(1)] less_imp_le[OF True] rec_okD(9)[OF slot_invD[OF inv1 e(1)]], unfolded eq]
        show ?thesis using moves_setRecord[OF e(1) t(2,1)] True by simp
      qed (use moves_refl[OF slot_invD[OF inv1]] in simp)
      have r2: "rt_record ?rt2 = ?r2" by simp
      have p2: "rr_highestPreparedDurable (rt_record ?rt2) = rr_highestPreparedDurable ?r" by simp
      note i2 = moves_inv_fuel[OF inv1 fuel1 m2 p2]
      have tok: "rr_highestCommitTokenReceived ?r2 = rr_highestCommitTokenReceived (rt_record rt) \<or>
          rr_highestCommitTokenReceived ?r2 = ?q" using nestsD(6)[OF r1(2)] by simp
      have fin: "moves ?nid g rt x \<and> rr_highestCommitTokenReceived (rt_record x) = rr_highestCommitTokenReceived ?r2"
        if "nests ?nid g ?rt2 x" for x
        using moves_trans[OF moves_trans[OF nestsD(1)[OF r1(2)] m2] nestsD(1)[OF that]] nestsD(6)[OF that] by simp
      obtain rt3 where s: "submitCommitWatermarkReady (drainer_of n env) env ?r2 ?rt2 = Some rt3" "nests ?nid g ?rt2 rt3"
        using serve_submit[OF i2, of env] unfolding r2 by blast
      note res = fin[OF nests_reply[where resp = "Some resp" and err = None, OF nests_refl[OF slot_invD[OF i2(1)]]]]
        fin[OF nests_reply[where resp = "Some resp" and err = None, OF s(2)]]
      have "handleCommitAdvanceRequest n env req resp rt =
        (if ?q \<le> rr_highestCommittedSequence ?r2 then Some (reply (Some resp) None ?rt2) else Some (reply (Some resp) None rt3))"
        using r1(1) Inr e(2) None s(1) by (simp add: handleCommitAdvanceRequest_def Let_def)
      then show ?thesis using res tok src by (simp split: if_splits)
    qed
  qed
qed

lemma handleCommitToken_moves:
  assumes inv: "slot_inv g rt" and fuel: "fuel_ok n rt"
  shows "\<exists>rt'. handleCommitTokenRequest n env req strict resp rt = Some rt' \<and> moves (ne_nodeID env) g rt rt'"
proof -
  let ?nid = "ne_nodeID env" and ?s = "cr_Sequence req"
  obtain b rt1 where r1: "reconcileDurableCommitProgress (drainer_of n env) env rt = Some (b, rt1)"
    "nests ?nid g rt rt1" by (rule serve_reconcile[OF inv fuel])
  note inv1 = nests_inv[OF inv r1(2)] and fuel1 = fuel_nests[OF fuel r1(2)]
  let ?r = "rt_record rt1"
  have rep: "moves ?nid g rt (reply (Some resp) e x)" if "quietly rt1 x" for e x
    by (rule moves_then[OF nestsD(1)[OF r1(2)] quietly_trans[OF that quietly_reply]])
  note def = handleCommitTokenRequest_def[of n env req strict resp rt, unfolded r1(1) Let_def, simplified]
  show ?thesis
  proof (cases "replicationRecord rt1")
    case (Inl e)
    then show ?thesis using rep[OF quietly_refl] by (simp add: def)
  next
    case (Inr r)
    then have e: "rt_exists rt1" "r = ?r" using replicationRecord_Inr by blast+
    show ?thesis
    proof (cases "validateCommitSource ?r req \<noteq> None \<or> ?s \<le> rr_highestCommittedSequence ?r")
      case True
      then show ?thesis using rep[OF quietly_refl] Inr e(2)
        by (auto simp: def split: option.split)
    next
      case new: False
      obtain entry rt2 where e2: "acceptedCommitEntryWithStrict ?s req strict rt1 = (entry, rt2)" by fastforce
      have q2: "quietly rt1 rt2" using quietly_entry[of rt1 ?s req strict] e2 by simp
      let ?m = "if rr_highestCommitTokenReceived ?r + 1 < ?s then mirrorAcceptedCommit env rt2 ?r req else Inr ?r"
      show ?thesis
      proof (cases "\<not> sameCommitRequest (ac_request entry) req \<or> (\<exists>err. ?m = Inl err)")
        case True
        then show ?thesis using rep[OF q2] Inr e(2) new e2 by (auto simp: def)
      next
        case False
        then obtain ra where ra: "?m = Inr ra" by (cases ?m) auto
        have s0: "?s \<noteq> 0" using new by auto
        have oka: "rec_ok g ra" "grows ?r ra" "rr_highestPreparedDurable ra = rr_highestPreparedDurable ?r"
          using ra mirrorAcceptedCommit_ok[OF slot_invD[OF inv1 e(1)] s0, of env rt2 ra] slot_invD[OF inv1 e(1)]
          by (auto split: if_splits)
        let ?rb = "ingestCommitToken ra req" and ?rt3 = "setRecord env (ingestCommitToken ra req) rt2"
        note okb = ingestCommitToken_ok[OF oka(1) s0]
        have m3: "moves ?nid g rt1 ?rt3"
        proof (rule moves_trans[OF moves_quietly[OF q2 slot_invD[OF inv1]] moves_setRecord])
          show "grows (rt_record rt2) ?rb" using grows_trans[OF oka(2) okb(2)] quietlyD(3)[OF q2] by simp
        qed (use e(1) quietlyD(2)[OF q2] okb(1) in simp_all)
        let ?rt4 = "if strict then parkAcceptedCommitWaiter ?s resp ?rt3 else ?rt3"
        have q4: "quietly ?rt3 ?rt4" by (auto intro: quietly_park)
        have m4: "moves ?nid g rt1 ?rt4" by (rule moves_then[OF m3 q4])
        have r4: "rt_record ?rt4 = ?rb" using quietlyD(3)[OF q4] by simp
        have p4: "rr_highestPreparedDurable (rt_record ?rt4) = rr_highestPreparedDurable ?r"
          unfolding r4 using oka(3) okb(3) by simp
        note i4 = moves_inv_fuel[OF inv1 fuel1 m4 p4]
        obtain rt5 where s5: "submitCommitWatermarkReady (drainer_of n env) env ?rb ?rt4 = Some rt5" "nests ?nid g ?rt4 rt5"
          using serve_submit[OF i4, of env] unfolding r4 by blast
        note done5 = moves_trans[OF moves_trans[OF nestsD(1)[OF r1(2)] m4] nestsD(1)[OF s5(2)]]
        have done3: "moves ?nid g rt (reply (Some resp) None (if strict then deleteAcceptedCommit ?s
            (releaseAcceptedCommitWaiters env ?s None ?rt3) else ?rt3))"
          by (rule moves_then[OF moves_trans[OF nestsD(1)[OF r1(2)] m3] quietly_trans[OF _ quietly_reply]])
            (auto intro: quietly_trans[OF quietly_release quietly_delete])
        have "handleCommitTokenRequest n env req strict resp rt = Some (if ?s \<le> rr_highestCommittedSequence ?rb
            then reply (Some resp) None (if strict then deleteAcceptedCommit ?s (releaseAcceptedCommitWaiters env ?s None ?rt3) else ?rt3)
            else if strict then rt5 else reply (Some resp) None rt5)"
          using Inr e(2) new e2 False ra s5(1) by (simp add: def)
        with done3 done5 moves_then[OF done5 quietly_reply] show ?thesis by simp
      qed
    qed
  qed
qed

section \<open>Replays, draining, materialization and catching up\<close>

lemma drain_moves:
  assumes inv: "slot_inv g rt" and fuel: "fuel_ok n rt"
  shows "\<exists>rt'. drainReadyBuffered n env resp rt = Some rt' \<and> nests (ne_nodeID env) g rt rt'"
  by (rule drain_ok[OF slot_invD[OF inv]]) (use fuel in \<open>simp_all add: fuel_ok_def undone_def\<close>)

lemma drain_after:
  assumes inv: "slot_inv g rt" and fuel: "fuel_ok n rt" and q: "nests (ne_nodeID env) g rt x"
  shows "\<exists>rt'. drainReadyBuffered n env resp x = Some rt' \<and> nests (ne_nodeID env) g rt rt'"
  using drain_moves[OF nests_inv[OF inv q] fuel_nests[OF fuel q]] nests_trans[OF q] by blast

lemma replayPreparedForwards_moves:
  assumes inv: "slot_inv g rt"
  shows "nests (ne_nodeID env) g rt (replayPreparedForwards env rt)"
proof -
  let ?r = "rt_record rt" and ?nid = "ne_nodeID env"
  let ?e = "\<lambda>s. EffReplayForward (peerTransportTarget (SuccessorTarget (rr_peers ?r)) (SuccessorNodeID (rr_peers ?r)))
    (forward_of env ?r (the (fmlookup (rr_preparedEntries ?r) s))) (successor_key ?r)"
  have sent: "nests ?nid g x (fold (\<lambda>s. emit (?e s)) ss x)" if "rt_exists rt" "rt_exists x" "rt_record x = ?r"
    "\<forall>s \<in> set ss. fm_has (rr_preparedEntries ?r) s" for ss x
    using that
  proof (induction ss arbitrary: x)
    case Nil
    then show ?case using nests_refl[of x g] slot_invD[OF inv] by simp
  next
    case (Cons s ss)
    then obtain op where op: "fmlookup (rr_preparedEntries ?r) s = Some op" by (auto simp: fm_has_def)
    note D = followsD[OF rec_okD(1)[OF slot_invD[OF inv Cons.prems(1)]]]
    have "hist_op (g_hist g) (wo_Sequence op) = Some op" "wo_Sequence op < rr_nextSequence ?r"
      using D(7)[OF op] hist_op_seq[OF D(1)] by (auto simp: word_less_nat_alt)
    then have "nests ?nid g x (emit (?e s) x)"
      using moves_emit[of x g ?nid "?e s"] Cons.prems slot_invD[OF inv] op by (simp add: nests_def forward_of_def)
    also have "nests ?nid g (emit (?e s) x) (fold (\<lambda>s. emit (?e s)) ss (emit (?e s) x))"
      using Cons by simp
    finally show ?case by simp
  qed
  have upd: "nests ?nid g rt (rt\<lparr>rt_preparedReplayRetryScheduled := False\<rparr>)"
    by (rule nests_update) (use slot_invD[OF inv] in simp_all)
  show ?thesis
  proof (cases "\<not> rt_exists rt \<or> SuccessorNodeID (rr_peers ?r) = [] \<or> contiguousPreparedHighWater ?r \<le> rr_highestCommittedSequence ?r")
    case True
    then show ?thesis using nests_refl[OF slot_invD[OF inv]] by (auto simp: replayPreparedForwards_def Let_def)
  next
    case False
    then show ?thesis
      using nests_trans[OF upd sent] by (auto simp: replayPreparedForwards_def Let_def dest: set_takeWhileD)
  qed
qed

lemma quietly_replayRetry: "quietly rt (schedulePreparedForwardReplayRetry rt)"
proof -
  have "quietly rt (emit EffScheduleReplay (rt\<lparr>rt_preparedReplayRetryScheduled := True\<rparr>))"
    by (rule quietly_trans[OF quietly_update quietly_emit]) (simp_all add: core_def)
  then show ?thesis by (simp add: schedulePreparedForwardReplayRetry_def Let_def)
qed

lemma replay_done_moves:
  assumes "slot_inv g rt" "fuel_ok n rt"
  shows "\<exists>rt'. replay_done n env s key err rt = Some rt' \<and> nests (ne_nodeID env) g rt rt'"
  using drain_moves[OF assms] nests_refl[OF slot_invD[OF assms(1)]] nests_quietly[OF quietly_replayRetry slot_invD[OF assms(1)]]
  by (auto simp: replay_done_def split: option.split)

text \<open>Once the backend holds the history up to \<open>highest\<close>, the record may forget that much of its overlay.\<close>

lemma markMaterialized_ok:
  assumes ok: "rec_ok g r" and h: "unat highest \<le> g_mat g"
  shows "rec_ok g (markMaterialized r highest)" "grows r (markMaterialized r highest)"
proof -
  let ?r = "markMaterialized r highest" and ?H = "g_hist g"
  note D = followsD[OF rec_okD(1)[OF ok]] and hold = rec_okD(2)[OF ok]
  have mc: "g_mat g \<le> unat (rr_highestCommittedSequence r)" using hold by (simp add: holds_def)
  have same: "rr_nextSequence ?r = rr_nextSequence r" "rr_highestCommittedSequence ?r = rr_highestCommittedSequence r"
    "rr_highestPreparedDurable ?r = rr_highestPreparedDurable r" "rr_stagedForwards ?r = rr_stagedForwards r"
    "rr_bufferedForwards ?r = rr_bufferedForwards r" "rr_dirtyByKey ?r = rr_dirtyByKey r"
    "rr_highestCommitTokenReceived ?r = rr_highestCommitTokenReceived r" "rr_assignment ?r = rr_assignment r"
    "rr_pendingWrites ?r = rr_pendingWrites r" "rr_bufferedCommits ?r = rr_bufferedCommits r" "rr_state ?r = rr_state r"
    by (simp_all add: markMaterialized_def recordPruneMaterializedOverlay_def Let_def)
  have prep: "fmlookup (rr_preparedEntries ?r) s = (if highest < s then fmlookup (rr_preparedEntries r) s else None)" for s
    by (simp add: markMaterialized_def recordPruneMaterializedOverlay_def Let_def)
  have mat: "rr_materializedCommittedSequence ?r =
      min (rr_highestCommittedSequence r) (max (rr_materializedCommittedSequence r) highest)"
    by (auto simp: markMaterialized_def recordPruneMaterializedOverlay_def Let_def min_def max_def)
  have late: "highest < s" if "unat (rr_highestCommittedSequence r) < unat s" for s :: u64
    using that h mc by (simp add: word_less_nat_alt)
  show "grows r ?r" by (simp add: grows_def same)
  have fol: "follows ?H ?r"
  proof (rule followsI)
    show "fm_get [] (rr_dirtyByKey ?r) k = dirty_of (window ?H ?r) k" for k
      using D(10)[of k] by (simp add: window_def same)
    show "fmlookup (rr_preparedEntries ?r) s = hist_op ?H s"
      if "unat (rr_highestCommittedSequence ?r) < unat s" "unat s < unat (rr_nextSequence ?r)" for s
      using that D(6)[of s] late[of s] by (simp add: same prep)
    show "unat s < unat (rr_nextSequence ?r) \<and> hist_op ?H s = Some op" if "fmlookup (rr_preparedEntries ?r) s = Some op" for s op
      using that D(7)[of s op] by (simp add: same prep split: if_splits)
    show "unat (rr_highestCommittedSequence ?r) < unat s \<and> unat s < unat (rr_nextSequence ?r) \<and> hist_op ?H s = Some (fr_Operation q)"
      if "fmlookup (rr_stagedForwards ?r) s = Some q" for s q using that D(8)[of s q] by (simp add: same)
    show "hist_op ?H s = Some (fr_Operation q)" if "fmlookup (rr_bufferedForwards ?r) s = Some q" for s q
      using that D(9)[of s q] by (simp add: same)
  qed (use D(1-5) in \<open>simp_all add: same\<close>)
  have hol: "holds ?H (g_base g) (g_mat g) ?r (g_backend g)" by (rule prune_holds[OF hold D(1) h])
  show "rec_ok g ?r"
  proof (rule rec_okI[OF fol hol])
    show "unat (rr_materializedCommittedSequence ?r) \<le> g_mat g"
      using h rec_okD(3)[OF ok] mc by (auto simp: mat min_def max_def word_le_nat_alt)
    show "fmlookup (rr_preparedEntries ?r) s = hist_op ?H s"
      if "rr_materializedCommittedSequence ?r < s" "s \<le> rr_highestCommittedSequence ?r" for s
      using that rec_okD(4)[OF ok, of s] by (auto simp: prep same mat min_def max_def split: if_splits)
  qed (use rec_okD(5-9)[OF ok] in \<open>simp_all add: same\<close>)
qed

section \<open>Client writes\<close>

text \<open>A history that grows at its end.\<close>

abbreviation g_extend :: "ghost \<Rightarrow> write_operation list \<Rightarrow> ghost" where
  "g_extend g ops \<equiv> g\<lparr>g_hist := g_hist g @ ops\<rparr>"

lemma holds_extend:
  assumes "holds H m0 mat r m"
  shows "holds (H @ G) m0 mat r m"
proof -
  let ?c = "unat (rr_highestCommittedSequence r)"
  have l: "mat \<le> ?c" "?c \<le> length H" using assms by (simp_all add: holds_def)
  then have t: "take ?c (H @ G) = take ?c H" "replay (H @ G) m0 mat = replay H m0 mat" by (simp_all add: replay_def)
  show ?thesis using assms l unfolding holds_def t by simp
qed

lemma rec_ok_extend:
  assumes ok: "rec_ok g r" and H: "hist_ok (g_hist g @ ops)"
  shows "rec_ok (g_extend g ops) r"
proof -
  note D = followsD[OF rec_okD(1)[OF ok]]
  have op: "hist_op (g_hist g @ ops) s = hist_op (g_hist g) s" if "s < rr_nextSequence r" for s
    using D(3) that by (auto simp: hist_op_def nth_append word_less_nat_alt)
  have cn: "rr_highestCommittedSequence r < rr_nextSequence r" using D(4,5) by (simp add: word_less_nat_alt)
  show ?thesis
  proof (rule rec_okI)
    show "follows (g_hist (g_extend g ops)) r" using follows_mono[OF rec_okD(1)[OF ok] H] by simp
    show "holds (g_hist (g_extend g ops)) (g_base (g_extend g ops)) (g_mat (g_extend g ops)) r (g_backend (g_extend g ops))"
      using holds_extend[OF rec_okD(2)[OF ok]] by simp
    show "fmlookup (rr_preparedEntries r) s = hist_op (g_hist (g_extend g ops)) s"
      if "rr_materializedCommittedSequence r < s" "s \<le> rr_highestCommittedSequence r" for s
      using rec_okD(4)[OF ok that] op[of s] order_le_less_trans[OF that(2) cn] by simp
    show "rr_highestCommittedSequence r < s \<and> s < rr_nextSequence r \<and> pw_operation pw = hist_op (g_hist (g_extend g ops)) s"
      if "fmlookup (rr_pendingWrites r) s = Some pw" for s pw
      using rec_okD(7)[OF ok that] op[of s] by simp
  qed (use rec_okD(3,5,6,8,9)[OF ok] in simp_all)
qed

lemma slot_inv_extend:
  assumes "slot_inv g rt" "hist_ok (g_hist g @ ops)"
  shows "slot_inv (g_extend g ops) rt"
  using assms rec_ok_extend[of g "rt_record rt" ops] by (auto simp: slot_inv_def hist_op_append)

lemma eff_ok_extend:
  assumes "eff_ok nid g r e" and "unat (rr_highestCommittedSequence r) \<le> length (g_hist g)"
  shows "eff_ok nid (g_extend g ops) r e"
proof (cases e)
  case (EffMaterialize cs)
  then obtain a b where "a \<le> g_mat g" "b \<le> unat (rr_highestCommittedSequence r)" "map dc_Operation cs = drop a (take b (g_hist g))"
    using assms(1) by auto
  moreover from this have "take b (g_hist g @ ops) = take b (g_hist g)" using assms(2) by simp
  ultimately show ?thesis unfolding EffMaterialize eff_ok.simps by fastforce
qed (use assms in \<open>auto simp: hist_op_append\<close>)

lemma reduceSubmitWrite_ok:
  assumes ok: "rec_ok g r" and op: "wo_Sequence op = rr_nextSequence r" "supported op"
    and nxt: "unat (rr_nextSequence r) = length (g_hist g) + 1" "length (g_hist g) + 2 < 2 ^ 64"
  shows "rec_ok (g_extend g [op]) (fst (reduceSubmitWrite r op))" "grows r (fst (reduceSubmitWrite r op))"
    "unat (rr_nextSequence (fst (reduceSubmitWrite r op))) = length (g_hist g) + 2"
proof -
  let ?r = "fst (reduceSubmitWrite r op)" and ?g = "g_extend g [op]"
  note D = followsD[OF rec_okD(1)[OF ok]]
  have same: "rr_highestCommittedSequence ?r = rr_highestCommittedSequence r"
    "rr_highestPreparedDurable ?r = rr_highestPreparedDurable r" "rr_stagedForwards ?r = rr_stagedForwards r"
    "rr_highestCommitTokenReceived ?r = rr_highestCommitTokenReceived r" "rr_assignment ?r = rr_assignment r"
    "rr_materializedCommittedSequence ?r = rr_materializedCommittedSequence r" "rr_bufferedCommits ?r = rr_bufferedCommits r"
    "rr_committedOverlay ?r = rr_committedOverlay r" "rr_state ?r = rr_state r"
    "rr_preparedEntries ?r = fmupd (rr_nextSequence r) op (rr_preparedEntries r)" "rr_nextSequence ?r = rr_nextSequence r + 1"
    using op(1) by (simp_all add: reduceSubmitWrite_def Let_def reduceAddDirtyEntry_def)
  have pend: "rr_pendingWrites ?r = fmupd (rr_nextSequence r)
      \<lparr>pw_completed = False, pw_result = submit_result op, pw_operation = Some op\<rparr> (rr_pendingWrites r)"
    using op(1) by (simp add: reduceSubmitWrite_def Let_def)
  have un: "unat (rr_nextSequence ?r) = unat (rr_nextSequence r) + 1" unfolding same by (rule unat_suc) (use nxt in simp)
  then show "unat (rr_nextSequence ?r) = length (g_hist g) + 2" using nxt by simp
  show "grows r ?r" using un by (simp add: grows_def same(1-9) word_le_nat_alt)
  have fol: "follows (g_hist ?g) ?r" using reduceSubmitWrite_follows[OF rec_okD(1)[OF ok] op(1) nxt(1) op(2) nxt(2)] by simp
  have oke: "rec_ok ?g r" by (rule rec_ok_extend[OF ok]) (use followsD(1)[OF fol] in simp)
  have new: "hist_op (g_hist ?g) (rr_nextSequence r) = Some op" using nxt by (simp add: hist_op_def nth_append)
  have cn: "rr_highestCommittedSequence r < rr_nextSequence r" using D(4,5) by (simp add: word_less_nat_alt)
  have before: "s < rr_nextSequence ?r \<longleftrightarrow> s = rr_nextSequence r \<or> s < rr_nextSequence r" for s
    using un by (auto simp: word_less_nat_alt word_unat_eq_iff)
  show "rec_ok ?g ?r"
  proof (rule rec_okI[OF fol])
    show "holds (g_hist ?g) (g_base ?g) (g_mat ?g) ?r (g_backend ?g)"
      by (rule holds_cong[where r = r, THEN iffD2]) (use rec_okD(2)[OF oke] same in simp_all)
    show "fmlookup (rr_preparedEntries ?r) s = hist_op (g_hist ?g) s"
      if "rr_materializedCommittedSequence ?r < s" "s \<le> rr_highestCommittedSequence ?r" for s
      using rec_okD(4)[OF oke, of s] that cn by (auto simp: same)
    show "rr_highestCommittedSequence ?r < s \<and> s < rr_nextSequence ?r \<and> pw_operation pw = hist_op (g_hist ?g) s"
      if "fmlookup (rr_pendingWrites ?r) s = Some pw" for s pw
      using rec_okD(7)[OF oke, of s pw] that new cn by (cases "s = rr_nextSequence r") (auto simp: pend before same(1))
    show "fm_has (rr_pendingWrites ?r) s \<or> fm_has (rr_stagedForwards ?r) s"
      if "rr_highestCommittedSequence ?r < s" "s < rr_nextSequence ?r" for s
      using rec_okD(8)[OF oke, of s] that before[of s] by (auto simp: pend same(1,3) fm_has_def)
  qed (use rec_okD(3,5,6,9)[OF oke] in \<open>simp_all add: same\<close>)
qed

lemma startPipeline_record: "rt_record (snd (startPreparedForwardPipeline env r op k rt)) = rt_record rt"
  by (simp add: startPreparedForwardPipeline_def dispatchForward_def Let_def startPrepare_record
      quietlyD(3)[OF quietly_resolve_failed] split: option.split)

lemma submit_admitted_ok:
  assumes e: "rt_exists rt" and ok: "rec_ok g (rt_record rt)"
    and op: "wo_Sequence op = rr_nextSequence (rt_record rt)" "supported op"
    and nxt: "unat (rr_nextSequence (rt_record rt)) = length (g_hist g) + 1" "length (g_hist g) + 2 < 2 ^ 64"
  shows "nests (ne_nodeID env) (g_extend g [op]) rt (submit_admitted env op resp rt)"
    "unat (rr_nextSequence (rt_record (submit_admitted env op resp rt))) = length (g_hist g) + 2"
proof -
  let ?nid = "ne_nodeID env" and ?g = "g_extend g [op]"
  let ?rin = "(rt_record rt)\<lparr>rr_inFlightClientWrites := rr_inFlightClientWrites (rt_record rt) + 1\<rparr>"
  let ?r = "fst (reduceSubmitWrite ?rin op)" and ?res = "snd (reduceSubmitWrite ?rin op)"
  let ?rt1 = "setRecord env ?r (emit EffAdmitWrite rt)"
  have ok0: "rec_ok g ?rin" by (rule rec_ok_cong[where r = "rt_record rt", THEN iffD2]) (use ok in simp_all)
  note sw = reduceSubmitWrite_ok[OF ok0, where op = op]
  have sw1: "rec_ok ?g ?r" "grows ?rin ?r" "unat (rr_nextSequence ?r) = length (g_hist g) + 2"
    using sw op nxt by simp_all
  have "hist_ok (g_hist g @ [op])" using followsD(1)[OF rec_okD(1)[OF sw1(1)]] by simp
  from rec_ok_extend[OF ok this] have oke: "rec_ok ?g (rt_record rt)" .
  have same: "rr_highestPreparedDurable ?r = rr_highestPreparedDurable (rt_record rt)"
    "rr_highestCommitTokenReceived ?r = rr_highestCommitTokenReceived (rt_record rt)"
    by (simp_all add: reduceSubmitWrite_def Let_def)
  have "nests ?nid ?g rt (emit EffAdmitWrite rt)" by (rule nests_quietly[OF quietly_emit]) (use oke in simp_all)
  also have "nests ?nid ?g (emit EffAdmitWrite rt) ?rt1"
    using moves_setRecord[of "emit EffAdmitWrite rt" ?r ?g ?nid env] e sw1 same by (simp add: nests_def grows_def)
  finally have n1: "nests ?nid ?g rt ?rt1" .
  have hop: "hist_op (g_hist ?g) (wo_Sequence op) = Some op" using op(1) nxt by (simp add: hist_op_def nth_append)
  have lt: "wo_Sequence op < rr_nextSequence (rt_record ?rt1)" using op(1) nxt(1) sw1(3) by (simp add: word_less_nat_alt)
  have ok1: "rt_exists ?rt1 \<Longrightarrow> rec_ok ?g (rt_record ?rt1)" using sw1(1) by simp
  let ?p = "startPreparedForwardPipeline env ?r op (OnHeadWrite (wo_Sequence op)) ?rt1"
  let ?rt2 = "if ra_Role (rr_assignment ?r) = ReplicaRoleSingle then startPrepareEffect env ?r op (AfterSingle (wo_Sequence op)) ?rt1
    else if SuccessorNodeID (rr_peers ?r) = [] then emit (EffWaiter (wo_Sequence op) (Some ErrStateMismatch)) ?rt1
    else case ?p of (None, x) \<Rightarrow> x | (Some err, x) \<Rightarrow> emit (EffWaiter (wo_Sequence op) (Some err)) x"
  have pipe: "nests ?nid ?g ?rt1 (snd ?p)" by (rule startPipeline_nests[OF ok1 hop lt])
  have n2: "nests ?nid ?g ?rt1 ?rt2"
    using startPrepare_nests[OF ok1 hop lt] nests_quietly[OF quietly_emit ok1] pipe nests_then[OF pipe quietly_emit]
    by (cases ?p) (auto split: option.split)
  have kept: "rt_record ?rt2 = ?r"
    using startPrepare_record startPipeline_record by (cases ?p) (auto split: option.split dest!: arg_cong[where f = snd])
  have eq: "submit_admitted env op resp rt = emit (EffSubmitReply resp (SubmitWaiting ?res)) ?rt2"
    by (simp add: submit_admitted_def Let_def case_prod_beta)
  show "nests ?nid ?g rt (submit_admitted env op resp rt)"
    unfolding eq by (rule nests_then[OF nests_trans[OF n1 n2] quietly_emit]) simp
  show "unat (rr_nextSequence (rt_record (submit_admitted env op resp rt))) = length (g_hist g) + 2"
    unfolding eq using kept sw1(3) by simp
qed

end
