(* ===== verification/Slot_Events.thy ===== *)
theory Slot_Events
  imports Slot_Steps
begin

text \<open>
  The loop of a slot owner (\<open>slotOwner.loop\<close>): one event at a time, each a request or the
  completion of an effect started earlier.  Every step returns when it is given fuel for what
  has been numbered, the amount of fuel beyond that makes no difference, and the invariant of
  the slot is kept.
\<close>

section \<open>Events\<close>

datatype slot_event =
    EvSubmit OperationKind string string write_conditions channel
  | EvRelease
  | EvForward forward_request channel
  | EvCommitAdvance commit_advance_request channel
  | EvCommitWrite commit_request bool channel
  | EvDrain channel
  | EvScheduledDrain
  | EvScheduledReplay
  | EvPrepareDone write_operation after_prepare "storage_err option"
  | EvForwardDone nat peer_key "storage_err option"
  | EvReplayDone u64 peer_key "storage_err option"
  | EvHeadRangeDone u64 "storage_err option"
  | EvUpstreamDone u64 peer_key "storage_err option"
  | EvFetched sync_plan "storage_err + snapshot \<times> u64"
  | EvMaterialized u64

fun slot_step :: "nat \<Rightarrow> node_env \<Rightarrow> slot_event \<Rightarrow> slot_runtime \<Rightarrow> slot_runtime option" where
  "slot_step n env (EvSubmit kind key val conditions resp) rt = Some (handleSubmitWrite env kind key val conditions resp rt)"
| "slot_step n env EvRelease rt = Some (releaseClientWrite env rt)"
| "slot_step n env (EvForward req resp) rt = handleForwardWrite n env req resp rt"
| "slot_step n env (EvCommitAdvance req resp) rt = handleCommitAdvanceRequest n env req resp rt"
| "slot_step n env (EvCommitWrite req strict resp) rt = handleCommitTokenRequest n env req strict resp rt"
| "slot_step n env (EvDrain resp) rt = drain_request n env resp rt"
| "slot_step n env EvScheduledDrain rt = scheduled_drain n env rt"
| "slot_step n env EvScheduledReplay rt = Some (scheduled_replay env rt)"
| "slot_step n env (EvPrepareDone op after err) rt = prepare_done n env op after err rt"
| "slot_step n env (EvForwardDone p key err) rt = forward_done n env p key err rt"
| "slot_step n env (EvReplayDone s key err) rt = replay_done n env s key err rt"
| "slot_step n env (EvHeadRangeDone q err) rt = head_range_done n env q err rt"
| "slot_step n env (EvUpstreamDone q key err) rt = Some (upstream_done env q key err rt)"
| "slot_step n env (EvFetched plan result) rt = snapshot_fetched n env plan result rt"
| "slot_step n env (EvMaterialized highest) rt = Some (rt_markMaterialized env highest rt)"

text \<open>
  What an event may be relied on for: a forward carries the history's operation of its
  number, a completed prepare an operation that was numbered here, a materialization what the
  backend holds, a fetched snapshot nothing beyond what is committed here already (a replica
  that has fallen behind is treated below), and a head numbers the next write of the history.
\<close>

fun event_ok :: "ghost \<Rightarrow> slot_event \<Rightarrow> slot_runtime \<Rightarrow> bool" where
  "event_ok g (EvSubmit kind key val conditions resp) rt \<longleftrightarrow>
     kind = OperationKindPut \<or> kind = OperationKindDelete"
| "event_ok g (EvForward req resp) rt \<longleftrightarrow> hist_op (g_hist g) (wo_Sequence (fr_Operation req)) = Some (fr_Operation req)"
| "event_ok g (EvPrepareDone op after err) rt \<longleftrightarrow> wo_Sequence op < rr_nextSequence (rt_record rt)"
| "event_ok g (EvFetched plan (Inr (snap, highest))) rt \<longleftrightarrow> highest \<le> rr_highestCommittedSequence (rt_record rt)"
| "event_ok g (EvMaterialized highest) rt \<longleftrightarrow> unat highest \<le> g_mat g"
| "event_ok g _ rt \<longleftrightarrow> True"

text \<open>Only the head numbers writes, right after the last one of the history.\<close>

definition numbering :: "ghost \<Rightarrow> slot_event \<Rightarrow> slot_runtime \<Rightarrow> bool" where
  "numbering g ev rt \<longleftrightarrow> (case ev of
     EvSubmit kind key val conditions resp \<Rightarrow> rt_exists rt \<and> is_head (rt_record rt) \<longrightarrow>
       unat (rr_nextSequence (rt_record rt)) = length (g_hist g) + 1 \<and> length (g_hist g) + 2 < 2 ^ 64
   | _ \<Rightarrow> True)"

definition step_fuel :: "slot_runtime \<Rightarrow> nat" where
  "step_fuel rt = 2 * unat (rr_nextSequence (rt_record rt)) + 4"

lemma step_fuel_ok:
  assumes "slot_inv g rt" "step_fuel rt \<le> n"
  shows "fuel_ok n rt"
proof (cases "rt_exists rt")
  case True
  then show ?thesis using followsD(5)[OF rec_okD(1)[OF slot_invD[OF assms(1)]]] assms(2)
    by (simp add: fuel_ok_def step_fuel_def)
next
  case False
  then show ?thesis using assms by (simp add: slot_inv_def fuel_ok_def step_fuel_def zero_record_def)
qed

section \<open>Client writes\<close>

lemma handleSubmitWrite_ok:
  fixes kind key val conditions resp env rt
  defines "rt' \<equiv> handleSubmitWrite env kind key val conditions resp rt"
  assumes inv: "slot_inv g rt" and ev: "kind = OperationKindPut \<or> kind = OperationKindDelete"
    and num: "numbering g (EvSubmit kind key val conditions resp) rt"
  obtains (refused) "quietly rt rt'"
    | (numbered) op where "rt_exists rt" "is_head (rt_record rt)" "hist_ok (g_hist g @ [op])" "nests (ne_nodeID env) (g_extend g [op]) rt rt'"
        "unat (rr_nextSequence (rt_record rt')) = length (g_hist g) + 2"
proof -
  let ?m = "committedMetadataState env key rt"
  let ?rt = "snd ?m"
  note q = quietly_metadata[of rt env key]
  let ?op = "\<lambda>md. write_of env ?rt kind key val md"
  have failed: "quietly rt (emit (EffSubmitReply resp x) ?rt)" "quietly rt (emit (EffSubmitReply resp x) rt)" for x
    by (rule quietly_trans[OF q quietly_emit] quietly_emit, simp)+
  have "quietly rt rt' \<or> rt_exists rt \<and> is_head (rt_record rt) \<and> (\<exists>md. rt' = submit_admitted env (?op md) resp ?rt)"
    using failed by (cases ?m) (auto simp: rt'_def handleSubmitWrite_def Let_def activeRecord_def
        split: sum.split option.split if_splits)
  moreover have thesis if e: "rt_exists rt" "is_head (rt_record rt)" and md: "rt' = submit_admitted env (?op md) resp ?rt" for md
  proof -
    note same = quietlyD(2,3)[OF q]
    have n: "unat (rr_nextSequence (rt_record ?rt)) = length (g_hist g) + 1" "length (g_hist g) + 2 < 2 ^ 64"
      using num e same by (simp_all add: numbering_def)
    have op: "wo_Sequence (?op md) = rr_nextSequence (rt_record ?rt)" "supported (?op md)"
      using ev by (auto simp: write_of_def supported_def)
    have ok: "rt_exists ?rt" "rec_ok g (rt_record ?rt)" using same e slot_invD[OF inv] by simp_all
    note s = submit_admitted_ok[OF ok op n, where env = env and resp = resp]
    have H: "hist_ok (g_hist g @ [?op md])"
      using followsD(1)[OF rec_okD(1)[OF nestsD(3)[OF s(1)]]] ok by simp
    have "nests (ne_nodeID env) (g_extend g [?op md]) rt ?rt"
      by (rule nests_quietly[OF q]) (use rec_ok_extend[OF slot_invD[OF inv] H] in simp)
    with numbered[OF e H nests_trans[OF this s(1)[folded md]] s(2)[folded md]] show thesis by simp
  qed
  ultimately show thesis using refused by blast
qed

section \<open>Every step returns and keeps the invariant\<close>

lemma snapshot_fetched_moves:
  assumes inv: "slot_inv g rt" and fuel: "fuel_ok n rt" and ev: "event_ok g (EvFetched plan result) rt"
  shows "\<exists>rt'. snapshot_fetched n env plan result rt = Some rt' \<and> nests (ne_nodeID env) g rt rt'"
proof -
  let ?rt = "rt\<lparr>rt_catchupSyncInFlight := False\<rparr>"
  have n: "nests (ne_nodeID env) g rt ?rt" by (rule nests_update) (use slot_invD[OF inv] in simp_all)
  show ?thesis
  proof (cases result)
    case (Inl e)
    then show ?thesis using n by (simp add: snapshot_fetched_def)
  next
    case (Inr p)
    obtain snap highest where p: "p = (snap, highest)" by (cases p)
    then have "applyFetchedPredecessorSnapshot env plan snap highest ?rt = (None, ?rt)"
      using ev Inr by (simp add: applyFetchedPredecessorSnapshot_def Let_def)
    then show ?thesis using drain_after[OF inv fuel n] Inr p by (simp add: snapshot_fetched_def Let_def)
  qed
qed

lemma markMaterialized_moves:
  assumes "slot_inv g rt" "unat highest \<le> g_mat g"
  shows "nests nid g rt (rt_markMaterialized env highest rt)"
proof (cases "rt_exists rt")
  case True
  have "rr_highestPreparedDurable (markMaterialized r highest) = rr_highestPreparedDurable r"
    "rr_highestCommitTokenReceived (markMaterialized r highest) = rr_highestCommitTokenReceived r" for r
    by (simp_all add: markMaterialized_def recordPruneMaterializedOverlay_def Let_def)
  with True markMaterialized_ok[OF slot_invD[OF assms(1) True] assms(2)] show ?thesis
    using moves_setRecord[OF True] by (simp add: rt_markMaterialized_def nests_def)
qed (use assms nests_refl[of rt g] slot_invD[OF assms(1)] in \<open>simp add: rt_markMaterialized_def\<close>)

text \<open>Where a token can come from.\<close>

definition token_source :: "slot_event \<Rightarrow> slot_runtime \<Rightarrow> slot_runtime \<Rightarrow> bool" where
  "token_source ev rt rt' \<longleftrightarrow>
     rr_highestCommitTokenReceived (rt_record rt') = rr_highestCommitTokenReceived (rt_record rt) \<or>
     (case ev of
        EvPrepareDone op after err \<Rightarrow> SuccessorNodeID (rr_peers (rt_record rt)) = []
      | EvCommitAdvance req resp \<Rightarrow> ca_FromNodeID req = SuccessorNodeID (rr_peers (rt_record rt)) \<and> ca_FromNodeID req \<noteq> [] \<and>
          rr_highestCommitTokenReceived (rt_record rt') = ca_CommittedThrough req
      | EvCommitWrite req strict resp \<Rightarrow> True
      | _ \<Rightarrow> False)"

lemma nests_token: "nests nid g rt rt' \<Longrightarrow> token_source ev rt rt'"
  using nestsD(6)[of nid g rt rt'] by (simp add: token_source_def)

lemma slot_step_moves:
  assumes inv: "slot_inv g rt" and ev: "event_ok g ev rt" and fuel: "step_fuel rt \<le> n"
    and other: "\<nexists>kind key val conditions resp. ev = EvSubmit kind key val conditions resp"
  shows "\<exists>rt'. slot_step n env ev rt = Some rt' \<and> moves (ne_nodeID env) g rt rt' \<and> token_source ev rt rt'"
proof -
  note f = step_fuel_ok[OF inv fuel]
  have fin: "\<exists>rt'. r = Some rt' \<and> moves (ne_nodeID env) g rt rt' \<and> token_source ev rt rt'"
    if "\<exists>rt'. r = Some rt' \<and> nests (ne_nodeID env) g rt rt'" for r
    using that nests_token nestsD(1) by blast
  have sched: "nests (ne_nodeID env) g rt (rt\<lparr>rt_drainScheduled := False\<rparr>)"
    "nests (ne_nodeID env) g rt (rt\<lparr>rt_preparedReplayRetryScheduled := False\<rparr>)"
    by (rule nests_update; use slot_invD[OF inv] in simp)+
  show ?thesis
  proof (cases ev)
    case EvRelease
    show ?thesis unfolding EvRelease slot_step.simps by (rule fin[unfolded EvRelease]) (simp add: releaseClientWrite_moves[OF inv])
  next
    case (EvForward req resp)
    show ?thesis using fin[OF handleForwardWrite_moves[OF inv f]] ev by (simp add: EvForward)
  next
    case (EvCommitAdvance req resp)
    show ?thesis using handleCommitAdvance_moves[OF inv f, of env req resp] by (auto simp: EvCommitAdvance token_source_def)
  next
    case (EvCommitWrite req strict resp)
    show ?thesis using handleCommitToken_moves[OF inv f, of env req strict resp] by (auto simp: EvCommitWrite token_source_def)
  next
    case (EvDrain resp)
    show ?thesis using fin[OF drain_moves[OF inv f]] by (simp add: EvDrain drain_request_def)
  next
    case EvScheduledDrain
    show ?thesis using fin[OF drain_after[OF inv f sched(1)]] by (simp add: EvScheduledDrain scheduled_drain_def)
  next
    case EvScheduledReplay
    show ?thesis
      using nests_trans[OF sched(2) replayPreparedForwards_moves[OF nests_inv[OF inv sched(2)], where env = env]]
      by (auto simp: EvScheduledReplay scheduled_replay_def dest: nestsD(1) nests_token)
  next
    case (EvPrepareDone op "after" err)
    show ?thesis using prepare_done_moves[OF inv _ fuel[unfolded step_fuel_def], of op env "after" err] ev
      by (auto simp: EvPrepareDone token_source_def)
  next
    case (EvForwardDone p key err)
    show ?thesis using fin[OF forward_done_moves[OF inv f]] by (simp add: EvForwardDone)
  next
    case (EvReplayDone s key err)
    show ?thesis using fin[OF replay_done_moves[OF inv f]] by (simp add: EvReplayDone)
  next
    case (EvHeadRangeDone q err)
    show ?thesis using fin[OF head_range_done_moves[OF inv f]] by (simp add: EvHeadRangeDone)
  next
    case (EvUpstreamDone q key err)
    show ?thesis using upstream_done_moves[OF inv, of env q key err] by (auto simp: EvUpstreamDone dest: nestsD(1) nests_token)
  next
    case (EvFetched plan result)
    show ?thesis using fin[OF snapshot_fetched_moves[OF inv f ev[unfolded EvFetched]]] by (simp add: EvFetched)
  next
    case (EvMaterialized highest)
    show ?thesis using markMaterialized_moves[OF inv, of highest "ne_nodeID env" env] ev
      by (auto simp: EvMaterialized dest: nestsD(1) nests_token)
  qed (use other in blast)
qed

section \<open>More fuel makes no difference\<close>

definition below :: "('a \<Rightarrow> 'b option) \<Rightarrow> ('a \<Rightarrow> 'b option) \<Rightarrow> bool" where
  "below d e \<longleftrightarrow> (\<forall>x y. d x = Some y \<longrightarrow> e x = Some y)"

lemma belowD: "below d e \<Longrightarrow> d x = Some y \<Longrightarrow> e x = Some y"
  by (simp add: below_def)

lemma bind_mono: "Option.bind m f = Some y \<Longrightarrow> (\<And>x. m = Some x \<Longrightarrow> m' = Some x) \<Longrightarrow>
    (\<And>x. m = Some x \<Longrightarrow> f x = Some y \<Longrightarrow> f' x = Some y) \<Longrightarrow> Option.bind m' f' = Some y"
  by (cases m) auto

lemma applyCommitWatermark_below:
  "below d e \<Longrightarrow> applyCommitWatermark d env q rt = Some x \<Longrightarrow> applyCommitWatermark e env q rt = Some x"
  by (auto simp: applyCommitWatermark_def Let_def dest: belowD split: if_splits prod.splits sum.splits)

lemma reconcile_below:
  "below d e \<Longrightarrow> reconcileDurableCommitProgress d env rt = Some x \<Longrightarrow> reconcileDurableCommitProgress e env rt = Some x"
  by (auto simp: reconcileDurableCommitProgress_def Let_def dest: applyCommitWatermark_below split: if_splits)

lemma detect_below:
  "below d e \<Longrightarrow> detectAcceptedCommitGap d env r rt = Some x \<Longrightarrow> detectAcceptedCommitGap e env r rt = Some x"
  by (auto simp: detectAcceptedCommitGap_def Let_def elim!: bind_mono dest: reconcile_below split: if_splits)

lemma submit_below:
  "below d e \<Longrightarrow> submitCommitWatermarkReady d env r rt = Some x \<Longrightarrow> submitCommitWatermarkReady e env r rt = Some x"
  by (auto simp: submitCommitWatermarkReady_def Let_def dest: applyCommitWatermark_below split: if_splits)

lemma advance_below:
  assumes "below d e" "n \<le> m" "advanceAcceptedCommitProgress n d env rt = Some x"
  shows "advanceAcceptedCommitProgress m e env rt = Some x"
  using assms(2,3)
proof (induction n arbitrary: m rt)
  case (Suc n)
  then obtain k where m: "m = Suc k" "n \<le> k" by (cases m) auto
  let ?r = "rt_record rt"
  show ?case
  proof (cases "rt_exists rt")
    case True
    let ?rec = "\<lambda>d x. if rt_commitEffectInFlight x then reconcileDurableCommitProgress d env x else Some (False, x)"
    have rec: "?rec d z = Some y \<Longrightarrow> ?rec e z = Some y" for z y
      using reconcile_below[OF assms(1)] by (simp split: if_splits)
    let ?fin = "\<lambda>n d again rt3. if again then advanceAcceptedCommitProgress n d env rt3
      else if rr_highestCommittedSequence ?r < ready_sequence ?r \<and> rt_highestWatermarkSent rt3 < ready_sequence ?r
      then submitCommitWatermarkReady d env ?r rt3 else Some rt3"
    have fin: "?fin n d again rt3 = Some x \<Longrightarrow> ?fin k e again rt3 = Some x" for again rt3
      using Suc.IH[OF m(2)] submit_below[OF assms(1)] by (auto split: if_splits)
    have step: "advanceAcceptedCommitProgress (Suc n) d env rt = Option.bind
        (detectAcceptedCommitGap d env ?r (syncAcceptedCommitsFromRecord env ?r rt))
        (\<lambda>(gap, rt2). if gap then Some rt2 else Option.bind (?rec d rt2) (\<lambda>(again, rt3). ?fin n d again rt3))" for n d
      using True by (simp add: Let_def)
    have body: "(if gap then Some rt2 else Option.bind (?rec e rt2) (\<lambda>(again, rt3). ?fin k e again rt3)) = Some x"
      if h: "(if gap then Some rt2 else Option.bind (?rec d rt2) (\<lambda>(again, rt3). ?fin n d again rt3)) = Some x" for gap rt2
    proof (cases gap)
      case False
      with h have "Option.bind (?rec d rt2) (\<lambda>(again, rt3). ?fin n d again rt3) = Some x" by simp
      then have "Option.bind (?rec e rt2) (\<lambda>(again, rt3). ?fin k e again rt3) = Some x"
        by (rule bind_mono) (simp_all only: rec case_prod_beta, rule fin)
      with False show ?thesis by simp
    qed (use h in simp)
    show ?thesis using Suc.prems(2) unfolding m(1) step
      by (rule bind_mono) (simp_all only: detect_below[OF assms(1)] case_prod_beta, rule body)
  qed (use Suc.prems(2) m(1) in simp)
qed simp

lemma drain_below: "n \<le> m \<Longrightarrow> below (drainReadyBuffered n env resp) (drainReadyBuffered m env resp)"
proof (induction n arbitrary: m resp)
  case (Suc n)
  then obtain k where m: "m = Suc k" "n \<le> k" by (cases m) auto
  note IH = Suc.IH[OF m(2), of None]
  have "drainReadyBuffered (Suc k) env resp rt = Some x" if "drainReadyBuffered (Suc n) env resp rt = Some x" for rt x
    using that by (auto simp: Let_def elim!: bind_mono dest: reconcile_below[OF IH] advance_below[OF IH m(2)]
        split: if_splits drain_step.splits)
  then show ?case by (simp add: below_def m(1))
qed (simp add: below_def)

lemmas drainer_below = drain_below[of _ _ _ None]

lemma onComplete_below: "n \<le> m \<Longrightarrow> onComplete_ok n env k rt = Some x \<Longrightarrow> onComplete_ok m env k rt = Some x"
  by (auto simp: onComplete_ok_def Option.bind_eq_Some_conv split: on_complete.splits if_splits
      dest: submit_below[OF drainer_below])

lemma afterPrepare_below: "n \<le> m \<Longrightarrow> afterPrepare_ok n env k rt = Some x \<Longrightarrow> afterPrepare_ok m env k rt = Some x"
  by (auto simp: afterPrepare_ok_def Option.bind_eq_Some_conv split: after_prepare.splits if_splits option.splits prod.splits
      dest: submit_below[OF drainer_below] onComplete_below)

lemma prepare_done_below: "n \<le> m \<Longrightarrow> prepare_done n env op k err rt = Some x \<Longrightarrow> prepare_done m env op k err rt = Some x"
  by (auto simp: prepare_done_def Let_def Option.bind_eq_Some_conv split: option.splits if_splits
      dest: submit_below[OF drainer_below] afterPrepare_below)

lemma forward_done_below: "n \<le> m \<Longrightarrow> forward_done n env p k err rt = Some x \<Longrightarrow> forward_done m env p k err rt = Some x"
  by (auto simp: forward_done_def Let_def split: option.splits if_splits prod.splits dest: onComplete_below)

lemma head_range_done_below: "n \<le> m \<Longrightarrow> head_range_done n env q err rt = Some x \<Longrightarrow> head_range_done m env q err rt = Some x"
  by (auto simp: head_range_done_def Let_def split: option.splits dest: applyCommitWatermark_below[OF drainer_below])

lemma handleForwardWrite_below:
  "n \<le> m \<Longrightarrow> handleForwardWrite n env req resp rt = Some x \<Longrightarrow> handleForwardWrite m env req resp rt = Some x"
  unfolding handleForwardWrite_def by (erule bind_mono) (simp_all add: reconcile_below[OF drainer_below])

lemma submit_then_below:
  "n \<le> m \<Longrightarrow> Option.bind (submitCommitWatermarkReady (drainer_of n env) env r rt) f = Some x \<Longrightarrow>
     Option.bind (submitCommitWatermarkReady (drainer_of m env) env r rt) f = Some x"
  by (erule bind_mono) (simp_all add: submit_below[OF drainer_below])

lemma handleCommitAdvance_below:
  assumes "n \<le> m" "handleCommitAdvanceRequest n env req resp rt = Some x"
  shows "handleCommitAdvanceRequest m env req resp rt = Some x"
  using assms(2) unfolding handleCommitAdvanceRequest_def
proof (rule bind_mono)
  fix y assume "reconcileDurableCommitProgress (drainer_of n env) env rt = Some y"
  then show "reconcileDurableCommitProgress (drainer_of m env) env rt = Some y" by (rule reconcile_below[OF drainer_below[OF assms(1)]])
qed (auto simp: Let_def intro: submit_then_below[OF assms(1)] submit_below[OF drainer_below[OF assms(1)]] split: prod.split_asm sum.split_asm option.split_asm if_split_asm)

lemma handleCommitToken_below:
  assumes "n \<le> m" "handleCommitTokenRequest n env req strict resp rt = Some x"
  shows "handleCommitTokenRequest m env req strict resp rt = Some x"
  using assms(2) unfolding handleCommitTokenRequest_def
proof (rule bind_mono)
  fix y assume "reconcileDurableCommitProgress (drainer_of n env) env rt = Some y"
  then show "reconcileDurableCommitProgress (drainer_of m env) env rt = Some y" by (rule reconcile_below[OF drainer_below[OF assms(1)]])
qed (auto simp: Let_def intro: submit_then_below[OF assms(1)] submit_below[OF drainer_below[OF assms(1)]] split: prod.split_asm sum.split_asm option.split_asm if_split_asm)

lemma slot_step_below: "n \<le> m \<Longrightarrow> slot_step n env ev rt = Some x \<Longrightarrow> slot_step m env ev rt = Some x"
  by (cases ev) (auto simp: drain_request_def scheduled_drain_def replay_done_def snapshot_fetched_def Let_def
      dest: belowD[OF drain_below] handleForwardWrite_below handleCommitAdvance_below handleCommitToken_below
        prepare_done_below forward_done_below head_range_done_below
      split: option.splits sum.splits if_splits prod.splits)

text \<open>A replica that has seen nothing yet.\<close>

definition fresh_record :: "replica_assignment \<Rightarrow> replica_record" where
  "fresh_record a = zero_record\<lparr>rr_assignment := a, rr_state := ReplicaStateActive_s, rr_nextSequence := 1\<rparr>"

lemma fresh_ok:
  assumes "hist_ok (g_hist g)" "g_mat g = 0" "g_backend g = g_base g"
  shows "rec_ok g (fresh_record a)" "slot_inv g (new_runtime slot True (fresh_record a))"
proof -
  have "follows (g_hist g) (fresh_record a)"
    by (rule follows_fresh) (use assms in \<open>simp_all add: fresh_record_def zero_record_def\<close>)
  moreover have "holds (g_hist g) (g_base g) (g_mat g) (fresh_record a) (g_backend g)"
    using assms by (simp add: holds_def fresh_record_def zero_record_def replay_def)
  moreover have "s < 1 \<Longrightarrow> \<not> 0 < s" for s :: u64 by (simp add: word_less_nat_alt)
  ultimately show "rec_ok g (fresh_record a)"
    using assms by (intro rec_okI) (auto simp: fresh_record_def zero_record_def)
  then show "slot_inv g (new_runtime slot True (fresh_record a))"
    by (simp add: slot_inv_def new_runtime_def pipe_ops_def)
qed


definition ex_env :: node_env where
  "ex_env = \<lparr>ne_nodeID = ''b'', ne_slotLimit = 8, ne_nodeLimit = 0, ne_othersBuffered = 0, ne_maxWritesPerNode = 0,
     ne_maxWritesPerSlot = 0, ne_nodeInFlight = 0, ne_durable = 0, ne_journalErr = None, ne_forwardErr = None,
     ne_ctxErr = (\<lambda>_. None), ne_now = 7, ne_getCommitted = (\<lambda>_. Inr None), ne_installErr = None,
     ne_setHighestErr = None, ne_persistErr = None, ne_createErr = None, ne_deleteErr = None,
     ne_localDeleteErr = None, ne_reportErr = None, ne_backendHighest = Inr 0, ne_creationReplayed = False,
     ne_autoActivate = False, ne_maxCatchups = 0, ne_inFlightCatchups = 0\<rparr>"

definition ex_ghost :: ghost where
  "ex_ghost = \<lparr>g_hist = ex_hist, g_base = fmempty, g_mat = 0, g_backend = fmempty\<rparr>"

definition ex_slot :: slot_runtime where
  "ex_slot = new_runtime 3 True (fresh_record ex_assignment)"


end
