(* ===== verification/Chain.thy ===== *)
theory Chain
  imports Slot_Events
begin

text \<open>
  A chain of slot runtimes that exchange the effects they emit.  Every replica runs the same
  code (\<open>storage/slot_owner.go\<close>) on its own assignment; what a replica has emitted may reach its
  peer at any later time, in any order and any number of times, or never.  A step is one
  event of one replica.  The history is the list of writes the head has numbered; the
  backend of each replica is what its materializer has written.
\<close>

section \<open>States and steps\<close>

record chain_state =
  ch_hist :: "write_operation list"
  ch_rts :: "slot_runtime list"
  ch_backs :: "(nat \<times> snapshot) list"

definition ch_rec :: "chain_state \<Rightarrow> nat \<Rightarrow> replica_record" where
  "ch_rec c i = rt_record (ch_rts c ! i)"

text \<open>The write the head has just numbered, if it has numbered one.\<close>

definition numbered_op :: "slot_runtime \<Rightarrow> slot_runtime \<Rightarrow> write_operation list" where
  "numbered_op rt rt' =
     (if rr_nextSequence (rt_record rt') = rr_nextSequence (rt_record rt) then []
      else [the (fmlookup (rr_preparedEntries (rt_record rt')) (rr_nextSequence (rt_record rt)))])"

text \<open>Which events can occur at a replica, given what all replicas have emitted.\<close>

fun delivered :: "chain_state \<Rightarrow> nat \<Rightarrow> slot_event \<Rightarrow> bool" where
  "delivered c i (EvSubmit kind key val conditions resp) \<longleftrightarrow>
     i = 0 \<and> (kind = OperationKindPut \<or> kind = OperationKindDelete) \<and> int (length (ch_hist c)) + 2 < 2 ^ 64"
| "delivered c i (EvForward req resp) \<longleftrightarrow> 0 < i \<and>
     (\<exists>e \<in> set (rt_out (ch_rts c ! (i - 1))). case e of
        EffForward t r p k \<Rightarrow> r = req | EffReplayForward t r k \<Rightarrow> r = req | _ \<Rightarrow> False)"
| "delivered c i (EvCommitAdvance req resp) \<longleftrightarrow> i + 1 < length (ch_rts c) \<and>
     (\<exists>e \<in> set (rt_out (ch_rts c ! (i + 1))). case e of EffCommitAdvance t r k \<Rightarrow> r = req | _ \<Rightarrow> False)"
| "delivered c i (EvCommitWrite req strict resp) \<longleftrightarrow> False"
| "delivered c i (EvPrepareDone op after err) \<longleftrightarrow>
     (\<exists>e \<in> set (rt_out (ch_rts c ! i)). case e of EffPrepare p a \<Rightarrow> dc_Operation p = op \<and> a = after | _ \<Rightarrow> False)"
| "delivered c i (EvFetched plan (Inr (snap, highest))) \<longleftrightarrow>
     0 < i \<and> highest \<le> rr_highestCommittedSequence (ch_rec c (i - 1))"
| "delivered c i (EvMaterialized highest) \<longleftrightarrow> unat highest \<le> fst (ch_backs c ! i)"
| "delivered c i _ \<longleftrightarrow> True"

text \<open>The materializer writes what it does not have yet.\<close>

definition materialize :: "durable_commit list \<Rightarrow> nat \<times> snapshot \<Rightarrow> nat \<times> snapshot" where
  "materialize cs = (\<lambda>(mat, m).
     let ops = filter (\<lambda>op. mat < unat (wo_Sequence op)) (map dc_Operation cs) in (mat + length ops, fold apply_op ops m))"

inductive chain_step :: "string list \<Rightarrow> chain_state \<Rightarrow> chain_state \<Rightarrow> bool" for nodes where
  serve: "i < length nodes \<Longrightarrow> ne_nodeID env = nodes ! i \<Longrightarrow> delivered c i ev \<Longrightarrow>
    slot_step n env ev (ch_rts c ! i) = Some rt \<Longrightarrow>
    chain_step nodes c (c\<lparr>ch_hist := ch_hist c @ (if i = 0 then numbered_op (ch_rts c ! i) rt else []),
      ch_rts := (ch_rts c)[i := rt]\<rparr>)"
| write_back: "i < length nodes \<Longrightarrow> EffMaterialize cs \<in> set (rt_out (ch_rts c ! i)) \<Longrightarrow>
    chain_step nodes c (c\<lparr>ch_backs := (ch_backs c)[i := materialize cs (ch_backs c ! i)]\<rparr>)"

definition chain_init :: "int \<Rightarrow> snapshot \<Rightarrow> replica_assignment list \<Rightarrow> chain_state" where
  "chain_init slot m0 as = \<lparr>ch_hist = [], ch_rts = map (\<lambda>a. new_runtime slot True (fresh_record a)) as,
     ch_backs = map (\<lambda>_. (0, m0)) as\<rparr>"

inductive chain_reachable :: "string list \<Rightarrow> int \<Rightarrow> snapshot \<Rightarrow> replica_assignment list \<Rightarrow> chain_state \<Rightarrow> bool"
  for nodes slot m0 as where
  start: "chain_reachable nodes slot m0 as (chain_init slot m0 as)"
| step: "chain_reachable nodes slot m0 as c \<Longrightarrow> chain_step nodes c c' \<Longrightarrow> chain_reachable nodes slot m0 as c'"

text \<open>The assignments describe the chain: each replica's successor is the next node.\<close>

definition wired :: "string list \<Rightarrow> replica_assignment list \<Rightarrow> bool" where
  "wired nodes as \<longleftrightarrow> nodes \<noteq> [] \<and> length as = length nodes \<and> [] \<notin> set nodes \<and>
     (\<forall>i < length nodes. SuccessorNodeID (ra_Peers (as ! i)) = (if i + 1 < length nodes then nodes ! (i + 1) else []))"

section \<open>The invariant\<close>

text \<open>The history as far as it may have reached a replica: what its predecessor has taken in.\<close>

definition seen :: "chain_state \<Rightarrow> nat \<Rightarrow> write_operation list" where
  "seen c i = (if i = 0 then ch_hist c else take (unat (rr_nextSequence (ch_rec c (i - 1))) - 1) (ch_hist c))"

definition ghost_of :: "snapshot \<Rightarrow> chain_state \<Rightarrow> nat \<Rightarrow> ghost" where
  "ghost_of m0 c i = \<lparr>g_hist = seen c i, g_base = m0, g_mat = fst (ch_backs c ! i), g_backend = snd (ch_backs c ! i)\<rparr>"

definition chain_inv :: "string list \<Rightarrow> snapshot \<Rightarrow> replica_assignment list \<Rightarrow> chain_state \<Rightarrow> bool" where
  "chain_inv nodes m0 as c \<longleftrightarrow> length (ch_rts c) = length nodes \<and> length (ch_backs c) = length nodes \<and>
     hist_ok (ch_hist c) \<and> unat (rr_nextSequence (ch_rec c 0)) = length (ch_hist c) + 1 \<and>
     (\<forall>i < length nodes. rt_exists (ch_rts c ! i) \<and>
        (rr_assignment (ch_rec c i) = as ! i \<and> rr_state (ch_rec c i) = ReplicaStateActive_s) \<and>
        slot_inv (ghost_of m0 c i) (ch_rts c ! i) \<and>
        (\<forall>e \<in> set (rt_out (ch_rts c ! i)). eff_ok (nodes ! i) (ghost_of m0 c i) (ch_rec c i) e)) \<and>
     (\<forall>i. i + 1 < length nodes \<longrightarrow>
        rr_highestCommitTokenReceived (ch_rec c i) \<le> rr_highestCommittedSequence (ch_rec c (i + 1)))"

lemma chain_invD:
  assumes "chain_inv nodes m0 as c"
  shows "length (ch_rts c) = length nodes" "length (ch_backs c) = length nodes" "hist_ok (ch_hist c)"
    "unat (rr_nextSequence (ch_rec c 0)) = length (ch_hist c) + 1"
    "i < length nodes \<Longrightarrow> rt_exists (ch_rts c ! i)"
    "i < length nodes \<Longrightarrow> rr_assignment (ch_rec c i) = as ! i \<and> rr_state (ch_rec c i) = ReplicaStateActive_s"
    "i < length nodes \<Longrightarrow> slot_inv (ghost_of m0 c i) (ch_rts c ! i)"
    "i < length nodes \<Longrightarrow> e \<in> set (rt_out (ch_rts c ! i)) \<Longrightarrow> eff_ok (nodes ! i) (ghost_of m0 c i) (ch_rec c i) e"
    "i + 1 < length nodes \<Longrightarrow>
       rr_highestCommitTokenReceived (ch_rec c i) \<le> rr_highestCommittedSequence (ch_rec c (i + 1))"
  using assms unfolding chain_inv_def by blast+

lemma chain_rec_ok:
  assumes "chain_inv nodes m0 as c" "i < length nodes"
  shows "rec_ok (ghost_of m0 c i) (ch_rec c i)"
  using slot_invD[OF chain_invD(7)[OF assms] chain_invD(5)[OF assms]] by (simp add: ch_rec_def)

text \<open>Down the chain the commit cursors grow and the numbers taken in shrink.\<close>

lemma chain_committed_mono:
  assumes inv: "chain_inv nodes m0 as c" and j: "i \<le> j" "j < length nodes"
  shows "rr_highestCommittedSequence (ch_rec c i) \<le> rr_highestCommittedSequence (ch_rec c j)"
  using j
proof (induction j rule: dec_induct)
  case (step j)
  have "rr_highestCommittedSequence (ch_rec c j) \<le> rr_highestCommitTokenReceived (ch_rec c j)"
    using rec_okD(5)[OF chain_rec_ok[OF inv]] step.prems by simp
  also have "\<dots> \<le> rr_highestCommittedSequence (ch_rec c (Suc j))" using chain_invD(9)[OF inv, of j] step.prems by simp
  finally show ?case using step.IH step.prems by (meson Suc_lessD order_trans)
qed simp

lemma chain_next_bound:
  assumes inv: "chain_inv nodes m0 as c" and i: "i < length nodes"
  shows "unat (rr_nextSequence (ch_rec c i)) \<le> length (seen c i) + 1" "0 < unat (rr_nextSequence (ch_rec c i))"
    "length (seen c i) \<le> length (ch_hist c)"
  using followsD(2,3)[OF rec_okD(1)[OF chain_rec_ok[OF inv i]]] by (simp_all add: ghost_of_def seen_def)

lemma chain_next_mono:
  assumes inv: "chain_inv nodes m0 as c" and j: "i \<le> j" "j < length nodes"
  shows "rr_nextSequence (ch_rec c j) \<le> rr_nextSequence (ch_rec c i)"
  using j
proof (induction j rule: dec_induct)
  case (step j)
  have "unat (rr_nextSequence (ch_rec c (Suc j))) \<le> unat (rr_nextSequence (ch_rec c j))"
    using chain_next_bound[OF inv, of "Suc j"] chain_next_bound(2)[OF inv, of j] step.prems by (simp add: seen_def)
  then show ?case using step.IH step.prems by (simp add: word_le_nat_alt)
qed simp

lemma hist_ok_take: "hist_ok H \<Longrightarrow> hist_ok (take k H)"
  by (auto simp: hist_ok_def)

lemma hist_op_take: "unat s \<le> k \<Longrightarrow> hist_op (take k H) s = hist_op H s"
  by (auto simp: hist_op_def)

lemma hist_op_takeD: "hist_op (take k H) s = Some op \<Longrightarrow> hist_op H s = Some op"
  by (auto simp: hist_op_def split: if_splits)

section \<open>A served event\<close>

lemma delivered_ok:
  assumes inv: "chain_inv nodes m0 as c" and i: "i < length nodes" and d: "delivered c i ev"
  shows "event_ok (ghost_of m0 c i) ev (ch_rts c ! i)" "numbering (ghost_of m0 c i) ev (ch_rts c ! i)"
proof -
  have fwd: "event_ok (ghost_of m0 c i) (EvForward req resp) (ch_rts c ! i)"
    if e: "e \<in> set (rt_out (ch_rts c ! (i - 1)))" "0 < i"
      "case e of EffForward t r p k \<Rightarrow> r = req | EffReplayForward t r k \<Rightarrow> r = req | _ \<Rightarrow> False" for e req resp
  proof -
    let ?s = "wo_Sequence (fr_Operation req)"
    have "eff_ok (nodes ! (i - 1)) (ghost_of m0 c (i - 1)) (ch_rec c (i - 1)) e"
      using chain_invD(8)[OF inv _ e(1)] i e(2) by simp
    then have op: "hist_op (seen c (i - 1)) ?s = Some (fr_Operation req)" "?s < rr_nextSequence (ch_rec c (i - 1))"
      using e(3) by (auto simp: ghost_of_def split: slot_effect.splits)
    from op(1) have "hist_op (ch_hist c) ?s = Some (fr_Operation req)"
      by (cases "i - 1 = 0") (auto simp: seen_def dest: hist_op_takeD)
    then show ?thesis using op(2) e(2) hist_op_take[of ?s "unat (rr_nextSequence (ch_rec c (i - 1))) - 1" "ch_hist c"]
      by (simp add: ghost_of_def seen_def word_less_nat_alt)
  qed
  have prep: "wo_Sequence op < rr_nextSequence (rt_record (ch_rts c ! i))"
    if e: "e \<in> set (rt_out (ch_rts c ! i))" "case e of EffPrepare p a \<Rightarrow> dc_Operation p = op \<and> a = after | _ \<Rightarrow> False" for e op "after"
    using chain_invD(8)[OF inv i e(1)] e(2) by (auto simp: ch_rec_def split: slot_effect.splits)
  have fetch: "highest \<le> rr_highestCommittedSequence (rt_record (ch_rts c ! i))"
    if "0 < i" "highest \<le> rr_highestCommittedSequence (ch_rec c (i - 1))" for highest
    using chain_committed_mono[OF inv, of "i - 1" i] that i by (simp add: ch_rec_def)
  show "event_ok (ghost_of m0 c i) ev (ch_rts c ! i)"
    using d fwd prep fetch by (cases "(c, i, ev)" rule: delivered.cases) (auto simp: ghost_of_def)
  show "numbering (ghost_of m0 c i) ev (ch_rts c ! i)"
    using d chain_invD(4)[OF inv] by (cases ev) (auto simp: numbering_def ghost_of_def seen_def ch_rec_def)
qed

lemma step_same:
  assumes "slot_step n env ev rt = Some x" "slot_step m env ev rt = Some y"
  shows "x = y"
  using slot_step_below[OF _ assms(1), of "max n m"] slot_step_below[OF _ assms(2), of "max n m"] by simp

lemma numbered_op_eq:
  assumes n: "nests nid (g_extend g [op]) rt rt'" and e: "rt_exists rt" and ok: "rec_ok g (rt_record rt)"
    and nx: "unat (rr_nextSequence (rt_record rt)) = length (g_hist g) + 1"
      "unat (rr_nextSequence (rt_record rt')) = length (g_hist g) + 2"
  shows "numbered_op rt rt' = [op]"
proof -
  let ?s = "rr_nextSequence (rt_record rt)"
  note D = followsD[OF rec_okD(1)[OF nestsD(3)[OF n e]]]
  have "rr_highestPreparedDurable (rt_record rt') = rr_highestPreparedDurable (rt_record rt)" using nestsD(5)[OF n] .
  then have "unat (rr_highestCommittedSequence (rt_record rt')) < unat ?s"
    using D(4) followsD(5)[OF rec_okD(1)[OF ok]] by simp
  then have "fmlookup (rr_preparedEntries (rt_record rt')) ?s = hist_op (g_hist (g_extend g [op])) ?s" using D(6)[of ?s] nx by simp
  also have "\<dots> = Some op" using nx(1) by (simp add: hist_op_def nth_append)
  finally show ?thesis using nx by (auto simp: numbered_op_def)
qed

lemma served:
  assumes inv: "chain_inv nodes m0 as c" and i: "i < length nodes" and env: "ne_nodeID env = nodes ! i"
    and d: "delivered c i ev" and step: "slot_step n env ev (ch_rts c ! i) = Some rt'"
  defines "ops \<equiv> if i = 0 then numbered_op (ch_rts c ! i) rt' else []"
  shows "hist_ok (ch_hist c @ ops)" "moves (nodes ! i) (g_extend (ghost_of m0 c i) ops) (ch_rts c ! i) rt'"
    "token_source ev (ch_rts c ! i) rt'" "i = 0 \<Longrightarrow> unat (rr_nextSequence (rt_record rt')) = length (ch_hist c @ ops) + 1"
proof -
  let ?g = "ghost_of m0 c i" and ?rt = "ch_rts c ! i"
  note dk = delivered_ok[OF inv i d] and si = chain_invD(7)[OF inv i] and ex = chain_invD(5)[OF inv i]
  let ?P = "hist_ok (ch_hist c @ ops) \<and> moves (nodes ! i) (g_extend ?g ops) ?rt rt' \<and> token_source ev ?rt rt' \<and>
    (i = 0 \<longrightarrow> unat (rr_nextSequence (rt_record rt')) = length (ch_hist c @ ops) + 1)"
  have still: ?P if m: "moves (nodes ! i) ?g ?rt rt'" and t: "token_source ev ?rt rt'"
  proof -
    have "rr_nextSequence (rt_record rt') = rr_nextSequence (rt_record ?rt)" if z: "i = 0"
    proof -
      have "unat (rr_nextSequence (rt_record rt')) \<le> length (ch_hist c) + 1"
        using followsD(3)[OF rec_okD(1)[OF movesD(4)[OF m ex]]] z by (simp add: ghost_of_def seen_def)
      moreover have "unat (rr_nextSequence (rt_record ?rt)) \<le> unat (rr_nextSequence (rt_record rt'))"
        using movesD(3)[OF m] by (simp add: grows_def word_le_nat_alt)
      ultimately show ?thesis using chain_invD(4)[OF inv] z by (simp add: ch_rec_def word_unat_eq_iff)
    qed
    then have "ops = []" "i = 0 \<longrightarrow> unat (rr_nextSequence (rt_record rt')) = length (ch_hist c) + 1"
      using chain_invD(4)[OF inv] by (auto simp: ops_def numbered_op_def ch_rec_def)
    then show ?thesis using m t chain_invD(3)[OF inv] by simp
  qed
  have ?P
  proof (cases "\<exists>kind key val conditions resp. ev = EvSubmit kind key val conditions resp")
    case False
    from slot_step_moves[OF si dk(1) order_refl False, of env] obtain x where
      x: "slot_step (step_fuel ?rt) env ev ?rt = Some x" "moves (nodes ! i) ?g ?rt x" "token_source ev ?rt x"
      unfolding env by blast
    with step_same[OF step x(1)] show ?thesis using still by simp
  next
    case True
    then obtain kind key val conditions resp where ev: "ev = EvSubmit kind key val conditions resp" by blast
    have rt': "rt' = handleSubmitWrite env kind key val conditions resp ?rt" using step ev by simp
    have kind: "kind = OperationKindPut \<or> kind = OperationKindDelete" and z: "i = 0" using d ev by simp_all
    consider (refused) "quietly ?rt rt'"
      | (numbered) op where "hist_ok (g_hist ?g @ [op])" "nests (nodes ! i) (g_extend ?g [op]) ?rt rt'"
          "unat (rr_nextSequence (rt_record rt')) = length (g_hist ?g) + 2"
      using handleSubmitWrite_ok[OF si kind dk(2)[unfolded ev], of env] unfolding rt' env by metis
    then show ?thesis
    proof cases
      case refused
      then have "nests (nodes ! i) ?g ?rt rt'" by (rule nests_quietly) (rule slot_invD[OF si])
      then show ?thesis using still nestsD(1) nests_token by blast
    next
      case (numbered op)
      note num = numbered(2,3)
      have h: "g_hist ?g = ch_hist c" using z by (simp add: ghost_of_def seen_def)
      have "numbered_op ?rt rt' = [op]"
        by (rule numbered_op_eq[OF num(1) ex slot_invD[OF si ex]])
          (use num(2) chain_invD(4)[OF inv] h z in \<open>simp_all add: ch_rec_def\<close>)
      then have o: "ops = [op]" by (simp add: ops_def z)
      show ?thesis unfolding o using num numbered(1) h nestsD(1)[OF num(1)] nests_token[OF num(1)] by simp
    qed
  qed
  then show "hist_ok (ch_hist c @ ops)" "moves (nodes ! i) (g_extend ?g ops) ?rt rt'"
    "token_source ev ?rt rt'" "i = 0 \<Longrightarrow> unat (rr_nextSequence (rt_record rt')) = length (ch_hist c @ ops) + 1" by blast+
qed

section \<open>The invariant holds\<close>

text \<open>A longer history for a replica that did nothing.\<close>

lemma ghost_of_grows:
  assumes len: "length (seen c j) \<le> length (seen c' j)" and pre: "seen c j = take (length (seen c j)) (seen c' j)"
    and bk: "ch_backs c' ! j = ch_backs c ! j"
  shows "\<exists>ext. ghost_of m0 c' j = g_extend (ghost_of m0 c j) ext"
proof -
  have "seen c' j = seen c j @ drop (length (seen c j)) (seen c' j)" using pre by (metis append_take_drop_id)
  then show ?thesis using bk by (auto simp: ghost_of_def)
qed

lemma ghost_ok_extend:
  assumes "slot_inv g rt" "rt_exists rt" "\<forall>e \<in> set (rt_out rt). eff_ok nid g (rt_record rt) e"
    and g': "g' = g_extend g ext" "hist_ok (g_hist g')"
  shows "slot_inv g' rt \<and> (\<forall>e \<in> set (rt_out rt). eff_ok nid g' (rt_record rt) e)"
proof -
  have "unat (rr_highestCommittedSequence (rt_record rt)) \<le> length (g_hist g)"
    using rec_okD(2)[OF slot_invD[OF assms(1,2)]] by (simp add: holds_def)
  then show ?thesis using assms slot_inv_extend[of g rt ext] eff_ok_extend[of nid g "rt_record rt" _ ext] by simp
qed

lemma take_take_append: "a \<le> b \<Longrightarrow> a \<le> length H \<Longrightarrow> take a H = take (length (take a H)) (take b (H @ G))"
  by (simp add: min_absorb1 min_absorb2)

text \<open>Where a replica's token comes from: its successor has committed that far.\<close>

lemma token_bound:
  assumes w: "wired nodes as" and inv: "chain_inv nodes m0 as c" and j: "j + 1 < length nodes"
    and d: "delivered c i ev" and t: "token_source ev (ch_rts c ! i) rt'"
    and r: "r = (if j = i then rt_record rt' else ch_rec c j)"
  shows "rr_highestCommitTokenReceived r \<le> rr_highestCommittedSequence (ch_rec c (j + 1))"
proof (cases "j = i \<and> rr_highestCommitTokenReceived (rt_record rt') \<noteq> rr_highestCommitTokenReceived (ch_rec c i)")
  case False
  then show ?thesis using chain_invD(9)[OF inv j] r by (auto simp: ch_rec_def)
next
  case True
  have "SuccessorNodeID (rr_peers (ch_rec c i)) = nodes ! (i + 1)" "nodes ! (i + 1) \<noteq> []"
    using w j True chain_invD(6)[OF inv, of i] nth_mem[of "i + 1" nodes] by (auto simp: wired_def simp del: nth_mem)
  then have "SuccessorNodeID (rr_peers (ch_rec c i)) \<noteq> []" by simp
  with t True d obtain req resp where ev: "ev = EvCommitAdvance req resp"
    "rr_highestCommitTokenReceived (rt_record rt') = ca_CommittedThrough req"
    by (auto simp: token_source_def ch_rec_def split: slot_event.splits)
  with d obtain e where e: "e \<in> set (rt_out (ch_rts c ! (i + 1)))" "case e of EffCommitAdvance t r k \<Rightarrow> r = req | _ \<Rightarrow> False"
    by auto
  obtain t' k where "EffCommitAdvance t' req k \<in> set (rt_out (ch_rts c ! (i + 1)))"
    by (rule slot_effect.exhaust[of e]) (use e in auto)
  from chain_invD(8)[OF inv _ this] j True r ev(2) show ?thesis by auto
qed

lemma serve_inv:
  assumes w: "wired nodes as" and inv: "chain_inv nodes m0 as c" and i: "i < length nodes" and env: "ne_nodeID env = nodes ! i"
    and d: "delivered c i ev" and step: "slot_step n env ev (ch_rts c ! i) = Some rt'"
  shows "chain_inv nodes m0 as (c\<lparr>ch_hist := ch_hist c @ (if i = 0 then numbered_op (ch_rts c ! i) rt' else []),
    ch_rts := (ch_rts c)[i := rt']\<rparr>)"
proof -
  define ops where "ops = (if i = 0 then numbered_op (ch_rts c ! i) rt' else [])"
  define c' where "c' = c\<lparr>ch_hist := ch_hist c @ ops, ch_rts := (ch_rts c)[i := rt']\<rparr>"
  note S = served[OF inv i env d step, folded ops_def] and I = chain_invD[OF inv]
  note M = movesD[OF S(2)]
  have rts: "ch_rts c' ! j = (if j = i then rt' else ch_rts c ! j)" if "j < length nodes" for j
    using that I(1) by (simp add: c'_def)
  have rec: "ch_rec c' j = (if j = i then rt_record rt' else ch_rec c j)" if "j < length nodes" for j
    using that by (simp add: ch_rec_def rts)
  have gr: "grows (ch_rec c j) (ch_rec c' j)" if "j < length nodes" for j
    unfolding rec[OF that] using M(3) by (simp add: ch_rec_def)
  have H: "hist_ok (ch_hist c')" using S(1) by (simp add: c'_def)
  have Hs: "hist_ok (seen c' j)" for j using H hist_ok_take by (simp add: seen_def)
  have ext: "\<exists>ext. ghost_of m0 c' j = g_extend (ghost_of m0 c j) ext" if j: "j < length nodes" for j
  proof (rule ghost_of_grows)
    have "rr_nextSequence (ch_rec c (j - 1)) \<le> rr_nextSequence (ch_rec c' (j - 1))" using gr[of "j - 1"] j by (simp add: grows_def)
    then have le: "unat (rr_nextSequence (ch_rec c (j - 1))) - 1 \<le> unat (rr_nextSequence (ch_rec c' (j - 1))) - 1"
      by (simp add: word_le_nat_alt)
    have b: "unat (rr_nextSequence (ch_rec c (j - 1))) - 1 \<le> length (ch_hist c)"
      using chain_next_bound(1)[OF inv, of "j - 1"] chain_next_bound(3)[OF inv, of "j - 1"] j by linarith
    show "seen c j = take (length (seen c j)) (seen c' j)"
      using take_take_append[OF le b] by (simp add: seen_def c'_def)
    then show "length (seen c j) \<le> length (seen c' j)" by (metis length_take min.cobounded1 min.commute)
  qed (simp add: c'_def)
  have own: "ghost_of m0 c' i = g_extend (ghost_of m0 c i) ops"
  proof (cases "i = 0")
    case False
    then have "ch_rec c' (i - 1) = ch_rec c (i - 1)" "ops = []" using i rec[of "i - 1"] by (auto simp: ops_def)
    then show ?thesis using False by (simp add: ghost_of_def seen_def c'_def)
  qed (simp add: ghost_of_def seen_def c'_def)
  have each: "slot_inv (ghost_of m0 c' j) (ch_rts c' ! j) \<and>
      (\<forall>e \<in> set (rt_out (ch_rts c' ! j)). eff_ok (nodes ! j) (ghost_of m0 c' j) (ch_rec c' j) e)" if j: "j < length nodes" for j
  proof -
    obtain ext where g': "ghost_of m0 c' j = g_extend (ghost_of m0 c j) ext" using ext[OF j] by blast
    have "hist_ok (g_hist (ghost_of m0 c' j))" using Hs by (simp add: ghost_of_def)
    from ghost_ok_extend[OF I(7)[OF j] I(5)[OF j] _ g' this, of "nodes ! j"] I(8)[OF j]
    have old: "slot_inv (ghost_of m0 c' j) (ch_rts c ! j)"
      "\<And>e. e \<in> set (rt_out (ch_rts c ! j)) \<Longrightarrow> eff_ok (nodes ! j) (ghost_of m0 c' j) (ch_rec c j) e"
      by (auto simp: ch_rec_def)
    show ?thesis
    proof (cases "j = i")
      case True
      have "eff_ok (nodes ! i) (ghost_of m0 c' i) (rt_record rt') e" if "e \<in> set (rt_out rt')" for e
        using that M(5) old(2)[of e] eff_ok_grows[OF _ M(3)] True
        by (auto simp: adds_def own ch_rec_def list_all_iff)
      then show ?thesis using moves_inv[OF old(1)[unfolded True own] S(2)] True by (simp add: rts[OF i] rec[OF i] own)
    next
      case False
      then show ?thesis using old by (simp add: rts[OF j] rec[OF j])
    qed
  qed
  have tok: "rr_highestCommitTokenReceived (ch_rec c' j) \<le> rr_highestCommittedSequence (ch_rec c' (j + 1))"
    if j: "j + 1 < length nodes" for j
  proof -
    have "rr_highestCommittedSequence (ch_rec c (j + 1)) \<le> rr_highestCommittedSequence (ch_rec c' (j + 1))"
      using gr[of "j + 1"] j by (simp add: grows_def)
    moreover have "rr_highestCommitTokenReceived (ch_rec c' j) \<le> rr_highestCommittedSequence (ch_rec c (j + 1))"
      by (rule token_bound[OF w inv j d S(3), folded c'_def]) (use rec[of j] j in simp)
    ultimately show ?thesis by (rule order_trans[rotated])
  qed
  have "0 < length nodes" by (rule order.strict_trans1[OF le0 i])
  note r0 = rec[OF this]
  have "unat (rr_nextSequence (ch_rec c' 0)) = length (ch_hist c') + 1"
    using S(4) I(4) by (cases "i = 0") (simp_all add: r0, simp_all add: c'_def ops_def)
  moreover have "length (ch_rts c') = length nodes" "length (ch_backs c') = length nodes" using I(1,2) by (simp_all add: c'_def)
  moreover have "rt_exists (ch_rts c' ! j) \<and> rr_assignment (ch_rec c' j) = as ! j \<and>
      rr_state (ch_rec c' j) = ReplicaStateActive_s" if "j < length nodes" for j
    using I(5,6)[OF that] M(2) gr[OF that] by (auto simp: rts[OF that] grows_def)
  ultimately have "chain_inv nodes m0 as c'"
    unfolding chain_inv_def using each tok H by blast
  then show ?thesis by (simp add: c'_def ops_def)
qed

text \<open>The materializer of a replica.\<close>

lemma filter_later:
  assumes "hist_ok H" "a \<le> mat" "b \<le> length H"
  shows "filter (\<lambda>op. mat < unat (wo_Sequence op)) (drop a (take b H)) = drop mat (take b H)"
proof -
  let ?L = "take b H"
  have seq: "unat (wo_Sequence (?L ! k)) = k + 1" if "k < b" for k
    using assms(1,3) that by (auto simp: hist_ok_def)
  have "drop a ?L = take (mat - a) (drop a ?L) @ drop mat ?L"
    using append_take_drop_id[of "mat - a" "drop a ?L"] assms(2) by (simp only: drop_drop le_add_diff_inverse2)
  moreover have "filter (\<lambda>op. mat < unat (wo_Sequence op)) (take (mat - a) (drop a ?L)) = []"
    using seq assms(2,3) by (auto simp: filter_empty_conv in_set_conv_nth simp del: drop_take)
  moreover have "filter (\<lambda>op. mat < unat (wo_Sequence op)) (drop mat ?L) = drop mat ?L"
    using seq assms(3) by (auto simp: filter_id_conv in_set_conv_nth simp del: drop_take)
  ultimately show ?thesis by (metis filter_append append_Nil)
qed

lemma rec_ok_write_back:
  assumes ok: "rec_ok g r" and b: "g_mat g \<le> b" "b \<le> unat (rr_highestCommittedSequence r)"
  shows "rec_ok (g\<lparr>g_mat := b, g_backend := fold apply_op (drop (g_mat g) (take b (g_hist g))) (g_backend g)\<rparr>) r"
proof -
  let ?m = "fold apply_op (drop (g_mat g) (take b (g_hist g))) (g_backend g)" and ?c = "unat (rr_highestCommittedSequence r)"
  have h: "?c \<le> length (g_hist g)" "\<forall>k. fmlookup (g_backend g) k = fmlookup (replay (g_hist g) (g_base g) (g_mat g)) k"
    "\<forall>k. case fmlookup (rr_committedOverlay r) k of
        Some e \<Rightarrow> (let os = filter (\<lambda>op. wo_Key op = k) (take ?c (g_hist g))
                   in os \<noteq> [] \<and> e = \<lparr>de_Sequence = wo_Sequence (last os), de_Operation = last os\<rparr>)
      | None \<Rightarrow> filter (\<lambda>op. wo_Key op = k) (drop (g_mat g) (take ?c (g_hist g))) = []"
    using rec_okD(2)[OF ok] by (simp_all add: holds_def)
  from h(2) have "g_backend g = replay (g_hist g) (g_base g) (g_mat g)" by (intro fmap_ext) simp
  then have m: "?m = replay (g_hist g) (g_base g) b" using replay_split[OF b(1)] by simp
  have "holds (g_hist g) (g_base g) b r ?m"
    unfolding holds_def m
  proof (intro conjI allI)
    fix k
    show "case fmlookup (rr_committedOverlay r) k of
        Some e \<Rightarrow> (let os = filter (\<lambda>op. wo_Key op = k) (take ?c (g_hist g))
                   in os \<noteq> [] \<and> e = \<lparr>de_Sequence = wo_Sequence (last os), de_Operation = last os\<rparr>)
      | None \<Rightarrow> filter (\<lambda>op. wo_Key op = k) (drop b (take ?c (g_hist g))) = []"
      using h(3)[THEN spec, of k] set_drop_subset_set_drop[OF b(1), of "take ?c (g_hist g)"]
      by (auto simp: filter_empty_conv split: option.splits)
  qed (use h(1) b(2) in simp_all)
  then show ?thesis by (intro rec_okI) (use rec_okD[OF ok] b in simp_all)
qed

lemma eff_ok_mat:
  assumes "eff_ok nid g r e" "g_mat g \<le> mat"
  shows "eff_ok nid (g\<lparr>g_mat := mat, g_backend := m\<rparr>) r e"
proof (cases e)
  case (EffMaterialize cs)
  with assms show ?thesis by (simp only: eff_ok.simps) (auto intro: order_trans)
qed (use assms in auto)

lemma backs_frame [simp]:
  "ch_rec (c\<lparr>ch_backs := x\<rparr>) j = ch_rec c j" "seen (c\<lparr>ch_backs := x\<rparr>) j = seen c j"
  by (simp_all add: ch_rec_def seen_def)

lemma write_back_inv:
  assumes inv: "chain_inv nodes m0 as c" and i: "i < length nodes" and e: "EffMaterialize cs \<in> set (rt_out (ch_rts c ! i))"
  shows "chain_inv nodes m0 as (c\<lparr>ch_backs := (ch_backs c)[i := materialize cs (ch_backs c ! i)]\<rparr>)"
proof -
  let ?c = "c\<lparr>ch_backs := (ch_backs c)[i := materialize cs (ch_backs c ! i)]\<rparr>" and ?g = "ghost_of m0 c i"
  note I = chain_invD[OF inv]
  obtain a b where ab: "a \<le> g_mat ?g" "b \<le> unat (rr_highestCommittedSequence (ch_rec c i))"
    "map dc_Operation cs = drop a (take b (g_hist ?g))" using I(8)[OF i e] by auto
  note ok = chain_rec_ok[OF inv i]
  have len: "b \<le> length (g_hist ?g)" using rec_okD(2)[OF ok] ab(2) by (simp add: holds_def)
  obtain mat m where bk: "ch_backs c ! i = (mat, m)" by (cases "ch_backs c ! i")
  have g: "g_mat ?g = mat" "g_backend ?g = m" "g_hist ?g = seen c i" using bk by (simp_all add: ghost_of_def)
  let ?ops = "drop mat (take b (seen c i))"
  have mz: "materialize cs (mat, m) = (mat + length ?ops, fold apply_op ?ops m)"
    unfolding materialize_def ab(3) Let_def
    using filter_later[OF followsD(1)[OF rec_okD(1)[OF ok]] ab(1) len] by (simp add: g)
  have others: "ghost_of m0 ?c j = ghost_of m0 c j" if "j \<noteq> i" for j using that by (simp add: ghost_of_def)
  have own: "ghost_of m0 ?c i = ?g\<lparr>g_mat := mat + length ?ops, g_backend := fold apply_op ?ops m\<rparr>"
    using I(2) i bk mz by (simp add: ghost_of_def)
  have slot: "slot_inv (ghost_of m0 ?c i) (ch_rts c ! i)"
  proof (cases "mat \<le> b")
    case True
    then have "mat + length ?ops = b" using len g by simp
    then have "rec_ok (ghost_of m0 ?c i) (ch_rec c i)"
      unfolding own using rec_ok_write_back[OF ok _ ab(2)] True g by simp
    then show ?thesis using I(5,7)[OF i] own by (simp add: slot_inv_def ch_rec_def)
  next
    case False
    then show ?thesis using I(7)[OF i] own g by (simp add: ghost_of_def bk)
  qed
  have eff: "eff_ok nid (ghost_of m0 ?c i) r x" if "eff_ok nid ?g r x" for nid r x
    unfolding own by (rule eff_ok_mat[OF that]) (simp add: g)
  show ?thesis
    unfolding chain_inv_def
  proof (intro conjI allI impI ballI)
    fix j assume j: "j < length nodes"
    show "slot_inv (ghost_of m0 ?c j) (ch_rts ?c ! j)" using slot others[of j] I(7)[OF j] by (cases "j = i") simp_all
    show "eff_ok (nodes ! j) (ghost_of m0 ?c j) (ch_rec ?c j) x" if "x \<in> set (rt_out (ch_rts ?c ! j))" for x
      using I(8)[OF j, of x] that eff others[of j] by (cases "j = i") simp_all
  qed (use I in simp_all)
qed

lemma chain_init_inv:
  assumes "wired nodes as"
  shows "chain_inv nodes m0 as (chain_init slot m0 as)"
proof -
  let ?c = "chain_init slot m0 as"
  have len: "length as = length nodes" "0 < length nodes" using assms by (auto simp: wired_def)
  have rt: "ch_rts ?c ! i = new_runtime slot True (fresh_record (as ! i))" if "i < length nodes" for i
    using that len by (simp add: chain_init_def)
  have rec: "ch_rec ?c i = fresh_record (as ! i)" if "i < length nodes" for i
    using rt[OF that] by (simp add: ch_rec_def new_runtime_def)
  have seen: "seen ?c i = []" for i by (simp add: seen_def chain_init_def)
  have inv: "slot_inv (ghost_of m0 ?c i) (ch_rts ?c ! i)" if "i < length nodes" for i
    unfolding rt[OF that]
    by (rule fresh_ok) (use that len seen in \<open>simp_all add: ghost_of_def chain_init_def hist_ok_def\<close>)
  show ?thesis
    unfolding chain_inv_def
  proof (intro conjI allI impI ballI)
    show "slot_inv (ghost_of m0 ?c i) (ch_rts ?c ! i)" if "i < length nodes" for i using inv[OF that] .
    show "rr_highestCommitTokenReceived (ch_rec ?c i) \<le> rr_highestCommittedSequence (ch_rec ?c (i + 1))"
      if "i + 1 < length nodes" for i using that by (simp add: rec fresh_record_def zero_record_def)
  qed (use len rt rec in \<open>simp_all add: new_runtime_def fresh_record_def chain_init_def hist_ok_def\<close>)
qed

lemma chain_reachable_inv:
  assumes "chain_reachable nodes slot m0 as c" "wired nodes as"
  shows "chain_inv nodes m0 as c"
  using assms
proof (induction rule: chain_reachable.induct)
  case start
  then show ?case by (rule chain_init_inv)
next
  case (step c c')
  note inv = step.IH[OF step.prems]
  from step.hyps(2) show ?case
  proof cases
    case (serve i env ev n rt)
    then show ?thesis using serve_inv[OF step.prems inv] by blast
  next
    case (write_back i cs)
    then show ?thesis using write_back_inv[OF inv] by blast
  qed
qed

end
