(* ===== verification/Chain_Props.thy ===== *)
theory Chain_Props
  imports Chain
begin

text \<open>
  What a chain of slot runtimes promises its clients, for every order in which its messages
  can arrive and its journals and backends can make progress.
\<close>

section \<open>The replicas and the history\<close>

lemma seen_take: "seen c i = take (length (seen c i)) (ch_hist c)"
  by (cases "i = 0") (auto simp: seen_def min_def)

lemma seen_replay:
  assumes "n \<le> length (seen c i)"
  shows "replay (seen c i) m0 n = replay (ch_hist c) m0 n"
  using assms seen_take[of c i] by (metis min.absorb1 replay_def take_take)

lemma chain_follows:
  assumes "chain_inv nodes m0 as c" "i < length nodes"
  shows "follows (seen c i) (ch_rec c i)"
    "holds (seen c i) m0 (fst (ch_backs c ! i)) (ch_rec c i) (snd (ch_backs c ! i))"
    "unat (rr_highestCommittedSequence (ch_rec c i)) \<le> length (seen c i)"
  using rec_okD(1,2)[OF chain_rec_ok[OF assms]] by (simp_all add: ghost_of_def holds_def)

lemma acknowledged_committed:
  assumes inv: "chain_inv nodes m0 as c" and j: "j < length nodes" and ack: "EffWaiter s None \<in> set (rt_out (ch_rts c ! 0))"
  shows "s \<le> rr_highestCommittedSequence (ch_rec c j)"
proof -
  have z: "0 < length nodes" by (rule order.strict_trans1[OF le0 j])
  have "s \<le> rr_highestCommittedSequence (ch_rec c 0)" using chain_invD(8)[OF inv z ack] by simp
  also have "\<dots> \<le> rr_highestCommittedSequence (ch_rec c j)" by (rule chain_committed_mono[OF inv le0 j])
  finally show ?thesis .
qed

text \<open>What the backend of a replica answers.\<close>

definition back_get :: "chain_state \<Rightarrow> nat \<Rightarrow> int \<Rightarrow> string \<Rightarrow> storage_err + committed_object option" where
  "back_get c j slot key = Inr (fmlookup (snd (ch_backs c ! j)) key)"

text \<open>
  C1. A write acknowledged to its client is committed on every replica of the chain.  Take
  any chain of replicas whose successors are wired to one another and any interleaving of
  client writes, forwards, commit notices, journal completions, replays, failures, lost,
  reordered and duplicated messages: when the head has told a client that write \<open>s\<close> succeeded,
  every replica has committed through \<open>s\<close>, and the committed object each replica serves for a
  key is the outcome of the same history of writes, cut at the replica's own cursor.
\<close>

theorem acknowledged_everywhere:
  assumes "wired nodes as" and "chain_reachable nodes slot m0 as c"
    and "EffWaiter s None \<in> set (rt_out (ch_rts c ! 0))" and "j < length nodes"
  shows "s \<le> rr_highestCommittedSequence (ch_rec c j) \<and>
    unat (rr_highestCommittedSequence (ch_rec c j)) \<le> length (ch_hist c) \<and>
    committedObject (back_get c j) (ch_rec c j) slot k =
      Inr (fmlookup (replay (ch_hist c) m0 (unat (rr_highestCommittedSequence (ch_rec c j)))) k)"
proof -
  note inv = chain_reachable_inv[OF assms(2,1)]
  note F = chain_follows[OF inv assms(4)]
  have "committedObject (back_get c j) (ch_rec c j) slot k =
      Inr (fmlookup (replay (seen c j) m0 (unat (rr_highestCommittedSequence (ch_rec c j)))) k)"
    using holds_lookup[OF F(2) followsD(1)[OF F(1)], of k]
    by (auto simp: committedObject_def back_get_def split: option.splits)
  then show ?thesis
    using acknowledged_committed[OF inv assms(4,3)] F(3) seen_replay[OF F(3)] chain_next_bound(3)[OF inv assms(4)] by simp
qed

text \<open>The roles and tail addresses of a chain's assignments.\<close>

definition roles :: "replica_assignment list \<Rightarrow> bool" where
  "roles as \<longleftrightarrow> (\<forall>i < length as. if i + 1 = length as then ra_Role (as ! i) \<in> {ReplicaRoleTail, ReplicaRoleSingle}
     else ra_Role (as ! i) \<notin> {ReplicaRoleTail, ReplicaRoleSingle} \<and>
       peerTransportTarget (TailTarget (ra_Peers (as ! i))) (TailNodeID (ra_Peers (as ! i))) \<noteq> [])"

text \<open>
  C28. Reads are linearizable at every replica.  A read that asks for linearizability and is
  served by any replica, which checks its dirty entries against the tail's cursor, returns
  the value of its key after exactly the writes the tail has committed, and these include
  every write that has been acknowledged to a client.
\<close>

theorem chain_read_linearizable:
  assumes "wired nodes as" and "roles as" and "chain_reachable nodes slot m0 as c" and "j < length nodes"
    and "cg_ExpectedChainVersion req = ra_ChainVersion (as ! j)" and "cg_Consistency req \<noteq> ReadConsistencyLocalCommitted"
    and "tail = rr_highestCommittedSequence (ch_rec c (length nodes - 1))"
  shows "(\<exists>result. handleClientGet (back_get c j) (\<lambda>_ _. Inr tail) (Some (ch_rec c j)) req = Inr result \<and>
      (rs_Found result, rs_Value result) = (case fmlookup (replay (ch_hist c) m0 (unat tail)) (cg_Key req) of
         None \<Rightarrow> (False, []) | Some object \<Rightarrow> (True, co_Value object))) \<and>
    (EffWaiter s None \<in> set (rt_out (ch_rts c ! 0)) \<longrightarrow> s \<le> tail)"
proof -
  note inv = chain_reachable_inv[OF assms(3,1)]
  note F = chain_follows[OF inv assms(4)] and A = chain_invD(6)[OF inv assms(4)]
  let ?t = "length nodes - 1" and ?r = "ch_rec c j"
  have t: "j \<le> ?t" "?t < length nodes" using assms(4) by simp_all
  have len: "length as = length nodes" using assms(1) by (simp add: wired_def)
  have lo: "rr_highestCommittedSequence ?r \<le> tail" using chain_committed_mono[OF inv t] assms(7) by simp
  have "unat tail < unat (rr_nextSequence (ch_rec c ?t))"
    using followsD(4,5)[OF chain_follows(1)[OF inv t(2)]] assms(7) by simp
  then have hi: "tail < rr_nextSequence ?r" using chain_next_mono[OF inv t] by (simp add: word_less_nat_alt word_le_nat_alt)
  have n: "unat tail \<le> length (seen c j)" using hi followsD(3)[OF F(1)] by (simp add: word_less_nat_alt)
  have R: "if j + 1 = length as then ra_Role (as ! j) \<in> {ReplicaRoleTail, ReplicaRoleSingle}
     else ra_Role (as ! j) \<notin> {ReplicaRoleTail, ReplicaRoleSingle} \<and>
       peerTransportTarget (TailTarget (ra_Peers (as ! j))) (TailNodeID (ra_Peers (as ! j))) \<noteq> []"
    using assms(2)[unfolded roles_def, rule_format, of j] assms(4) len by simp
  have role: "if ra_Role (rr_assignment ?r) \<in> {ReplicaRoleTail, ReplicaRoleSingle} then tail = rr_highestCommittedSequence ?r
      else peerTransportTarget (TailTarget (rr_peers ?r)) (TailNodeID (rr_peers ?r)) \<noteq> [] \<and> (Inr tail :: storage_err + u64) = Inr tail"
  proof (cases "j + 1 = length as")
    case True
    then have "tail = rr_highestCommittedSequence ?r" using assms(7) len by (metis diff_add_inverse2)
    then show ?thesis using R True A by simp
  next
    case False
    then show ?thesis using R A by simp
  qed
  have get: "back_get c j (cg_Slot req) (cg_Key req) = Inr (fmlookup (snd (ch_backs c ! j)) (cg_Key req))"
    by (simp add: back_get_def)
  from linearizable_read[where getCommitted = "back_get c j" and fetch = "\<lambda>_ _. Inr tail" and s = tail,
      OF F(1,2) _ _ assms(6) get role lo hi] A assms(5)
  have "\<exists>result. handleClientGet (back_get c j) (\<lambda>_ _. Inr tail) (Some ?r) req = Inr result \<and>
      (rs_Found result, rs_Value result) = (case fmlookup (replay (ch_hist c) m0 (unat tail)) (cg_Key req) of
         None \<Rightarrow> (False, []) | Some object \<Rightarrow> (True, co_Value object))"
    by (simp add: Let_def seen_replay[OF n] split: option.split)
  then show ?thesis using acknowledged_committed[OF inv t(2)] assms(7) by blast
qed

section \<open>A chain at work\<close>

text \<open>Running a list of events, each with the replica it happens at, on enough fuel.\<close>

fun chain_run :: "nat \<Rightarrow> (nat \<Rightarrow> node_env) \<Rightarrow> chain_state \<Rightarrow> (nat \<times> slot_event) list \<Rightarrow> chain_state option" where
  "chain_run n env c [] = Some c"
| "chain_run n env c ((i, ev) # evs) =
     (if delivered c i ev \<and> i < length (ch_rts c)
      then case slot_step n (env i) ev (ch_rts c ! i) of
             None \<Rightarrow> None
           | Some rt \<Rightarrow> chain_run n env (c\<lparr>ch_hist := ch_hist c @ (if i = 0 then numbered_op (ch_rts c ! i) rt else []),
               ch_rts := (ch_rts c)[i := rt]\<rparr>) evs
      else None)"

lemma chain_run_reachable:
  assumes "chain_reachable nodes slot m0 as c" "length (ch_rts c) = length nodes"
    and "\<And>i. i < length nodes \<Longrightarrow> ne_nodeID (env i) = nodes ! i" and "chain_run n env c evs = Some c'"
  shows "chain_reachable nodes slot m0 as c'"
  using assms
proof (induction n env c evs rule: chain_run.induct)
  case (2 n env c i ev evs)
  then obtain rt where rt: "slot_step n (env i) ev (ch_rts c ! i) = Some rt" "delivered c i ev" "i < length (ch_rts c)"
    by (auto split: if_splits option.splits)
  have "chain_step nodes c (c\<lparr>ch_hist := ch_hist c @ (if i = 0 then numbered_op (ch_rts c ! i) rt else []),
      ch_rts := (ch_rts c)[i := rt]\<rparr>)"
    by (rule chain_step.serve[OF _ _ rt(2,1)]) (use rt(3) 2 in simp_all)
  from chain_reachable.step[OF 2(2) this] show ?case using 2 rt by simp
qed simp

definition ex_nodes :: "string list" where "ex_nodes = [''a'', ''b'']"

definition ex_chain :: "replica_assignment list" where
  "ex_chain =
     [\<lparr>ra_Slot = 3, ra_ChainVersion = 4, ra_Role = ReplicaRoleHead,
       ra_Peers = \<lparr>PredecessorNodeID = [], PredecessorTarget = [], SuccessorNodeID = ''b'', SuccessorTarget = [],
         TailNodeID = ''b'', TailTarget = []\<rparr>\<rparr>,
      \<lparr>ra_Slot = 3, ra_ChainVersion = 4, ra_Role = ReplicaRoleTail,
       ra_Peers = \<lparr>PredecessorNodeID = ''a'', PredecessorTarget = [], SuccessorNodeID = [], SuccessorTarget = [],
         TailNodeID = ''b'', TailTarget = []\<rparr>\<rparr>]"

definition ex_write :: write_operation where
  "ex_write = \<lparr>wo_Slot = 3, wo_Sequence = 1, wo_Kind = OperationKindPut, wo_Key = ''k'', wo_Value = ''v'',
     wo_Metadata = nextObjectMetadata 7 False None\<rparr>"

definition ex_events :: "(nat \<times> slot_event) list" where
  "ex_events =
     [(0, EvSubmit OperationKindPut ''k'' ''v'' no_conditions 1),
      (1, EvForward \<lparr>fr_Operation = ex_write, fr_FromNodeID = ''a'', fr_ChainVersion = 4\<rparr> 2),
      (0, EvPrepareDone ex_write (AfterPipeline 0) None),
      (1, EvPrepareDone ex_write (AfterTail (Some 2)) None),
      (0, EvForwardDone 0 \<lparr>pk_version = 4, pk_nodeID = ''b'', pk_target = []\<rparr> None),
      (0, EvCommitAdvance \<lparr>ca_Slot = 3, ca_CommittedThrough = 1, ca_FromNodeID = ''b'', ca_ChainVersion = 4\<rparr> 3),
      (0, EvHeadRangeDone 1 None)]"

definition ex_envs :: "nat \<Rightarrow> node_env" where
  "ex_envs i = ex_env\<lparr>ne_nodeID := ex_nodes ! i\<rparr>"

definition ex_final :: chain_state where
  "ex_final = the (chain_run 10 ex_envs (chain_init 3 fmempty ex_chain) ex_events)"

lemma ex_final_reachable: "chain_reachable ex_nodes 3 fmempty ex_chain ex_final"
proof -
  have "chain_run 10 ex_envs (chain_init 3 fmempty ex_chain) ex_events \<noteq> None" by code_simp
  then have run: "chain_run 10 ex_envs (chain_init 3 fmempty ex_chain) ex_events = Some ex_final" by (auto simp: ex_final_def)
  have len: "length (ch_rts (chain_init 3 fmempty ex_chain)) = length ex_nodes" by code_simp
  have id: "\<And>i. i < length ex_nodes \<Longrightarrow> ne_nodeID (ex_envs i) = ex_nodes ! i" by (simp add: ex_envs_def)
  show ?thesis by (rule chain_run_reachable[OF chain_reachable.start len id run])
qed

lemma ex_wired: "wired ex_nodes ex_chain" "roles ex_chain"
  by (simp_all add: wired_def roles_def ex_nodes_def ex_chain_def less_Suc_eq peerTransportTarget_def)

lemma ex_acknowledged: "EffWaiter 1 None \<in> set (rt_out (ch_rts ex_final ! 0))"
  by code_simp

theorem acknowledged_everywhere_witness:
  "rr_highestCommittedSequence (ch_rec ex_final 1) \<ge> 1 \<and>
     committedObject (back_get ex_final 1) (ch_rec ex_final 1) 3 ''k'' =
       Inr (Some \<lparr>co_Value = ''v'', co_Metadata = wo_Metadata ex_write\<rparr>)"
proof -
  have j: "1 < length ex_nodes" by (simp add: ex_nodes_def)
  have v: "fmlookup (replay (ch_hist ex_final) fmempty (unat (rr_highestCommittedSequence (ch_rec ex_final 1)))) ''k'' =
      Some \<lparr>co_Value = ''v'', co_Metadata = wo_Metadata ex_write\<rparr>" by code_simp
  from acknowledged_everywhere[OF ex_wired(1) ex_final_reachable ex_acknowledged j, of "''k''"] v show ?thesis by simp
qed

text \<open>The head reads what the tail has committed.\<close>

theorem chain_read_linearizable_witness:
  "\<exists>result. handleClientGet (back_get ex_final 0) (\<lambda>_ _. Inr 1) (Some (ch_rec ex_final 0)) ex_get = Inr result \<and>
     rs_Found result \<and> rs_Value result = ''v''"
proof -
  have j: "0 < length ex_nodes" by (simp add: ex_nodes_def)
  have t: "1 = rr_highestCommittedSequence (ch_rec ex_final (length ex_nodes - 1))" by code_simp
  have r: "cg_ExpectedChainVersion ex_get = ra_ChainVersion (ex_chain ! 0)" "cg_Consistency ex_get \<noteq> ReadConsistencyLocalCommitted"
    by code_simp+
  have v: "fmlookup (replay (ch_hist ex_final) fmempty (unat (1 :: u64))) (cg_Key ex_get) =
      Some \<lparr>co_Value = ''v'', co_Metadata = wo_Metadata ex_write\<rparr>" by code_simp
  from chain_read_linearizable[OF ex_wired ex_final_reachable j r t, of 1] v show ?thesis by auto
qed

end
