(* ===== verification/Journal_Codec.thy ===== *)
theory Journal_Codec
  imports Storage_Data "HOL-Library.Sublist"
begin

text \<open>
  The records of the commit journal and how they are laid out in a file
  (\<open>storage/commit_journal.go\<close>, \<open>storage/journal_experiment.go\<close>): the binary format, whose
  records are a fixed header followed by key and value, and the frames of the JSON format, a
  length prefix followed by a payload.  A file is the list of its bytes.  Times are their
  nanosecond readings.  What a file is after a crash is a prefix of what was written to it;
  the theorems say what replaying such a prefix gives.
\<close>

section \<open>Records\<close>

datatype journalRecordType =
    journalRecordTypePrepare
  | journalRecordTypeCommitWatermark
  | journalRecordTypeHeadCommitRange
  | journalRecordTypeUpstreamConfirm
  | journalRecordTypeLegacyCommit
  | journalRecordTypeOther string

record journal_record =
  jr_Type :: journalRecordType
  jr_Slot :: int
  jr_ChainVersion :: u64
  jr_Sequence :: u64
  jr_Kind :: OperationKind
  jr_Key :: string
  jr_Value :: string
  jr_Metadata :: object_metadata
  jr_UpstreamConfirmedSequence :: u64

definition recordType :: "journal_record \<Rightarrow> journalRecordType" where
  "recordType r = (if jr_Type r = journalRecordTypeOther [] then journalRecordTypeLegacyCommit else jr_Type r)"

definition zero_journal :: journal_record where
  "zero_journal = \<lparr>jr_Type = journalRecordTypeOther [], jr_Slot = 0, jr_ChainVersion = 0, jr_Sequence = 0,
     jr_Kind = OperationKindOther [], jr_Key = [], jr_Value = [], jr_Metadata = zero_metadata,
     jr_UpstreamConfirmedSequence = 0\<rparr>"

definition journalRecordFromPrepare :: "durable_commit \<Rightarrow> journal_record" where
  "journalRecordFromPrepare prepare =
     (let op = dc_Operation prepare
      in zero_journal\<lparr>jr_Type := journalRecordTypePrepare, jr_Slot := wo_Slot op,
           jr_ChainVersion := ra_ChainVersion (pr_Assignment (dc_Persisted prepare)), jr_Sequence := wo_Sequence op,
           jr_Kind := wo_Kind op, jr_Key := wo_Key op, jr_Value := wo_Value op, jr_Metadata := wo_Metadata op\<rparr>)"

definition mark_record :: "journalRecordType \<Rightarrow> replica_assignment \<Rightarrow> u64 \<Rightarrow> journal_record" where
  "mark_record t assignment sequence = zero_journal\<lparr>jr_Type := t, jr_Slot := ra_Slot assignment,
     jr_ChainVersion := ra_ChainVersion assignment, jr_Sequence := sequence\<rparr>"

definition journalRecordFromCommitWatermark :: "replica_assignment \<Rightarrow> u64 \<Rightarrow> journal_record" where
  "journalRecordFromCommitWatermark = mark_record journalRecordTypeCommitWatermark"

definition journalRecordFromHeadCommitRange :: "replica_assignment \<Rightarrow> u64 \<Rightarrow> journal_record" where
  "journalRecordFromHeadCommitRange = mark_record journalRecordTypeHeadCommitRange"

definition journalRecordFromUpstreamConfirm :: "replica_assignment \<Rightarrow> u64 \<Rightarrow> journal_record" where
  "journalRecordFromUpstreamConfirm = mark_record journalRecordTypeUpstreamConfirm"

definition jr_operation :: "journal_record \<Rightarrow> write_operation" where
  "jr_operation r = \<lparr>wo_Slot = jr_Slot r, wo_Sequence = jr_Sequence r, wo_Kind = jr_Kind r, wo_Key = jr_Key r,
     wo_Value = jr_Value r, wo_Metadata = jr_Metadata r\<rparr>"

definition cloneJournalRecord :: "journal_record \<Rightarrow> journal_record" where
  "cloneJournalRecord r = r\<lparr>jr_Type := recordType r\<rparr>"

section \<open>Formats\<close>

datatype JournalExperiment =
    JournalExperimentBaselineJSONSync
  | JournalExperimentBinarySync
  | JournalExperimentBinarySegmentSync
  | JournalExperimentNoSyncBound

definition NormalizeJournalExperiment :: "string \<Rightarrow> JournalExperiment option" where
  "NormalizeJournalExperiment s =
     (let v = strings_TrimSpace s
      in if v = [] \<or> v = ''baseline_json_sync'' then Some JournalExperimentBaselineJSONSync
         else if v = ''binary_sync'' then Some JournalExperimentBinarySync
         else if v = ''binary_segment_sync'' then Some JournalExperimentBinarySegmentSync
         else if v = ''nosync_bound'' then Some JournalExperimentNoSyncBound
         else None)"

definition ValidJournalExperiment :: "string \<Rightarrow> bool" where
  "ValidJournalExperiment s = (NormalizeJournalExperiment s \<noteq> None)"

section \<open>Numbers as bytes\<close>

text \<open>\<open>binary.LittleEndian\<close>: the lowest byte first.\<close>

primrec put_le :: "nat \<Rightarrow> nat \<Rightarrow> string" where
  "put_le 0 n = []"
| "put_le (Suc k) n = char_of (n mod 256) # put_le k (n div 256)"

primrec get_le :: "string \<Rightarrow> nat" where
  "get_le [] = 0"
| "get_le (c # cs) = of_char c + 256 * get_le cs"

abbreviation put64 :: "u64 \<Rightarrow> string" where
  "put64 w \<equiv> put_le 8 (unat w)"

abbreviation get64 :: "string \<Rightarrow> u64" where
  "get64 bs \<equiv> of_nat (get_le bs)"

lemma put_le_length [simp]: "length (put_le k n) = k"
  by (induction k arbitrary: n) simp_all

lemma get_put_le: "get_le (put_le k n) = n mod 256 ^ k"
proof (induction k arbitrary: n)
  case (Suc k)
  have "n mod 256 + 256 * (n div 256 mod 256 ^ k) = n mod (256 * 256 ^ k)"
    by (metis add.commute mod_mult2_eq)
  then show ?case by (simp add: Suc.IH)
qed simp

lemma get_put_64 [simp]: "get64 (put64 w) = w"
proof -
  have "unat w mod 256 ^ 8 = unat w" using unsigned_less[of w, where 'a = nat] by simp
  then show ?thesis by (simp add: get_put_le)
qed

declare put_le.simps [simp del]

lemma get_put_small: "n < 2 ^ 32 \<Longrightarrow> get_le (put_le 4 n) = n"
  by (simp add: get_put_le)

section \<open>The binary format\<close>

fun encodeJournalRecordType :: "journalRecordType \<Rightarrow> nat" where
  "encodeJournalRecordType journalRecordTypePrepare = 1"
| "encodeJournalRecordType journalRecordTypeCommitWatermark = 2"
| "encodeJournalRecordType journalRecordTypeHeadCommitRange = 3"
| "encodeJournalRecordType journalRecordTypeUpstreamConfirm = 4"
| "encodeJournalRecordType _ = 0"

definition decodeJournalRecordType :: "nat \<Rightarrow> journalRecordType" where
  "decodeJournalRecordType code =
     (if code = 1 then journalRecordTypePrepare
      else if code = 2 then journalRecordTypeCommitWatermark
      else if code = 3 then journalRecordTypeHeadCommitRange
      else if code = 4 then journalRecordTypeUpstreamConfirm
      else journalRecordTypeLegacyCommit)"

fun encodeOperationKind :: "OperationKind \<Rightarrow> nat" where
  "encodeOperationKind OperationKindPut = 1"
| "encodeOperationKind OperationKindDelete = 2"
| "encodeOperationKind _ = 0"

definition decodeOperationKind :: "nat \<Rightarrow> OperationKind" where
  "decodeOperationKind code =
     (if code = 1 then OperationKindPut else if code = 2 then OperationKindDelete else OperationKindOther [])"

definition binaryJournalHeaderSize :: nat where
  "binaryJournalHeaderSize = 68"

definition binary_header :: "journal_record \<Rightarrow> string" where
  "binary_header r =
     [char_of (encodeJournalRecordType (recordType r)), char_of (encodeOperationKind (jr_Kind r)), char_of (0 :: nat), char_of (0 :: nat)] @
     put64 (word_of_int (jr_Slot r)) @ put64 (jr_ChainVersion r) @ put64 (jr_Sequence r) @
     put64 (om_Version (jr_Metadata r)) @ put64 (word_of_int (om_CreatedAt (jr_Metadata r))) @
     put64 (word_of_int (om_UpdatedAt (jr_Metadata r))) @ put64 (jr_UpstreamConfirmedSequence r) @
     put_le 4 (length (jr_Key r)) @ put_le 4 (length (jr_Value r))"

definition binary_record :: "journal_record \<Rightarrow> string" where
  "binary_record r = binary_header r @ jr_Key r @ jr_Value r"

fun encodeBinaryJournalRecords :: "journal_record list \<Rightarrow> storage_err + string" where
  "encodeBinaryJournalRecords [] = Inr []"
| "encodeBinaryJournalRecords (r # rs) =
     (if length (jr_Key r) \<ge> 2 ^ 32 \<or> length (jr_Value r) \<ge> 2 ^ 32 then Inl ErrInvalidConfig_s
      else res_bind (encodeBinaryJournalRecords rs) (\<lambda>bs. Inr (binary_record r @ bs)))"

definition bytes_at :: "nat \<Rightarrow> nat \<Rightarrow> string \<Rightarrow> string" where
  "bytes_at a b bs = take (b - a) (drop a bs)"

definition decode_header :: "string \<Rightarrow> string \<Rightarrow> string \<Rightarrow> journal_record" where
  "decode_header header key val =
     (let t = decodeJournalRecordType (of_char (header ! 0))
      in \<lparr>jr_Type = (if t = journalRecordTypeLegacyCommit then journalRecordTypeOther [] else t),
          jr_Slot = sint (get64 (bytes_at 4 12 header)), jr_ChainVersion = get64 (bytes_at 12 20 header),
          jr_Sequence = get64 (bytes_at 20 28 header), jr_Kind = decodeOperationKind (of_char (header ! 1)),
          jr_Key = key, jr_Value = val,
          jr_Metadata = \<lparr>om_Version = get64 (bytes_at 28 36 header), om_CreatedAt = sint (get64 (bytes_at 36 44 header)),
            om_UpdatedAt = sint (get64 (bytes_at 44 52 header))\<rparr>,
          jr_UpstreamConfirmedSequence = get64 (bytes_at 52 60 header)\<rparr>)"

text \<open>
  The records \<open>replayBinaryJournalReader\<close> hands to its callback, one after the other: it stops
  without an error at the first header, key or value that is cut short.
\<close>

function binary_records :: "string \<Rightarrow> journal_record list" where
  "binary_records bs =
     (let header = take 68 bs; keyLen = get_le (bytes_at 60 64 header); valueLen = get_le (bytes_at 64 68 header);
          body = drop 68 bs
      in if length bs < 68 \<or> length body < keyLen + valueLen then []
         else decode_header header (take keyLen body) (take valueLen (drop keyLen body)) #
              binary_records (drop (keyLen + valueLen) body))"
  by pat_completeness auto

termination binary_records
  by (relation "measure length") auto

declare binary_records.simps [simp del]

definition replayBinaryJournalReader :: "string \<Rightarrow> (journal_record \<Rightarrow> 's \<Rightarrow> 'e + 's) \<Rightarrow> 's \<Rightarrow> 'e + 's" where
  "replayBinaryJournalReader bs f s = fold_res f (binary_records bs) s"

text \<open>The records the program writes, and what becomes of a legacy record's type.\<close>

definition in_int64 :: "int \<Rightarrow> bool" where
  "in_int64 i \<longleftrightarrow> - (2 ^ 63) \<le> i \<and> i < 2 ^ 63"

definition journal_ok :: "journal_record \<Rightarrow> bool" where
  "journal_ok r \<longleftrightarrow> in_int64 (jr_Slot r) \<and> in_int64 (om_CreatedAt (jr_Metadata r)) \<and> in_int64 (om_UpdatedAt (jr_Metadata r)) \<and>
     (jr_Kind r = OperationKindPut \<or> jr_Kind r = OperationKindDelete \<or> jr_Kind r = OperationKindOther []) \<and>
     (case jr_Type r of journalRecordTypeOther s \<Rightarrow> s = [] | _ \<Rightarrow> True) \<and>
     length (jr_Key r) < 2 ^ 32 \<and> length (jr_Value r) < 2 ^ 32"

definition canonical :: "journal_record \<Rightarrow> journal_record" where
  "canonical r = (if recordType r = journalRecordTypeLegacyCommit then r\<lparr>jr_Type := journalRecordTypeOther []\<rparr> else r)"

lemma sint_of_int64: "in_int64 i \<Longrightarrow> sint (word_of_int i :: u64) = i"
  by (simp add: in_int64_def sint_sbintrunc' signed_take_bit_int_eq_self)

lemma decode_type: "journal_ok r \<Longrightarrow>
   (let t = decodeJournalRecordType (encodeJournalRecordType (recordType r))
    in if t = journalRecordTypeLegacyCommit then journalRecordTypeOther [] else t) = jr_Type (canonical r)"
  by (cases "jr_Type r") (auto simp: journal_ok_def canonical_def recordType_def decodeJournalRecordType_def)

lemma decode_kind: "journal_ok r \<Longrightarrow> decodeOperationKind (encodeOperationKind (jr_Kind r)) = jr_Kind r"
  by (auto simp: journal_ok_def decodeOperationKind_def)

lemma small_codes [simp]: "encodeJournalRecordType t mod 256 = encodeJournalRecordType t" "encodeOperationKind k mod 256 = encodeOperationKind k"
  by (cases t; simp) (cases k; simp)

lemma binary_header_length [simp]: "length (binary_header r) = 68"
  by (simp add: binary_header_def)

lemma bytes_at_prefix: "bytes_at (length xs) (length xs + length ys) (xs @ ys @ zs) = ys"
  by (simp add: bytes_at_def)

lemma header_fields:
  "of_char (binary_header r ! 0) = encodeJournalRecordType (recordType r)"
  "of_char (binary_header r ! 1) = encodeOperationKind (jr_Kind r)"
  "bytes_at 4 12 (binary_header r) = put64 (word_of_int (jr_Slot r))"
  "bytes_at 12 20 (binary_header r) = put64 (jr_ChainVersion r)"
  "bytes_at 20 28 (binary_header r) = put64 (jr_Sequence r)"
  "bytes_at 28 36 (binary_header r) = put64 (om_Version (jr_Metadata r))"
  "bytes_at 36 44 (binary_header r) = put64 (word_of_int (om_CreatedAt (jr_Metadata r)))"
  "bytes_at 44 52 (binary_header r) = put64 (word_of_int (om_UpdatedAt (jr_Metadata r)))"
  "bytes_at 52 60 (binary_header r) = put64 (jr_UpstreamConfirmedSequence r)"
  "bytes_at 60 64 (binary_header r) = put_le 4 (length (jr_Key r))"
  "bytes_at 64 68 (binary_header r) = put_le 4 (length (jr_Value r))"
  unfolding binary_header_def by (simp_all add: bytes_at_def drop_Cons')

lemma decode_encode_header:
  assumes "journal_ok r"
  shows "decode_header (binary_header r) (jr_Key r) (jr_Value r) = canonical r"
proof -
  have i: "in_int64 (jr_Slot r)" "in_int64 (om_CreatedAt (jr_Metadata r))" "in_int64 (om_UpdatedAt (jr_Metadata r))"
    using assms by (simp_all add: journal_ok_def)
  have "jr_Slot (canonical r) = jr_Slot r" "jr_ChainVersion (canonical r) = jr_ChainVersion r"
    "jr_Sequence (canonical r) = jr_Sequence r" "jr_Kind (canonical r) = jr_Kind r" "jr_Key (canonical r) = jr_Key r"
    "jr_Value (canonical r) = jr_Value r" "jr_Metadata (canonical r) = jr_Metadata r"
    "jr_UpstreamConfirmedSequence (canonical r) = jr_UpstreamConfirmedSequence r"
    by (simp_all add: canonical_def)
  then show ?thesis
    unfolding decode_header_def header_fields by (simp add: decode_type[OF assms, unfolded Let_def] decode_kind[OF assms]
        sint_of_int64[OF i(1)] sint_of_int64[OF i(2)] sint_of_int64[OF i(3)] Let_def)
qed

lemma binary_records_Cons:
  assumes "journal_ok r"
  shows "binary_records (binary_record r @ bs) = canonical r # binary_records bs"
proof -
  have l: "get_le (put_le 4 (length (jr_Key r))) = length (jr_Key r)" "get_le (put_le 4 (length (jr_Value r))) = length (jr_Value r)"
    using assms by (simp_all add: journal_ok_def get_put_small)
  note h = header_fields(10,11)[of r, THEN arg_cong[of _ _ get_le], unfolded l]
  have t: "take 68 (binary_record r @ bs) = binary_header r" "drop 68 (binary_record r @ bs) = jr_Key r @ jr_Value r @ bs"
    by (simp_all add: binary_record_def)
  show ?thesis
    by (subst binary_records.simps) (simp add: t h decode_encode_header[OF assms] Let_def binary_record_def)
qed

lemma binary_records_torn:
  assumes "journal_ok r" "n < length (binary_record r)"
  shows "binary_records (take n (binary_record r @ bs)) = []"
proof (cases "n < 68")
  case True
  then show ?thesis using assms(2) by (subst binary_records.simps) (simp add: Let_def)
next
  case False
  have l: "get_le (put_le 4 (length (jr_Key r))) = length (jr_Key r)" "get_le (put_le 4 (length (jr_Value r))) = length (jr_Value r)"
    using assms by (simp_all add: journal_ok_def get_put_small)
  note h = header_fields(10,11)[of r, THEN arg_cong[of _ _ get_le], unfolded l]
  have t: "take 68 (take n (binary_record r @ bs)) = binary_header r" using False by (simp add: binary_record_def min_def)
  have "length (drop 68 (take n (binary_record r @ bs))) < length (jr_Key r) + length (jr_Value r)"
    using assms(2) False by (simp add: binary_record_def)
  then show ?thesis unfolding binary_records.simps[of "take n (binary_record r @ bs)"] Let_def t h by simp
qed

definition binary_file :: "journal_record list \<Rightarrow> string" where
  "binary_file rs = concat (map binary_record rs)"

lemma encode_binary: "list_all journal_ok rs \<Longrightarrow> encodeBinaryJournalRecords rs = Inr (binary_file rs)"
  by (induction rs) (auto simp: journal_ok_def binary_file_def)


section \<open>Frames of the JSON format\<close>

text \<open>
  The JSON format stores each record as a frame: the length of its text in four bytes, then the
  text.  \<open>replayJSON\<close> visits the frames and cuts the file after the last whole one, at the
  offset returned here.
\<close>

definition json_frame :: "string \<Rightarrow> string" where
  "json_frame payload = put_le 4 (length payload) @ payload"

function json_frames :: "nat \<Rightarrow> string \<Rightarrow> string list \<times> nat" where
  "json_frames offset bs =
     (let len = get_le (take 4 bs); body = drop 4 bs
      in if length bs < 4 \<or> length body < len then ([], offset)
         else (case json_frames (offset + 4 + len) (drop len body) of (ps, n) \<Rightarrow> (take len body # ps, n)))"
  by pat_completeness auto

termination json_frames
  by (relation "measure (\<lambda>(_, bs). length bs)") auto

declare json_frames.simps [simp del]

definition json_file :: "string list \<Rightarrow> string" where
  "json_file ps = concat (map json_frame ps)"

lemma json_frames_Cons:
  assumes "length p < 2 ^ 32"
  shows "json_frames off (json_frame p @ bs) = (case json_frames (off + length (json_frame p)) bs of (ps, n) \<Rightarrow> (p # ps, n))"
proof -
  have t: "take 4 (json_frame p @ bs) = put_le 4 (length p)" "drop 4 (json_frame p @ bs) = p @ bs"
    by (simp_all add: json_frame_def)
  show ?thesis
    unfolding json_frames.simps[of off "json_frame p @ bs"] Let_def t get_put_small[OF assms]
    by (simp add: json_frame_def add.assoc split: prod.split)
qed

lemma json_frames_torn:
  assumes "length p < 2 ^ 32" "n < length (json_frame p)"
  shows "json_frames off (take n (json_frame p @ bs)) = ([], off)"
proof (cases "n < 4")
  case True
  then show ?thesis using assms(2) unfolding json_frames.simps[of off "take n (json_frame p @ bs)"] by (simp add: Let_def)
next
  case False
  have t: "take 4 (take n (json_frame p @ bs)) = put_le 4 (length p)" using False by (simp add: json_frame_def min_def)
  have "length (drop 4 (take n (json_frame p @ bs))) < length p" using assms(2) False by (simp add: json_frame_def)
  then show ?thesis unfolding json_frames.simps[of off "take n (json_frame p @ bs)"] Let_def t get_put_small[OF assms(1)] by simp
qed

lemma json_frames_whole: "\<forall>p \<in> set ps. length p < 2 ^ 32 \<Longrightarrow> json_frames off (json_file ps) = (ps, off + length (json_file ps))"
proof (induction ps arbitrary: off)
  case Nil
  show ?case unfolding json_frames.simps[of off "json_file []"] by (simp add: json_file_def)
next
  case (Cons p ps)
  then show ?case using json_frames_Cons[of p off "json_file ps"] by (simp add: json_file_def)
qed

text \<open>
  A torn JSON file is repaired: the replay finds the whole frames, cuts the rest, and what is
  appended afterwards is found behind them.
\<close>

lemma json_tear_repaired:
  assumes "\<forall>p \<in> set ps \<union> set qs. length p < 2 ^ 32"
  shows "\<exists>k \<le> length ps. \<exists>cut. json_frames 0 (take n (json_file ps)) = (take k ps, cut) \<and>
    json_frames 0 (take cut (take n (json_file ps)) @ json_file qs) = (take k ps @ qs, cut + length (json_file qs))"
proof -
  have "\<exists>k \<le> length ps. json_frames off (take n (json_file ps)) = (take k ps, off + length (json_file (take k ps))) \<and>
      length (json_file (take k ps)) \<le> n" for off
    using assms
  proof (induction ps arbitrary: n off)
    case Nil
    show ?case unfolding json_frames.simps[of off "take n (json_file [])"] by (simp add: json_file_def)
  next
    case (Cons p ps)
    have f: "json_file (p # xs) = json_frame p @ json_file xs" for xs by (simp add: json_file_def)
    show ?case
    proof (cases "n < length (json_frame p)")
      case True
      then show ?thesis using json_frames_torn[of p n off "json_file ps"] Cons.prems
        by (intro exI[of _ 0]) (simp add: f json_file_def)
    next
      case False
      let ?m = "n - length (json_frame p)"
      from Cons.IH[of "off + length (json_frame p)" ?m] Cons.prems obtain k where
        k: "k \<le> length ps" "json_frames (off + length (json_frame p)) (take ?m (json_file ps)) =
          (take k ps, off + length (json_frame p) + length (json_file (take k ps)))" "length (json_file (take k ps)) \<le> ?m" by auto
      have "take n (json_file (p # ps)) = json_frame p @ take ?m (json_file ps)" using False by (simp add: f)
      then show ?thesis using json_frames_Cons[of p off "take ?m (json_file ps)"] Cons.prems k False
        by (intro exI[of _ "Suc k"]) (simp add: f)
    qed
  qed
  from this[of 0] obtain k where k: "k \<le> length ps"
    "json_frames 0 (take n (json_file ps)) = (take k ps, length (json_file (take k ps)))" "length (json_file (take k ps)) \<le> n" by auto
  have "json_file ps = json_file (take k ps) @ json_file (drop k ps)" by (simp add: json_file_def flip: concat_append map_append)
  then have "take (length (json_file (take k ps))) (take n (json_file ps)) = json_file (take k ps)"
    using k(3) by (simp add: min_absorb1)
  moreover have "json_file (take k ps) @ json_file qs = json_file (take k ps @ qs)" by (simp add: json_file_def)
  moreover have "json_frames 0 (json_file (take k ps @ qs)) = (take k ps @ qs, length (json_file (take k ps @ qs)))"
    using json_frames_whole[of "take k ps @ qs" 0] assms by (auto dest: in_set_takeD)
  ultimately show ?thesis using k(1,2) by (intro exI[of _ k]) (simp add: json_file_def)
qed

section \<open>Examples\<close>

definition ex_journal :: "string \<Rightarrow> journal_record" where
  "ex_journal val = zero_journal\<lparr>jr_Type := journalRecordTypePrepare, jr_Slot := 3, jr_ChainVersion := 4, jr_Sequence := 1,
     jr_Kind := OperationKindPut, jr_Key := ''k'', jr_Value := val\<rparr>"


text \<open>
  A torn binary file is not repaired: nothing cuts the torn record off, so what is appended after
  a restart is read as part of it.  Here a record appended behind a torn one is lost, with every
  later one.
\<close>

lemma get_le_append: "get_le (xs @ ys) = get_le xs + 256 ^ length xs * get_le ys"
  by (induction xs) (simp_all add: algebra_simps)

lemma binary_tear_hides_later:
  "binary_records (take 67 (binary_record (ex_journal ''v'')) @ binary_record (ex_journal ''w'')) = []"
proof -
  let ?h = "binary_header (ex_journal ''v'')" and ?bs = "take 67 (binary_record (ex_journal ''v'')) @ binary_record (ex_journal ''w'')"
  have "take 1 (binary_record (ex_journal ''w'')) = [char_of (1 :: nat)]"
    by (simp add: binary_record_def binary_header_def ex_journal_def recordType_def)
  then have "take 68 ?bs = take 67 ?h @ [char_of (1 :: nat)]" by (simp add: binary_record_def)
  then have "bytes_at 64 68 (take 68 ?bs) = take 3 (drop 64 ?h) @ [char_of (1 :: nat)]" by (simp add: bytes_at_def drop_take)
  then have "256 ^ 3 \<le> get_le (bytes_at 64 68 (take 68 ?bs))" by (simp add: get_le_append)
  moreover have "length ?bs = 137" by (simp add: binary_record_def ex_journal_def)
  ultimately show ?thesis unfolding binary_records.simps[of ?bs] Let_def by (simp del: take_append)
qed

end
