(* ===== verification/Slot_Lifecycle.thy ===== *)
theory Slot_Lifecycle
  imports Slot_Events
begin

text \<open>
  The commands of the coordinator to one replica (\<open>storage/slot_owner.go\<close>): adding it as a
  tail, activating it, marking it as leaving, removing it, changing its neighbours, and what
  becomes of a replica recovered after a restart.  The transport's answer to a fetch is the
  argument \<open>fetch\<close>; the outcomes of the backend, the local store and the coordinator are fields
  of the environment.  The lemmas show that a change of neighbours keeps the replica on the
  slot's history, that a replica filled from a snapshot of the history follows it, and which
  life a replica can lead.
\<close>

type_synonym fetcher = "string \<Rightarrow> storage_err + snapshot \<times> u64"

section \<open>Neighbours\<close>

definition retarget_commit :: "replica_assignment \<Rightarrow> commit_source" where
  "retarget_commit a = \<lparr>cs_FromNodeID = SuccessorNodeID (ra_Peers a), cs_ChainVersion = ra_ChainVersion a\<rparr>"

definition retargetUncommittedCommitSources :: "replica_record \<Rightarrow> replica_record" where
  "retargetUncommittedCommitSources record = record\<lparr>rr_expectedCommitSources :=
     (if SuccessorNodeID (rr_peers record) = [] then fmempty
      else fmmap (\<lambda>_. retarget_commit (rr_assignment record))
             (fmfilter (\<lambda>s. rr_highestCommittedSequence record < s) (rr_expectedCommitSources record)))\<rparr>"

definition retarget_forward :: "replica_assignment \<Rightarrow> forward_request \<Rightarrow> forward_request" where
  "retarget_forward a req =
     (if PredecessorNodeID (ra_Peers a) = [] \<or> fr_FromNodeID req \<noteq> PredecessorNodeID (ra_Peers a) then req
      else req\<lparr>fr_ChainVersion := ra_ChainVersion a\<rparr>)"

definition retarget_forwards :: "replica_record \<Rightarrow> (u64, forward_request) fmap \<Rightarrow> (u64, forward_request) fmap" where
  "retarget_forwards record m = fmmap (retarget_forward (rr_assignment record))
     (fmfilter (\<lambda>s. rr_highestCommittedSequence record < s) m)"

definition retargetUncommittedForwardSources :: "replica_record \<Rightarrow> replica_record" where
  "retargetUncommittedForwardSources record = record\<lparr>
     rr_stagedForwards := retarget_forwards record (rr_stagedForwards record),
     rr_bufferedForwards := retarget_forwards record (rr_bufferedForwards record)\<rparr>"

definition predecessorPeerChanged :: "replica_record \<Rightarrow> replica_assignment \<Rightarrow> bool" where
  "predecessorPeerChanged record a = (PredecessorNodeID (rr_peers record) \<noteq> PredecessorNodeID (ra_Peers a) \<or>
     PredecessorTarget (rr_peers record) \<noteq> PredecessorTarget (ra_Peers a))"

definition predecessorReplayTargetChanged :: "replica_record \<Rightarrow> replica_assignment \<Rightarrow> bool" where
  "predecessorReplayTargetChanged record a = (rr_version record \<noteq> ra_ChainVersion a \<or> predecessorPeerChanged record a)"

definition successorChanged :: "replica_record \<Rightarrow> replica_assignment \<Rightarrow> bool" where
  "successorChanged record a = (rr_version record \<noteq> ra_ChainVersion a \<or>
     SuccessorNodeID (rr_peers record) \<noteq> SuccessorNodeID (ra_Peers a) \<or>
     SuccessorTarget (rr_peers record) \<noteq> SuccessorTarget (ra_Peers a))"

text \<open>
  The record \<open>updateChainPeers\<close> stores.  A replica that has become the tail takes everything it
  has prepared as decided.
\<close>

definition peers_record :: "replica_record \<Rightarrow> replica_assignment \<Rightarrow> replica_record" where
  "peers_record record a =
     (let r1 = (if predecessorPeerChanged record a
                then record\<lparr>rr_highestUpstreamConfirmedSequence := rr_highestCommittedSequence record\<rparr> else record);
          r2 = r1\<lparr>rr_assignment := a\<rparr>;
          r3 = (if predecessorReplayTargetChanged record a then retargetUncommittedForwardSources r2 else r2);
          r4 = (if successorChanged record a then
                  let r = retargetUncommittedCommitSources r3
                  in if SuccessorNodeID (rr_peers r) = [] \<and> rr_highestCommitTokenReceived r < rr_highestPreparedDurable r
                     then r\<lparr>rr_highestCommitTokenReceived := rr_highestPreparedDurable r\<rparr> else r
                else r3)
      in if rr_state r4 \<noteq> ReplicaStateRecovered_s then r4\<lparr>rr_lastKnownState := rr_state r4\<rparr> else r4)"

definition updateChainPeers ::
  "nat \<Rightarrow> node_env \<Rightarrow> replica_assignment \<Rightarrow> slot_runtime \<Rightarrow> (storage_err option \<times> slot_runtime) option" where
  "updateChainPeers n env a rt =
     (let record = rt_record rt; record' = peers_record record a
      in if \<not> rt_exists rt then Some (Some ErrUnknownReplica, rt)
         else if rr_assignment record = a then Some (None, rt)
         else let rt1 = (if predecessorReplayTargetChanged record a
                         then rt\<lparr>rt_upstreamCommitHighSent := rr_highestUpstreamConfirmedSequence record'\<rparr> else rt);
                  rt2 = emit (EffPersist (persistedReplica record')) (setRecord env record' rt1)
              in case ne_persistErr env of
                   Some e \<Rightarrow> Some (Some e, rt2)
                 | None \<Rightarrow>
                     if rr_state record' \<noteq> ReplicaStateActive_s then Some (None, rt2)
                     else do {
                       rt3 \<leftarrow> submitCommitWatermarkReady (drainer_of n env) env record' rt2;
                       Some (None, ensureUpstreamCommitReplay env
                         (if successorChanged record a then replayPreparedForwards env rt3 else rt3)) })"

section \<open>Adding, activating, leaving\<close>

definition admitCatchup :: "node_env \<Rightarrow> slot_runtime \<Rightarrow> storage_err option \<times> slot_runtime" where
  "admitCatchup env rt =
     (if ne_maxCatchups env > 0 \<and> ne_inFlightCatchups env \<ge> ne_maxCatchups env
      then (Some (newCatchupBackpressureError (ne_inFlightCatchups env) (ne_maxCatchups env)), rt)
      else (None, emit EffAdmitCatchup rt))"

definition added_record :: "replica_assignment \<Rightarrow> replica_record" where
  "added_record a = zero_record\<lparr>rr_assignment := a, rr_state := ReplicaStatePending_s, rr_nextSequence := 1,
     rr_localDataPresent := True, rr_lastKnownState := ReplicaStatePending_s\<rparr>"

definition filled_record :: "u64 \<Rightarrow> replica_record \<Rightarrow> replica_record" where
  "filled_record h record = record\<lparr>rr_highestPreparedDurable := h, rr_highestCommitTokenReceived := h,
     rr_highestCommittedSequence := h, rr_materializedCommittedSequence := h,
     rr_highestUpstreamConfirmedSequence := h, rr_nextSequence := h + 1\<rparr>"

definition in_state :: "storage_ReplicaState \<Rightarrow> replica_record \<Rightarrow> replica_record" where
  "in_state st record = record\<lparr>rr_state := st, rr_lastKnownState := st\<rparr>"

definition persist_record :: "node_env \<Rightarrow> replica_record \<Rightarrow> slot_runtime \<Rightarrow> slot_runtime" where
  "persist_record env record rt = emit (EffPersist (persistedReplica record)) (setRecord env record rt)"

text \<open>The end of \<open>addReplicaAsTail\<close>: the replica starts to catch up.\<close>

definition add_finish :: "node_env \<Rightarrow> replica_record \<Rightarrow> bool \<Rightarrow> slot_runtime \<Rightarrow> (storage_err + bool) \<times> slot_runtime" where
  "add_finish env record autoActivate rt =
     (let rt1 = persist_record env (in_state ReplicaStateCatchingUp_s record) rt
      in case ne_persistErr env of
           Some e \<Rightarrow> (Inl e, removeRecord env rt1)
         | None \<Rightarrow> (Inr (autoActivate \<and> ne_autoActivate env), rt1))"

definition add_filled :: "node_env \<Rightarrow> fetcher \<Rightarrow> replica_assignment \<Rightarrow> slot_runtime \<Rightarrow> (storage_err + bool) \<times> slot_runtime" where
  "add_filled env fetch a rt =
     (let record = added_record a; source = PredecessorNodeID (ra_Peers a)
      in if source = [] then add_finish env record True rt
         else case fetch (peerTransportTarget (PredecessorTarget (ra_Peers a)) source) of
                Inl e \<Rightarrow> (Inl e, removeRecord env rt)
              | Inr (snap, highest) \<Rightarrow>
                  let rt1 = emit (EffInstallSnapshot snap) rt
                  in case ne_installErr env of
                       Some e \<Rightarrow> (Inl e, removeRecord env rt1)
                     | None \<Rightarrow>
                         let rt2 = emit (EffSetHighest highest) (rt1\<lparr>rt_committedMetadata := fmempty\<rparr>)
                         in case ne_setHighestErr env of
                              Some e \<Rightarrow> (Inl e, removeRecord env rt2)
                            | None \<Rightarrow> add_finish env (filled_record highest record) (snap = fmempty \<and> highest = 0) rt2)"

definition add_created :: "node_env \<Rightarrow> fetcher \<Rightarrow> replica_assignment \<Rightarrow> slot_runtime \<Rightarrow> (storage_err + bool) \<times> slot_runtime" where
  "add_created env fetch a rt =
     (let rt1 = emit EffCreateReplica rt
      in case ne_createErr env of
           Some e \<Rightarrow> (if e = ErrReplicaExists \<and> ne_creationReplayed env then Inr False else Inl e, rt1)
         | None \<Rightarrow> (case add_filled env fetch a (setRecord env (added_record a) rt1) of
             (Inl e, rt2) \<Rightarrow> (Inl e, emit EffDeleteReplica rt2)
           | (Inr auto, rt2) \<Rightarrow> (Inr auto, rt2)))"

definition addReplicaAsTail ::
  "node_env \<Rightarrow> fetcher \<Rightarrow> replica_assignment \<Rightarrow> slot_runtime \<Rightarrow> (storage_err + bool) \<times> slot_runtime" where
  "addReplicaAsTail env fetch a rt =
     (if ra_Slot a < 0 then (Inl ErrInvalidConfig_s, rt)
      else if rt_exists rt then
        (if rr_assignment (rt_record rt) = a \<and> rr_state (rt_record rt) \<noteq> ReplicaStateRemoved_s then Inr False
         else Inl ErrReplicaExists, rt)
      else if PredecessorNodeID (ra_Peers a) = [] then add_created env fetch a rt
      else case admitCatchup env rt of
             (Some e, rt1) \<Rightarrow> (Inl e, rt1)
           | (None, rt1) \<Rightarrow> (case add_created env fetch a rt1 of (r, rt2) \<Rightarrow> (r, emit EffReleaseCatchup rt2)))"

definition activateReplicaReady :: "nat \<Rightarrow> node_env \<Rightarrow> slot_runtime \<Rightarrow> (storage_err option \<times> slot_runtime) option" where
  "activateReplicaReady n env rt =
     (let record = rt_record rt
      in if \<not> rt_exists rt then Some (Some ErrUnknownReplica, rt)
         else if rr_state record = ReplicaStateActive_s then Some (None, rt)
         else if rr_state record \<noteq> ReplicaStateCatchingUp_s then Some (Some ErrInvalidTransition, rt)
         else let rt1 = persist_record env (in_state ReplicaStateActive_s record) rt
              in case ne_persistErr env of
                   Some e \<Rightarrow> Some (Some e, rt1)
                 | None \<Rightarrow> map_option (Pair None) (drainReadyBuffered n env None rt1))"

definition markReplicaLeaving :: "node_env \<Rightarrow> slot_runtime \<Rightarrow> storage_err option \<times> slot_runtime" where
  "markReplicaLeaving env rt =
     (let record = rt_record rt
      in if \<not> rt_exists rt then (Some ErrUnknownReplica, rt)
         else if rr_state record = ReplicaStateLeaving_s \<or> rr_state record = ReplicaStateRemoved_s then (None, rt)
         else if rr_state record \<noteq> ReplicaStateActive_s then (Some ErrInvalidTransition, rt)
         else (ne_persistErr env, persist_record env (in_state ReplicaStateLeaving_s record) rt))"

definition removeReplica :: "node_env \<Rightarrow> slot_runtime \<Rightarrow> storage_err option \<times> slot_runtime" where
  "removeReplica env rt =
     (let record = rt_record rt;
          gone = (\<lambda>rt. (None, emit EffEvictOwner (removeRecord env rt)))
      in if \<not> rt_exists rt then (Some ErrUnknownReplica, rt)
         else if rr_state record \<noteq> ReplicaStateLeaving_s \<and> rr_state record \<noteq> ReplicaStateRemoved_s
         then (Some ErrInvalidTransition, rt)
         else let rt1 = emit EffReportRemoved rt
              in case ne_reportErr env of
                   Some e \<Rightarrow> (Some e, rt1)
                 | None \<Rightarrow>
                     if rr_state record \<noteq> ReplicaStateLeaving_s then gone rt1
                     else let rt2 = emit EffDeleteReplica (emit EffDropSlot rt1)
                          in case ne_deleteErr env of
                               Some e \<Rightarrow> (Some e, rt2)
                             | None \<Rightarrow>
                                 let rt3 = emit EffDeleteLocal rt2
                                 in case ne_localDeleteErr env of Some e \<Rightarrow> (Some e, rt3) | None \<Rightarrow> gone rt3)"

section \<open>Recovered replicas\<close>

text \<open>
  How far \<open>resumeRecoveredReplica\<close> raises the commit cursor: to everything prepared at a tail,
  elsewhere to what the tail has committed of it.  \<open>tailCommitted\<close> is the answer of the tail.
\<close>

definition resume_cursor :: "node_env \<Rightarrow> (string \<Rightarrow> storage_err + u64) \<Rightarrow> replica_record \<Rightarrow> u64" where
  "resume_cursor env tailCommitted record =
     (let peers = rr_peers record; committed = rr_highestCommittedSequence record;
          prepared = contiguousPreparedHighWater record;
          tailTarget = peerTransportTarget (TailTarget peers) (TailNodeID peers)
      in if SuccessorNodeID peers = [] then max committed prepared
         else if TailNodeID peers \<noteq> [] \<and> TailNodeID peers \<noteq> ne_nodeID env \<and> tailTarget \<noteq> [] then
           (case tailCommitted tailTarget of
              Inl _ \<Rightarrow> committed
            | Inr c \<Rightarrow> max committed (min c prepared))
         else committed)"

definition resumed_record :: "u64 \<Rightarrow> replica_record \<Rightarrow> replica_record" where
  "resumed_record cursor record =
     (let r1 = record\<lparr>rr_highestCommittedSequence := cursor, rr_state := ReplicaStateActive_s,
                rr_lastKnownState := ReplicaStateActive_s, rr_highestPreparedDurable := cursor,
                rr_highestCommitTokenReceived := cursor\<rparr>
      in r1\<lparr>rr_highestUpstreamConfirmedSequence := normalizeUpstreamConfirmedSequence r1, rr_nextSequence := cursor + 1\<rparr>)"

definition resumeRecoveredReplica ::
  "node_env \<Rightarrow> (string \<Rightarrow> storage_err + u64) \<Rightarrow> replica_assignment \<Rightarrow> slot_runtime \<Rightarrow> storage_err option \<times> slot_runtime" where
  "resumeRecoveredReplica env tailCommitted a rt =
     (let record = rt_record rt
      in if \<not> rt_exists rt then (Some ErrUnknownReplica, rt)
         else if rr_state record = ReplicaStateActive_s \<and> rr_localDataPresent record \<and> rr_assignment record = a then (None, rt)
         else if rr_state record \<noteq> ReplicaStateRecovered_s then (Some ErrInvalidTransition, rt)
         else if \<not> rr_localDataPresent record then (Some ErrStateMismatch, rt)
         else let record1 = record\<lparr>rr_assignment := a\<rparr>;
                  rt1 = persist_record env (resumed_record (resume_cursor env tailCommitted record1) record1) rt
              in case ne_persistErr env of
                   Some e \<Rightarrow> (Some e, rt1)
                 | None \<Rightarrow> (None, ensureUpstreamCommitReplay env rt1))"

definition ensureBackendReplica :: "node_env \<Rightarrow> slot_runtime \<Rightarrow> storage_err option \<times> slot_runtime" where
  "ensureBackendReplica env rt =
     (case ne_backendHighest env of
        Inr _ \<Rightarrow> (None, rt)
      | Inl e \<Rightarrow>
          if e \<noteq> ErrUnknownReplica then (Some e, rt)
          else (case ne_createErr env of
                  None \<Rightarrow> None
                | Some e \<Rightarrow> if e = ErrReplicaExists then None else Some e, emit EffCreateReplica rt))"

definition recovered_record :: "replica_assignment \<Rightarrow> u64 \<Rightarrow> replica_record" where
  "recovered_record a h = in_state ReplicaStateActive_s (filled_record h (zero_record\<lparr>rr_assignment := a, rr_localDataPresent := True\<rparr>))"

definition recover_fetched ::
  "node_env \<Rightarrow> replica_assignment \<Rightarrow> snapshot \<Rightarrow> u64 \<Rightarrow> slot_runtime \<Rightarrow> storage_err option \<times> slot_runtime" where
  "recover_fetched env a snap highest rt =
     (let rt1 = emit (EffInstallSnapshot snap) (emit EffDropSlot rt)
      in case ne_installErr env of
           Some e \<Rightarrow> (Some e, rt1)
         | None \<Rightarrow>
             let rt2 = emit (EffSetHighest highest) (rt1\<lparr>rt_committedMetadata := fmempty\<rparr>)
             in case ne_setHighestErr env of
                  Some e \<Rightarrow> (Some e, rt2)
                | None \<Rightarrow>
                    let record = recovered_record a highest
                    in (ne_persistErr env,
                        emit (EffPersist (persistedReplica record)) (emit EffAllowSlot (setRecord env record rt2))))"

definition recoverReplica ::
  "node_env \<Rightarrow> fetcher \<Rightarrow> replica_assignment \<Rightarrow> string \<Rightarrow> slot_runtime \<Rightarrow> storage_err option \<times> slot_runtime" where
  "recoverReplica env fetch a sourceNodeID rt =
     (if rt_exists rt \<and> rr_state (rt_record rt) = ReplicaStateActive_s \<and> rr_assignment (rt_record rt) = a then (None, rt)
      else if rt_exists rt \<and> rr_state (rt_record rt) \<noteq> ReplicaStateRecovered_s then (Some ErrInvalidTransition, rt)
      else case admitCatchup env rt of
             (Some e, rt1) \<Rightarrow> (Some e, rt1)
           | (None, rt1) \<Rightarrow>
               (case (case ensureBackendReplica env rt1 of
                        (Some e, rt2) \<Rightarrow> (Some e, rt2)
                      | (None, rt2) \<Rightarrow> (case fetch (peerTransportTarget (PredecessorTarget (ra_Peers a)) sourceNodeID) of
                          Inl e \<Rightarrow> (Some e, rt2)
                        | Inr (snap, highest) \<Rightarrow> recover_fetched env a snap highest rt2))
                of (r, rt3) \<Rightarrow> (r, emit EffReleaseCatchup rt3)))"

definition dropRecoveredReplica :: "node_env \<Rightarrow> slot_runtime \<Rightarrow> storage_err option \<times> slot_runtime" where
  "dropRecoveredReplica env rt =
     (if \<not> rt_exists rt then (Some ErrUnknownReplica, rt)
      else if rr_state (rt_record rt) \<noteq> ReplicaStateRecovered_s then (Some ErrInvalidTransition, rt)
      else let rt1 = emit EffDeleteReplica (emit EffDropSlot rt)
           in case (case ne_deleteErr env of Some e \<Rightarrow> if e = ErrUnknownReplica then None else Some e | None \<Rightarrow> None) of
                Some e \<Rightarrow> (Some e, rt1)
              | None \<Rightarrow>
                  let rt2 = emit EffDeleteLocal rt1
                  in case ne_localDeleteErr env of
                       Some e \<Rightarrow> (Some e, rt2)
                     | None \<Rightarrow> (None, emit EffEvictOwner (removeRecord env rt2)))"

section \<open>A change of neighbours keeps the history\<close>

lemma retarget_operation [simp]: "fr_Operation (retarget_forward a req) = fr_Operation req"
  by (simp add: retarget_forward_def)

lemma retarget_lookup:
  "fmlookup (retarget_forwards record m) s =
     (if rr_highestCommittedSequence record < s then map_option (retarget_forward (rr_assignment record)) (fmlookup m s) else None)"
  by (simp add: retarget_forwards_def)

lemma retarget_has: "rr_highestCommittedSequence record < s \<Longrightarrow> fm_has (retarget_forwards record m) s = fm_has m s"
  by (simp add: fm_has_def retarget_lookup)

lemma peers_record_fields [simp]:
  "rr_assignment (peers_record r a) = a" "rr_state (peers_record r a) = rr_state r"
  "rr_nextSequence (peers_record r a) = rr_nextSequence r"
  "rr_highestCommittedSequence (peers_record r a) = rr_highestCommittedSequence r"
  "rr_highestPreparedDurable (peers_record r a) = rr_highestPreparedDurable r"
  "rr_materializedCommittedSequence (peers_record r a) = rr_materializedCommittedSequence r"
  "rr_preparedEntries (peers_record r a) = rr_preparedEntries r"
  "rr_dirtyByKey (peers_record r a) = rr_dirtyByKey r" "rr_committedOverlay (peers_record r a) = rr_committedOverlay r"
  "rr_pendingWrites (peers_record r a) = rr_pendingWrites r" "rr_bufferedCommits (peers_record r a) = rr_bufferedCommits r"
  by (simp_all add: peers_record_def Let_def retargetUncommittedForwardSources_def retargetUncommittedCommitSources_def)

lemma peers_record_forwards:
  "fmlookup (rr_stagedForwards (peers_record r a)) s = Some req \<Longrightarrow>
     \<exists>q. fmlookup (rr_stagedForwards r) s = Some q \<and> fr_Operation req = fr_Operation q"
  "fmlookup (rr_bufferedForwards (peers_record r a)) s = Some req \<Longrightarrow>
     \<exists>q. fmlookup (rr_bufferedForwards r) s = Some q \<and> fr_Operation req = fr_Operation q"
  "rr_highestCommittedSequence r < s \<Longrightarrow> fm_has (rr_stagedForwards (peers_record r a)) s = fm_has (rr_stagedForwards r) s"
  by (auto simp: peers_record_def Let_def retargetUncommittedForwardSources_def retargetUncommittedCommitSources_def
      retarget_lookup retarget_has split: if_splits)

lemma peers_record_token:
  "rr_highestCommitTokenReceived r \<le> rr_highestCommitTokenReceived (peers_record r a)"
  "SuccessorNodeID (ra_Peers a) = [] \<Longrightarrow> (SuccessorNodeID (rr_peers r) = [] \<Longrightarrow>
     rr_highestPreparedDurable r \<le> rr_highestCommitTokenReceived r) \<Longrightarrow>
     rr_highestPreparedDurable r \<le> rr_highestCommitTokenReceived (peers_record r a)"
  by (auto simp: peers_record_def Let_def retargetUncommittedForwardSources_def retargetUncommittedCommitSources_def
      successorChanged_def)

lemma peers_record_ok:
  assumes "rec_ok g r"
  shows "rec_ok g (peers_record r a)"
proof (rule rec_okI)
  note D = rec_okD[OF assms] and F = followsD[OF rec_okD(1)[OF assms]]
  show "follows (g_hist g) (peers_record r a)"
  proof (rule followsI)
    fix s req
    show "unat (rr_highestCommittedSequence (peers_record r a)) < unat s \<and> unat s < unat (rr_nextSequence (peers_record r a)) \<and>
        hist_op (g_hist g) s = Some (fr_Operation req)" if "fmlookup (rr_stagedForwards (peers_record r a)) s = Some req"
      using peers_record_forwards(1)[OF that] F(8)[of s] by auto
    show "hist_op (g_hist g) s = Some (fr_Operation req)" if "fmlookup (rr_bufferedForwards (peers_record r a)) s = Some req"
      using peers_record_forwards(2)[OF that] F(9)[of s] by auto
  next
    show "fmlookup (rr_preparedEntries (peers_record r a)) s = hist_op (g_hist g) s"
      if "unat (rr_highestCommittedSequence (peers_record r a)) < unat s" "unat s < unat (rr_nextSequence (peers_record r a))" for s
      using F(6)[of s] that by simp
    show "unat s < unat (rr_nextSequence (peers_record r a)) \<and> hist_op (g_hist g) s = Some op"
      if "fmlookup (rr_preparedEntries (peers_record r a)) s = Some op" for s op
      using F(7)[of s op] that by simp
    show "fm_get [] (rr_dirtyByKey (peers_record r a)) k = dirty_of (window (g_hist g) (peers_record r a)) k" for k
      using F(10)[of k] by (simp add: window_def)
  qed (use F(1-5) in simp_all)
  show "holds (g_hist g) (g_base g) (g_mat g) (peers_record r a) (g_backend g)"
    by (rule holds_cong[where r = r, THEN iffD2]) (use D(2) in simp_all)
  show "rr_highestCommittedSequence (peers_record r a) \<le> rr_highestCommitTokenReceived (peers_record r a)"
    using D(5) peers_record_token(1)[of r a] by simp
  show "SuccessorNodeID (rr_peers (peers_record r a)) = [] \<Longrightarrow>
      rr_highestPreparedDurable (peers_record r a) \<le> rr_highestCommitTokenReceived (peers_record r a)"
    using peers_record_token(2)[of a r] D(6) by simp
  show "fmlookup (rr_preparedEntries (peers_record r a)) s = hist_op (g_hist g) s"
    if "rr_materializedCommittedSequence (peers_record r a) < s" "s \<le> rr_highestCommittedSequence (peers_record r a)" for s
    using D(4)[of s] that by simp
  show "rr_highestCommittedSequence (peers_record r a) < s \<and> s < rr_nextSequence (peers_record r a) \<and>
      pw_operation pw = hist_op (g_hist g) s" if "fmlookup (rr_pendingWrites (peers_record r a)) s = Some pw" for s pw
    using D(7)[of s pw] that by simp
  show "fm_has (rr_pendingWrites (peers_record r a)) s \<or> fm_has (rr_stagedForwards (peers_record r a)) s"
    if "rr_highestCommittedSequence (peers_record r a) < s" "s < rr_nextSequence (peers_record r a)" for s
    using D(8)[of s] that by (simp add: peers_record_forwards(3))
qed (use rec_okD(3,9)[OF assms] in simp_all)

text \<open>A watermark that is ready is reached.\<close>

lemma watermark_reached:
  assumes d: "drains (ne_nodeID env) g (undone rt) drain" and ok: "rt_exists rt" "rec_ok g (rt_record rt)"
    and a: "applyCommitWatermark drain env q rt = Some rt'"
  shows "min q (ready_sequence (rt_record rt)) \<le> rr_highestCommittedSequence (rt_record rt')"
proof -
  let ?r = "rt_record rt" let ?c = "rr_highestCommittedSequence ?r" and ?q = "min q (ready_sequence ?r)"
  show ?thesis
  proof (cases "q \<le> ?c \<or> ?q \<le> ?c")
    case True
    then have "rt' = rt" using a by (auto simp: applyCommitWatermark_def Let_def)
    then show ?thesis using True by (auto intro: min.coboundedI1)
  next
    case False
    then have e: "?c < ?q" "\<not> q \<le> ?c" using not_le by blast+
    have q: "?q \<le> rr_highestPreparedDurable ?r" "?q \<le> rr_highestCommitTokenReceived ?r"
      by (simp_all add: ready_sequence_def contiguousPreparedHighWater_def min.coboundedI2)
    from commit_loop_ok[OF ok(2) q, of env rt] obtain r' rt1 where
      l: "commit_loop env (seqs_upto ?c ?q) ?r rt = (Inr r', rt1)" by blast
    note f = finish_watermark_ok[OF l refl e(1) q ok]
    let ?f = "finish_watermark env ?q r' rt1"
    have fe: "rt_exists ?f" "rec_ok g (rt_record ?f)" using nestsD(2,3)[OF f(1)] ok(1) by simp_all
    with d f(2) obtain x where x: "drain ?f = Some x" "nests (ne_nodeID env) g ?f x" unfolding drains_def by blast
    have "rt' = x" using False l x(1) ok(1) a by (simp add: applyCommitWatermark_def Let_def)
    moreover have "rr_highestCommittedSequence r' = ?q"
      using commit_loop_ok[OF ok(2) q, of env rt] l max_absorb2[OF less_imp_le[OF e(1)]] by auto
    then have "rr_highestCommittedSequence (rt_record ?f) = ?q"
      by (simp add: finish_watermark_def ensureUpstreamCommitReplay_def enqueueMaterializationUpTo_def Let_def emit_def)
    ultimately show ?thesis using nestsD(7)[OF x(2)] by simp
  qed
qed

lemma submit_reached:
  assumes inv: "slot_inv g rt" and fuel: "fuel_ok n rt" and ex: "rt_exists rt"
    and tail: "SuccessorNodeID (rr_peers (rt_record rt)) = []" and role: "\<not> is_head (rt_record rt)"
    and s: "submitCommitWatermarkReady (drainer_of n env) env (rt_record rt) rt = Some rt'"
  shows "rr_highestPreparedDurable (rt_record rt) \<le> rr_highestCommittedSequence (rt_record rt')"
proof -
  let ?r = "rt_record rt"
  have le: "rr_highestPreparedDurable ?r \<le> rr_highestCommitTokenReceived ?r" by (rule tail_ok[OF inv tail])
  then have nr: "(rr_highestCommitTokenReceived ?r < rr_highestPreparedDurable ?r) = False" by (simp add: not_less)
  then have q: "ready_sequence ?r = rr_highestPreparedDurable ?r"
    by (simp add: ready_sequence_def contiguousPreparedHighWater_def min_absorb2)
  show ?thesis
  proof (cases "rr_highestCommittedSequence ?r < ready_sequence ?r")
    case True
    then have "applyCommitWatermark (drainer_of n env) env (ready_sequence ?r) rt = Some rt'"
      using s role by (simp add: submitCommitWatermarkReady_def Let_def nr)
    from watermark_reached[OF fuel_drains[OF fuel] ex slot_invD[OF inv ex] this] show ?thesis by (simp add: q)
  next
    case False
    then have "rt' = ensureUpstreamCommitReplay env rt"
      using s role by (simp add: submitCommitWatermarkReady_def Let_def nr)
    then show ?thesis using False ensureUpstream_nests(3)[of rt g env] slot_invD[OF inv ex] q by simp
  qed
qed

text \<open>What changing the neighbours of a replica does, on every branch.\<close>

lemma updateChainPeers_ok:
  assumes inv: "slot_inv g rt" and ex: "rt_exists rt" and fuel: "fuel_ok n rt"
  shows "\<exists>err rt'. updateChainPeers n env a rt = Some (err, rt') \<and> slot_inv g rt' \<and> rt_exists rt' \<and>
    rr_assignment (rt_record rt') = a \<and> rr_state (rt_record rt') = rr_state (rt_record rt) \<and>
    rr_highestCommittedSequence (rt_record rt) \<le> rr_highestCommittedSequence (rt_record rt') \<and>
    rr_highestPreparedDurable (rt_record rt') = rr_highestPreparedDurable (rt_record rt) \<and>
    (err = None \<and> rr_assignment (rt_record rt) \<noteq> a \<and> rr_state (rt_record rt) = ReplicaStateActive_s \<and>
       SuccessorNodeID (ra_Peers a) = [] \<and> ra_Role a \<notin> {ReplicaRoleHead, ReplicaRoleSingle} \<longrightarrow>
     rr_highestCommittedSequence (rt_record rt') = rr_highestPreparedDurable (rt_record rt))"
proof (cases "rr_assignment (rt_record rt) = a")
  case True
  then show ?thesis using inv ex by (simp add: updateChainPeers_def)
next
  case False
  let ?r = "rt_record rt" and ?r' = "peers_record (rt_record rt) a"
  define rt1 where "rt1 = (if predecessorReplayTargetChanged ?r a
    then rt\<lparr>rt_upstreamCommitHighSent := rr_highestUpstreamConfirmedSequence ?r'\<rparr> else rt)"
  define rt2 where "rt2 = emit (EffPersist (persistedReplica ?r')) (setRecord env ?r' rt1)"
  have f: "rt_record rt2 = ?r'" "rt_exists rt2" by (simp_all add: rt2_def)
  have "pipe_ops rt1 = pipe_ops rt" by (simp add: rt1_def pipe_ops_def)
  then have "pipe_ops rt2 \<subseteq> pipe_ops rt" using setRecord_pipes[of env ?r' rt1] by (simp add: rt2_def)
  then have inv2: "slot_inv g rt2" using inv ex f by (auto simp: slot_inv_def peers_record_ok)
  have fuel2: "fuel_ok n rt2" using fuel f by (simp add: fuel_ok_def)
  have step: "updateChainPeers n env a rt = (case ne_persistErr env of Some e \<Rightarrow> Some (Some e, rt2) | None \<Rightarrow>
      if rr_state ?r \<noteq> ReplicaStateActive_s then Some (None, rt2)
      else do { rt3 \<leftarrow> submitCommitWatermarkReady (drainer_of n env) env ?r' rt2;
        Some (None, ensureUpstreamCommitReplay env (if successorChanged ?r a then replayPreparedForwards env rt3 else rt3)) })"
    unfolding updateChainPeers_def Let_def rt1_def[symmetric] rt2_def[symmetric] using ex False by (simp cong: option.case_cong)
  obtain rt3 where s: "submitCommitWatermarkReady (drainer_of n env) env ?r' rt2 = Some rt3" "nests (ne_nodeID env) g rt2 rt3"
    using serve_submit[OF inv2 fuel2] f(1) by metis
  define rt4 where "rt4 = (if successorChanged ?r a then replayPreparedForwards env rt3 else rt3)"
  have inv3: "slot_inv g rt3" by (rule nests_inv[OF inv2 s(2)])
  have "nests (ne_nodeID env) g rt3 rt4"
    unfolding rt4_def using replayPreparedForwards_moves[OF inv3] nests_refl[OF slot_invD[OF inv3]] by simp
  then have n4: "nests (ne_nodeID env) g rt2 (ensureUpstreamCommitReplay env rt4)" "nests (ne_nodeID env) g rt3 (ensureUpstreamCommitReplay env rt4)"
    using nests_trans[OF _ ensureUpstream_nests(1)] nests_trans[OF s(2)] nestsD(2,3) inv3 slot_invD by metis+
  have reach: "rr_highestPreparedDurable ?r \<le> rr_highestCommittedSequence (rt_record (ensureUpstreamCommitReplay env rt4))"
    if "SuccessorNodeID (ra_Peers a) = []" "ra_Role a \<notin> {ReplicaRoleHead, ReplicaRoleSingle}"
    using submit_reached[OF inv2 fuel2 f(2)] s(1) that f(1) nestsD(7)[OF n4(2)] by (fastforce simp: is_head_def)
  have bound: "rr_highestCommittedSequence (rt_record (ensureUpstreamCommitReplay env rt4)) \<le> rr_highestPreparedDurable ?r"
    using followsD(4)[OF rec_okD(1)[OF nestsD(3)[OF n4(1) f(2)]]] nestsD(5)[OF n4(1)] f(1) by (simp add: word_le_nat_alt)
  note D = nestsD[OF n4(1)] and inv4 = nests_inv[OF inv2 n4(1)]
  have st: "rr_state (rt_record (ensureUpstreamCommitReplay env rt4)) = rr_state ?r"
    using movesD(3)[OF D(1)] f(1) by (simp add: grows_def)
  show ?thesis
  proof (cases "ne_persistErr env = None \<and> rr_state ?r = ReplicaStateActive_s")
    case True
    then have "updateChainPeers n env a rt = Some (None, ensureUpstreamCommitReplay env rt4)" using step s(1) by (simp add: rt4_def)
    then show ?thesis using D(2,4,5,7) inv4 f st reach bound by (auto intro: order.antisym)
  next
    case False
    then obtain err where "updateChainPeers n env a rt = Some (err, rt2)" "err = None \<Longrightarrow> rr_state ?r \<noteq> ReplicaStateActive_s"
      using step by (cases "ne_persistErr env") auto
    then show ?thesis using inv2 f by auto
  qed
qed

section \<open>Joining from a snapshot\<close>

definition joined :: "write_operation list \<Rightarrow> snapshot \<Rightarrow> nat \<Rightarrow> ghost" where
  "joined H m0 n = \<lparr>g_hist = H, g_base = m0, g_mat = n, g_backend = replay H m0 n\<rparr>"

lemma filled_ok:
  assumes H: "hist_ok H" "unat h \<le> length H" and z: "r = zero_record\<lparr>rr_assignment := a, rr_state := st, rr_nextSequence := q,
    rr_localDataPresent := b, rr_lastKnownState := st'\<rparr>"
  shows "rec_ok (joined H m0 (unat h)) (filled_record h r)"
proof -
  have h: "unat (h + 1) = unat h + 1" using H by (intro unat_suc) (simp add: hist_ok_def)
  have w: "window H (filled_record h r) = []" by (simp add: window_def filled_record_def h)
  have "follows H (filled_record h r)"
    by (rule followsI) (use H h w in \<open>auto simp: filled_record_def z zero_record_def dirty_of_def fm_get_def\<close>)
  moreover have "holds H m0 (unat h) (filled_record h r) (replay H m0 (unat h))"
    using H(2) by (simp add: holds_def filled_record_def z zero_record_def)
  moreover have "\<not> (h < s \<and> s < h + 1)" for s by (simp add: word_less_nat_alt h)
  ultimately show ?thesis
    by (intro rec_okI) (auto simp: joined_def filled_record_def z zero_record_def)
qed

lemma added_eq: "added_record a = zero_record\<lparr>rr_assignment := a, rr_state := ReplicaStatePending_s, rr_nextSequence := 1,
    rr_localDataPresent := True, rr_lastKnownState := ReplicaStatePending_s\<rparr>"
  by (simp add: added_record_def)

lemma in_state_ok: "rec_ok g (in_state st r) \<longleftrightarrow> rec_ok g r"
  by (rule rec_ok_cong) (simp_all add: in_state_def)

lemma persist_fields [simp]:
  "rt_exists (persist_record env r rt)" "rt_record (persist_record env r rt) = r"
  by (simp_all add: persist_record_def)

lemma persist_pipes: "pipe_ops (persist_record env r rt) \<subseteq> pipe_ops rt"
  by (simp add: persist_record_def setRecord_pipes)

lemma removeRecord_fields [simp]: "\<not> rt_exists (removeRecord env rt)" "rt_record (removeRecord env rt) = zero_record"
proof -
  have q: "quietly x (clearAcceptedCommits env e x)" for e x
    unfolding clearAcceptedCommits_def by (intro quietly_fold quietly_trans[OF quietly_release quietly_delete])
  show "\<not> rt_exists (removeRecord env rt)" "rt_record (removeRecord env rt) = zero_record"
    by (simp_all add: removeRecord_def quietlyD(2,3)[OF q])
qed

lemma add_filled_ok:
  assumes H: "hist_ok H" "unat h \<le> length H" and f: "\<And>t. fetch t = Inr (replay H m0 (unat h), h)"
    and p: "PredecessorNodeID (ra_Peers a) \<noteq> []" "pipe_ops rt = {}"
    and r: "add_filled env fetch a rt = (Inr b, rt')"
  shows "slot_inv (joined H m0 (unat h)) rt' \<and> rt_exists rt' \<and> rt_record rt' = in_state ReplicaStateCatchingUp_s (filled_record h (added_record a))"
proof -
  let ?rt2 = "emit (EffSetHighest h) ((emit (EffInstallSnapshot (replay H m0 (unat h))) rt)\<lparr>rt_committedMetadata := fmempty\<rparr>)"
  have "rt' = persist_record env (in_state ReplicaStateCatchingUp_s (filled_record h (added_record a))) ?rt2"
    using r f p(1) by (auto simp: add_filled_def add_finish_def Let_def split: option.splits)
  moreover have "pipe_ops ?rt2 = {}" using p(2) by (simp add: pipe_ops_def emit_def)
  ultimately show ?thesis
    using persist_pipes[of env _ ?rt2] filled_ok[OF H added_eq] by (auto simp: slot_inv_def in_state_ok)
qed

lemma slot_inv_emit [simp]: "slot_inv g (emit e rt) \<longleftrightarrow> slot_inv g rt"
  by (simp add: slot_inv_def)

lemma pipe_ops_metadata [simp]: "pipe_ops (rt\<lparr>rt_committedMetadata := m\<rparr>) = pipe_ops rt"
  by (simp add: pipe_ops_def)

lemma recover_fetched_ok:
  assumes H: "hist_ok H" "unat h \<le> length H" and p: "pipe_ops rt = {}"
    and r: "recover_fetched env a (replay H m0 (unat h)) h rt = (None, rt')"
  shows "slot_inv (joined H m0 (unat h)) rt' \<and> rt_record rt' = recovered_record a h"
proof -
  let ?rt2 = "emit (EffSetHighest h) ((emit (EffInstallSnapshot (replay H m0 (unat h))) (emit EffDropSlot rt))\<lparr>rt_committedMetadata := fmempty\<rparr>)"
  have "rt' = emit (EffPersist (persistedReplica (recovered_record a h))) (emit EffAllowSlot (setRecord env (recovered_record a h) ?rt2))"
    using r by (auto simp: recover_fetched_def Let_def split: option.splits)
  moreover have "pipe_ops (setRecord env (recovered_record a h) ?rt2) = {}"
    using p setRecord_pipes[of env "recovered_record a h" ?rt2] by simp
  moreover have "rec_ok (joined H m0 (unat h)) (recovered_record a h)"
    using filled_ok[OF H, where a = a and st = "ReplicaStateOther_s []" and q = 0 and b = True and st' = "ReplicaStateOther_s []"]
    by (simp add: recovered_record_def in_state_ok zero_record_def)
  ultimately show ?thesis by (simp add: slot_inv_def)
qed


section \<open>The life of a replica\<close>

definition life :: "slot_runtime \<Rightarrow> storage_ReplicaState option" where
  "life rt = (if rt_exists rt then Some (rr_state (rt_record rt)) else None)"

datatype replica_command =
    CmdAdd replica_assignment
  | CmdActivate
  | CmdLeave
  | CmdRemove
  | CmdUpdate replica_assignment
  | CmdResume replica_assignment
  | CmdRecover replica_assignment string
  | CmdDrop

definition run_command ::
  "nat \<Rightarrow> node_env \<Rightarrow> fetcher \<Rightarrow> (string \<Rightarrow> storage_err + u64) \<Rightarrow> replica_command \<Rightarrow> slot_runtime
     \<Rightarrow> (storage_err option \<times> slot_runtime) option" where
  "run_command n env fetch tailCommitted cmd rt =
     (case cmd of
        CmdAdd a \<Rightarrow> Some (case addReplicaAsTail env fetch a rt of (r, rt') \<Rightarrow> (case r of Inl e \<Rightarrow> Some e | Inr _ \<Rightarrow> None, rt'))
      | CmdActivate \<Rightarrow> activateReplicaReady n env rt
      | CmdLeave \<Rightarrow> Some (markReplicaLeaving env rt)
      | CmdRemove \<Rightarrow> Some (removeReplica env rt)
      | CmdUpdate a \<Rightarrow> updateChainPeers n env a rt
      | CmdResume a \<Rightarrow> Some (resumeRecoveredReplica env tailCommitted a rt)
      | CmdRecover a source \<Rightarrow> Some (recoverReplica env fetch a source rt)
      | CmdDrop \<Rightarrow> Some (dropRecoveredReplica env rt))"

inductive life_step :: "replica_command \<Rightarrow> storage_ReplicaState option \<Rightarrow> storage_ReplicaState option \<Rightarrow> bool" where
  stay: "life_step cmd st st"
| add: "life_step (CmdAdd a) None (Some ReplicaStateCatchingUp_s)"
| activate: "life_step CmdActivate (Some ReplicaStateCatchingUp_s) (Some ReplicaStateActive_s)"
| leave: "life_step CmdLeave (Some ReplicaStateActive_s) (Some ReplicaStateLeaving_s)"
| remove: "st \<in> {ReplicaStateLeaving_s, ReplicaStateRemoved_s} \<Longrightarrow> life_step CmdRemove (Some st) None"
| resume: "life_step (CmdResume a) (Some ReplicaStateRecovered_s) (Some ReplicaStateActive_s)"
| recover: "st \<in> {None, Some ReplicaStateRecovered_s} \<Longrightarrow> life_step (CmdRecover a source) st (Some ReplicaStateActive_s)"
| drop: "life_step CmdDrop (Some ReplicaStateRecovered_s) None"

lemma upstream_fields [simp]:
  "rt_exists (ensureUpstreamCommitReplay env rt) = rt_exists rt"
  "rr_state (rt_record (ensureUpstreamCommitReplay env rt)) = rr_state (rt_record rt)"
  by (auto simp: ensureUpstreamCommitReplay_def Let_def)

lemma in_state_state [simp]: "rr_state (in_state st r) = st"
  by (simp add: in_state_def)

lemma life_step_pair:
  "life_step cmd l (life (snd x)) \<Longrightarrow> \<exists>err rt'. Some x = Some (err, rt') \<and> life_step cmd l (life rt')"
  by (cases x) auto

lemma life_add: "life_step (CmdAdd a) (life rt) (life (snd (addReplicaAsTail env fetch a rt)))"
  by (simp add: addReplicaAsTail_def admitCatchup_def add_created_def add_filled_def add_finish_def Let_def life_step.simps
      life_def split: option.split sum.split prod.split)

lemma life_recover: "life_step (CmdRecover a source) (life rt) (life (snd (recoverReplica env fetch a source rt)))"
  by (simp add: recoverReplica_def admitCatchup_def ensureBackendReplica_def recover_fetched_def recovered_record_def Let_def
      life_step.simps life_def split: option.split sum.split prod.split)

lemma life_others:
  "life_step CmdLeave (life rt) (life (snd (markReplicaLeaving env rt)))"
  "life_step CmdRemove (life rt) (life (snd (removeReplica env rt)))"
  "life_step (CmdResume a) (life rt) (life (snd (resumeRecoveredReplica env tailCommitted a rt)))"
  "life_step CmdDrop (life rt) (life (snd (dropRecoveredReplica env rt)))"
  by (simp_all add: markReplicaLeaving_def removeReplica_def resumeRecoveredReplica_def dropRecoveredReplica_def
      resumed_record_def Let_def life_step.simps life_def split: option.split)

lemma life_nests: "nests nid g rt rt' \<Longrightarrow> life rt' = life rt"
  using nestsD(2)[of nid g rt rt'] movesD(3)[OF nestsD(1), of nid g rt rt'] by (simp add: life_def grows_def)

lemma life_activate:
  assumes "life rt = Some ReplicaStateCatchingUp_s \<Longrightarrow> slot_inv g rt" "fuel_ok n rt"
  shows "\<exists>err rt'. activateReplicaReady n env rt = Some (err, rt') \<and> life_step CmdActivate (life rt) (life rt')"
proof (cases "life rt = Some ReplicaStateCatchingUp_s")
  case True
  let ?rt1 = "persist_record env (in_state ReplicaStateActive_s (rt_record rt)) rt"
  have e: "rt_exists rt" "rr_state (rt_record rt) = ReplicaStateCatchingUp_s" using True by (auto simp: life_def split: if_splits)
  have "slot_inv g ?rt1" using assms(1)[OF True] e(1) persist_pipes[of env _ rt]
    by (auto simp: slot_inv_def in_state_ok) (auto simp: in_state_def)
  moreover have "fuel_ok n ?rt1" using assms(2) by (simp add: fuel_ok_def in_state_def)
  ultimately obtain rt' where "drainReadyBuffered n env None ?rt1 = Some rt'" "nests (ne_nodeID env) g ?rt1 rt'"
    using drain_moves by blast
  moreover from this have "life rt' = life ?rt1" by (intro life_nests)
  ultimately show ?thesis using e True
    by (cases "ne_persistErr env") (simp_all add: activateReplicaReady_def Let_def life_step.simps life_def)
next
  case False
  then show ?thesis by (auto simp: activateReplicaReady_def Let_def life_step.simps life_def)
qed

lemma life_update:
  assumes "life rt = Some ReplicaStateActive_s \<Longrightarrow> slot_inv g rt" "fuel_ok n rt"
  shows "\<exists>err rt'. updateChainPeers n env a rt = Some (err, rt') \<and> life_step (CmdUpdate a) (life rt) (life rt')"
proof (cases "life rt = Some ReplicaStateActive_s")
  case True
  then have e: "rt_exists rt" by (auto simp: life_def split: if_splits)
  from updateChainPeers_ok[OF assms(1)[OF True] e assms(2), of env a] obtain err rt' where
    r: "updateChainPeers n env a rt = Some (err, rt')" "rt_exists rt'" "rr_state (rt_record rt') = rr_state (rt_record rt)" by blast
  then have "life rt' = life rt" using e by (simp add: life_def)
  with r(1) show ?thesis by (auto intro: life_step.stay)
next
  case False
  have kept: "life (emit e (setRecord env (peers_record (rt_record rt) a) x)) = life rt" if "rt_exists rt" for e x
    using that by (simp add: life_def)
  have "rt_exists rt \<Longrightarrow> rr_state (rt_record rt) \<noteq> ReplicaStateActive_s" using False by (simp add: life_def)
  then show ?thesis
    by (auto simp: updateChainPeers_def Let_def kept intro: life_step.stay split: option.splits)
qed

text \<open>
  C36. The life of a replica.  Whatever command the coordinator sends, with whatever outcome of
  the backend, the local store, the transport and the coordinator itself, the command ends and
  the replica either stays in its state or takes a step of the state machine: absent to catching up
  to active to leaving to absent, and recovered to active or absent.  In particular no command
  makes a replica active that has neither caught up nor been recovered.
\<close>

theorem command_refines_life:
  assumes "life rt \<in> {Some ReplicaStateActive_s, Some ReplicaStateCatchingUp_s} \<Longrightarrow> slot_inv g rt"
    and "2 * unat (rr_highestPreparedDurable (rt_record rt)) + 4 \<le> n"
  shows "\<exists>err rt'. run_command n env fetch tailCommitted cmd rt = Some (err, rt') \<and> life_step cmd (life rt) (life rt')"
proof -
  have f: "fuel_ok n rt" using assms(2) by (simp add: fuel_ok_def)
  show ?thesis
  proof (cases cmd)
    case (CmdUpdate a)
    then show ?thesis using life_update[of rt g n env a] assms(1) f by (simp add: run_command_def)
  next
    case CmdActivate
    then show ?thesis using life_activate[of rt g n env] assms(1) f by (simp add: run_command_def)
  next
    case (CmdAdd a)
    then show ?thesis
      using life_add[of a rt env fetch] by (cases "addReplicaAsTail env fetch a rt") (simp add: run_command_def)
  qed (simp_all only: run_command_def replica_command.case life_step_pair life_recover life_others)
qed


section \<open>Examples\<close>

text \<open>The middle replica of the example chain, and what it becomes when its successor has died.\<close>

definition ex_tail :: replica_assignment where
  "ex_tail = \<lparr>ra_Slot = 3, ra_ChainVersion = 5, ra_Role = ReplicaRoleTail,
     ra_Peers = \<lparr>PredecessorNodeID = ''a'', PredecessorTarget = [], SuccessorNodeID = [],
       SuccessorTarget = [], TailNodeID = ''b'', TailTarget = []\<rparr>\<rparr>"


definition ex_fetch :: fetcher where
  "ex_fetch t = Inr (replay ex_hist fmempty 1, 1)"


theorem command_refines_life_witness:
  "\<exists>err rt'. run_command 4 ex_env ex_fetch (\<lambda>_. Inr 0) CmdLeave ex_slot = Some (err, rt') \<and>
     life_step CmdLeave (Some ReplicaStateActive_s) (life rt')"
proof -
  have "slot_inv ex_ghost ex_slot" unfolding ex_slot_def by (rule fresh_ok) (simp_all add: ex_ghost_def ex_hist_ok)
  moreover have "life ex_slot = Some ReplicaStateActive_s" "2 * unat (rr_highestPreparedDurable (rt_record ex_slot)) + 4 \<le> 4"
    by code_simp+
  ultimately show ?thesis using command_refines_life[of ex_slot ex_ghost 4 ex_env ex_fetch "\<lambda>_. Inr 0" CmdLeave] by simp
qed

text \<open>
  A middle replica restarts with one write journalled as prepared and not known as committed.
  Resumed as the tail, it moves its commit cursor over the write, but neither enters it in its
  overlay nor hands it to the materializer: it serves its key as absent.
\<close>

definition ex_recovered :: replica_record where
  "ex_recovered = zero_record\<lparr>rr_assignment := ex_assignment, rr_state := ReplicaStateRecovered_s, rr_nextSequence := 2,
     rr_highestPreparedDurable := 1, rr_preparedEntries := fmupd 1 (ex_hist ! 0) fmempty, rr_localDataPresent := True\<rparr>"

lemma resume_hides_prepared:
  "case resumeRecoveredReplica ex_env (\<lambda>_. Inr 0) ex_tail (new_runtime 3 True ex_recovered) of (err, rt') \<Rightarrow>
     err = None \<and> rr_highestCommittedSequence (rt_record rt') = 1 \<and>
     committedObject (\<lambda>_ _. Inr None) (rt_record rt') 3 ''k'' = Inr None \<and>
     fmlookup (replay ex_hist fmempty 1) ''k'' \<noteq> None \<and>
     \<not> list_ex (\<lambda>e. case e of EffMaterialize _ \<Rightarrow> True | _ \<Rightarrow> False) (rt_out rt')"
  by code_simp

end
