(* ===== verification/Journal_Recovery.thy ===== *)
theory Journal_Recovery
  imports Journal_Codec Slot_Lifecycle
begin

text \<open>
  Restarting a storage node: the records \<open>OpenNode\<close> (\<open>storage/storage.go\<close>) rebuilds from its
  local state and its backend, and what replaying the journals adds to them
  (\<open>recoverJournaledReplicaState\<close> of \<open>storage/commit_journal.go\<close>).  A journal is what its \<open>Replay\<close>
  yields: records, or an error; a nil journal is skipped.  The theorem says that a replica
  whose journal covers what its backend has not yet written reads after the restart what it had
  committed, and that the materializer receives exactly the missing operations.
\<close>

section \<open>Records from the local state\<close>

definition persisted_record :: "persisted_replica \<Rightarrow> replica_record" where
  "persisted_record p =
     (let c = pr_HighestCommittedSequence p
      in zero_record\<lparr>rr_assignment := pr_Assignment p, rr_state := ReplicaStateRecovered_s, rr_nextSequence := c + 1,
           rr_highestPreparedDurable := c, rr_highestCommitTokenReceived := c, rr_highestCommittedSequence := c,
           rr_highestUpstreamConfirmedSequence := pr_HighestUpstreamConfirmedSequence p,
           rr_lastKnownState := pr_LastKnownState p\<rparr>)"

definition backend_record :: "u64 \<Rightarrow> replica_record \<Rightarrow> replica_record" where
  "backend_record sequence r = r\<lparr>rr_localDataPresent := True, rr_highestPreparedDurable := sequence,
     rr_highestCommitTokenReceived := sequence, rr_highestCommittedSequence := sequence,
     rr_materializedCommittedSequence := sequence, rr_nextSequence := sequence + 1\<rparr>"

text \<open>\<open>upstream\<close> is absent when the backend keeps no upstream confirmations.\<close>

definition opened_record ::
  "(int \<Rightarrow> storage_err + u64) \<Rightarrow> (int \<Rightarrow> storage_err + u64) option \<Rightarrow> persisted_replica \<Rightarrow> storage_err + replica_record" where
  "opened_record highest upstream p =
     (let slot = ra_Slot (pr_Assignment p) in
      res_bind
        (case highest slot of
           Inr sequence \<Rightarrow> Inr (backend_record sequence (persisted_record p))
         | Inl e \<Rightarrow> if e = ErrUnknownReplica then Inr (persisted_record p) else Inl e)
        (\<lambda>r1. res_bind
          (case upstream of
             None \<Rightarrow> Inr r1
           | Some up \<Rightarrow> (case up slot of
               Inr sequence \<Rightarrow> Inr (r1\<lparr>rr_highestUpstreamConfirmedSequence := sequence\<rparr>)
             | Inl e \<Rightarrow> if e = ErrUnknownReplica then Inr r1 else Inl e))
          (\<lambda>r2. Inr (r2\<lparr>rr_highestUpstreamConfirmedSequence := normalizeUpstreamConfirmedSequence r2\<rparr>))))"

definition opened_records ::
  "(int \<Rightarrow> storage_err + u64) \<Rightarrow> (int \<Rightarrow> storage_err + u64) option \<Rightarrow> persisted_replica list
     \<Rightarrow> storage_err + (int, replica_record) fmap" where
  "opened_records highest upstream ps =
     fold_res (\<lambda>p m. res_bind (opened_record highest upstream p)
        (\<lambda>r. Inr (fmupd (ra_Slot (pr_Assignment p)) r m))) ps fmempty"

section \<open>Replaying the journals\<close>

definition note_prepare :: "journal_record \<Rightarrow> replica_record \<Rightarrow> replica_record" where
  "note_prepare entry r = r\<lparr>
     rr_highestPreparedDurable := (if rr_highestPreparedDurable r < jr_Sequence entry then jr_Sequence entry else rr_highestPreparedDurable r),
     rr_preparedEntries := fmupd (jr_Sequence entry) (jr_operation entry) (rr_preparedEntries r)\<rparr>"

definition note_commit :: "u64 \<Rightarrow> replica_record \<Rightarrow> replica_record" where
  "note_commit sequence r =
     (if rr_highestCommittedSequence r < sequence
      then r\<lparr>rr_highestCommittedSequence := sequence, rr_localDataPresent := True\<rparr> else r)"

definition note_confirm :: "u64 \<Rightarrow> replica_record \<Rightarrow> replica_record" where
  "note_confirm sequence r =
     (if rr_highestUpstreamConfirmedSequence r < sequence then r\<lparr>rr_highestUpstreamConfirmedSequence := sequence\<rparr> else r)"

definition replay_entry :: "journal_record \<Rightarrow> replica_record \<Rightarrow> replica_record" where
  "replay_entry entry r =
     (let s = jr_Sequence entry;
          r1 = (case recordType entry of
                  journalRecordTypeUpstreamConfirm \<Rightarrow> note_confirm s r
                | journalRecordTypePrepare \<Rightarrow>
                    let r' = note_prepare entry r
                    in if rr_nextSequence r' < s + 1 then r'\<lparr>rr_nextSequence := s + 1\<rparr> else r'
                | journalRecordTypeCommitWatermark \<Rightarrow> note_commit s r
                | journalRecordTypeHeadCommitRange \<Rightarrow> note_commit s r
                | journalRecordTypeLegacyCommit \<Rightarrow>
                    note_confirm (jr_UpstreamConfirmedSequence entry) (note_commit s (note_prepare entry r))
                | journalRecordTypeOther _ \<Rightarrow> r)
      in r1\<lparr>rr_highestUpstreamConfirmedSequence := normalizeUpstreamConfirmedSequence r1\<rparr>)"

type_synonym recovery = "(int, replica_record) fmap \<times> (int, u64) fmap"

definition recover_step :: "journal_record \<Rightarrow> recovery \<Rightarrow> recovery" where
  "recover_step entry = (\<lambda>(records, highWater).
     case fmlookup records (jr_Slot entry) of
       None \<Rightarrow> (records, highWater)
     | Some r \<Rightarrow>
         if jr_ChainVersion entry \<noteq> rr_version r then (records, highWater)
         else let r' = replay_entry entry r
              in (fmupd (jr_Slot entry) r' records,
                  if fm_get 0 highWater (jr_Slot entry) < rr_highestCommittedSequence r'
                  then fmupd (jr_Slot entry) (rr_highestCommittedSequence r') highWater else highWater))"

text \<open>At a tail everything that is prepared without a gap is committed.\<close>

function contiguous_prepared :: "(u64, write_operation) fmap \<Rightarrow> u64 \<Rightarrow> u64" where
  "contiguous_prepared m s = (if fm_has m (s + 1) then contiguous_prepared (fmdrop (s + 1) m) (s + 1) else s)"
  by pat_completeness auto

termination contiguous_prepared
proof (relation "measure (\<lambda>(m, _). fcard (fmdom m))")
  fix m :: "(u64, write_operation) fmap" and s
  assume "fm_has m (s + 1)"
  then have "fcard (fmdom m |-| {|s + 1|}) < fcard (fmdom m)" by (intro fcard_fminus1_less) (simp add: fm_has_dom)
  then show "((fmdrop (s + 1) m, s + 1), m, s) \<in> measure (\<lambda>(m, _). fcard (fmdom m))" by simp
qed simp

declare contiguous_prepared.simps [simp del]

definition close_tail :: "replica_record \<Rightarrow> replica_record" where
  "close_tail r =
     (if SuccessorNodeID (rr_peers r) = []
      then note_commit (contiguous_prepared (rr_preparedEntries r) (rr_highestCommittedSequence r)) r else r)"

text \<open>The committed operations the backend lacks go to the overlay and to the materializer.\<close>

fun backlog_loop :: "u64 list \<Rightarrow> replica_record \<Rightarrow> durable_commit list \<times> replica_record" where
  "backlog_loop [] r = ([], r)"
| "backlog_loop (s # ss) r =
     (case fmlookup (rr_preparedEntries r) s of
        None \<Rightarrow> backlog_loop ss r
      | Some operation \<Rightarrow>
          let r' = recordWithCommittedOverlay r operation;
              (cs, r'') = backlog_loop ss r'
          in (\<lparr>dc_Operation = operation, dc_Persisted = persistedReplica r', dc_UpstreamConfirmedSequence = 0\<rparr> # cs, r''))"

definition finish_record :: "replica_record \<Rightarrow> durable_commit list \<times> replica_record" where
  "finish_record r =
     (let r1 = close_tail r
      in backlog_loop (seqs_upto (rr_materializedCommittedSequence r1) (rr_highestCommittedSequence r1)) r1)"

text \<open>
  Go visits the records in no fixed order; every slot contributes its operations in their
  order, here the slots follow one another in increasing order.
\<close>

definition finish_records :: "(int, replica_record) fmap \<Rightarrow> durable_commit list \<times> (int, replica_record) fmap" where
  "finish_records records =
     (concat (map (\<lambda>slot. fst (finish_record (the (fmlookup records slot)))) (sorted_list_of_fset (fmdom records))),
      fmmap (\<lambda>r. snd (finish_record r)) records)"

definition replay_journals :: "(storage_err + journal_record list) option list \<Rightarrow> recovery \<Rightarrow> storage_err + recovery" where
  "replay_journals = fold_res (\<lambda>journal st.
     case journal of
       None \<Rightarrow> Inr st
     | Some (Inl e) \<Rightarrow> Inl e
     | Some (Inr entries) \<Rightarrow> Inr (fold recover_step entries st))"

definition recoverJournaledReplicaState ::
  "(storage_err + journal_record list) option list \<Rightarrow> (int, replica_record) fmap
     \<Rightarrow> storage_err + durable_commit list \<times> (int, u64) fmap \<times> (int, replica_record) fmap" where
  "recoverJournaledReplicaState journals records =
     (let highWater = fmmap rr_highestCommittedSequence records
      in if journals = [] then Inr ([], highWater, records)
         else res_bind (replay_journals journals (records, highWater)) (\<lambda>(records', highWater').
           case finish_records records' of (backlog, records'') \<Rightarrow> Inr (backlog, highWater', records'')))"

section \<open>What a replay leaves\<close>

lemma replay_entry_fields [simp]:
  "rr_assignment (replay_entry e r) = rr_assignment r" "rr_committedOverlay (replay_entry e r) = rr_committedOverlay r"
  "rr_materializedCommittedSequence (replay_entry e r) = rr_materializedCommittedSequence r"
  by (simp_all add: replay_entry_def Let_def note_confirm_def note_prepare_def note_commit_def split: journalRecordType.split)

definition is_prepare :: "journal_record \<Rightarrow> bool" where
  "is_prepare e = (recordType e = journalRecordTypePrepare \<or> recordType e = journalRecordTypeLegacyCommit)"

definition is_commit :: "journal_record \<Rightarrow> bool" where
  "is_commit e = (recordType e = journalRecordTypeCommitWatermark \<or> recordType e = journalRecordTypeHeadCommitRange \<or>
     recordType e = journalRecordTypeLegacyCommit)"

lemma replay_entry_prepared:
  "rr_preparedEntries (replay_entry e r) =
     (if is_prepare e then fmupd (jr_Sequence e) (jr_operation e) (rr_preparedEntries r) else rr_preparedEntries r)"
  by (simp add: replay_entry_def is_prepare_def Let_def note_confirm_def note_prepare_def note_commit_def split: journalRecordType.split)

lemma replay_entry_committed:
  "rr_highestCommittedSequence (replay_entry e r) =
     (if is_commit e then max (rr_highestCommittedSequence r) (jr_Sequence e) else rr_highestCommittedSequence r)"
  by (auto simp: replay_entry_def is_commit_def Let_def note_confirm_def note_prepare_def note_commit_def max_def
      split: journalRecordType.split)

lemma fold_replay_fields [simp]:
  "rr_assignment (fold replay_entry es r) = rr_assignment r"
  "rr_committedOverlay (fold replay_entry es r) = rr_committedOverlay r"
  "rr_materializedCommittedSequence (fold replay_entry es r) = rr_materializedCommittedSequence r"
  by (induction es arbitrary: r) simp_all

definition slot_entries :: "int \<Rightarrow> u64 \<Rightarrow> journal_record list \<Rightarrow> journal_record list" where
  "slot_entries slot version es = filter (\<lambda>e. jr_Slot e = slot \<and> jr_ChainVersion e = version) es"

lemma recover_steps_lookup:
  "fmlookup (fst (fold recover_step es st)) slot =
     map_option (\<lambda>r. fold replay_entry (slot_entries slot (rr_version r) es) r) (fmlookup (fst st) slot)"
proof (induction es arbitrary: st)
  case Nil
  then show ?case by (simp add: slot_entries_def option.map_ident)
next
  case (Cons e es)
  have "fmlookup (fst (recover_step e st)) slot =
      map_option (\<lambda>r. if jr_Slot e = slot \<and> jr_ChainVersion e = rr_version r then replay_entry e r else r) (fmlookup (fst st) slot)"
    by (cases st; cases "fmlookup (fst st) slot") (auto simp: recover_step_def Let_def split: option.split)
  then show ?case by (cases "fmlookup (fst st) slot") (auto simp: Cons.IH slot_entries_def)
qed

definition journal_entries :: "(storage_err + journal_record list) option list \<Rightarrow> journal_record list" where
  "journal_entries journals = concat (map (\<lambda>j. case j of Some (Inr es) \<Rightarrow> es | _ \<Rightarrow> []) journals)"

lemma replay_journals_entries:
  "replay_journals journals st = Inr st' \<Longrightarrow> st' = fold recover_step (journal_entries journals) st"
  by (induction journals arbitrary: st)
    (auto simp: replay_journals_def journal_entries_def res_bind_def split: option.splits sum.splits)

section \<open>A journal that covers what the backend lacks\<close>

text \<open>
  \<open>journalled H mat n es\<close>: the prepared operations in \<open>es\<close> are the history's, all of them up to number
  \<open>n\<close> that lie beyond \<open>mat\<close> are there, and nothing beyond \<open>n\<close> is marked as committed.
\<close>

definition journalled :: "write_operation list \<Rightarrow> nat \<Rightarrow> nat \<Rightarrow> journal_record list \<Rightarrow> bool" where
  "journalled H mat n es \<longleftrightarrow> hist_ok H \<and> mat \<le> n \<and> n \<le> length H \<and>
     (\<forall>e \<in> set es. (is_prepare e \<longrightarrow> hist_op H (jr_Sequence e) = Some (jr_operation e) \<and> unat (jr_Sequence e) \<le> n) \<and>
        (is_commit e \<longrightarrow> unat (jr_Sequence e) \<le> n)) \<and>
     (\<forall>s :: u64. mat < unat s \<longrightarrow> unat s \<le> n \<longrightarrow> (\<exists>e \<in> set es. is_prepare e \<and> jr_Sequence e = s))"

lemma prepared_keys:
  "fm_has (rr_preparedEntries (fold replay_entry es r)) s \<longleftrightarrow>
     fm_has (rr_preparedEntries r) s \<or> (\<exists>e \<in> set es. is_prepare e \<and> jr_Sequence e = s)"
  by (induction es arbitrary: r) (auto simp: replay_entry_prepared fm_has_def)

lemma prepared_ops:
  assumes "\<forall>e \<in> set es. is_prepare e \<longrightarrow> hist_op H (jr_Sequence e) = Some (jr_operation e) \<and> unat (jr_Sequence e) \<le> n"
    and "\<And>s op. fmlookup (rr_preparedEntries r) s = Some op \<Longrightarrow> hist_op H s = Some op \<and> unat s \<le> n"
    and "fmlookup (rr_preparedEntries (fold replay_entry es r)) s = Some op"
  shows "hist_op H s = Some op \<and> unat s \<le> n"
  using assms
proof (induction es arbitrary: r)
  case (Cons e es)
  show ?case
  proof (rule Cons.IH[of "replay_entry e r"])
    fix s op assume "fmlookup (rr_preparedEntries (replay_entry e r)) s = Some op"
    then show "hist_op H s = Some op \<and> unat s \<le> n"
      using Cons.prems(1) Cons.prems(2)[of s op] by (auto simp: replay_entry_prepared split: if_splits)
  qed (use Cons.prems in simp_all)
qed simp

lemma committed_marks:
  assumes "\<forall>e \<in> set es. is_commit e \<longrightarrow> unat (jr_Sequence e) \<le> n" and "unat (rr_highestCommittedSequence r) \<le> n"
  shows "rr_highestCommittedSequence r \<le> rr_highestCommittedSequence (fold replay_entry es r)"
    "unat (rr_highestCommittedSequence (fold replay_entry es r)) \<le> n"
    "\<forall>e \<in> set es. is_commit e \<longrightarrow> jr_Sequence e \<le> rr_highestCommittedSequence (fold replay_entry es r)"
proof -
  have "rr_highestCommittedSequence r \<le> rr_highestCommittedSequence (fold replay_entry es r) \<and>
    unat (rr_highestCommittedSequence (fold replay_entry es r)) \<le> n \<and>
    (\<forall>e \<in> set es. is_commit e \<longrightarrow> jr_Sequence e \<le> rr_highestCommittedSequence (fold replay_entry es r))"
    using assms
  proof (induction es arbitrary: r)
    case (Cons e es)
    have "unat (rr_highestCommittedSequence (replay_entry e r)) \<le> n"
      using Cons.prems by (auto simp: replay_entry_committed max_def)
    from Cons.IH[OF _ this] Cons.prems(1) have IH: "rr_highestCommittedSequence (replay_entry e r) \<le>
        rr_highestCommittedSequence (fold replay_entry es (replay_entry e r))"
      "unat (rr_highestCommittedSequence (fold replay_entry es (replay_entry e r))) \<le> n"
      "\<forall>x \<in> set es. is_commit x \<longrightarrow> jr_Sequence x \<le> rr_highestCommittedSequence (fold replay_entry es (replay_entry e r))"
      by simp_all
    then show ?case by (auto simp: replay_entry_committed[of e r] split: if_splits)
  qed simp
  then show "rr_highestCommittedSequence r \<le> rr_highestCommittedSequence (fold replay_entry es r)"
    "unat (rr_highestCommittedSequence (fold replay_entry es r)) \<le> n"
    "\<forall>e \<in> set es. is_commit e \<longrightarrow> jr_Sequence e \<le> rr_highestCommittedSequence (fold replay_entry es r)" by blast+
qed

lemma contiguous_bounds:
  assumes "\<And>k. fm_has m k \<Longrightarrow> 0 < unat k \<and> unat k \<le> n" and "unat s \<le> n"
  shows "s \<le> contiguous_prepared m s \<and> unat (contiguous_prepared m s) \<le> n \<and>
    ((\<forall>k. unat s < unat k \<longrightarrow> unat k \<le> n \<longrightarrow> fm_has m k) \<longrightarrow> n < 2 ^ 64 \<longrightarrow> unat (contiguous_prepared m s) = n)"
  using assms
proof (induction m s rule: contiguous_prepared.induct)
  case (1 m s)
  have eq: "contiguous_prepared m s = (if fm_has m (s + 1) then contiguous_prepared (fmdrop (s + 1) m) (s + 1) else s)"
    by (rule contiguous_prepared.simps)
  show ?case
  proof (cases "fm_has m (s + 1)")
    case True
    then have b: "0 < unat (s + 1)" "unat (s + 1) \<le> n" using "1.prems"(1) by blast+
    then have "1 + s \<noteq> 0" by (auto simp: add.commute)
    then have u: "unat (s + 1) = unat s + 1" using unatSuc[of s] by (simp add: add.commute)
    have pr: "0 < unat k \<and> unat k \<le> n" if "fm_has (fmdrop (s + 1) m) k" for k
      using "1.prems"(1)[of k] that by (auto simp: fm_has_def split: if_splits)
    have has: "fm_has (fmdrop (s + 1) m) k" if "\<forall>k. unat s < unat k \<longrightarrow> unat k \<le> n \<longrightarrow> fm_has m k" "unat (s + 1) < unat k" "unat k \<le> n" for k
      using that u by (auto simp: fm_has_def)
    have "s \<le> s + 1" using u by (simp add: word_le_nat_alt)
    then show ?thesis using "1.IH"[OF True pr b(2)] True has unfolding eq by auto
  next
    case False
    have "unat s = n" if c: "\<forall>k. unat s < unat k \<longrightarrow> unat k \<le> n \<longrightarrow> fm_has m k" "n < 2 ^ 64"
    proof (rule ccontr)
      assume "unat s \<noteq> n"
      then have "unat s + 1 \<le> n" using "1.prems"(2) by simp
      moreover from this have "unat (s + 1) = unat s + 1" using c(2) by (intro unat_suc) simp
      ultimately show False using c(1) False by auto
    qed
    then show ?thesis using False "1.prems" unfolding eq by auto
  qed
qed

section \<open>The recovered record\<close>

lemma backlog_loop_ops:
  "map dc_Operation (fst (backlog_loop ss r)) = List.map_filter (fmlookup (rr_preparedEntries r)) ss"
  "snd (backlog_loop ss r) = fold (\<lambda>op r. recordWithCommittedOverlay r op) (List.map_filter (fmlookup (rr_preparedEntries r)) ss) r"
proof -
  have p: "rr_preparedEntries (recordWithCommittedOverlay r op) = rr_preparedEntries r" for r op
    by (simp add: recordWithCommittedOverlay_def)
  show "map dc_Operation (fst (backlog_loop ss r)) = List.map_filter (fmlookup (rr_preparedEntries r)) ss"
    by (induction ss arbitrary: r) (simp_all add: List.map_filter_simps p Let_def case_prod_beta split: option.split)
  show "snd (backlog_loop ss r) = fold (\<lambda>op r. recordWithCommittedOverlay r op) (List.map_filter (fmlookup (rr_preparedEntries r)) ss) r"
    by (induction ss arbitrary: r) (simp_all add: List.map_filter_simps p Let_def case_prod_beta split: option.split)
qed

lemma overlay_fold:
  "fmlookup (rr_committedOverlay (fold (\<lambda>op r. recordWithCommittedOverlay r op) ops r)) k =
     (let os = filter (\<lambda>op. wo_Key op = k) ops
      in if os = [] then fmlookup (rr_committedOverlay r) k
         else Some \<lparr>de_Sequence = wo_Sequence (last os), de_Operation = last os\<rparr>)"
  "rr_highestCommittedSequence (fold (\<lambda>op r. recordWithCommittedOverlay r op) ops r) = rr_highestCommittedSequence r"
  by (induction ops arbitrary: r) (auto simp: recordWithCommittedOverlay_def Let_def)

lemma overlay_holds:
  assumes ov: "rr_committedOverlay r = fmempty" and b: "\<And>k. fmlookup m k = fmlookup (replay H m0 mat) k"
    and c: "mat \<le> unat (rr_highestCommittedSequence r)" "unat (rr_highestCommittedSequence r) \<le> length H"
  shows "holds H m0 mat (fold (\<lambda>op r. recordWithCommittedOverlay r op) (drop mat (take (unat (rr_highestCommittedSequence r)) H)) r) m"
    (is "holds H m0 mat ?r' m")
proof -
  let ?c = "unat (rr_highestCommittedSequence r)" let ?ops = "drop mat (take ?c H)"
  have split: "take ?c H = take mat (take ?c H) @ ?ops" by (rule append_take_drop_id[symmetric])
  have "case fmlookup (rr_committedOverlay ?r') k of
      Some e \<Rightarrow> (let os = filter (\<lambda>op. wo_Key op = k) (take ?c H)
                 in os \<noteq> [] \<and> e = \<lparr>de_Sequence = wo_Sequence (last os), de_Operation = last os\<rparr>)
    | None \<Rightarrow> filter (\<lambda>op. wo_Key op = k) ?ops = []" for k
  proof (cases "filter (\<lambda>op. wo_Key op = k) ?ops = []")
    case True
    then show ?thesis by (simp add: overlay_fold(1) ov Let_def)
  next
    case False
    have "filter (\<lambda>op. wo_Key op = k) (take ?c H) =
        filter (\<lambda>op. wo_Key op = k) (take mat (take ?c H)) @ filter (\<lambda>op. wo_Key op = k) ?ops"
      by (subst split) (simp only: filter_append)
    then show ?thesis using False by (simp add: overlay_fold(1) Let_def)
  qed
  then show ?thesis using b c unfolding holds_def overlay_fold(2) by auto
qed

lemma finish_ok:
  assumes j: "hist_ok H" "mat \<le> n" "n \<le> length H" and m: "rr_materializedCommittedSequence r = of_nat mat"
    and c: "mat \<le> unat (rr_highestCommittedSequence r)" "unat (rr_highestCommittedSequence r) \<le> n"
    and ops: "\<And>s op. fmlookup (rr_preparedEntries r) s = Some op \<Longrightarrow> hist_op H s = Some op \<and> unat s \<le> n"
    and cover: "\<And>s. mat < unat s \<Longrightarrow> unat s \<le> n \<Longrightarrow> fm_has (rr_preparedEntries r) s"
    and ov: "rr_committedOverlay r = fmempty" and b: "\<And>k. fmlookup m k = fmlookup (replay H m0 mat) k"
    and f: "finish_record r = (cs, r')"
  shows "holds H m0 mat r' m" "rr_highestCommittedSequence r \<le> rr_highestCommittedSequence r'"
    "SuccessorNodeID (rr_peers r) = [] \<Longrightarrow> unat (rr_highestCommittedSequence r') = n"
    "map dc_Operation cs = drop mat (take (unat (rr_highestCommittedSequence r')) H)"
proof -
  let ?r1 = "close_tail r" let ?c = "rr_highestCommittedSequence ?r1"
  have n: "n < 2 ^ 64" using j by (simp add: hist_ok_def)
  then have um: "unat (of_nat mat :: u64) = mat" using j(2) by (simp add: unsigned_of_nat take_bit_nat_eq_self)
  have keys: "0 < unat k \<and> unat k \<le> n" if "fm_has (rr_preparedEntries r) k" for k
    using that ops[of k] by (fastforce simp: fm_has_def hist_op_def split: if_splits)
  note con = contiguous_bounds[where m = "rr_preparedEntries r" and s = "rr_highestCommittedSequence r", OF keys c(2)]
  have cover': "\<forall>k. unat (rr_highestCommittedSequence r) < unat k \<longrightarrow> unat k \<le> n \<longrightarrow> fm_has (rr_preparedEntries r) k"
    using cover c(1) by auto
  have r1: "rr_preparedEntries ?r1 = rr_preparedEntries r" "rr_materializedCommittedSequence ?r1 = of_nat mat"
    "rr_committedOverlay ?r1 = fmempty" "rr_highestCommittedSequence r \<le> ?c" "unat ?c \<le> n"
    "SuccessorNodeID (rr_peers r) = [] \<Longrightarrow> unat ?c = n"
    using con c(2) m ov cover' n by (auto simp: close_tail_def note_commit_def not_less)
  have mc: "mat \<le> unat ?c" using c(1) r1(4) by (simp add: word_le_nat_alt)
  have look: "fmlookup (rr_preparedEntries r) s = hist_op H s" if "of_nat mat < s" "s \<le> ?c" for s
  proof -
    have "mat < unat s" "unat s \<le> n" using that um r1(5) by (simp_all add: word_less_nat_alt word_le_nat_alt)
    then show ?thesis using cover[of s] ops[of s] by (auto simp: fm_has_def)
  qed
  have st: "List.map_filter (fmlookup (rr_preparedEntries r)) (seqs_upto (of_nat mat) ?c) = drop mat (take (unat ?c) H)"
    using prepared_stretch[of "of_nat mat" ?c "rr_preparedEntries r" H id, OF look] r1(5) j(3) mc um
    by (simp add: option.map_id word_le_nat_alt)
  have fin: "cs = fst (backlog_loop (seqs_upto (of_nat mat) ?c) ?r1)" "r' = snd (backlog_loop (seqs_upto (of_nat mat) ?c) ?r1)"
    using f by (simp_all add: finish_record_def Let_def r1(2))
  let ?ops = "drop mat (take (unat ?c) H)"
  have r': "r' = fold (\<lambda>op r. recordWithCommittedOverlay r op) ?ops ?r1" using fin(2) st by (simp add: backlog_loop_ops r1(1))
  then have cc: "rr_highestCommittedSequence r' = ?c" by (simp add: overlay_fold(2))
  show "rr_highestCommittedSequence r \<le> rr_highestCommittedSequence r'" using r1(4) cc by simp
  show "SuccessorNodeID (rr_peers r) = [] \<Longrightarrow> unat (rr_highestCommittedSequence r') = n" using r1(6) cc by simp
  show "map dc_Operation cs = drop mat (take (unat (rr_highestCommittedSequence r')) H)"
    using fin(1) st cc by (simp add: backlog_loop_ops r1(1))
  show "holds H m0 mat r' m" unfolding r' by (rule overlay_holds) (use b mc r1(3,5) j(3) in auto)
qed

text \<open>
  C37. A restart loses no committed write.  Take a slot whose backend holds the history up to
  \<open>mat\<close> and whose journal covers it up to \<open>n\<close>, in the chain version of the replica's assignment.
  When the node reopens, the replica's commit cursor is at or above every commit the journal
  records (at a tail it is \<open>n\<close>), what the replica reads is the history cut at that cursor,
  and the backlog holds exactly the committed operations the backend still lacks, in order.
\<close>

theorem restart_restores_committed:
  assumes "highest (ra_Slot (pr_Assignment p)) = Inr (of_nat mat)" and "opened_record highest upstream p = Inr r0"
    and "fmlookup records slot = Some r0" and "slot = ra_Slot (pr_Assignment p)"
    and "journals \<noteq> []" and "es = slot_entries slot (rr_version r0) (journal_entries journals)"
    and "journalled H mat n es" and "\<And>k. getCommitted slot k = Inr (fmlookup (replay H base mat) k)"
    and "recoverJournaledReplicaState journals records = Inr (backlog, highWater, records')"
  shows "\<exists>r pre cs post. fmlookup records' slot = Some r \<and> backlog = pre @ cs @ post \<and>
    (\<forall>e \<in> set es. is_commit e \<longrightarrow> jr_Sequence e \<le> rr_highestCommittedSequence r) \<and>
    (SuccessorNodeID (rr_peers r0) = [] \<longrightarrow> unat (rr_highestCommittedSequence r) = n) \<and>
    (\<forall>k. committedObject getCommitted r slot k = Inr (fmlookup (replay H base (unat (rr_highestCommittedSequence r))) k)) \<and>
    map dc_Operation cs = drop mat (take (unat (rr_highestCommittedSequence r)) H)"
proof -
  have J: "hist_ok H" "mat \<le> n" "n \<le> length H"
    "\<forall>e \<in> set es. is_prepare e \<longrightarrow> hist_op H (jr_Sequence e) = Some (jr_operation e) \<and> unat (jr_Sequence e) \<le> n"
    "\<forall>e \<in> set es. is_commit e \<longrightarrow> unat (jr_Sequence e) \<le> n"
    "\<And>s. mat < unat s \<Longrightarrow> unat s \<le> n \<Longrightarrow> \<exists>e \<in> set es. is_prepare e \<and> jr_Sequence e = s"
    using assms(7) by (auto simp: journalled_def)
  have r0: "rr_highestCommittedSequence r0 = of_nat mat" "rr_materializedCommittedSequence r0 = of_nat mat"
    "rr_preparedEntries r0 = fmempty" "rr_committedOverlay r0 = fmempty"
    using assms(1,2,4) by (auto simp: opened_record_def backend_record_def persisted_record_def zero_record_def Let_def
        res_bind_def split: option.splits sum.splits if_splits)
  let ?r = "fold replay_entry es r0"
  have um: "unat (of_nat mat :: u64) = mat" using J(1-3) by (simp add: unsigned_of_nat take_bit_nat_eq_self hist_ok_def)
  obtain st where st: "replay_journals journals (records, fmmap rr_highestCommittedSequence records) = Inr st"
    "finish_records (fst st) = (backlog, records')"
    using assms(5,9) by (auto simp: recoverJournaledReplicaState_def Let_def res_bind_def split: sum.splits prod.splits)
  have look: "fmlookup (fst st) slot = Some ?r"
    using replay_journals_entries[OF st(1)] assms(3,6) by (simp add: recover_steps_lookup)
  obtain cs r where f: "finish_record ?r = (cs, r)" by fastforce
  have c0: "unat (rr_highestCommittedSequence r0) \<le> n" using r0(1) um J(2) by simp
  note marks = committed_marks[OF J(5) c0]
  have ops: "hist_op H s = Some op \<and> unat s \<le> n" if "fmlookup (rr_preparedEntries ?r) s = Some op" for s op
    by (rule prepared_ops[OF J(4) _ that]) (simp add: r0(3))
  have cover: "fm_has (rr_preparedEntries ?r) s" if "mat < unat s" "unat s \<le> n" for s
    using J(6)[OF that] by (simp add: prepared_keys)
  have m: "rr_materializedCommittedSequence ?r = of_nat mat" "rr_committedOverlay ?r = fmempty"
    "mat \<le> unat (rr_highestCommittedSequence ?r)"
    using r0 marks(1) um by (simp_all add: word_le_nat_alt)
  note fin = finish_ok[where m = "replay H base mat" and m0 = base, OF J(1-3) m(1,3) marks(2) ops cover m(2) refl f]
  have "committedObject getCommitted r slot k = Inr (fmlookup (replay H base (unat (rr_highestCommittedSequence r))) k)" for k
    using holds_lookup[OF fin(1) J(1), of k] assms(8)[of k] by (auto simp: committedObject_def split: option.splits)
  moreover have "fmlookup records' slot = Some r" using st(2) look f by (auto simp: finish_records_def)
  moreover have "\<exists>pre post. backlog = pre @ cs @ post"
  proof -
    have "slot \<in> set (sorted_list_of_fset (fmdom (fst st)))" using look by (simp add: fmdomI)
    then obtain xs ys where "sorted_list_of_fset (fmdom (fst st)) = xs @ slot # ys" by (meson split_list)
    then show ?thesis using st(2) look f by (auto simp: finish_records_def)
  qed
  moreover have "\<forall>e \<in> set es. is_commit e \<longrightarrow> jr_Sequence e \<le> rr_highestCommittedSequence r"
    using marks(3) fin(2) by (blast intro: order_trans)
  moreover have "SuccessorNodeID (rr_peers r0) = [] \<longrightarrow> unat (rr_highestCommittedSequence r) = n" using fin(3) by simp
  ultimately show ?thesis using fin(4) by blast
qed

section \<open>Examples\<close>

text \<open>A tail that had journalled its first write, with nothing in its backend.\<close>

definition ex_persisted :: "replica_assignment \<Rightarrow> persisted_replica" where
  "ex_persisted a = \<lparr>pr_Assignment = a, pr_LastKnownState = ReplicaStateActive_s, pr_HighestCommittedSequence = 1,
     pr_HighestUpstreamConfirmedSequence = 0, pr_HasCommittedData = True\<rparr>"

definition ex_prepared :: journal_record where
  "ex_prepared = journalRecordFromPrepare \<lparr>dc_Operation = ex_hist ! 0, dc_Persisted = ex_persisted ex_tail, dc_UpstreamConfirmedSequence = 0\<rparr>"

definition ex_opened :: "replica_assignment \<Rightarrow> (int, replica_record) fmap" where
  "ex_opened a = (case opened_record (\<lambda>_. Inr 0) None (ex_persisted a) of Inr r \<Rightarrow> fmupd 3 r fmempty | Inl _ \<Rightarrow> fmempty)"

theorem restart_restores_committed_witness:
  "\<exists>backlog highWater records' r. recoverJournaledReplicaState [Some (Inr [ex_prepared])] (ex_opened ex_tail) = Inr (backlog, highWater, records') \<and>
     fmlookup records' 3 = Some r \<and> rr_highestCommittedSequence r = 1 \<and>
     committedObject (\<lambda>_ _. Inr None) r 3 ''k'' = Inr (fmlookup (replay ex_hist fmempty 1) ''k'')"
proof -
  obtain r0 where r0: "opened_record (\<lambda>_. Inr (of_nat 0)) None (ex_persisted ex_tail) = Inr r0"
    by (simp add: opened_record_def res_bind_def Let_def)
  have o: "fmlookup (ex_opened ex_tail) 3 = Some r0" using r0 by (simp add: ex_opened_def)
  have a: "rr_assignment r0 = ex_tail"
    using r0 by (auto simp: opened_record_def res_bind_def Let_def backend_record_def persisted_record_def ex_persisted_def)
  have es: "slot_entries 3 (rr_version r0) (journal_entries [Some (Inr [ex_prepared])]) = [ex_prepared]" unfolding a by code_simp
  have "(1 :: u64) = s" if "0 < unat s" "unat s \<le> 1" for s :: u64 using that by (simp add: word_unat_eq_iff)
  moreover have "is_prepare ex_prepared" "\<not> is_commit ex_prepared" "jr_Sequence ex_prepared = 1"
    "hist_op ex_hist 1 = Some (jr_operation ex_prepared)" by code_simp+
  moreover have "1 \<le> length ex_hist" by (simp add: ex_hist_def)
  ultimately have j: "journalled ex_hist 0 1 [ex_prepared]" by (auto simp: journalled_def ex_hist_ok)
  have slot: "3 = ra_Slot (pr_Assignment (ex_persisted ex_tail))" by code_simp
  have "case recoverJournaledReplicaState [Some (Inr [ex_prepared])] (ex_opened ex_tail) of Inl _ \<Rightarrow> False | Inr _ \<Rightarrow> True" by code_simp
  then obtain backlog hw records' where rec: "recoverJournaledReplicaState [Some (Inr [ex_prepared])] (ex_opened ex_tail) =
    Inr (backlog, hw, records')" by (auto split: sum.splits)
  have get: "(Inr None :: storage_err + committed_object option) = Inr (fmlookup (replay ex_hist fmempty 0) k)" for k by (simp add: replay_def)
  from restart_restores_committed[where highest = "\<lambda>_. Inr (of_nat 0)" and getCommitted = "\<lambda>_ _. Inr None" and base = fmempty,
      OF refl r0 o slot _ es[symmetric] j get rec] a
  obtain r where r: "fmlookup records' 3 = Some r" "unat (rr_highestCommittedSequence r) = 1"
    "\<forall>k. committedObject (\<lambda>_ _. Inr None) r 3 k = Inr (fmlookup (replay ex_hist fmempty (unat (rr_highestCommittedSequence r))) k)"
    by (auto simp: ex_tail_def)
  then have "rr_highestCommittedSequence r = 1" by (simp add: word_unat_eq_iff)
  then show ?thesis using rec r by auto
qed

text \<open>
  The same replica, whose chain version has changed since the write was journalled: the replay
  passes over the record, the commit cursor falls back to the backend's and the write is gone.
\<close>

lemma old_version_forgotten:
  "case recoverJournaledReplicaState [Some (Inr [ex_prepared])] (ex_opened (ex_tail\<lparr>ra_ChainVersion := 6\<rparr>)) of
     Inl _ \<Rightarrow> False
   | Inr (backlog, _, records) \<Rightarrow> backlog = [] \<and>
       (case fmlookup records 3 of None \<Rightarrow> False
        | Some r \<Rightarrow> rr_highestCommittedSequence r = 0 \<and> fmlookup (rr_preparedEntries r) 1 = None)"
  by code_simp

end
