(* ===== verification/Commit_Journal.thy ===== *)
theory Commit_Journal
  imports Journal_Codec
begin

text \<open>
  The queues of one shard of the commit journal (\<open>commitJournalShard.run\<close> of
  \<open>storage/commit_journal.go\<close>): submitted prepares wait in a queue per slot, commit marks and
  upstream confirmations are coalesced per slot and chain version, and a flush takes a batch of
  them, appends its records to the journal in one write and answers everyone in it.  A
  completion handler is the intent it belongs to; an answer is logged in \<open>sh_out\<close>.  Whether the
  journal accepts a batch and whether the context of an intent is cancelled are arguments.
  Of the timer the shard has whether it is armed.
\<close>

section \<open>Configuration\<close>

definition defaultJournalBatchMaxBytes :: int where "defaultJournalBatchMaxBytes = 2 ^ 20"

definition defaultJournalPriorityWatermarks :: int where "defaultJournalPriorityWatermarks = 8"

record journal_config =
  jc_shardCount :: int
  jc_batchDelayLow :: int
  jc_batchDelayHigh :: int
  jc_batchDepthThreshold :: int
  jc_batchMaxOps :: int
  jc_experiment :: JournalExperiment

text \<open>The configuration with its defaults filled in; delays are in nanoseconds.\<close>

definition resolvedJournalConfig :: "int \<Rightarrow> int \<Rightarrow> int \<Rightarrow> int \<Rightarrow> int \<Rightarrow> string \<Rightarrow> journal_config" where
  "resolvedJournalConfig shards low high depth ops experiment =
     (let low1 = (if low \<le> 0 then 50000 else low); high1 = (if high \<le> 0 then 250000 else high)
      in \<lparr>jc_shardCount = (if shards \<le> 0 then 16 else shards),
          jc_batchDelayLow = (if low1 > high1 then high1 else low1), jc_batchDelayHigh = high1,
          jc_batchDepthThreshold = (if depth \<le> 0 then 8 else depth),
          jc_batchMaxOps = (if ops \<le> 0 then 64 else ops),
          jc_experiment = (case NormalizeJournalExperiment experiment of
             None \<Rightarrow> JournalExperimentBaselineJSONSync | Some e \<Rightarrow> e)\<rparr>)"

definition shardIndex :: "int \<Rightarrow> int \<Rightarrow> int" where
  "shardIndex count slot = (if count = 0 then 0 else (if slot < 0 then - slot else slot) mod count)"

definition nextBatchDelay :: "journal_config \<Rightarrow> int \<Rightarrow> int" where
  "nextBatchDelay cfg queueDepth =
     (if queueDepth < jc_batchDepthThreshold cfg then jc_batchDelayLow cfg else jc_batchDelayHigh cfg)"

section \<open>Intents and the shard\<close>

record prepare_intent =
  pi_prepare :: durable_commit
  pi_handler :: nat

record watermark_intent =
  wi_assignment :: replica_assignment
  wi_sequence :: u64
  wi_recordType :: journalRecordType
  wi_handler :: nat

record confirm_intent =
  ci_assignment :: replica_assignment
  ci_sequence :: u64
  ci_handler :: nat

type_synonym watermark_key = "journalRecordType \<times> int \<times> u64"
type_synonym confirm_key = "int \<times> u64"

record pending_watermark =
  pm_assignment :: replica_assignment
  pm_sequence :: u64
  pm_recordType :: journalRecordType
  pm_intents :: "watermark_intent list"

record pending_confirm =
  pc_assignment :: replica_assignment
  pc_sequence :: u64
  pc_intents :: "confirm_intent list"

datatype batch_item =
    ItemPrepare prepare_intent
  | ItemWatermark pending_watermark
  | ItemConfirm pending_confirm

datatype answer =
    AnsPrepare prepare_intent "storage_err option"
  | AnsWatermark watermark_intent "storage_err option"
  | AnsConfirm confirm_intent "storage_err option"

record journal_shard =
  sh_prepareMap :: "(int, prepare_intent list) fmap"
  sh_prepareSeq :: "int list"
  sh_prepareN :: int
  sh_prepareBytes :: int
  sh_watermarks :: "(watermark_key, pending_watermark) fmap"
  sh_watermarkSeq :: "watermark_key list"
  sh_confirms :: "(confirm_key, pending_confirm) fmap"
  sh_confirmSeq :: "confirm_key list"
  sh_highWater :: "(int, u64) fmap"
  sh_prepareHigh :: "(int, u64) fmap"
  sh_journal :: "journal_record list"
  sh_timer :: bool
  sh_out :: "answer list"

definition new_shard :: "(int, u64) fmap \<Rightarrow> journal_shard" where
  "new_shard highWater = \<lparr>sh_prepareMap = fmempty, sh_prepareSeq = [], sh_prepareN = 0, sh_prepareBytes = 0,
     sh_watermarks = fmempty, sh_watermarkSeq = [], sh_confirms = fmempty, sh_confirmSeq = [],
     sh_highWater = highWater, sh_prepareHigh = fmempty, sh_journal = [], sh_timer = False, sh_out = []\<rparr>"

definition pi_slot :: "prepare_intent \<Rightarrow> int" where
  "pi_slot i = wo_Slot (dc_Operation (pi_prepare i))"

definition wi_key :: "watermark_intent \<Rightarrow> watermark_key" where
  "wi_key i = (wi_recordType i, ra_Slot (wi_assignment i), ra_ChainVersion (wi_assignment i))"

definition ci_key :: "confirm_intent \<Rightarrow> confirm_key" where
  "ci_key i = (ra_Slot (ci_assignment i), ra_ChainVersion (ci_assignment i))"

definition estimatedCommitBytes :: "durable_commit \<Rightarrow> int" where
  "estimatedCommitBytes c = int (length (wo_Key (dc_Operation c))) + int (length (wo_Value (dc_Operation c))) + 128"

definition enqueuePendingPrepare :: "prepare_intent \<Rightarrow> journal_shard \<Rightarrow> journal_shard" where
  "enqueuePendingPrepare intent sh =
     (let slot = pi_slot intent; queue = fm_get [] (sh_prepareMap sh) slot
      in sh\<lparr>sh_prepareSeq := (if queue = [] then sh_prepareSeq sh @ [slot] else sh_prepareSeq sh),
            sh_prepareMap := fmupd slot (queue @ [intent]) (sh_prepareMap sh),
            sh_prepareN := sh_prepareN sh + 1,
            sh_prepareBytes := sh_prepareBytes sh + estimatedCommitBytes (pi_prepare intent)\<rparr>)"

definition enqueuePendingWatermark :: "watermark_intent \<Rightarrow> journal_shard \<Rightarrow> journal_shard" where
  "enqueuePendingWatermark intent sh =
     (case fmlookup (sh_watermarks sh) (wi_key intent) of
        None \<Rightarrow> sh\<lparr>sh_watermarks := fmupd (wi_key intent) \<lparr>pm_assignment = wi_assignment intent, pm_sequence = wi_sequence intent,
                   pm_recordType = wi_recordType intent, pm_intents = [intent]\<rparr> (sh_watermarks sh),
                 sh_watermarkSeq := sh_watermarkSeq sh @ [wi_key intent]\<rparr>
      | Some entry \<Rightarrow>
          let entry1 = (if pm_sequence entry < wi_sequence intent
                        then entry\<lparr>pm_sequence := wi_sequence intent, pm_assignment := wi_assignment intent\<rparr> else entry)
          in sh\<lparr>sh_watermarks := fmupd (wi_key intent) (entry1\<lparr>pm_intents := pm_intents entry @ [intent]\<rparr>) (sh_watermarks sh)\<rparr>)"

definition enqueuePendingConfirm :: "confirm_intent \<Rightarrow> journal_shard \<Rightarrow> journal_shard" where
  "enqueuePendingConfirm intent sh =
     (case fmlookup (sh_confirms sh) (ci_key intent) of
        None \<Rightarrow> sh\<lparr>sh_confirms := fmupd (ci_key intent) \<lparr>pc_assignment = ci_assignment intent, pc_sequence = ci_sequence intent,
                   pc_intents = [intent]\<rparr> (sh_confirms sh),
                 sh_confirmSeq := sh_confirmSeq sh @ [ci_key intent]\<rparr>
      | Some entry \<Rightarrow>
          let entry1 = (if pc_sequence entry < ci_sequence intent
                        then entry\<lparr>pc_sequence := ci_sequence intent, pc_assignment := ci_assignment intent\<rparr> else entry)
          in sh\<lparr>sh_confirms := fmupd (ci_key intent) (entry1\<lparr>pc_intents := pc_intents entry @ [intent]\<rparr>) (sh_confirms sh)\<rparr>)"

section \<open>Taking a batch\<close>

text \<open>
  One visit of every slot in the order of arrival takes one prepare of each.  The visit returns
  early when the batch is full; \<open>bt_over\<close> tells.
\<close>

record batch_state =
  bt_map :: "(int, prepare_intent list) fmap"
  bt_items :: "prepare_intent list"
  bt_bytes :: int
  bt_count :: int
  bt_order :: "int list"
  bt_over :: bool

fun visit_slots :: "int \<Rightarrow> int list \<Rightarrow> batch_state \<Rightarrow> batch_state" where
  "visit_slots maxOps [] b = b"
| "visit_slots maxOps (slot # rest) b =
     (case fm_get [] (bt_map b) slot of
        [] \<Rightarrow> visit_slots maxOps rest (b\<lparr>bt_map := fmdrop slot (bt_map b)\<rparr>)
      | intent # queue \<Rightarrow>
          let bytes = estimatedCommitBytes (pi_prepare intent)
          in if bt_count b > 0 \<and> bt_bytes b + bytes > defaultJournalBatchMaxBytes
             then b\<lparr>bt_order := bt_order b @ slot # rest, bt_over := True\<rparr>
             else let b1 = b\<lparr>bt_map := (if queue = [] then fmdrop slot (bt_map b) else fmupd slot queue (bt_map b)),
                             bt_items := bt_items b @ [intent], bt_bytes := bt_bytes b + bytes, bt_count := bt_count b + 1,
                             bt_order := (if queue = [] then bt_order b else bt_order b @ [slot])\<rparr>
                  in if bt_count b1 \<ge> maxOps \<or> bt_bytes b1 \<ge> defaultJournalBatchMaxBytes
                     then b1\<lparr>bt_order := bt_order b1 @ rest, bt_over := True\<rparr>
                     else visit_slots maxOps rest b1)"

lemma visit_slots_items: "\<exists>xs. bt_items (visit_slots maxOps order b) = bt_items b @ xs"
proof (induction maxOps order b rule: visit_slots.induct)
  case (2 maxOps slot rest b)
  show ?case
  proof (cases "fm_get [] (bt_map b) slot")
    case Nil
    then show ?thesis using "2.IH"(1) by simp
  next
    case (Cons intent queue)
    then show ?thesis using "2.IH"(2)[OF Cons refl] by (auto simp: Let_def)
  qed
qed simp

text \<open>Every prepare that waits is counted; visits that take nothing end the loop.\<close>

definition waiting :: "(int, prepare_intent list) fmap \<Rightarrow> nat" where
  "waiting m = (\<Sum>slot | slot |\<in>| fmdom m. length (fm_get [] m slot))"

lemma waiting_upd: "waiting (fmupd slot q m) + length (fm_get [] m slot) = waiting m + length q"
proof -
  let ?D = "insert slot (fset (fmdom m))"
  have ext: "waiting m' = (\<Sum>s \<in> ?D. length (fm_get [] m' s))" if "fset (fmdom m') \<subseteq> ?D" for m' :: "(int, prepare_intent list) fmap"
  proof -
    have "fm_get [] m' s = []" if "s \<notin> fset (fmdom m')" for s
      using that by (simp add: fm_get_def fmdom_notD)
    then show ?thesis unfolding waiting_def using that by (intro sum.mono_neutral_left) auto
  qed
  have "(\<Sum>s \<in> ?D. length (fm_get [] (fmupd slot q m) s)) = length q + (\<Sum>s \<in> ?D - {slot}. length (fm_get [] m s))"
    by (subst sum.remove[of _ slot]) (auto intro!: sum.cong)
  moreover have "(\<Sum>s \<in> ?D. length (fm_get [] m s)) = length (fm_get [] m slot) + (\<Sum>s \<in> ?D - {slot}. length (fm_get [] m s))"
    by (subst sum.remove[of _ slot]) auto
  moreover have "waiting m = (\<Sum>s \<in> ?D. length (fm_get [] m s))" by (rule ext) auto
  moreover have "waiting (fmupd slot q m) = (\<Sum>s \<in> ?D. length (fm_get [] (fmupd slot q m) s))" by (rule ext) auto
  ultimately show ?thesis by linarith
qed

lemma waiting_drop: "waiting (fmdrop slot m) + length (fm_get [] m slot) = waiting m"
proof -
  have "waiting (fmdrop slot m) = waiting (fmupd slot [] m)"
    unfolding waiting_def by (rule sum.mono_neutral_cong_left) (auto simp: fm_get_def)
  then show ?thesis using waiting_upd[of slot "[]" m] by simp
qed

lemma visit_slots_waiting:
  "waiting (bt_map (visit_slots maxOps order b)) + length (bt_items (visit_slots maxOps order b)) =
     waiting (bt_map b) + length (bt_items b)"
proof (induction maxOps order b rule: visit_slots.induct)
  case (2 maxOps slot rest b)
  show ?case
  proof (cases "fm_get [] (bt_map b) slot")
    case Nil
    then show ?thesis using "2.IH"(1) waiting_drop[of slot "bt_map b"] by simp
  next
    case (Cons intent queue)
    have "waiting (if queue = [] then fmdrop slot (bt_map b) else fmupd slot queue (bt_map b)) + 1 = waiting (bt_map b)"
      using Cons waiting_drop[of slot "bt_map b"] waiting_upd[of slot queue "bt_map b"] by (cases queue) auto
    then show ?thesis using Cons "2.IH"(2)[OF Cons refl] by (auto simp: Let_def)
  qed
qed simp

function take_rounds :: "int \<Rightarrow> batch_state \<Rightarrow> batch_state" where
  "take_rounds maxOps b =
     (if bt_order b = [] \<or> bt_count b \<ge> maxOps \<or> bt_bytes b \<ge> defaultJournalBatchMaxBytes then b
      else let b1 = visit_slots maxOps (bt_order b) (b\<lparr>bt_order := []\<rparr>)
           in if bt_over b1 \<or> length (bt_items b1) = length (bt_items b) then b1 else take_rounds maxOps b1)"
  by pat_completeness auto

termination take_rounds
proof (relation "measure (\<lambda>(_, b). waiting (bt_map b))")
  fix maxOps b b1
  assume "b1 = visit_slots maxOps (bt_order b) (b\<lparr>bt_order := []\<rparr>)" "\<not> (bt_over b1 \<or> length (bt_items b1) = length (bt_items b))"
  then show "((maxOps, b1), maxOps, b) \<in> measure (\<lambda>(_, b). waiting (bt_map b))"
    using visit_slots_waiting[of maxOps "bt_order b" "b\<lparr>bt_order := []\<rparr>"] visit_slots_items[of maxOps "bt_order b" "b\<lparr>bt_order := []\<rparr>"]
    by (auto simp flip: length_greater_0_conv)
qed simp

declare take_rounds.simps [simp del]

definition popPrepareBatch :: "journal_config \<Rightarrow> journal_shard \<Rightarrow> prepare_intent list \<times> int \<times> int \<times> journal_shard" where
  "popPrepareBatch cfg sh =
     (if sh_prepareN sh = 0 \<or> sh_prepareSeq sh = [] then ([], 0, 0, sh)
      else let b = take_rounds (jc_batchMaxOps cfg) \<lparr>bt_map = sh_prepareMap sh, bt_items = [], bt_bytes = 0, bt_count = 0,
                     bt_order = sh_prepareSeq sh, bt_over = False\<rparr>
           in (bt_items b, bt_bytes b, bt_count b,
               sh\<lparr>sh_prepareMap := bt_map b, sh_prepareSeq := bt_order b, sh_prepareN := sh_prepareN sh - bt_count b,
                  sh_prepareBytes := sh_prepareBytes sh - bt_bytes b\<rparr>))"

text \<open>\<open>popWatermarkBatch\<close> and \<open>popConfirmBatch\<close> take coalesced entries in the same way, 64 bytes each.\<close>

fun pop_entries :: "int \<Rightarrow> int \<Rightarrow> int \<Rightarrow> ('k, 'v) fmap \<Rightarrow> 'k list \<Rightarrow> 'v list \<times> ('k, 'v) fmap \<times> 'k list \<times> int" where
  "pop_entries ops bytes count m [] = ([], m, [], count)"
| "pop_entries ops bytes count m (k # ks) =
     (case fmlookup m k of
        None \<Rightarrow> pop_entries ops bytes count m ks
      | Some entry \<Rightarrow>
          if count > 0 \<and> (count \<ge> ops \<or> (count + 1) * 64 > bytes) then ([], m, k # ks, count)
          else if count + 1 \<ge> ops \<or> (count + 1) * 64 \<ge> bytes then ([entry], fmdrop k m, ks, count + 1)
          else (case pop_entries ops bytes (count + 1) (fmdrop k m) ks of
                  (es, m', ks', n) \<Rightarrow> (entry # es, m', ks', n)))"

definition popWatermarkBatch :: "int \<Rightarrow> int \<Rightarrow> bool \<Rightarrow> journal_shard \<Rightarrow> pending_watermark list \<times> int \<times> journal_shard" where
  "popWatermarkBatch remainingOps remainingBytes allow sh =
     (if \<not> allow \<or> remainingOps \<le> 0 \<or> remainingBytes \<le> 0 \<or> sh_watermarkSeq sh = [] then ([], 0, sh)
      else case pop_entries remainingOps remainingBytes 0 (sh_watermarks sh) (sh_watermarkSeq sh) of
             (es, m, ks, n) \<Rightarrow> (es, n, sh\<lparr>sh_watermarks := m, sh_watermarkSeq := ks\<rparr>))"

definition popConfirmBatch :: "int \<Rightarrow> int \<Rightarrow> bool \<Rightarrow> journal_shard \<Rightarrow> pending_confirm list \<times> int \<times> journal_shard" where
  "popConfirmBatch remainingOps remainingBytes allow sh =
     (if \<not> allow \<or> remainingOps \<le> 0 \<or> remainingBytes \<le> 0 \<or> sh_confirmSeq sh = [] then ([], 0, sh)
      else case pop_entries remainingOps remainingBytes 0 (sh_confirms sh) (sh_confirmSeq sh) of
             (es, m, ks, n) \<Rightarrow> (es, n, sh\<lparr>sh_confirms := m, sh_confirmSeq := ks\<rparr>))"

text \<open>The commit ranges of heads go first, at most eight of them; everything else keeps its place.\<close>

fun pop_head_ranges :: "int \<Rightarrow> int \<Rightarrow> int \<Rightarrow> (watermark_key, pending_watermark) fmap \<Rightarrow> watermark_key list
    \<Rightarrow> pending_watermark list \<times> (watermark_key, pending_watermark) fmap \<times> watermark_key list \<times> int" where
  "pop_head_ranges limit bytes count m [] = ([], m, [], count)"
| "pop_head_ranges limit bytes count m (k # ks) =
     (case fmlookup m k of
        None \<Rightarrow> pop_head_ranges limit bytes count m ks
      | Some entry \<Rightarrow>
          if fst k \<noteq> journalRecordTypeHeadCommitRange \<or> count \<ge> limit \<or> (count + 1) * 64 > bytes
          then (case pop_head_ranges limit bytes count m ks of (es, m', ks', n) \<Rightarrow> (es, m', k # ks', n))
          else (case pop_head_ranges limit bytes (count + 1) (fmdrop k m) ks of
                  (es, m', ks', n) \<Rightarrow> (entry # es, m', ks', n)))"

definition popPriorityHeadRangeBatch :: "int \<Rightarrow> int \<Rightarrow> journal_shard \<Rightarrow> pending_watermark list \<times> int \<times> journal_shard" where
  "popPriorityHeadRangeBatch remainingOps remainingBytes sh =
     (let limit = min remainingOps defaultJournalPriorityWatermarks
      in if remainingOps \<le> 0 \<or> remainingBytes \<le> 0 \<or> sh_watermarkSeq sh = [] \<or> limit \<le> 0 then ([], 0, sh)
         else case pop_head_ranges limit remainingBytes 0 (sh_watermarks sh) (sh_watermarkSeq sh) of
                (es, m, ks, n) \<Rightarrow> if n = 0 then ([], 0, sh) else (es, n, sh\<lparr>sh_watermarks := m, sh_watermarkSeq := ks\<rparr>))"

section \<open>Flushing\<close>

definition item_record :: "batch_item \<Rightarrow> journal_record" where
  "item_record item =
     (case item of
        ItemPrepare i \<Rightarrow> journalRecordFromPrepare (pi_prepare i)
      | ItemWatermark e \<Rightarrow>
          (if pm_recordType e = journalRecordTypeHeadCommitRange
           then journalRecordFromHeadCommitRange (pm_assignment e) (pm_sequence e)
           else journalRecordFromCommitWatermark (pm_assignment e) (pm_sequence e))
      | ItemConfirm e \<Rightarrow> journalRecordFromUpstreamConfirm (pc_assignment e) (pc_sequence e))"

definition answers :: "storage_err option \<Rightarrow> batch_item \<Rightarrow> answer list" where
  "answers err item =
     (case item of
        ItemPrepare i \<Rightarrow> [AnsPrepare i err]
      | ItemWatermark e \<Rightarrow> map (\<lambda>i. AnsWatermark i err) (pm_intents e)
      | ItemConfirm e \<Rightarrow> map (\<lambda>i. AnsConfirm i err) (pc_intents e))"

text \<open>The context of an intent; the answers to those whose context is cancelled come first.\<close>

type_synonym contexts = "nat \<Rightarrow> storage_err option"

definition cancelled_answers :: "contexts \<Rightarrow> batch_item \<Rightarrow> answer list" where
  "cancelled_answers ctx item =
     (case item of
        ItemPrepare i \<Rightarrow> (case ctx (pi_handler i) of None \<Rightarrow> [] | Some e \<Rightarrow> [AnsPrepare i (Some e)])
      | ItemWatermark e \<Rightarrow> List.map_filter (\<lambda>i. map_option (\<lambda>err. AnsWatermark i (Some err)) (ctx (wi_handler i))) (pm_intents e)
      | ItemConfirm e \<Rightarrow> List.map_filter (\<lambda>i. map_option (\<lambda>err. AnsConfirm i (Some err)) (ctx (ci_handler i))) (pc_intents e))"

text \<open>An item all of whose intents are cancelled puts no record into the batch.\<close>

definition recorded :: "contexts \<Rightarrow> batch_item \<Rightarrow> bool" where
  "recorded ctx item =
     (case item of
        ItemPrepare i \<Rightarrow> ctx (pi_handler i) = None
      | ItemWatermark e \<Rightarrow> list_ex (\<lambda>i. ctx (wi_handler i) = None) (pm_intents e)
      | ItemConfirm e \<Rightarrow> list_ex (\<lambda>i. ctx (ci_handler i) = None) (pc_intents e))"

definition raise_mark :: "int \<Rightarrow> u64 \<Rightarrow> (int, u64) fmap \<Rightarrow> (int, u64) fmap" where
  "raise_mark slot sequence m = (if fm_get 0 m slot < sequence then fmupd slot sequence m else m)"

definition markCommitted :: "int \<Rightarrow> u64 \<Rightarrow> journal_shard \<Rightarrow> journal_shard" where
  "markCommitted slot sequence sh = sh\<lparr>sh_highWater := raise_mark slot sequence (sh_highWater sh)\<rparr>"

definition markPrepared :: "int \<Rightarrow> u64 \<Rightarrow> journal_shard \<Rightarrow> journal_shard" where
  "markPrepared slot sequence sh = sh\<lparr>sh_prepareHigh := raise_mark slot sequence (sh_prepareHigh sh)\<rparr>"

definition journal_dropSlot :: "int \<Rightarrow> journal_shard \<Rightarrow> journal_shard" where
  "journal_dropSlot slot sh = sh\<lparr>sh_highWater := fmdrop slot (sh_highWater sh), sh_prepareHigh := fmdrop slot (sh_prepareHigh sh)\<rparr>"

definition complete_item :: "batch_item \<Rightarrow> journal_shard \<Rightarrow> journal_shard" where
  "complete_item item sh =
     (let sh1 = (case item of
                   ItemPrepare i \<Rightarrow> markPrepared (pi_slot i) (wo_Sequence (dc_Operation (pi_prepare i))) sh
                 | ItemWatermark e \<Rightarrow> markCommitted (ra_Slot (pm_assignment e)) (pm_sequence e) sh
                 | ItemConfirm e \<Rightarrow> sh)
      in sh1\<lparr>sh_out := sh_out sh1 @ answers None item\<rparr>)"

text \<open>The batch of a flush: head commit ranges, prepares, other marks, confirmations.\<close>

definition take_batch :: "journal_config \<Rightarrow> journal_shard \<Rightarrow> batch_item list \<times> journal_shard" where
  "take_batch cfg sh =
     (let ops = jc_batchMaxOps cfg; bytes = defaultJournalBatchMaxBytes;
          (heads, headCount, sh1) = popPriorityHeadRangeBatch ops bytes sh;
          ops1 = ops - headCount; bytes1 = bytes - headCount * 64;
          (prepares, prepareBytes, prepareCount, sh2) = popPrepareBatch cfg sh1;
          ops2 = ops1 - prepareCount; bytes2 = bytes1 - prepareBytes;
          (marks, markCount, sh3) = popWatermarkBatch ops2 bytes2 (prepareCount = 0 \<or> ops2 > 0) sh2;
          ops3 = ops2 - markCount; bytes3 = bytes2 - markCount * 64;
          (confirms, _, sh4) = popConfirmBatch ops3 bytes3 (prepareCount = 0 \<or> ops3 > 0) sh3
      in (map ItemWatermark heads @ map ItemPrepare prepares @ map ItemWatermark marks @ map ItemConfirm confirms, sh4))"

definition flush :: "journal_config \<Rightarrow> contexts \<Rightarrow> storage_err option \<Rightarrow> journal_shard \<Rightarrow> journal_shard" where
  "flush cfg ctx appendErr sh =
     (if sh_prepareN sh = 0 \<and> sh_watermarks sh = fmempty \<and> sh_confirms sh = fmempty then sh\<lparr>sh_timer := False\<rparr>
      else case take_batch cfg (sh\<lparr>sh_timer := False\<rparr>) of (items, sh1) \<Rightarrow>
        let sh2 = sh1\<lparr>sh_out := sh_out sh1 @ concat (map (cancelled_answers ctx) items)\<rparr>;
            records = map item_record (filter (recorded ctx) items)
        in if records = [] then sh2
           else case appendErr of
                  Some err \<Rightarrow> sh2\<lparr>sh_out := sh_out sh2 @ concat (map (answers (Some err)) items)\<rparr>
                | None \<Rightarrow> fold complete_item items (sh2\<lparr>sh_journal := sh_journal sh2 @ records\<rparr>))"

text \<open>Closing the shard cancels whoever still waits.\<close>

definition close_shard :: "storage_err \<Rightarrow> journal_shard \<Rightarrow> journal_shard" where
  "close_shard canceled sh = sh\<lparr>sh_out := sh_out sh @
     concat (map (\<lambda>slot. map (\<lambda>i. AnsPrepare i (Some canceled)) (fm_get [] (sh_prepareMap sh) slot)) (sh_prepareSeq sh)) @
     concat (map (\<lambda>k. case fmlookup (sh_watermarks sh) k of None \<Rightarrow> [] | Some e \<Rightarrow> answers (Some canceled) (ItemWatermark e)) (sh_watermarkSeq sh)) @
     concat (map (\<lambda>k. case fmlookup (sh_confirms sh) k of None \<Rightarrow> [] | Some e \<Rightarrow> answers (Some canceled) (ItemConfirm e)) (sh_confirmSeq sh))\<rparr>"

text \<open>
  What \<open>run\<close> does with an intent it receives: queue it, start the timer when it is all there is,
  flush at once when the channels are empty and more than one thing waits, or when the prepares
  fill a batch.  \<open>queued\<close> is what the channels still hold.
\<close>

definition after_receive :: "journal_config \<Rightarrow> contexts \<Rightarrow> storage_err option \<Rightarrow> int \<Rightarrow> journal_shard \<Rightarrow> journal_shard" where
  "after_receive cfg ctx appendErr queued sh =
     (let depth = queued + sh_prepareN sh + int (fcard (fmdom (sh_watermarks sh))) + int (fcard (fmdom (sh_confirms sh)));
          sh1 = (if depth = 1 then sh\<lparr>sh_timer := True\<rparr> else sh)
      in if depth > 1 \<and> queued = 0 then flush cfg ctx appendErr sh1
         else if sh_prepareN sh1 \<ge> jc_batchMaxOps cfg \<or> sh_prepareBytes sh1 \<ge> defaultJournalBatchMaxBytes
         then flush cfg ctx appendErr sh1
         else sh1)"

datatype shard_event =
    ReceivePrepare prepare_intent int
  | ReceiveWatermark watermark_intent int
  | ReceiveConfirm confirm_intent int
  | TimerFires
  | DropSlot int

definition shard_step :: "journal_config \<Rightarrow> contexts \<Rightarrow> storage_err option \<Rightarrow> shard_event \<Rightarrow> journal_shard \<Rightarrow> journal_shard" where
  "shard_step cfg ctx appendErr ev sh =
     (case ev of
        ReceivePrepare i queued \<Rightarrow> after_receive cfg ctx appendErr queued (enqueuePendingPrepare i sh)
      | ReceiveWatermark i queued \<Rightarrow> after_receive cfg ctx appendErr queued (enqueuePendingWatermark i sh)
      | ReceiveConfirm i queued \<Rightarrow> after_receive cfg ctx appendErr queued (enqueuePendingConfirm i sh)
      | TimerFires \<Rightarrow> if sh_timer sh then flush cfg ctx appendErr sh else sh
      | DropSlot slot \<Rightarrow> journal_dropSlot slot sh)"

text \<open>
  A run of the loop while the node lives: nothing is cancelled, and every event comes with what
  the journal would answer to an append.
\<close>

definition run_shard :: "journal_config \<Rightarrow> (shard_event \<times> storage_err option) list \<Rightarrow> journal_shard \<Rightarrow> journal_shard" where
  "run_shard cfg = fold (\<lambda>(ev, appendErr). shard_step cfg (\<lambda>_. None) appendErr ev)"

end
