(* ===== verification/Journal_Order.thy ===== *)
theory Journal_Order
  imports Commit_Journal
begin

text \<open>
  The queues of a journal shard keep the order of what is submitted: what a batch takes from the
  queue of a slot, or of a slot and chain version, followed by what stays, is what was there, and
  the order lists name exactly the queues that hold something.
\<close>

section \<open>Submissions and answers\<close>

definition prepares_of :: "int \<Rightarrow> shard_event list \<Rightarrow> prepare_intent list" where
  "prepares_of slot evs = List.map_filter (\<lambda>ev. case ev of
     ReceivePrepare i _ \<Rightarrow> if pi_slot i = slot then Some i else None | _ \<Rightarrow> None) evs"

definition watermarks_of :: "watermark_key \<Rightarrow> shard_event list \<Rightarrow> watermark_intent list" where
  "watermarks_of k evs = List.map_filter (\<lambda>ev. case ev of
     ReceiveWatermark i _ \<Rightarrow> if wi_key i = k then Some i else None | _ \<Rightarrow> None) evs"

definition confirms_of :: "confirm_key \<Rightarrow> shard_event list \<Rightarrow> confirm_intent list" where
  "confirms_of k evs = List.map_filter (\<lambda>ev. case ev of
     ReceiveConfirm i _ \<Rightarrow> if ci_key i = k then Some i else None | _ \<Rightarrow> None) evs"

definition answered_prepares :: "int \<Rightarrow> answer list \<Rightarrow> prepare_intent list" where
  "answered_prepares slot out = List.map_filter (\<lambda>a. case a of
     AnsPrepare i _ \<Rightarrow> if pi_slot i = slot then Some i else None | _ \<Rightarrow> None) out"

definition answered_watermarks :: "watermark_key \<Rightarrow> answer list \<Rightarrow> watermark_intent list" where
  "answered_watermarks k out = List.map_filter (\<lambda>a. case a of
     AnsWatermark i _ \<Rightarrow> if wi_key i = k then Some i else None | _ \<Rightarrow> None) out"

definition answered_confirms :: "confirm_key \<Rightarrow> answer list \<Rightarrow> confirm_intent list" where
  "answered_confirms k out = List.map_filter (\<lambda>a. case a of
     AnsConfirm i _ \<Rightarrow> if ci_key i = k then Some i else None | _ \<Rightarrow> None) out"

definition waiting_watermarks :: "watermark_key \<Rightarrow> journal_shard \<Rightarrow> watermark_intent list" where
  "waiting_watermarks k sh = (case fmlookup (sh_watermarks sh) k of None \<Rightarrow> [] | Some e \<Rightarrow> pm_intents e)"

definition waiting_confirms :: "confirm_key \<Rightarrow> journal_shard \<Rightarrow> confirm_intent list" where
  "waiting_confirms k sh = (case fmlookup (sh_confirms sh) k of None \<Rightarrow> [] | Some e \<Rightarrow> pc_intents e)"

lemmas submission_defs = prepares_of_def watermarks_of_def confirms_of_def
lemmas answer_defs = answered_prepares_def answered_watermarks_def answered_confirms_def

lemma map_filter_append: "List.map_filter f (xs @ ys) = List.map_filter f xs @ List.map_filter f ys"
  by (induction xs) (auto simp: List.map_filter_simps split: option.split)

lemma map_filter_filter: "List.map_filter (\<lambda>x. if P x then Some x else None) xs = filter P xs"
  by (induction xs) (auto simp: List.map_filter_simps)

lemma answered_append [simp]:
  "answered_prepares s (xs @ ys) = answered_prepares s xs @ answered_prepares s ys"
  "answered_watermarks k (xs @ ys) = answered_watermarks k xs @ answered_watermarks k ys"
  "answered_confirms c (xs @ ys) = answered_confirms c xs @ answered_confirms c ys"
  by (simp_all add: answer_defs map_filter_append)

lemma answered_Nil [simp]: "answered_prepares s [] = []" "answered_watermarks k [] = []" "answered_confirms c [] = []"
  by (simp_all add: answer_defs List.map_filter_simps)

section \<open>The invariant of the queues\<close>

text \<open>Queued intents belong where they are, and a coalesced entry stands for all of its intents.\<close>

definition queued_ok :: "(int, prepare_intent list) fmap \<Rightarrow> bool" where
  "queued_ok m \<longleftrightarrow> (\<forall>slot. \<forall>i \<in> set (fm_get [] m slot). pi_slot i = slot)"

definition marks_ok :: "(watermark_key, pending_watermark) fmap \<Rightarrow> bool" where
  "marks_ok m \<longleftrightarrow> (\<forall>k e. fmlookup m k = Some e \<longrightarrow>
     (pm_recordType e, ra_Slot (pm_assignment e), ra_ChainVersion (pm_assignment e)) = k \<and> pm_intents e \<noteq> [] \<and>
     (\<forall>i \<in> set (pm_intents e). wi_key i = k \<and> wi_sequence i \<le> pm_sequence e))"

definition confirms_ok :: "(confirm_key, pending_confirm) fmap \<Rightarrow> bool" where
  "confirms_ok m \<longleftrightarrow> (\<forall>k e. fmlookup m k = Some e \<longrightarrow>
     (ra_Slot (pc_assignment e), ra_ChainVersion (pc_assignment e)) = k \<and> pc_intents e \<noteq> [] \<and>
     (\<forall>i \<in> set (pc_intents e). ci_key i = k \<and> ci_sequence i \<le> pc_sequence e))"

definition queues_ok :: "journal_shard \<Rightarrow> bool" where
  "queues_ok sh \<longleftrightarrow> queued_ok (sh_prepareMap sh) \<and> marks_ok (sh_watermarks sh) \<and> confirms_ok (sh_confirms sh)"

definition item_ok :: "batch_item \<Rightarrow> bool" where
  "item_ok item = (case item of
     ItemPrepare i \<Rightarrow> True
   | ItemWatermark e \<Rightarrow> pm_intents e \<noteq> [] \<and> (\<forall>i \<in> set (pm_intents e).
       wi_key i = (pm_recordType e, ra_Slot (pm_assignment e), ra_ChainVersion (pm_assignment e)) \<and> wi_sequence i \<le> pm_sequence e)
   | ItemConfirm e \<Rightarrow> pc_intents e \<noteq> [] \<and> (\<forall>i \<in> set (pc_intents e).
       ci_key i = (ra_Slot (pc_assignment e), ra_ChainVersion (pc_assignment e)) \<and> ci_sequence i \<le> pc_sequence e))"

lemma enqueue_ok:
  assumes "queues_ok sh"
  shows "queues_ok (enqueuePendingPrepare p sh)" "queues_ok (enqueuePendingWatermark w sh)" "queues_ok (enqueuePendingConfirm c sh)"
proof -
  show "queues_ok (enqueuePendingPrepare p sh)"
    using assms by (auto simp: queues_ok_def queued_ok_def enqueuePendingPrepare_def Let_def)
  show "queues_ok (enqueuePendingWatermark w sh)"
    using assms unfolding queues_ok_def marks_ok_def
    by (auto simp: enqueuePendingWatermark_def Let_def wi_key_def split: option.split) (force dest: order_less_imp_le order_trans)+
  show "queues_ok (enqueuePendingConfirm c sh)"
    using assms unfolding queues_ok_def confirms_ok_def
    by (auto simp: enqueuePendingConfirm_def Let_def ci_key_def split: option.split) (force dest: order_less_imp_le order_trans)+
qed

section \<open>Taking a batch keeps the order\<close>

definition slot_items :: "int \<Rightarrow> prepare_intent list \<Rightarrow> prepare_intent list" where
  "slot_items slot is = filter (\<lambda>i. pi_slot i = slot) is"

lemma queued_ok_drop: "queued_ok m \<Longrightarrow> queued_ok (fmdrop slot m)"
  by (simp add: queued_ok_def)

lemma queued_ok_rest:
  assumes "queued_ok m" "fm_get [] m slot = i # q"
  shows "pi_slot i = slot" "queued_ok (if q = [] then fmdrop slot m else fmupd slot q m)"
proof -
  have s: "\<forall>x \<in> set (i # q). pi_slot x = slot" using assms by (metis queued_ok_def)
  then show "pi_slot i = slot" by simp
  show "queued_ok (if q = [] then fmdrop slot m else fmupd slot q m)" using assms(1) s by (auto simp: queued_ok_def)
qed

lemma visit_slots_order:
  assumes "queued_ok (bt_map b)"
  shows "queued_ok (bt_map (visit_slots maxOps order b)) \<and>
    slot_items s (bt_items (visit_slots maxOps order b)) @ fm_get [] (bt_map (visit_slots maxOps order b)) s =
      slot_items s (bt_items b) @ fm_get [] (bt_map b) s"
  using assms
proof (induction maxOps order b rule: visit_slots.induct)
  case (2 maxOps slot rest b)
  show ?case
  proof (cases "fm_get [] (bt_map b) slot")
    case Nil
    have "queued_ok (bt_map (b\<lparr>bt_map := fmdrop slot (bt_map b)\<rparr>))" using "2.prems" by (simp add: queued_ok_drop)
    from "2.IH"(1)[OF Nil this] Nil show ?thesis by (cases "s = slot") simp_all
  next
    case (Cons intent queue)
    let ?m = "if queue = [] then fmdrop slot (bt_map b) else fmupd slot queue (bt_map b)"
    have m: "fm_get [] ?m s = (if s = slot then queue else fm_get [] (bt_map b) s)" by simp
    note r = queued_ok_rest[OF "2.prems" Cons]
    have step: "slot_items s (bt_items b @ [intent]) @ fm_get [] ?m s = slot_items s (bt_items b) @ fm_get [] (bt_map b) s"
      using Cons r(1) unfolding m by (simp add: slot_items_def)
    show ?thesis using "2.IH"(2)[OF Cons refl] "2.prems" r(2) step Cons by (simp add: Let_def del: fm_get_simps)
  qed
qed simp

lemma take_rounds_order:
  assumes "queued_ok (bt_map b)"
  shows "queued_ok (bt_map (take_rounds maxOps b)) \<and>
    slot_items s (bt_items (take_rounds maxOps b)) @ fm_get [] (bt_map (take_rounds maxOps b)) s =
      slot_items s (bt_items b) @ fm_get [] (bt_map b) s"
  using assms
proof (induction maxOps b rule: take_rounds.induct)
  case (1 maxOps b)
  let ?b = "visit_slots maxOps (bt_order b) (b\<lparr>bt_order := []\<rparr>)"
  have v: "queued_ok (bt_map ?b)"
    "slot_items s (bt_items ?b) @ fm_get [] (bt_map ?b) s = slot_items s (bt_items b) @ fm_get [] (bt_map b) s"
    using visit_slots_order[of "b\<lparr>bt_order := []\<rparr>" maxOps "bt_order b" s] "1.prems" by simp_all
  have eq: "take_rounds maxOps b = (if bt_order b = [] \<or> bt_count b \<ge> maxOps \<or> bt_bytes b \<ge> defaultJournalBatchMaxBytes then b
    else if bt_over ?b \<or> length (bt_items ?b) = length (bt_items b) then ?b else take_rounds maxOps ?b)"
    by (subst take_rounds.simps) (simp add: Let_def)
  show ?case
  proof (cases "bt_order b = [] \<or> bt_count b \<ge> maxOps \<or> bt_bytes b \<ge> defaultJournalBatchMaxBytes")
    case True
    then show ?thesis using "1.prems" unfolding eq by simp
  next
    case False
    then show ?thesis using "1.IH"[OF False refl] v unfolding eq by auto
  qed
qed

lemma popPrepare_order:
  assumes "popPrepareBatch cfg sh = (is, bytes, n, sh')" "queued_ok (sh_prepareMap sh)"
  shows "queued_ok (sh_prepareMap sh')" "slot_items s is @ fm_get [] (sh_prepareMap sh') s = fm_get [] (sh_prepareMap sh) s"
    "sh_watermarks sh' = sh_watermarks sh" "sh_confirms sh' = sh_confirms sh" "sh_out sh' = sh_out sh"
    "sh_journal sh' = sh_journal sh" "sh_highWater sh' = sh_highWater sh"
  using assms take_rounds_order[of "\<lparr>bt_map = sh_prepareMap sh, bt_items = [], bt_bytes = 0, bt_count = 0,
      bt_order = sh_prepareSeq sh, bt_over = False\<rparr>" "jc_batchMaxOps cfg" s]
  by (auto simp: popPrepareBatch_def Let_def slot_items_def split: if_splits)

text \<open>Entries leave the map of pending entries as they are, the rest of the map stays.\<close>

definition popped :: "'k list \<Rightarrow> ('k, 'v) fmap \<Rightarrow> 'v list \<Rightarrow> ('k, 'v) fmap \<Rightarrow> bool" where
  "popped ks m es m' \<longleftrightarrow> distinct ks \<and> map Some es = map (fmlookup m) ks \<and>
     (\<forall>k. fmlookup m' k = (if k \<in> set ks then None else fmlookup m k))"

lemma popped_Nil: "popped [] m [] m"
  by (simp add: popped_def)

lemma popped_Cons: "fmlookup m k = Some e \<Longrightarrow> popped ks (fmdrop k m) es m' \<Longrightarrow> popped (k # ks) m (e # es) m'"
proof -
  assume k: "fmlookup m k = Some e" and p: "popped ks (fmdrop k m) es m'"
  have "k \<notin> set ks"
  proof
    assume "k \<in> set ks"
    then have "None \<in> set (map (fmlookup (fmdrop k m)) ks)" by (force simp: image_iff)
    then have "None \<in> set (map Some es)" using p by (simp add: popped_def)
    then show False by auto
  qed
  moreover from this have "map (fmlookup (fmdrop k m)) ks = map (fmlookup m) ks" by (auto simp: map_eq_conv)
  ultimately show ?thesis using k p by (auto simp: popped_def)
qed

lemma pop_entries_popped: "pop_entries ops bytes count m ks = (es, m', ks', n) \<Longrightarrow> \<exists>ps. popped ps m es m'"
proof (induction ops bytes count m ks arbitrary: es n rule: pop_entries.induct)
  case (1 ops bytes count m)
  then show ?case using popped_Nil[of m] by auto
next
  case (2 ops bytes count m k ks)
  show ?case
  proof (cases "fmlookup m k")
    case None
    then show ?thesis using "2.IH"(1)[OF None] "2.prems" by simp
  next
    case (Some entry)
    show ?thesis
    proof (cases "count > 0 \<and> (count \<ge> ops \<or> (count + 1) * 64 > bytes)")
      case True
      then have "es = []" "m' = m" using "2.prems" Some by simp_all
      then show ?thesis using popped_Nil[of m] by blast
    next
      case False
      note F = False
      show ?thesis
      proof (cases "count + 1 \<ge> ops \<or> (count + 1) * 64 \<ge> bytes")
        case True
        then have "es = [entry]" "m' = fmdrop k m" using "2.prems" Some F by (simp_all only: pop_entries.simps option.case if_False if_True prod.inject)
        then show ?thesis using popped_Cons[OF Some popped_Nil] by blast
      next
        case False
        obtain es' n' where r: "pop_entries ops bytes (count + 1) (fmdrop k m) ks = (es', m', ks', n')" "es = entry # es'"
          using "2.prems" Some F False by (auto simp only: pop_entries.simps option.case if_False prod.inject split: prod.splits)
        from "2.IH"(2)[OF Some F False r(1)] obtain ps where "popped ps (fmdrop k m) es' m'" by blast
        from popped_Cons[OF Some this] show ?thesis unfolding r(2) by blast
      qed
    qed
  qed
qed

lemma pop_head_ranges_popped: "pop_head_ranges limit bytes count m ks = (es, m', ks', n) \<Longrightarrow> \<exists>ps. popped ps m es m'"
proof (induction limit bytes count m ks arbitrary: es ks' n rule: pop_head_ranges.induct)
  case (1 limit bytes count m)
  then show ?case using popped_Nil[of m] by auto
next
  case (2 limit bytes count m k ks)
  show ?case
  proof (cases "fmlookup m k")
    case None
    then show ?thesis using "2.IH"(1)[OF None] "2.prems" by simp
  next
    case (Some entry)
    show ?thesis
    proof (cases "fst k \<noteq> journalRecordTypeHeadCommitRange \<or> count \<ge> limit \<or> (count + 1) * 64 > bytes")
      case True
      obtain ks'' where "pop_head_ranges limit bytes count m ks = (es, m', ks'', n)"
        using "2.prems" Some True by (auto simp only: pop_head_ranges.simps option.case if_True prod.inject split: prod.splits)
      from "2.IH"(2)[OF Some True this] show ?thesis .
    next
      case False
      obtain es' where r: "pop_head_ranges limit bytes (count + 1) (fmdrop k m) ks = (es', m', ks', n)" "es = entry # es'"
        using "2.prems" Some False by (auto simp only: pop_head_ranges.simps option.case if_False prod.inject split: prod.splits)
      from "2.IH"(3)[OF Some False r(1)] obtain ps where "popped ps (fmdrop k m) es' m'" by blast
      from popped_Cons[OF Some this] show ?thesis unfolding r(2) by blast
    qed
  qed
qed

lemma popped_keys:
  assumes "distinct ks" "\<forall>k \<in> set ks. \<forall>i \<in> set (f k). key i = k"
  shows "filter (\<lambda>i. key i = k) (concat (map f ks)) = (if k \<in> set ks then f k else [])"
  using assms
proof (induction ks)
  case (Cons k0 ks)
  have "filter (\<lambda>i. key i = k) (f k0) = (if k = k0 then f k0 else [])"
    using Cons.prems(2) by (auto intro: filter_True filter_False)
  then show ?case using Cons by auto
qed simp

lemma popped_entries: "popped ks m es m' \<Longrightarrow> e \<in> set es \<Longrightarrow> \<exists>k. fmlookup m k = Some e"
proof -
  assume p: "popped ks m es m'" and e: "e \<in> set es"
  have "set (map Some es) = set (map (fmlookup m) ks)" using p by (simp add: popped_def)
  then have "Some ` set es = fmlookup m ` set ks" by simp
  then have "Some e \<in> fmlookup m ` set ks" using e by blast
  then show ?thesis by auto
qed

lemma popped_found:
  assumes "popped ks m es m'" "k \<in> set ks"
  shows "\<exists>e. fmlookup m k = Some e"
proof -
  have "set (map Some es) = set (map (fmlookup m) ks)" using assms by (simp add: popped_def)
  then have "fmlookup m k \<in> Some ` set es" using assms(2) by auto
  then show ?thesis by auto
qed

lemma popped_order:
  assumes p: "popped ks m es m'" and key: "\<And>k e. fmlookup m k = Some e \<Longrightarrow> \<forall>i \<in> set (ints e). key i = k"
  shows "filter (\<lambda>i. key i = k) (concat (map ints es)) @ (case fmlookup m' k of None \<Rightarrow> [] | Some e \<Rightarrow> ints e) =
    (case fmlookup m k of None \<Rightarrow> [] | Some e \<Rightarrow> ints e)"
proof -
  let ?f = "\<lambda>k. ints (the (fmlookup m k))"
  have d: "distinct ks" and "map the (map Some es) = map the (map (fmlookup m) ks)" using p by (simp_all add: popped_def)
  then have "map ints es = map ?f ks" by (simp add: comp_def)
  moreover have "\<forall>k \<in> set ks. \<forall>i \<in> set (?f k). key i = k" using popped_found[OF p] key by fastforce
  ultimately have "filter (\<lambda>i. key i = k) (concat (map ints es)) = (if k \<in> set ks then ?f k else [])"
    using popped_keys[OF d, of ?f key k] by simp
  then show ?thesis using p popped_found[OF p, of k] by (auto simp: popped_def)
qed

lemma popped_rest: "popped ks m es m' \<Longrightarrow> fmlookup m' k = Some e \<Longrightarrow> fmlookup m k = Some e"
  by (auto simp: popped_def split: if_splits)

lemma popped_marks_ok: "popped ks m es m' \<Longrightarrow> marks_ok m \<Longrightarrow> marks_ok m' \<and> (\<forall>e \<in> set es. item_ok (ItemWatermark e))"
proof -
  assume p: "popped ks m es m'" and ok: "marks_ok m"
  have "item_ok (ItemWatermark e)" if "e \<in> set es" for e
    using popped_entries[OF p that] ok by (auto simp: marks_ok_def item_ok_def)
  then show ?thesis using ok popped_rest[OF p] unfolding marks_ok_def by blast
qed

lemma popped_confirms_ok: "popped ks m es m' \<Longrightarrow> confirms_ok m \<Longrightarrow> confirms_ok m' \<and> (\<forall>e \<in> set es. item_ok (ItemConfirm e))"
proof -
  assume p: "popped ks m es m'" and ok: "confirms_ok m"
  have "item_ok (ItemConfirm e)" if "e \<in> set es" for e
    using popped_entries[OF p that] ok by (auto simp: confirms_ok_def item_ok_def)
  then show ?thesis using ok popped_rest[OF p] unfolding confirms_ok_def by blast
qed

section \<open>A batch as answers\<close>

lemma answered_maps [simp]:
  "answered_prepares s (concat (map (answers err) (map ItemPrepare ps))) = slot_items s ps"
  "answered_prepares s (concat (map (answers err) (map ItemWatermark ws))) = []"
  "answered_prepares s (concat (map (answers err) (map ItemConfirm cs))) = []"
  "answered_watermarks k (concat (map (answers err) (map ItemPrepare ps))) = []"
  "answered_watermarks k (concat (map (answers err) (map ItemWatermark ws))) = filter (\<lambda>i. wi_key i = k) (concat (map pm_intents ws))"
  "answered_watermarks k (concat (map (answers err) (map ItemConfirm cs))) = []"
  "answered_confirms c (concat (map (answers err) (map ItemPrepare ps))) = []"
  "answered_confirms c (concat (map (answers err) (map ItemWatermark ws))) = []"
  "answered_confirms c (concat (map (answers err) (map ItemConfirm cs))) = filter (\<lambda>i. ci_key i = c) (concat (map pc_intents cs))"
proof -
  have w: "answered_prepares s (map (\<lambda>i. AnsWatermark i err) xs) = []" "answered_confirms c (map (\<lambda>i. AnsWatermark i err) xs) = []"
    "answered_watermarks k (map (\<lambda>i. AnsWatermark i err) xs) = filter (\<lambda>i. wi_key i = k) xs" for xs
    by (induction xs) (simp_all add: answer_defs List.map_filter_simps)
  have c: "answered_prepares s (map (\<lambda>i. AnsConfirm i err) xs) = []" "answered_watermarks k (map (\<lambda>i. AnsConfirm i err) xs) = []"
    "answered_confirms c (map (\<lambda>i. AnsConfirm i err) xs) = filter (\<lambda>i. ci_key i = c) xs" for xs
    by (induction xs) (simp_all add: answer_defs List.map_filter_simps)
  have p: "answered_prepares s (AnsPrepare i err # out) = slot_items s [i] @ answered_prepares s out"
    "answered_watermarks k (AnsPrepare i err # out) = answered_watermarks k out"
    "answered_confirms c (AnsPrepare i err # out) = answered_confirms c out" for i out
    by (simp_all add: answer_defs List.map_filter_simps slot_items_def)
  show "answered_prepares s (concat (map (answers err) (map ItemPrepare ps))) = slot_items s ps"
    by (induction ps) (simp_all add: answers_def p slot_items_def)
  show "answered_prepares s (concat (map (answers err) (map ItemWatermark ws))) = []"
    "answered_watermarks k (concat (map (answers err) (map ItemWatermark ws))) = filter (\<lambda>i. wi_key i = k) (concat (map pm_intents ws))"
    "answered_confirms c (concat (map (answers err) (map ItemWatermark ws))) = []"
    by (induction ws) (simp_all add: answers_def w)
  show "answered_prepares s (concat (map (answers err) (map ItemConfirm cs))) = []"
    "answered_watermarks k (concat (map (answers err) (map ItemConfirm cs))) = []"
    "answered_confirms c (concat (map (answers err) (map ItemConfirm cs))) = filter (\<lambda>i. ci_key i = c) (concat (map pc_intents cs))"
    by (induction cs) (simp_all add: answers_def c)
  show "answered_watermarks k (concat (map (answers err) (map ItemPrepare ps))) = []"
    "answered_confirms c (concat (map (answers err) (map ItemPrepare ps))) = []"
    by (induction ps) (simp_all add: answers_def p)
qed

text \<open>What a flush takes from each queue and what stays make up what was there.\<close>

definition taken :: "journal_shard \<Rightarrow> batch_item list \<Rightarrow> journal_shard \<Rightarrow> bool" where
  "taken sh items sh' \<longleftrightarrow> queues_ok sh' \<and> list_all item_ok items \<and>
     sh_out sh' = sh_out sh \<and> sh_journal sh' = sh_journal sh \<and> sh_highWater sh' = sh_highWater sh \<and>
     (\<forall>err. (\<forall>s. answered_prepares s (concat (map (answers err) items)) @ fm_get [] (sh_prepareMap sh') s = fm_get [] (sh_prepareMap sh) s) \<and>
       (\<forall>k. answered_watermarks k (concat (map (answers err) items)) @ waiting_watermarks k sh' = waiting_watermarks k sh) \<and>
       (\<forall>c. answered_confirms c (concat (map (answers err) items)) @ waiting_confirms c sh' = waiting_confirms c sh))"

lemma taken_trans: "taken sh xs sh1 \<Longrightarrow> taken sh1 ys sh2 \<Longrightarrow> taken sh (xs @ ys) sh2"
  by (simp add: taken_def)

lemma taken_nothing: "queues_ok sh \<Longrightarrow> taken sh [] sh"
  by (simp add: taken_def)

lemma taken_prepares:
  assumes "queues_ok sh" "popPrepareBatch cfg sh = (ps, bytes, n, sh')"
  shows "taken sh (map ItemPrepare ps) sh'"
proof -
  have q: "queued_ok (sh_prepareMap sh)" using assms(1) by (simp add: queues_ok_def)
  note r = popPrepare_order[OF assms(2) q]
  show ?thesis using assms(1) r(1,3-) r(2)
    by (simp add: taken_def queues_ok_def list_all_iff item_ok_def waiting_watermarks_def waiting_confirms_def del: map_map)
qed

lemma taken_marks:
  assumes "queues_ok sh" "popped ks (sh_watermarks sh) es m'"
  shows "taken sh (map ItemWatermark es) (sh\<lparr>sh_watermarks := m', sh_watermarkSeq := order\<rparr>)"
proof -
  have ok: "marks_ok (sh_watermarks sh)" using assms(1) by (simp add: queues_ok_def)
  then have key: "\<And>k e. fmlookup (sh_watermarks sh) k = Some e \<Longrightarrow> \<forall>i \<in> set (pm_intents e). wi_key i = k" unfolding marks_ok_def by blast
  note o = popped_order[where ints = pm_intents and key = wi_key, OF assms(2) key]
  show ?thesis using assms(1) popped_marks_ok[OF assms(2) ok] o
    by (simp add: taken_def queues_ok_def list_all_iff waiting_watermarks_def waiting_confirms_def del: map_map)
qed

lemma taken_confirms:
  assumes "queues_ok sh" "popped ks (sh_confirms sh) es m'"
  shows "taken sh (map ItemConfirm es) (sh\<lparr>sh_confirms := m', sh_confirmSeq := order\<rparr>)"
proof -
  have ok: "confirms_ok (sh_confirms sh)" using assms(1) by (simp add: queues_ok_def)
  then have key: "\<And>k e. fmlookup (sh_confirms sh) k = Some e \<Longrightarrow> \<forall>i \<in> set (pc_intents e). ci_key i = k" unfolding confirms_ok_def by blast
  note o = popped_order[where ints = pc_intents and key = ci_key, OF assms(2) key]
  show ?thesis using assms(1) popped_confirms_ok[OF assms(2) ok] o
    by (simp add: taken_def queues_ok_def list_all_iff waiting_watermarks_def waiting_confirms_def del: map_map)
qed

lemma taken_head_ranges:
  assumes q: "queues_ok sh" and p: "popPriorityHeadRangeBatch ops bytes sh = (es, n, sh')"
  shows "taken sh (map ItemWatermark es) sh'"
proof -
  let ?limit = "min ops defaultJournalPriorityWatermarks"
  obtain es1 m ks n1 where h: "pop_head_ranges ?limit bytes 0 (sh_watermarks sh) (sh_watermarkSeq sh) = (es1, m, ks, n1)" by (metis prod_cases4)
  obtain ps where ps: "popped ps (sh_watermarks sh) es1 m" using pop_head_ranges_popped[OF h] by blast
  have "(es = [] \<and> sh' = sh) \<or> (es = es1 \<and> sh' = sh\<lparr>sh_watermarks := m, sh_watermarkSeq := ks\<rparr>)"
    using p h by (auto simp: popPriorityHeadRangeBatch_def Let_def split: if_splits)
  then show ?thesis using taken_nothing[OF q] taken_marks[OF q ps, of ks] by fastforce
qed

lemma taken_watermarks:
  assumes q: "queues_ok sh" and p: "popWatermarkBatch ops bytes allow sh = (es, n, sh')"
  shows "taken sh (map ItemWatermark es) sh'"
proof -
  obtain es1 m ks n1 where h: "pop_entries ops bytes 0 (sh_watermarks sh) (sh_watermarkSeq sh) = (es1, m, ks, n1)" by (metis prod_cases4)
  obtain ps where ps: "popped ps (sh_watermarks sh) es1 m" using pop_entries_popped[OF h] by blast
  have "(es = [] \<and> sh' = sh) \<or> (es = es1 \<and> sh' = sh\<lparr>sh_watermarks := m, sh_watermarkSeq := ks\<rparr>)"
    using p h by (auto simp: popWatermarkBatch_def split: if_splits)
  then show ?thesis using taken_nothing[OF q] taken_marks[OF q ps, of ks] by fastforce
qed

lemma taken_confirmed:
  assumes q: "queues_ok sh" and p: "popConfirmBatch ops bytes allow sh = (es, n, sh')"
  shows "taken sh (map ItemConfirm es) sh'"
proof -
  obtain es1 m ks n1 where h: "pop_entries ops bytes 0 (sh_confirms sh) (sh_confirmSeq sh) = (es1, m, ks, n1)" by (metis prod_cases4)
  obtain ps where ps: "popped ps (sh_confirms sh) es1 m" using pop_entries_popped[OF h] by blast
  have "(es = [] \<and> sh' = sh) \<or> (es = es1 \<and> sh' = sh\<lparr>sh_confirms := m, sh_confirmSeq := ks\<rparr>)"
    using p h by (auto simp: popConfirmBatch_def split: if_splits)
  then show ?thesis using taken_nothing[OF q] taken_confirms[OF q ps, of ks] by fastforce
qed

lemma take_batch_taken:
  assumes "queues_ok sh" "take_batch cfg sh = (items, sh')"
  shows "taken sh items sh'"
proof -
  let ?bytes = defaultJournalBatchMaxBytes
  obtain hs hn sh1 where h: "popPriorityHeadRangeBatch (jc_batchMaxOps cfg) ?bytes sh = (hs, hn, sh1)" by (metis prod_cases3)
  obtain ps pb pn sh2 where p: "popPrepareBatch cfg sh1 = (ps, pb, pn, sh2)" by (metis prod_cases4)
  obtain ws wn sh3 where w: "popWatermarkBatch (jc_batchMaxOps cfg - hn - pn) (?bytes - hn * 64 - pb)
    (pn = 0 \<or> jc_batchMaxOps cfg - hn - pn > 0) sh2 = (ws, wn, sh3)" by (metis prod_cases3)
  obtain cs cn sh4 where c: "popConfirmBatch (jc_batchMaxOps cfg - hn - pn - wn) (?bytes - hn * 64 - pb - wn * 64)
    (pn = 0 \<or> jc_batchMaxOps cfg - hn - pn - wn > 0) sh3 = (cs, cn, sh4)" by (metis prod_cases3)
  have items: "items = map ItemWatermark hs @ map ItemPrepare ps @ map ItemWatermark ws @ map ItemConfirm cs" "sh' = sh4"
    using assms(2) h p w c by (simp_all add: take_batch_def Let_def)
  note t1 = taken_head_ranges[OF assms(1) h]
  then have q1: "queues_ok sh1" by (simp add: taken_def)
  note t2 = taken_prepares[OF q1 p]
  then have q2: "queues_ok sh2" by (simp add: taken_def)
  note t3 = taken_watermarks[OF q2 w]
  then have q3: "queues_ok sh3" by (simp add: taken_def)
  note t4 = taken_confirmed[OF q3 c]
  show ?thesis unfolding items by (rule taken_trans[OF t1 taken_trans[OF t2 taken_trans[OF t3 t4]]])
qed

section \<open>The order lists name what waits\<close>

definition listed :: "'k list \<Rightarrow> ('k \<Rightarrow> bool) \<Rightarrow> bool" where
  "listed ks P \<longleftrightarrow> distinct ks \<and> (\<forall>k. k \<in> set ks \<longleftrightarrow> P k)"

definition keyed :: "'k list \<Rightarrow> ('k, 'v) fmap \<Rightarrow> bool" where
  "keyed ks m \<longleftrightarrow> distinct ks \<and> set ks = fmdom' m"

definition lists_ok :: "journal_shard \<Rightarrow> bool" where
  "lists_ok sh \<longleftrightarrow> listed (sh_prepareSeq sh) (\<lambda>s. fm_get [] (sh_prepareMap sh) s \<noteq> []) \<and>
     keyed (sh_watermarkSeq sh) (sh_watermarks sh) \<and> keyed (sh_confirmSeq sh) (sh_confirms sh)"

lemma keyed_new: "keyed ks m \<Longrightarrow> fmlookup m k = None \<Longrightarrow> keyed (ks @ [k]) (fmupd k e m)"
  by (auto simp: keyed_def fmlookup_dom'_iff)

lemma keyed_old: "keyed ks m \<Longrightarrow> fmlookup m k = Some e0 \<Longrightarrow> keyed ks (fmupd k e m)"
  by (auto simp: keyed_def insert_absorb fmdom'I)

lemma keyed_drop: "keyed (k # ks) m \<Longrightarrow> keyed ks (fmdrop k m)"
  by (auto simp: keyed_def)

lemma enqueue_lists:
  assumes "lists_ok sh"
  shows "lists_ok (enqueuePendingPrepare p sh)" "lists_ok (enqueuePendingWatermark w sh)" "lists_ok (enqueuePendingConfirm c sh)"
proof -
  show "lists_ok (enqueuePendingPrepare p sh)"
    using assms by (auto simp: lists_ok_def listed_def enqueuePendingPrepare_def Let_def)
  show "lists_ok (enqueuePendingWatermark w sh)"
    using assms by (auto simp: lists_ok_def enqueuePendingWatermark_def Let_def intro: keyed_new keyed_old split: option.split)
  show "lists_ok (enqueuePendingConfirm c sh)"
    using assms by (auto simp: lists_ok_def enqueuePendingConfirm_def Let_def intro: keyed_new keyed_old split: option.split)
qed

lemma visit_slots_listed:
  assumes "listed (bt_order b @ order) (\<lambda>s. fm_get [] (bt_map b) s \<noteq> [])"
  shows "listed (bt_order (visit_slots maxOps order b)) (\<lambda>s. fm_get [] (bt_map (visit_slots maxOps order b)) s \<noteq> [])"
  using assms
proof (induction maxOps order b rule: visit_slots.induct)
  case (2 maxOps slot rest b)
  have "fm_get [] (bt_map b) slot \<noteq> []" using "2.prems" by (auto simp: listed_def)
  then obtain intent queue where q: "fm_get [] (bt_map b) slot = intent # queue" by (cases "fm_get [] (bt_map b) slot") auto
  let ?m = "if queue = [] then fmdrop slot (bt_map b) else fmupd slot queue (bt_map b)"
  let ?o = "if queue = [] then bt_order b else bt_order b @ [slot]"
  have l: "listed (?o @ rest) (\<lambda>s. fm_get [] ?m s \<noteq> [])" using "2.prems" by (auto simp: listed_def)
  show ?case using "2.IH"(2)[OF q refl] "2.prems" l q by (simp add: Let_def del: fm_get_simps)
qed simp

lemma take_rounds_listed:
  assumes "listed (bt_order b) (\<lambda>s. fm_get [] (bt_map b) s \<noteq> [])"
  shows "listed (bt_order (take_rounds maxOps b)) (\<lambda>s. fm_get [] (bt_map (take_rounds maxOps b)) s \<noteq> [])"
  using assms
proof (induction maxOps b rule: take_rounds.induct)
  case (1 maxOps b)
  let ?b = "visit_slots maxOps (bt_order b) (b\<lparr>bt_order := []\<rparr>)"
  have v: "listed (bt_order ?b) (\<lambda>s. fm_get [] (bt_map ?b) s \<noteq> [])"
    using visit_slots_listed[of "b\<lparr>bt_order := []\<rparr>" "bt_order b" maxOps] "1.prems" by simp
  show ?case
  proof (cases "bt_order b = [] \<or> bt_count b \<ge> maxOps \<or> bt_bytes b \<ge> defaultJournalBatchMaxBytes")
    case True
    then show ?thesis using "1.prems" by (subst (1 2) take_rounds.simps) simp
  next
    case False
    then show ?thesis using "1.IH"[OF False refl] v by (subst (1 2) take_rounds.simps) (simp add: Let_def)
  qed
qed

lemma pop_entries_keyed:
  "pop_entries ops bytes count m ks = (es, m', ks', n) \<Longrightarrow> keyed ks m \<Longrightarrow> keyed ks' m'"
proof (induction ops bytes count m ks arbitrary: es n rule: pop_entries.induct)
  case (2 ops bytes count m k ks)
  have "k \<in> fmdom' m" using "2.prems"(2) by (auto simp: keyed_def)
  then obtain entry where e: "fmlookup m k = Some entry" by (auto simp: fmlookup_dom'_iff)
  show ?case using "2.IH"(2)[OF e _ _ _ keyed_drop[OF "2.prems"(2)]] "2.prems" keyed_drop[OF "2.prems"(2)] e
    by (auto split: if_splits prod.splits)
qed simp

lemma pop_head_ranges_keys:
  assumes "pop_head_ranges limit bytes count m ks = (es, m', ks', n)" "distinct ks" "set ks \<subseteq> fmdom' m"
  shows "distinct ks' \<and> set ks' \<subseteq> set ks \<and> fmdom' m' = (fmdom' m - set ks) \<union> set ks'"
  using assms
proof (induction limit bytes count m ks arbitrary: es ks' n rule: pop_head_ranges.induct)
  case (2 limit bytes count m k ks)
  obtain entry where e: "fmlookup m k = Some entry" using "2.prems"(3) by (auto simp: fmlookup_dom'_iff)
  show ?case
  proof (cases "fst k \<noteq> journalRecordTypeHeadCommitRange \<or> count \<ge> limit \<or> (count + 1) * 64 > bytes")
    case True
    then obtain ks1 where r: "pop_head_ranges limit bytes count m ks = (es, m', ks1, n)" "ks' = k # ks1"
      using "2.prems"(1) e by (auto simp only: pop_head_ranges.simps option.case if_True prod.inject split: prod.splits)
    show ?thesis using "2.IH"(2)[OF e True r(1)] "2.prems"(2,3) r(2) by auto
  next
    case False
    then obtain es1 where r: "pop_head_ranges limit bytes (count + 1) (fmdrop k m) ks = (es1, m', ks', n)"
      using "2.prems"(1) e by (auto simp only: pop_head_ranges.simps option.case if_False prod.inject split: prod.splits)
    have "set ks \<subseteq> fmdom' (fmdrop k m)" using "2.prems"(2,3) by auto
    from "2.IH"(3)[OF e False r _ this] "2.prems"(2) show ?thesis by auto
  qed
qed simp

lemma pop_head_ranges_keyed:
  "pop_head_ranges limit bytes count m ks = (es, m', ks', n) \<Longrightarrow> keyed ks m \<Longrightarrow> keyed ks' m'"
  using pop_head_ranges_keys[of limit bytes count m ks es m' ks' n] by (auto simp: keyed_def)

lemma take_batch_lists:
  assumes "lists_ok sh" "take_batch cfg sh = (items, sh')"
  shows "lists_ok sh'"
proof -
  have p: "lists_ok sh2" if "lists_ok sh1" "popPrepareBatch cfg sh1 = (ps, pb, pn, sh2)" for sh1 ps pb pn sh2
    using that take_rounds_listed[of "\<lparr>bt_map = sh_prepareMap sh1, bt_items = [], bt_bytes = 0, bt_count = 0,
      bt_order = sh_prepareSeq sh1, bt_over = False\<rparr>" "jc_batchMaxOps cfg"]
    by (auto simp: lists_ok_def popPrepareBatch_def Let_def split: if_splits)
  have w: "lists_ok sh2" if "lists_ok sh1" "popWatermarkBatch ops bytes allow sh1 = (ws, n, sh2)" for sh1 ops bytes allow ws n sh2
    using that by (auto simp: popWatermarkBatch_def lists_ok_def dest: pop_entries_keyed split: if_splits prod.splits)
  have c: "lists_ok sh2" if "lists_ok sh1" "popConfirmBatch ops bytes allow sh1 = (cs, n, sh2)" for sh1 ops bytes allow cs n sh2
    using that by (auto simp: popConfirmBatch_def lists_ok_def dest: pop_entries_keyed split: if_splits prod.splits)
  have h: "lists_ok sh2" if "lists_ok sh1" "popPriorityHeadRangeBatch ops bytes sh1 = (ws, n, sh2)" for sh1 ops bytes ws n sh2
    using that by (auto simp: popPriorityHeadRangeBatch_def Let_def lists_ok_def dest: pop_head_ranges_keyed split: if_splits prod.splits)
  show ?thesis using assms(2) c[OF w[OF p[OF h[OF assms(1)]]]] by (auto simp: take_batch_def Let_def split: prod.splits)
qed

end
