(* ===== verification/Journal_Answers.thy ===== *)
theory Journal_Answers
  imports Journal_Order
begin

text \<open>
  A journal shard answers everyone once, in order, and nobody is told that a record is durable
  that is not in the journal.  The last section has two situations in which less holds: intents
  whose context is cancelled, and a flush that leaves something behind.
\<close>

section \<open>Durable answers\<close>

definition is_mark :: "journal_record \<Rightarrow> bool" where
  "is_mark r = (jr_Type r = journalRecordTypeCommitWatermark \<or> jr_Type r = journalRecordTypeHeadCommitRange)"

text \<open>A success is backed by a record of its kind, slot and chain version that goes at least as far.\<close>

definition durable :: "journal_record list \<Rightarrow> answer \<Rightarrow> bool" where
  "durable J a = (case a of
     AnsPrepare i None \<Rightarrow> journalRecordFromPrepare (pi_prepare i) \<in> set J
   | AnsWatermark i None \<Rightarrow> list_ex (\<lambda>r. is_mark r \<and>
       (jr_Type r = journalRecordTypeHeadCommitRange \<longleftrightarrow> wi_recordType i = journalRecordTypeHeadCommitRange) \<and>
       jr_Slot r = ra_Slot (wi_assignment i) \<and> jr_ChainVersion r = ra_ChainVersion (wi_assignment i) \<and> wi_sequence i \<le> jr_Sequence r) J
   | AnsConfirm i None \<Rightarrow> list_ex (\<lambda>r. jr_Type r = journalRecordTypeUpstreamConfirm \<and>
       jr_Slot r = ra_Slot (ci_assignment i) \<and> jr_ChainVersion r = ra_ChainVersion (ci_assignment i) \<and> ci_sequence i \<le> jr_Sequence r) J
   | _ \<Rightarrow> True)"

text \<open>The commit mark kept for a slot is zero, the one recovered at the start, or in the journal.\<close>

definition mark_durable :: "(int, u64) fmap \<Rightarrow> journal_shard \<Rightarrow> int \<Rightarrow> bool" where
  "mark_durable recovered sh slot =
     (fm_get 0 (sh_highWater sh) slot \<in> {0, fm_get 0 recovered slot} \<or>
      list_ex (\<lambda>r. is_mark r \<and> jr_Slot r = slot \<and> jr_Sequence r = fm_get 0 (sh_highWater sh) slot) (sh_journal sh))"

lemma durable_mono: "durable J a \<Longrightarrow> durable (J @ K) a"
  by (auto simp: durable_def split: answer.splits option.splits)

lemma durable_failed: "list_all (durable J) (answers (Some e) item)"
  by (cases item) (simp_all add: answers_def durable_def list_all_iff)

lemma durable_item:
  assumes "item_ok item" "item_record item \<in> set J"
  shows "list_all (durable J) (answers None item)"
proof (cases item)
  case (ItemPrepare i)
  then show ?thesis using assms(2) by (simp add: answers_def durable_def item_record_def)
next
  case (ItemWatermark e)
  have k: "wi_recordType i = pm_recordType e \<and> ra_Slot (wi_assignment i) = ra_Slot (pm_assignment e) \<and>
    ra_ChainVersion (wi_assignment i) = ra_ChainVersion (pm_assignment e) \<and> wi_sequence i \<le> pm_sequence e" if "i \<in> set (pm_intents e)" for i
    using that assms(1) ItemWatermark by (auto simp: item_ok_def wi_key_def)
  have r: "is_mark (item_record item)" "jr_Type (item_record item) = journalRecordTypeHeadCommitRange \<longleftrightarrow> pm_recordType e = journalRecordTypeHeadCommitRange"
    "jr_Slot (item_record item) = ra_Slot (pm_assignment e)" "jr_ChainVersion (item_record item) = ra_ChainVersion (pm_assignment e)"
    "jr_Sequence (item_record item) = pm_sequence e"
    using ItemWatermark by (simp_all add: item_record_def is_mark_def journalRecordFromHeadCommitRange_def journalRecordFromCommitWatermark_def mark_record_def)
  have "durable J (AnsWatermark i None)" if "i \<in> set (pm_intents e)" for i
    using k[OF that] r assms(2) unfolding durable_def by (auto simp: list_ex_iff intro!: bexI[of _ "item_record item"])
  then show ?thesis using ItemWatermark by (simp add: answers_def list_all_iff)
next
  case (ItemConfirm e)
  have k: "ra_Slot (ci_assignment i) = ra_Slot (pc_assignment e) \<and>
    ra_ChainVersion (ci_assignment i) = ra_ChainVersion (pc_assignment e) \<and> ci_sequence i \<le> pc_sequence e" if "i \<in> set (pc_intents e)" for i
    using that assms(1) ItemConfirm by (auto simp: item_ok_def ci_key_def)
  have r: "item_record item = mark_record journalRecordTypeUpstreamConfirm (pc_assignment e) (pc_sequence e)"
    using ItemConfirm by (simp add: item_record_def journalRecordFromUpstreamConfirm_def)
  have "durable J (AnsConfirm i None)" if "i \<in> set (pc_intents e)" for i
    using k[OF that] assms(2) unfolding durable_def r by (auto simp: list_ex_iff mark_record_def intro!: bexI)
  then show ?thesis using ItemConfirm by (simp add: answers_def list_all_iff)
qed

section \<open>Flushing\<close>

lemma map_filter_None: "List.map_filter (\<lambda>_. None) xs = []"
  by (induction xs) (simp_all add: List.map_filter_simps)

lemma none_cancelled: "concat (map (cancelled_answers (\<lambda>_. None)) items) = []"
  by (simp add: cancelled_answers_def map_filter_None split: batch_item.split)

lemma all_recorded: "list_all item_ok items \<Longrightarrow> filter (recorded (\<lambda>_. None)) items = items"
  by (induction items) (auto simp: recorded_def item_ok_def list_ex_iff ex_in_conv split: batch_item.splits)

lemma flush_eq:
  assumes "list_all item_ok items" "take_batch cfg (sh\<lparr>sh_timer := False\<rparr>) = (items, sh1)"
  shows "flush cfg (\<lambda>_. None) err sh =
    (if sh_prepareN sh = 0 \<and> sh_watermarks sh = fmempty \<and> sh_confirms sh = fmempty then sh\<lparr>sh_timer := False\<rparr>
     else if items = [] then sh1
     else case err of
            Some e \<Rightarrow> sh1\<lparr>sh_out := sh_out sh1 @ concat (map (answers (Some e)) items)\<rparr>
          | None \<Rightarrow> fold complete_item items (sh1\<lparr>sh_journal := sh_journal sh1 @ map item_record items\<rparr>))"
  using assms by (simp add: flush_def Let_def all_recorded none_cancelled split: option.split)

lemma complete_items:
  "sh_out (fold complete_item items sh) = sh_out sh @ concat (map (answers None) items)"
  "sh_journal (fold complete_item items sh) = sh_journal sh"
  "sh_prepareMap (fold complete_item items sh) = sh_prepareMap sh" "sh_watermarks (fold complete_item items sh) = sh_watermarks sh"
  "sh_confirms (fold complete_item items sh) = sh_confirms sh" "sh_prepareSeq (fold complete_item items sh) = sh_prepareSeq sh"
  "sh_watermarkSeq (fold complete_item items sh) = sh_watermarkSeq sh" "sh_confirmSeq (fold complete_item items sh) = sh_confirmSeq sh"
  by (induction items arbitrary: sh) (simp_all add: complete_item_def Let_def markPrepared_def markCommitted_def split: batch_item.split)

lemma complete_items_marks:
  assumes "mark_durable recovered sh slot" "set (map item_record items) \<subseteq> set (sh_journal sh)"
  shows "mark_durable recovered (fold complete_item items sh) slot"
  using assms
proof (induction items arbitrary: sh)
  case (Cons item items)
  have j: "sh_journal (complete_item item sh) = sh_journal sh" using complete_items(2)[of "[item]"] by simp
  have "mark_durable recovered (complete_item item sh) slot"
  proof (cases item)
    case (ItemWatermark e)
    have "is_mark (item_record item)" "jr_Slot (item_record item) = ra_Slot (pm_assignment e)" "jr_Sequence (item_record item) = pm_sequence e"
      using ItemWatermark by (simp_all add: item_record_def is_mark_def journalRecordFromHeadCommitRange_def journalRecordFromCommitWatermark_def mark_record_def)
    moreover have "item_record item \<in> set (sh_journal sh)" using Cons.prems(2) by simp
    ultimately show ?thesis using Cons.prems(1) j ItemWatermark
      by (auto simp: mark_durable_def complete_item_def markCommitted_def raise_mark_def list_ex_iff)
  qed (use Cons.prems(1) in \<open>simp_all add: mark_durable_def complete_item_def markPrepared_def\<close>)
  then show ?case using Cons j by simp
qed simp

text \<open>What a shard has promised after a sequence of events.\<close>

definition kept :: "(int, u64) fmap \<Rightarrow> shard_event list \<Rightarrow> journal_shard \<Rightarrow> bool" where
  "kept recovered evs sh \<longleftrightarrow> queues_ok sh \<and> lists_ok sh \<and> list_all (durable (sh_journal sh)) (sh_out sh) \<and>
     (\<forall>slot. mark_durable recovered sh slot) \<and>
     (\<forall>s. answered_prepares s (sh_out sh) @ fm_get [] (sh_prepareMap sh) s = prepares_of s evs) \<and>
     (\<forall>k. answered_watermarks k (sh_out sh) @ waiting_watermarks k sh = watermarks_of k evs) \<and>
     (\<forall>c. answered_confirms c (sh_out sh) @ waiting_confirms c sh = confirms_of c evs)"

lemma kept_timer: "kept recovered evs (sh\<lparr>sh_timer := t\<rparr>) = kept recovered evs sh"
  by (simp add: kept_def queues_ok_def lists_ok_def mark_durable_def waiting_watermarks_def waiting_confirms_def)

lemma kept_taken:
  assumes "kept recovered evs sh" "taken sh items sh1" "lists_ok sh1"
    and "queues_ok sh' = queues_ok sh1" "lists_ok sh' = lists_ok sh1" "sh_prepareMap sh' = sh_prepareMap sh1"
    "sh_watermarks sh' = sh_watermarks sh1" "sh_confirms sh' = sh_confirms sh1"
    and "sh_out sh' = sh_out sh1 @ concat (map (answers err) items)"
    and "list_all (durable (sh_journal sh')) (sh_out sh')" "\<forall>slot. mark_durable recovered sh' slot"
  shows "kept recovered evs sh'"
proof -
  have t: "answered_prepares s (concat (map (answers err) items)) @ fm_get [] (sh_prepareMap sh1) s = fm_get [] (sh_prepareMap sh) s"
    "answered_watermarks k (concat (map (answers err) items)) @ waiting_watermarks k sh1 = waiting_watermarks k sh"
    "answered_confirms c (concat (map (answers err) items)) @ waiting_confirms c sh1 = waiting_confirms c sh"
    for s k c
    using assms(2) unfolding taken_def by blast+
  have o: "sh_out sh' = sh_out sh @ concat (map (answers err) items)" "queues_ok sh1"
    using assms(2,9) by (simp_all add: taken_def)
  have w: "waiting_watermarks k sh' = waiting_watermarks k sh1" "waiting_confirms c sh' = waiting_confirms c sh1" for k c
    using assms(7,8) by (simp_all add: waiting_watermarks_def waiting_confirms_def)
  show ?thesis using assms(1,3-6,10,11) o unfolding kept_def by (simp add: t w)
qed

lemma flush_kept:
  assumes k: "kept recovered evs sh"
  shows "kept recovered evs (flush cfg (\<lambda>_. None) err sh)"
proof -
  let ?sh = "sh\<lparr>sh_timer := False\<rparr>"
  have k': "kept recovered evs ?sh" using k by (simp add: kept_timer)
  obtain items sh1 where tb: "take_batch cfg ?sh = (items, sh1)" by fastforce
  have q: "queues_ok ?sh" "lists_ok ?sh" using k' by (simp_all add: kept_def)
  note t = take_batch_taken[OF q(1) tb] and l = take_batch_lists[OF q(2) tb]
  have items: "list_all item_ok items" and same: "sh_out sh1 = sh_out sh" "sh_journal sh1 = sh_journal sh" "sh_highWater sh1 = sh_highWater sh"
    using t by (simp_all add: taken_def)
  have old: "list_all (durable (sh_journal sh)) (sh_out sh)" "\<forall>slot. mark_durable recovered sh1 slot"
    using k same by (simp_all add: kept_def mark_durable_def)
  have nothing: "kept recovered evs sh1" if "items = []"
    by (rule kept_taken[OF k' t l, where err = None]) (use old same that in simp_all)
  have failed: "kept recovered evs (sh1\<lparr>sh_out := sh_out sh1 @ concat (map (answers (Some e)) items)\<rparr>)" for e
    by (rule kept_taken[OF k' t l, where err = "Some e"])
       (use old same durable_failed in \<open>auto simp: queues_ok_def lists_ok_def mark_durable_def list_all_iff\<close>)
  let ?sh2 = "sh1\<lparr>sh_journal := sh_journal sh1 @ map item_record items\<rparr>"
  have m: "mark_durable recovered (fold complete_item items ?sh2) slot" for slot
    using old(2) by (intro complete_items_marks) (auto simp: mark_durable_def)
  have d: "list_all (durable (sh_journal ?sh2)) (sh_out sh1 @ concat (map (answers None) items))"
  proof -
    have "list_all (durable (sh_journal ?sh2)) (answers None item)" if "item \<in> set items" for item
      using that items by (intro durable_item) (auto simp: list_all_iff)
    then show ?thesis using old(1) same durable_mono by (auto simp: list_all_iff)
  qed
  have stored: "kept recovered evs (fold complete_item items ?sh2)"
    by (rule kept_taken[OF k' t l, where err = None]) (use m d in \<open>simp_all add: complete_items queues_ok_def lists_ok_def\<close>)
  show ?thesis unfolding flush_eq[OF items tb] using k' nothing failed stored by (cases "items = []"; cases err) simp_all
qed

lemma after_receive_kept: "kept recovered evs sh \<Longrightarrow> kept recovered evs (after_receive cfg (\<lambda>_. None) err queued sh)"
  by (simp add: after_receive_def Let_def flush_kept kept_timer)

section \<open>Every submission is answered once\<close>

lemma submissions_snoc:
  "prepares_of s (evs @ [ev]) = prepares_of s evs @ prepares_of s [ev]"
  "watermarks_of k (evs @ [ev]) = watermarks_of k evs @ watermarks_of k [ev]"
  "confirms_of c (evs @ [ev]) = confirms_of c evs @ confirms_of c [ev]"
  by (simp_all add: submission_defs map_filter_append)

lemma kept_prepare:
  assumes "kept recovered evs sh"
  shows "kept recovered (evs @ [ReceivePrepare i q]) (enqueuePendingPrepare i sh)"
proof -
  let ?sh = "enqueuePendingPrepare i sh"
  have same: "sh_out ?sh = sh_out sh" "sh_journal ?sh = sh_journal sh" "sh_highWater ?sh = sh_highWater sh"
    "sh_watermarks ?sh = sh_watermarks sh" "sh_confirms ?sh = sh_confirms sh"
    "fm_get [] (sh_prepareMap ?sh) s = fm_get [] (sh_prepareMap sh) s @ prepares_of s [ReceivePrepare i q]" for s
    by (auto simp: enqueuePendingPrepare_def Let_def prepares_of_def List.map_filter_simps)
  show ?thesis using assms enqueue_ok(1) enqueue_lists(1)
    by (simp add: kept_def same mark_durable_def waiting_watermarks_def waiting_confirms_def submissions_snoc)
       (simp add: submission_defs List.map_filter_simps flip: append_assoc)
qed

lemma kept_watermark:
  assumes "kept recovered evs sh"
  shows "kept recovered (evs @ [ReceiveWatermark i q]) (enqueuePendingWatermark i sh)"
proof -
  let ?sh = "enqueuePendingWatermark i sh"
  have same: "sh_out ?sh = sh_out sh" "sh_journal ?sh = sh_journal sh" "sh_highWater ?sh = sh_highWater sh"
    "sh_prepareMap ?sh = sh_prepareMap sh" "sh_confirms ?sh = sh_confirms sh"
    "waiting_watermarks k ?sh = waiting_watermarks k sh @ watermarks_of k [ReceiveWatermark i q]" for k
    by (auto simp: enqueuePendingWatermark_def Let_def waiting_watermarks_def watermarks_of_def List.map_filter_simps split: option.split)
  show ?thesis using assms enqueue_ok(2) enqueue_lists(2)
    by (simp add: kept_def same mark_durable_def waiting_confirms_def submissions_snoc)
       (simp add: submission_defs List.map_filter_simps flip: append_assoc)
qed

lemma kept_confirm:
  assumes "kept recovered evs sh"
  shows "kept recovered (evs @ [ReceiveConfirm i q]) (enqueuePendingConfirm i sh)"
proof -
  let ?sh = "enqueuePendingConfirm i sh"
  have same: "sh_out ?sh = sh_out sh" "sh_journal ?sh = sh_journal sh" "sh_highWater ?sh = sh_highWater sh"
    "sh_prepareMap ?sh = sh_prepareMap sh" "sh_watermarks ?sh = sh_watermarks sh"
    "waiting_confirms k ?sh = waiting_confirms k sh @ confirms_of k [ReceiveConfirm i q]" for k
    by (auto simp: enqueuePendingConfirm_def Let_def waiting_confirms_def confirms_of_def List.map_filter_simps split: option.split)
  show ?thesis using assms enqueue_ok(3) enqueue_lists(3)
    by (simp add: kept_def same mark_durable_def waiting_watermarks_def submissions_snoc)
       (simp add: submission_defs List.map_filter_simps flip: append_assoc)
qed

lemma kept_other:
  assumes "kept recovered evs sh" "ev = TimerFires \<or> ev = DropSlot slot"
  shows "kept recovered (evs @ [ev]) sh"
proof -
  have "prepares_of s [ev] = []" "watermarks_of k [ev] = []" "confirms_of c [ev] = []" for s k c
    using assms(2) by (auto simp: submission_defs List.map_filter_simps)
  then show ?thesis using assms(1) by (simp add: kept_def submissions_snoc)
qed

lemma kept_drop: "kept recovered evs sh \<Longrightarrow> kept recovered evs (journal_dropSlot slot sh)"
  by (auto simp: kept_def journal_dropSlot_def queues_ok_def lists_ok_def mark_durable_def waiting_watermarks_def waiting_confirms_def)

lemma step_kept: "kept recovered evs sh \<Longrightarrow> kept recovered (evs @ [ev]) (shard_step cfg (\<lambda>_. None) err ev sh)"
  by (cases ev) (auto simp: shard_step_def intro: after_receive_kept kept_prepare kept_watermark kept_confirm flush_kept kept_drop kept_other)

lemma run_kept: "kept recovered pre sh \<Longrightarrow> kept recovered (pre @ map fst evs) (run_shard cfg evs sh)"
proof (induction evs arbitrary: pre sh)
  case (Cons e evs)
  obtain ev err where e: "e = (ev, err)" by fastforce
  from Cons.IH[OF step_kept[OF Cons.prems, of ev cfg err]] show ?case by (simp add: run_shard_def e)
qed (simp add: run_shard_def)

lemma new_kept: "kept recovered [] (new_shard recovered)"
  by (simp add: kept_def new_shard_def queues_ok_def queued_ok_def marks_ok_def confirms_ok_def lists_ok_def listed_def keyed_def
      mark_durable_def waiting_watermarks_def waiting_confirms_def submission_defs List.map_filter_simps)

text \<open>Closing answers what still waits.\<close>

lemma keyed_popped: "keyed ks m \<Longrightarrow> popped ks m (map (\<lambda>k. the (fmlookup m k)) ks) fmempty"
  by (auto simp: keyed_def popped_def map_eq_conv fmlookup_dom'_iff split: option.splits)

lemma close_out:
  assumes "lists_ok sh"
  shows "sh_out (close_shard canceled sh) = sh_out sh @ concat (map (answers (Some canceled))
    (map ItemPrepare (concat (map (\<lambda>s. fm_get [] (sh_prepareMap sh) s) (sh_prepareSeq sh))) @
     map ItemWatermark (map (\<lambda>k. the (fmlookup (sh_watermarks sh) k)) (sh_watermarkSeq sh)) @
     map ItemConfirm (map (\<lambda>k. the (fmlookup (sh_confirms sh) k)) (sh_confirmSeq sh))))"
proof -
  have p: "concat (map (answers e) (map ItemPrepare xs)) = map (\<lambda>i. AnsPrepare i e) xs" for e xs
    by (induction xs) (simp_all add: answers_def)
  have w: "concat (map (\<lambda>k. case fmlookup (sh_watermarks sh) k of None \<Rightarrow> [] | Some e \<Rightarrow> answers (Some canceled) (ItemWatermark e)) (sh_watermarkSeq sh)) =
    concat (map (answers (Some canceled)) (map ItemWatermark (map (\<lambda>k. the (fmlookup (sh_watermarks sh) k)) (sh_watermarkSeq sh))))"
    using assms by (auto simp: lists_ok_def keyed_def fmlookup_dom'_iff intro!: arg_cong[where f = concat] split: option.split)
  have c: "concat (map (\<lambda>k. case fmlookup (sh_confirms sh) k of None \<Rightarrow> [] | Some e \<Rightarrow> answers (Some canceled) (ItemConfirm e)) (sh_confirmSeq sh)) =
    concat (map (answers (Some canceled)) (map ItemConfirm (map (\<lambda>k. the (fmlookup (sh_confirms sh) k)) (sh_confirmSeq sh))))"
    using assms by (auto simp: lists_ok_def keyed_def fmlookup_dom'_iff intro!: arg_cong[where f = concat] split: option.split)
  show ?thesis unfolding map_append concat_append p w[symmetric] c[symmetric] by (simp add: close_shard_def map_concat comp_def)
qed

lemma close_answers:
  assumes "queues_ok sh" "lists_ok sh"
  shows "answered_prepares s (sh_out (close_shard canceled sh)) = answered_prepares s (sh_out sh) @ fm_get [] (sh_prepareMap sh) s"
    "answered_watermarks k (sh_out (close_shard canceled sh)) = answered_watermarks k (sh_out sh) @ waiting_watermarks k sh"
    "answered_confirms c (sh_out (close_shard canceled sh)) = answered_confirms c (sh_out sh) @ waiting_confirms c sh"
proof -
  have l: "listed (sh_prepareSeq sh) (\<lambda>s. fm_get [] (sh_prepareMap sh) s \<noteq> [])" "keyed (sh_watermarkSeq sh) (sh_watermarks sh)"
    "keyed (sh_confirmSeq sh) (sh_confirms sh)" using assms(2) by (simp_all add: lists_ok_def)
  have q: "queued_ok (sh_prepareMap sh)" "marks_ok (sh_watermarks sh)" "confirms_ok (sh_confirms sh)" using assms(1) by (simp_all add: queues_ok_def)
  have "slot_items s (concat (map (\<lambda>s. fm_get [] (sh_prepareMap sh) s) (sh_prepareSeq sh))) = fm_get [] (sh_prepareMap sh) s"
    using popped_keys[of "sh_prepareSeq sh" "\<lambda>s. fm_get [] (sh_prepareMap sh) s" pi_slot s] l(1) q(1)
    by (auto simp: listed_def queued_ok_def slot_items_def)
  then show "answered_prepares s (sh_out (close_shard canceled sh)) = answered_prepares s (sh_out sh) @ fm_get [] (sh_prepareMap sh) s"
    unfolding close_out[OF assms(2)] map_append concat_append answered_append answered_maps by simp
  have key: "\<And>k e. fmlookup (sh_watermarks sh) k = Some e \<Longrightarrow> \<forall>i \<in> set (pm_intents e). wi_key i = k" using q(2) unfolding marks_ok_def by blast
  from popped_order[where ints = pm_intents and key = wi_key, OF keyed_popped[OF l(2)] key]
  show "answered_watermarks k (sh_out (close_shard canceled sh)) = answered_watermarks k (sh_out sh) @ waiting_watermarks k sh"
    unfolding close_out[OF assms(2)] map_append concat_append answered_append answered_maps by (simp add: waiting_watermarks_def)
  have key: "\<And>k e. fmlookup (sh_confirms sh) k = Some e \<Longrightarrow> \<forall>i \<in> set (pc_intents e). ci_key i = k" using q(3) unfolding confirms_ok_def by blast
  from popped_order[where ints = pc_intents and key = ci_key, OF keyed_popped[OF l(3)] key]
  show "answered_confirms c (sh_out (close_shard canceled sh)) = answered_confirms c (sh_out sh) @ waiting_confirms c sh"
    unfolding close_out[OF assms(2)] map_append concat_append answered_append answered_maps by (simp add: waiting_confirms_def)
qed

lemma close_durable: "lists_ok sh \<Longrightarrow> list_all (durable J) (sh_out sh) \<Longrightarrow> list_all (durable J) (sh_out (close_shard canceled sh))"
  using durable_failed by (auto simp: close_out list_all_iff)


section \<open>What the shard does not promise\<close>

text \<open>
  A flush stops the timer, and the loop starts it only for an intent that finds everything empty.
  So whatever does not fit into a batch stays behind with no timer running: of two prepares that
  are together larger than a batch the second waits until some other intent arrives.
\<close>

lemma oversize_left_waiting:
  assumes "pi_slot p \<noteq> pi_slot q" "1 < jc_batchMaxOps cfg"
    and "estimatedCommitBytes (pi_prepare p) < defaultJournalBatchMaxBytes"
    and "defaultJournalBatchMaxBytes < estimatedCommitBytes (pi_prepare p) + estimatedCommitBytes (pi_prepare q)"
  shows "let sh = run_shard cfg [(ReceivePrepare p 0, None), (ReceivePrepare q 0, None)] (new_shard recovered)
    in fm_get [] (sh_prepareMap sh) (pi_slot q) = [q] \<and> shard_step cfg (\<lambda>_. None) err TimerFires sh = sh"
proof -
  let ?p = "pi_slot p" and ?q = "pi_slot q" and ?m = "fmupd (pi_slot q) [q] (fmupd (pi_slot p) [p] fmempty)"
  let ?sh1 = "(enqueuePendingPrepare p (new_shard recovered))\<lparr>sh_timer := True\<rparr>"
  let ?sh2 = "enqueuePendingPrepare q ?sh1"
  have one: "shard_step cfg (\<lambda>_. None) None (ReceivePrepare p 0) (new_shard recovered) = ?sh1"
    using assms(2,3) by (simp add: shard_step_def after_receive_def Let_def enqueuePendingPrepare_def new_shard_def fcard.rep_eq)
  have two: "shard_step cfg (\<lambda>_. None) None (ReceivePrepare q 0) ?sh1 = flush cfg (\<lambda>_. None) None ?sh2"
    by (simp add: shard_step_def after_receive_def Let_def enqueuePendingPrepare_def new_shard_def)
  have rounds: "take_rounds (jc_batchMaxOps cfg) \<lparr>bt_map = ?m, bt_items = [], bt_bytes = 0, bt_count = 0, bt_order = [?p, ?q], bt_over = False\<rparr> =
    \<lparr>bt_map = fmdrop ?p ?m, bt_items = [p], bt_bytes = estimatedCommitBytes (pi_prepare p), bt_count = 1, bt_order = [?q], bt_over = True\<rparr>"
    using assms by (subst take_rounds.simps) (simp add: Let_def defaultJournalBatchMaxBytes_def)
  have sh2: "sh_prepareMap ?sh2 = ?m" "sh_prepareSeq ?sh2 = [?p, ?q]" "sh_prepareN ?sh2 = 2" "sh_watermarkSeq ?sh2 = []" "sh_confirmSeq ?sh2 = []"
    using assms(1) by (simp_all add: enqueuePendingPrepare_def Let_def new_shard_def)
  obtain sh3 where pop: "take_batch cfg (?sh2\<lparr>sh_timer := False\<rparr>) = ([ItemPrepare p], sh3)" "sh_prepareMap sh3 = fmdrop ?p ?m" "\<not> sh_timer sh3"
    using rounds sh2 by (simp add: take_batch_def popPriorityHeadRangeBatch_def popPrepareBatch_def popWatermarkBatch_def popConfirmBatch_def Let_def)
  have "flush cfg (\<lambda>_. None) None ?sh2 = complete_item (ItemPrepare p) (sh3\<lparr>sh_journal := sh_journal sh3 @ [item_record (ItemPrepare p)]\<rparr>)"
    using flush_eq[OF _ pop(1), of None] sh2(3) by (simp add: item_ok_def)
  then have "run_shard cfg [(ReceivePrepare p 0, None), (ReceivePrepare q 0, None)] (new_shard recovered) =
    complete_item (ItemPrepare p) (sh3\<lparr>sh_journal := sh_journal sh3 @ [item_record (ItemPrepare p)]\<rparr>)" by (simp add: run_shard_def one two)
  then show ?thesis using assms(1) pop(2,3) by (simp add: shard_step_def complete_item_def markPrepared_def Let_def)
qed

text \<open>
  An intent whose context is cancelled is answered with the error at once, but stays in the batch:
  it is answered again with the result of the append, a success although its record was left out.
\<close>

definition ex_intent :: "nat \<Rightarrow> prepare_intent" where
  "ex_intent n = \<lparr>pi_prepare = \<lparr>dc_Operation = \<lparr>wo_Slot = int n, wo_Sequence = 1, wo_Kind = OperationKindPut, wo_Key = ''k'',
       wo_Value = ''v'', wo_Metadata = zero_metadata\<rparr>, 
       dc_Persisted = \<lparr>pr_Assignment = zero_assignment, pr_LastKnownState = ReplicaStateActive_s, pr_HighestCommittedSequence = 0,
         pr_HighestUpstreamConfirmedSequence = 0, pr_HasCommittedData = False\<rparr>, dc_UpstreamConfirmedSequence = 0\<rparr>, pi_handler = n\<rparr>"

lemma cancelled_answered_twice:
  "let sh = flush (resolvedJournalConfig 0 0 0 0 0 []) (\<lambda>h. if h = 1 then Some ErrWriteTimeout else None) None
              (enqueuePendingPrepare (ex_intent 1) (enqueuePendingPrepare (ex_intent 0) (new_shard fmempty)))
   in sh_out sh = [AnsPrepare (ex_intent 1) (Some ErrWriteTimeout), AnsPrepare (ex_intent 0) None, AnsPrepare (ex_intent 1) None] \<and>
      sh_journal sh = [journalRecordFromPrepare (pi_prepare (ex_intent 0))]"
  by code_simp

end
