(* ===== verification/Server_Reducer.thy ===== *)
theory Server_Reducer
  imports Runtime_Work
begin

text \<open>
  The pure decisions of the coordinator server: the reducers of
  \<open>coordserver/server_reducer.go\<close> (progress reports, liveness targets, routing
  snapshots) with the helpers of \<open>coordserver/server.go\<close> they call.  The types
  \<open>activePeerRefreshState\<close> and \<open>HAActivePeerRefreshState\<close> have the same fields and are
  one record here, so the conversions between them are the identity.
\<close>

section \<open>Types\<close>

datatype srv_err =
    ErrUnknownNode_srv
  | ErrNotLeader string  \<comment> \<open>with the leader's endpoint, empty when unknown\<close>
  | ErrDispatchFailed
  | ErrDispatchTimeout
  | ErrUnexpectedProgress
  | ErrConflictingPending
  | ErrStateMismatch_srv
  | ErrInvalidServerCommand
  | ErrRecoveryFailed
  | ErrInvalidServerConfig
  | ErrLeaseHeld
  | ErrHASnapshotConflict
  | ErrUnknownOutboxCommand
  | ErrInvalidOutboxTransition
  | RuntimeErr rt_err
  | HAStoreErr string  \<comment> \<open>an error of the \<open>HAStore\<close> implementation\<close>
  | SrvPanic  \<comment> \<open>a nil dereference or an index out of range\<close>

record peer_refresh =
  pf_FallbackServingChain :: chain
  pf_AssignmentChain :: chain
  pf_UseFallbackRoute :: bool
  pf_AllowWhilePending :: bool
  pf_RemainingNodeIDs :: "(string, bool) fmap"

definition zero_chain :: chain where
  "zero_chain = \<lparr>chain_Slot = 0, chain_Replicas = []\<rparr>"

definition zero_refresh :: peer_refresh where
  "zero_refresh = \<lparr>pf_FallbackServingChain = zero_chain, pf_AssignmentChain = zero_chain,
     pf_UseFallbackRoute = False, pf_AllowWhilePending = False, pf_RemainingNodeIDs = fmempty\<rparr>"

record read_route =
  rdr_NodeID :: string
  rdr_Endpoint :: string
  rdr_Role :: ReplicaRole

record slot_route =
  sro_Slot :: int
  sro_ChainVersion :: u64
  sro_HeadNodeID :: string
  sro_HeadEndpoint :: string
  sro_TailNodeID :: string
  sro_TailEndpoint :: string
  sro_ReadReplicas :: "read_route list"
  sro_Writable :: bool
  sro_Readable :: bool

definition zero_route :: slot_route where
  "zero_route = \<lparr>sro_Slot = 0, sro_ChainVersion = 0, sro_HeadNodeID = [], sro_HeadEndpoint = [],
     sro_TailNodeID = [], sro_TailEndpoint = [], sro_ReadReplicas = [], sro_Writable = False,
     sro_Readable = False\<rparr>"

record routing_snapshot =
  rs_Version :: u64
  rs_SlotCount :: int
  rs_Slots :: "slot_route list"

record liveness_policy =  \<comment> \<open>durations in nanoseconds, \<open>int64\<close>\<close>
  lp_SuspectAfter :: u64
  lp_DeadAfter :: u64
  lp_FlapWindow :: u64
  lp_FlapThreshold :: int

type_synonym unavailable_map = "(string, (int, bool) fmap) fmap"

section \<open>Helpers over chains and records\<close>

definition activeReplicaCount :: "chain \<Rightarrow> int" where
  "activeReplicaCount c = int (length (filter is_active (chain_Replicas c)))"

definition chainHasReplicaState :: "chain \<Rightarrow> ReplicaState \<Rightarrow> bool" where
  "chainHasReplicaState c want = list_ex (\<lambda>r. replica_State r = want) (chain_Replicas c)"

definition chainContainsReplicaInState :: "chain \<Rightarrow> string \<Rightarrow> ReplicaState \<Rightarrow> bool" where
  "chainContainsReplicaInState c nodeID want =
     list_ex (\<lambda>r. replica_NodeID r = nodeID \<and> replica_State r = want) (chain_Replicas c)"

definition readyProgressFallbackServingChainForChain :: "chain \<Rightarrow> int \<Rightarrow> chain option" where
  "readyProgressFallbackServingChainForChain c replicationFactor =
     (if hasLeavingReplica c then None
      else if activeReplicaCount c \<ge> replicationFactor then None
      else let serving = activeServingChain c
           in if chain_Replicas serving = [] then None else Some serving)"

fun completed_kind :: "PendingKind \<Rightarrow> CompletedProgressKind" where
  "completed_kind PendingKindReady = CompletedProgressKindReady"
| "completed_kind PendingKindRemoved = CompletedProgressKindRemoved"

primrec matchesCompletedSlice_loop ::
  "completed_progress list \<Rightarrow> string \<Rightarrow> PendingKind \<Rightarrow> u64 \<Rightarrow> nat \<Rightarrow> bool" where
  "matchesCompletedSlice_loop [] nodeID kind slotVersion matches = (matches = 1)"
| "matchesCompletedSlice_loop (record # records) nodeID kind slotVersion matches =
     (if cp_NodeID record \<noteq> nodeID \<or> cp_Kind record \<noteq> completed_kind kind
      then matchesCompletedSlice_loop records nodeID kind slotVersion matches
      else if cp_SlotVersion record = slotVersion then True
      else matchesCompletedSlice_loop records nodeID kind slotVersion (matches + 1))"

definition matchesCompletedSlice ::
  "completed_progress list \<Rightarrow> string \<Rightarrow> PendingKind \<Rightarrow> u64 \<Rightarrow> bool" where
  "matchesCompletedSlice records nodeID kind slotVersion =
     (if records = [] then False else matchesCompletedSlice_loop records nodeID kind slotVersion 0)"

definition replicaUnavailable :: "unavailable_map \<Rightarrow> string \<Rightarrow> int \<Rightarrow> bool" where
  "replicaUnavailable unavailable nodeID slot =
     (case fmlookup unavailable nodeID of None \<Rightarrow> False | Some slots \<Rightarrow> flag slots slot)"

definition chainHasUnavailableReplica :: "chain \<Rightarrow> unavailable_map \<Rightarrow> bool" where
  "chainHasUnavailableReplica c unavailable =
     list_ex (\<lambda>r. is_active r \<and> flag (fm_get fmempty unavailable (replica_NodeID r)) (chain_Slot c))
       (chain_Replicas c)"

section \<open>Progress reports\<close>

record replica_progress_reduction =
  rpr_duplicateCompleted :: bool
  rpr_enqueuePeerRefresh :: bool
  rpr_peerRefreshState :: peer_refresh
  rpr_progressCommandID :: string
  rpr_slotVersion :: u64

definition progressCommandID :: "string \<Rightarrow> slot_progress_view \<Rightarrow> string \<Rightarrow> string \<Rightarrow> int \<Rightarrow> string" where
  "progressCommandID prefix current nodeID commandID attempt =
     (if commandID \<noteq> [] then commandID
      else prefix @ nodeID @ ''-'' @ dec_int (chain_Slot (spv_Chain current)) @ ''-r'' @ dec_int attempt
        @ ''-v'' @ dec_u64 (spv_Version current))"

definition reduceReplicaReadyProgress ::
  "slot_progress_view \<Rightarrow> string \<Rightarrow> string \<Rightarrow> int \<Rightarrow> srv_err + replica_progress_reduction" where
  "reduceReplicaReadyProgress current nodeID commandID attempt =
     (let reduction = \<lparr>rpr_duplicateCompleted = False, rpr_enqueuePeerRefresh = False,
            rpr_peerRefreshState = zero_refresh, rpr_progressCommandID = [],
            rpr_slotVersion = spv_SlotVersion current\<rparr>;
          unexpected = (if matchesCompletedSlice (spv_Completed current) nodeID PendingKindReady (spv_SlotVersion current)
                        then Inr (reduction\<lparr>rpr_duplicateCompleted := True\<rparr>)
                        else Inl ErrUnexpectedProgress)
      in case spv_Pending current of
           None \<Rightarrow> unexpected
         | Some pending \<Rightarrow>
             if pw_Kind pending \<noteq> PendingKindReady \<or> pw_NodeID pending \<noteq> nodeID then unexpected
             else if commandID \<noteq> [] \<and> pw_CommandID pending \<noteq> [] \<and> pw_CommandID pending \<noteq> commandID
               then Inl ErrUnexpectedProgress
             else if pw_SlotVersion pending \<noteq> spv_SlotVersion current then Inl ErrUnexpectedProgress
             else if \<not> chainContainsReplicaInState (spv_Chain current) nodeID ReplicaStateJoining
               then Inl ErrStateMismatch_srv
             else Inr (reduction
               \<lparr>rpr_enqueuePeerRefresh := activeReplicaCount (spv_Chain current) > 0 \<or> hasLeavingReplica (spv_Chain current),
                rpr_peerRefreshState :=
                  (case readyProgressFallbackServingChainForChain (spv_Chain current) (spv_ReplicationFactor current) of
                     None \<Rightarrow> zero_refresh
                   | Some fallback \<Rightarrow> zero_refresh\<lparr>pf_FallbackServingChain := fallback, pf_UseFallbackRoute := True\<rparr>),
                rpr_progressCommandID :=
                  progressCommandID ''server-progress-ready-'' current nodeID commandID attempt\<rparr>))"

definition reduceReplicaRemovedProgress ::
  "slot_progress_view \<Rightarrow> string \<Rightarrow> string \<Rightarrow> int \<Rightarrow> srv_err + replica_progress_reduction" where
  "reduceReplicaRemovedProgress current nodeID commandID attempt =
     (let reduction = \<lparr>rpr_duplicateCompleted = False, rpr_enqueuePeerRefresh = True,
            rpr_peerRefreshState = zero_refresh, rpr_progressCommandID = [],
            rpr_slotVersion = spv_SlotVersion current\<rparr>;
          unexpected = (if matchesCompletedSlice (spv_Completed current) nodeID PendingKindRemoved (spv_SlotVersion current)
                        then Inr (reduction\<lparr>rpr_duplicateCompleted := True\<rparr>)
                        else Inl ErrUnexpectedProgress)
      in case spv_Pending current of
           None \<Rightarrow> unexpected
         | Some pending \<Rightarrow>
             if pw_Kind pending \<noteq> PendingKindRemoved \<or> pw_NodeID pending \<noteq> nodeID then unexpected
             else if commandID \<noteq> [] \<and> pw_CommandID pending \<noteq> [] \<and> pw_CommandID pending \<noteq> commandID
               then Inl ErrUnexpectedProgress
             else if pw_SlotVersion pending \<noteq> spv_SlotVersion current then Inl ErrUnexpectedProgress
             else if \<not> chainContainsReplicaInState (spv_Chain current) nodeID ReplicaStateLeaving
               then Inl ErrStateMismatch_srv
             else Inr (reduction\<lparr>rpr_progressCommandID :=
                  progressCommandID ''server-progress-removed-'' current nodeID commandID attempt\<rparr>))"

section \<open>Liveness\<close>

definition reduceNodeLivenessTarget :: "node_liveness \<Rightarrow> u64 \<Rightarrow> liveness_policy \<Rightarrow> NodeLivenessState" where
  "reduceNodeLivenessTarget record nowUnixNano policy =
     (if sint (lp_SuspectAfter policy) \<le> 0 \<or> sint (lp_DeadAfter policy) \<le> 0 then nl_State record
      else if sint nowUnixNano \<le> sint (nl_LastHeartbeatUnixNano record) then NodeLivenessStateHealthy
      else let age = nowUnixNano - nl_LastHeartbeatUnixNano record
           in if sint age \<ge> sint (lp_DeadAfter policy) then NodeLivenessStateDead
              else if sint age \<ge> sint (lp_SuspectAfter policy) then NodeLivenessStateSuspect
              else NodeLivenessStateHealthy)"

section \<open>Routing\<close>

definition route_replica ::
  "(string, node) fmap \<Rightarrow> unavailable_map \<Rightarrow> int \<Rightarrow> replica \<Rightarrow> slot_route \<Rightarrow> slot_route" where
  "route_replica nodesByID unavailable slot r route =
     (if \<not> is_active r \<or> replicaUnavailable unavailable (replica_NodeID r) slot then route
      else let nodeID = replica_NodeID r;
               endpoint = node_RPCAddress (fm_get zero_node nodesByID nodeID);
               first = (sro_HeadNodeID route = []);
               route1 = (if first then route\<lparr>sro_HeadNodeID := nodeID, sro_HeadEndpoint := endpoint\<rparr> else route)
           in route1\<lparr>sro_TailNodeID := nodeID, sro_TailEndpoint := endpoint,
                sro_ReadReplicas := sro_ReadReplicas route1 @
                  [\<lparr>rdr_NodeID = nodeID, rdr_Endpoint = endpoint,
                    rdr_Role = (if first then ReplicaRoleHead else ReplicaRoleMiddle)\<rparr>]\<rparr>)"

definition set_role :: "nat \<Rightarrow> ReplicaRole \<Rightarrow> read_route list \<Rightarrow> read_route list" where
  "set_role i role rs = rs[i := (rs ! i)\<lparr>rdr_Role := role\<rparr>]"

definition last_roles :: "read_route list \<Rightarrow> read_route list" where
  "last_roles rs =
     (if length rs = 1 then set_role 0 ReplicaRoleSingle rs
      else if length rs = 2 then set_role 1 ReplicaRoleTail rs
      else if length rs > 1 then set_role (length rs - 1) ReplicaRoleTail rs else rs)"

definition buildSlotRoute :: "chain \<Rightarrow> (string, node) fmap \<Rightarrow> u64 \<Rightarrow> unavailable_map \<Rightarrow> slot_route" where
  "buildSlotRoute c nodesByID chainVersion unavailable =
     (let route = zero_route\<lparr>sro_Slot := chain_Slot c, sro_ChainVersion := chainVersion\<rparr>
      in if chainHasUnavailableReplica c unavailable then route
         else let route1 = fold (route_replica nodesByID unavailable (chain_Slot c)) (chain_Replicas c) route;
                  route2 = route1\<lparr>sro_ReadReplicas := last_roles (sro_ReadReplicas route1)\<rparr>;
                  route3 = (if sro_HeadNodeID route2 \<noteq> [] then route2\<lparr>sro_Writable := True\<rparr> else route2)
              in if sro_ReadReplicas route3 \<noteq> [] then route3\<lparr>sro_Readable := True\<rparr> else route3)"

definition route_chain :: "(int, peer_refresh) fmap \<Rightarrow> chain \<Rightarrow> chain" where
  "route_chain queued c =
     (let refresh = fm_get zero_refresh queued (chain_Slot c)
      in if pf_UseFallbackRoute refresh then pf_FallbackServingChain refresh else c)"

definition reduce_route :: "rt_view \<Rightarrow> unavailable_map \<Rightarrow> (int, peer_refresh) fmap \<Rightarrow> chain \<Rightarrow> slot_route" where
  "reduce_route state unavailable queued c =
     (let hasRefresh = fm_has queued (chain_Slot c);
          refresh = fm_get zero_refresh queued (chain_Slot c);
          route = buildSlotRoute (route_chain queued c) (cs_NodesByID (vw_Cluster state))
            (fm_get 0 (vw_SlotVersions state) (chain_Slot c)) unavailable;
          route1 = (if \<not> hasRefresh \<and> chainHasReplicaState c ReplicaStateJoining
                    then route\<lparr>sro_Writable := False\<rparr> else route)
      in if hasRefresh \<and> \<not> pf_UseFallbackRoute refresh
         then route1\<lparr>sro_Writable := False, sro_Readable := False\<rparr> else route1)"

definition reduceRoutingSnapshot ::
  "rt_view \<Rightarrow> unavailable_map \<Rightarrow> (int, peer_refresh) fmap \<Rightarrow> routing_snapshot" where
  "reduceRoutingSnapshot state unavailable queued =
     \<lparr>rs_Version = vw_Version state, rs_SlotCount = cs_SlotCount (vw_Cluster state),
      rs_Slots = map (reduce_route state unavailable queued) (cs_Chains (vw_Cluster state))\<rparr>"

section \<open>Assignments of the server\<close>

text \<open>
  The server's \<open>assignmentForNode\<close> also names the tail that linearizable reads ask:
  the last active replica, or the last one of a chain without active replicas.
\<close>

definition srv_tail :: "chain \<Rightarrow> string" where
  "srv_tail c =
     (case find is_active (rev (chain_Replicas c)) of
        Some r \<Rightarrow> if replica_NodeID r = [] \<and> chain_Replicas c \<noteq> [] then replica_NodeID (last (chain_Replicas c))
                  else replica_NodeID r
      | None \<Rightarrow> if chain_Replicas c = [] then [] else replica_NodeID (last (chain_Replicas c)))"

definition srv_assignmentForNode ::
  "chain \<Rightarrow> (string, node) fmap \<Rightarrow> string \<Rightarrow> u64 \<Rightarrow> replica_assignment option" where
  "srv_assignmentForNode c nodesByID nodeID chainVersion =
     map_option (\<lambda>a.
       if srv_tail c = [] then a
       else a\<lparr>ra_Peers := (ra_Peers a)\<lparr>TailNodeID := srv_tail c,
              TailTarget := node_RPCAddress (fm_get zero_node nodesByID (srv_tail c))\<rparr>\<rparr>)
       (assignmentForNode c nodesByID nodeID chainVersion)"

section \<open>What clients are routed to\<close>

definition chain_role :: "nat \<Rightarrow> nat \<Rightarrow> ReplicaRole" where
  "chain_role n k = (if n = 1 then ReplicaRoleSingle else if k = 0 then ReplicaRoleHead
     else if k = n - 1 then ReplicaRoleTail else ReplicaRoleMiddle)"

definition read_target :: "(string, node) fmap \<Rightarrow> ReplicaRole \<Rightarrow> replica \<Rightarrow> read_route" where
  "read_target nodesByID role r =
     \<lparr>rdr_NodeID = replica_NodeID r, rdr_Endpoint = node_RPCAddress (fm_get zero_node nodesByID (replica_NodeID r)),
      rdr_Role = role\<rparr>"

lemma unavailable_agree:
  "flag (fm_get fmempty unavailable nid) slot = replicaUnavailable unavailable nid slot"
  by (simp add: replicaUnavailable_def fm_get_def split: option.split)

lemma fold_route_filter:
  assumes "\<not> chainHasUnavailableReplica c unavailable"
  shows "fold (route_replica nodes unavailable (chain_Slot c)) (chain_Replicas c) route =
    fold (route_replica nodes unavailable (chain_Slot c)) (filter is_active (chain_Replicas c)) route"
proof -
  have "fold (route_replica nodes unavailable (chain_Slot c)) rs route =
      fold (route_replica nodes unavailable (chain_Slot c)) (filter is_active rs) route" for rs
    by (induction rs arbitrary: route) (auto simp: route_replica_def)
  then show ?thesis .
qed

lemma fold_route_rest:
  assumes "list_all (\<lambda>r. is_active r \<and> \<not> replicaUnavailable unavailable (replica_NodeID r) slot) rs"
    and "sro_HeadNodeID route \<noteq> []"
  shows "fold (route_replica nodes unavailable slot) rs route =
    (if rs = [] then route
     else route\<lparr>sro_TailNodeID := replica_NodeID (last rs),
       sro_TailEndpoint := node_RPCAddress (fm_get zero_node nodes (replica_NodeID (last rs))),
       sro_ReadReplicas := sro_ReadReplicas route @ map (read_target nodes ReplicaRoleMiddle) rs\<rparr>)"
  using assms
proof (induction rs arbitrary: route)
  case (Cons r rs)
  let ?r1 = "route_replica nodes unavailable slot r route"
  have r1: "?r1 = route\<lparr>sro_TailNodeID := replica_NodeID r,
       sro_TailEndpoint := node_RPCAddress (fm_get zero_node nodes (replica_NodeID r)),
       sro_ReadReplicas := sro_ReadReplicas route @ [read_target nodes ReplicaRoleMiddle r]\<rparr>"
    using Cons.prems by (simp add: route_replica_def read_target_def Let_def)
  have "sro_HeadNodeID ?r1 \<noteq> []" using Cons.prems(2) by (simp add: r1)
  with Cons.IH[of ?r1] Cons.prems(1) show ?case by (simp add: r1)
qed simp

lemma last_roles_nth:
  "length (last_roles l) = length l"
  "k < length l \<Longrightarrow> last_roles l ! k =
     (if k = length l - 1 then (l ! k)\<lparr>rdr_Role := (if length l = 1 then ReplicaRoleSingle else ReplicaRoleTail)\<rparr>
      else l ! k)"
  by (auto simp: last_roles_def set_role_def)

lemma last_roles_targets:
  assumes "rs \<noteq> []"
  shows "last_roles (read_target nodes ReplicaRoleHead (hd rs) # map (read_target nodes ReplicaRoleMiddle) (tl rs)) =
    map (\<lambda>k. read_target nodes (chain_role (length rs) k) (rs ! k)) [0..<length rs]" (is "last_roles ?l = ?m")
proof (rule nth_equalityI)
  have len: "length ?l = length rs" using assms by (cases rs) auto
  show "length (last_roles ?l) = length ?m" by (simp only: last_roles_nth len) simp
  fix k assume "k < length (last_roles ?l)"
  then have k: "k < length ?l" "k < length rs" by (simp_all only: last_roles_nth len)
  have l: "?l ! k = read_target nodes (if k = 0 then ReplicaRoleHead else ReplicaRoleMiddle) (rs ! k)"
    using k(2) assms by (cases rs; cases k) auto
  have upd: "(read_target nodes a r)\<lparr>rdr_Role := b\<rparr> = read_target nodes b r" for a b r
    by (simp add: read_target_def)
  show "last_roles ?l ! k = ?m ! k"
    unfolding last_roles_nth(2)[OF k(1)] l len upd using k(2) by (auto simp: chain_role_def)
qed

lemma buildSlotRoute_open:
  assumes "\<not> chainHasUnavailableReplica c unavailable" and "list_all (\<lambda>r. replica_NodeID r \<noteq> []) (chain_Replicas c)"
    and "filter is_active (chain_Replicas c) = act" and "act \<noteq> []"
  shows "buildSlotRoute c nodes v unavailable =
    \<lparr>sro_Slot = chain_Slot c, sro_ChainVersion = v,
     sro_HeadNodeID = replica_NodeID (hd act),
     sro_HeadEndpoint = node_RPCAddress (fm_get zero_node nodes (replica_NodeID (hd act))),
     sro_TailNodeID = replica_NodeID (last act),
     sro_TailEndpoint = node_RPCAddress (fm_get zero_node nodes (replica_NodeID (last act))),
     sro_ReadReplicas = map (\<lambda>k. read_target nodes (chain_role (length act) k) (act ! k)) [0..<length act],
     sro_Writable = True, sro_Readable = True\<rparr>"
proof -
  obtain a as where act: "act = a # as" using assms(4) by (cases act) auto
  have av: "list_all (\<lambda>r. is_active r \<and> \<not> replicaUnavailable unavailable (replica_NodeID r) (chain_Slot c)) act"
    using assms(1,3) by (auto simp: chainHasUnavailableReplica_def list_all_iff list_ex_iff unavailable_agree)
  have "a \<in> set (filter is_active (chain_Replicas c))" unfolding assms(3) act by simp
  then have ne: "replica_NodeID a \<noteq> []" using assms(2) by (simp add: list_all_iff)
  let ?z = "zero_route\<lparr>sro_Slot := chain_Slot c, sro_ChainVersion := v\<rparr>"
  let ?ep = "node_RPCAddress (fm_get zero_node nodes (replica_NodeID a))"
  have first: "route_replica nodes unavailable (chain_Slot c) a ?z =
      ?z\<lparr>sro_HeadNodeID := replica_NodeID a, sro_HeadEndpoint := ?ep, sro_TailNodeID := replica_NodeID a,
         sro_TailEndpoint := ?ep, sro_ReadReplicas := [read_target nodes ReplicaRoleHead a]\<rparr>" (is "_ = ?r1")
    using av act by (simp add: route_replica_def read_target_def Let_def zero_route_def)
  have "sro_HeadNodeID ?r1 \<noteq> []" using ne by simp
  from fold_route_rest[OF _ this, of unavailable "chain_Slot c" as nodes] av act
  have "fold (route_replica nodes unavailable (chain_Slot c)) act ?z =
      (if as = [] then ?r1
       else ?r1\<lparr>sro_TailNodeID := replica_NodeID (last as),
         sro_TailEndpoint := node_RPCAddress (fm_get zero_node nodes (replica_NodeID (last as))),
         sro_ReadReplicas := sro_ReadReplicas ?r1 @ map (read_target nodes ReplicaRoleMiddle) as\<rparr>)"
    by (simp add: first)
  then have folded: "fold (route_replica nodes unavailable (chain_Slot c)) (chain_Replicas c) ?z =
      ?r1\<lparr>sro_TailNodeID := replica_NodeID (last act),
         sro_TailEndpoint := node_RPCAddress (fm_get zero_node nodes (replica_NodeID (last act))),
         sro_ReadReplicas := read_target nodes ReplicaRoleHead (hd act) # map (read_target nodes ReplicaRoleMiddle) (tl act)\<rparr>"
    unfolding fold_route_filter[OF assms(1)] assms(3) by (simp add: act)
  show ?thesis
    unfolding buildSlotRoute_def Let_def folded
    using assms(1) ne last_roles_targets[OF assms(4), of nodes] by (simp add: act zero_route_def)
qed

lemma buildSlotRoute_closed:
  assumes "chainHasUnavailableReplica c unavailable \<or> filter is_active (chain_Replicas c) = []"
  shows "\<not> sro_Writable (buildSlotRoute c nodes v unavailable) \<and> \<not> sro_Readable (buildSlotRoute c nodes v unavailable)"
proof (cases "chainHasUnavailableReplica c unavailable")
  case False
  with assms have "filter is_active (chain_Replicas c) = []" by simp
  with False show ?thesis
    by (simp add: buildSlotRoute_def Let_def fold_route_filter zero_route_def last_roles_def)
qed (simp add: buildSlotRoute_def Let_def zero_route_def)

definition route_open :: "unavailable_map \<Rightarrow> chain \<Rightarrow> bool" where
  "route_open unavailable c =
     (activeReplicaIDs c \<noteq> [] \<and> \<not> list_ex (\<lambda>nid. replicaUnavailable unavailable nid (chain_Slot c)) (activeReplicaIDs c))"

lemma route_open_iff:
  "route_open unavailable c = (filter is_active (chain_Replicas c) \<noteq> [] \<and> \<not> chainHasUnavailableReplica c unavailable)"
  by (auto simp: route_open_def activeReplicaIDs_def chainHasUnavailableReplica_def list_ex_iff unavailable_agree)

lemma buildSlotRoute_flags:
  assumes "list_all (\<lambda>r. replica_NodeID r \<noteq> []) (chain_Replicas c)"
  shows "sro_Writable (buildSlotRoute c nodes v unavailable) = route_open unavailable c"
    "sro_Readable (buildSlotRoute c nodes v unavailable) = route_open unavailable c"
proof -
  consider (o) "route_open unavailable c" | (c) "\<not> route_open unavailable c" by blast
  then have "sro_Writable (buildSlotRoute c nodes v unavailable) = route_open unavailable c \<and>
      sro_Readable (buildSlotRoute c nodes v unavailable) = route_open unavailable c"
  proof cases
    case o
    then have o': "\<not> chainHasUnavailableReplica c unavailable" "filter is_active (chain_Replicas c) \<noteq> []"
      by (simp_all add: route_open_iff)
    from buildSlotRoute_open[OF o'(1) assms refl o'(2), of nodes v] o show ?thesis by simp
  next
    case c
    with buildSlotRoute_closed[of c unavailable nodes v] show ?thesis by (auto simp: route_open_iff)
  qed
  then show "sro_Writable (buildSlotRoute c nodes v unavailable) = route_open unavailable c"
    "sro_Readable (buildSlotRoute c nodes v unavailable) = route_open unavailable c" by simp_all
qed

lemma last_active: "find is_active (rev rs) = (if filter is_active rs = [] then None else Some (last (filter is_active rs)))"
  by (induction rs rule: rev_induct) auto

lemma srv_tail_serving:
  assumes "filter is_active (chain_Replicas c) \<noteq> []" and "list_all (\<lambda>r. replica_NodeID r \<noteq> []) (chain_Replicas c)"
  shows "srv_tail c = replica_NodeID (last (filter is_active (chain_Replicas c)))"
proof -
  have "last (filter is_active (chain_Replicas c)) \<in> set (chain_Replicas c)"
    using last_in_set[OF assms(1)] by simp
  with assms show ?thesis by (simp add: srv_tail_def last_active list_all_iff)
qed

lemma serving_role:
  assumes "distinct (replicaIDs (chain_Replicas c))" and "k < length (filter is_active (chain_Replicas c))"
  shows "map_option ra_Role (srv_assignmentForNode (activeServingChain c) nodes
      (replica_NodeID (filter is_active (chain_Replicas c) ! k)) v) =
    Some (chain_role (length (filter is_active (chain_Replicas c))) k)"
proof -
  let ?s = "activeServingChain c"
  have rs: "chain_Replicas ?s = filter is_active (chain_Replicas c)" by (simp add: activeServingChain_def)
  have "distinct (replicaIDs (chain_Replicas ?s))"
    using assms(1) unfolding rs replicaIDs_def by (rule distinct_map_filter)
  from findReplicaIndex_nth[OF this, of k] assms(2)
  have "findReplicaIndex ?s (replica_NodeID (filter is_active (chain_Replicas c) ! k)) = Some k" by (simp add: rs)
  then show ?thesis
    by (simp add: srv_assignmentForNode_def assignmentForNode_def rs Let_def chain_role_def)
qed

text \<open>
  C33. Clients are only routed to serving replicas: for every slot the published route is
  readable exactly when the routed chain (the current chain, or the fallback recorded by a
  queued peer refresh) has an active replica, none of its active replicas is unavailable,
  and no refresh without a fallback is queued; it is writable exactly when, in addition, no
  replica is joining unless a fallback is used.  A readable route names the first active
  replica as head, the last one as tail (the one storage nodes ask for linearizable
  reads), and lists exactly the active replicas in chain order, each with the role
  that the server assigns to it in the serving chain.
\<close>

theorem routing_snapshot_exact:
  assumes "i < length (cs_Chains (vw_Cluster v))"
    and "c = cs_Chains (vw_Cluster v) ! i" and "rc = route_chain queued c"
    and "list_all (\<lambda>r. replica_NodeID r \<noteq> []) (chain_Replicas rc)"
    and "distinct (replicaIDs (chain_Replicas rc))"
    and "route = rs_Slots (reduceRoutingSnapshot v unavailable queued) ! i"
  shows "sro_Readable route = (route_open unavailable rc \<and>
           (case fmlookup queued (chain_Slot c) of None \<Rightarrow> True | Some f \<Rightarrow> pf_UseFallbackRoute f)) \<and>
    sro_Writable route = (route_open unavailable rc \<and>
           (case fmlookup queued (chain_Slot c) of None \<Rightarrow> \<not> hasJoiningReplica c | Some f \<Rightarrow> pf_UseFallbackRoute f)) \<and>
    (sro_Readable route \<longrightarrow>
       sro_HeadNodeID route = hd (activeReplicaIDs rc) \<and> sro_TailNodeID route = last (activeReplicaIDs rc) \<and>
       sro_TailNodeID route = srv_tail rc \<and>
       map rdr_NodeID (sro_ReadReplicas route) = activeReplicaIDs rc \<and>
       list_all (\<lambda>t. map_option ra_Role (srv_assignmentForNode (activeServingChain rc)
           (cs_NodesByID (vw_Cluster v)) (rdr_NodeID t) ver) = Some (rdr_Role t)) (sro_ReadReplicas route))"
proof -
  let ?b = "buildSlotRoute rc (cs_NodesByID (vw_Cluster v)) (fm_get 0 (vw_SlotVersions v) (chain_Slot c)) unavailable"
  note flags = buildSlotRoute_flags[OF assms(4), of "cs_NodesByID (vw_Cluster v)" _ unavailable]
  have r: "route = reduce_route v unavailable queued c"
    using assms(1) by (simp add: assms(2,6) reduceRoutingSnapshot_def)
  have same: "sro_HeadNodeID route = sro_HeadNodeID ?b" "sro_TailNodeID route = sro_TailNodeID ?b"
    "sro_ReadReplicas route = sro_ReadReplicas ?b"
    by (simp_all add: r reduce_route_def Let_def assms(3))
  have rd: "sro_Readable route = (route_open unavailable rc \<and>
      (case fmlookup queued (chain_Slot c) of None \<Rightarrow> True | Some f \<Rightarrow> pf_UseFallbackRoute f))"
    using flags by (auto simp: r reduce_route_def Let_def assms(3) fm_has_def fm_get_def split: option.split)
  have wr: "sro_Writable route = (route_open unavailable rc \<and>
      (case fmlookup queued (chain_Slot c) of None \<Rightarrow> \<not> hasJoiningReplica c | Some f \<Rightarrow> pf_UseFallbackRoute f))"
    using flags by (auto simp: r reduce_route_def Let_def assms(3) fm_has_def fm_get_def
        chainHasReplicaState_def hasJoiningReplica_def split: option.split)
  have targets: "sro_HeadNodeID route = hd (activeReplicaIDs rc) \<and> sro_TailNodeID route = last (activeReplicaIDs rc) \<and>
       sro_TailNodeID route = srv_tail rc \<and>
       map rdr_NodeID (sro_ReadReplicas route) = activeReplicaIDs rc \<and>
       list_all (\<lambda>t. map_option ra_Role (srv_assignmentForNode (activeServingChain rc)
           (cs_NodesByID (vw_Cluster v)) (rdr_NodeID t) ver) = Some (rdr_Role t)) (sro_ReadReplicas route)"
    if "route_open unavailable rc"
  proof -
    let ?act = "filter is_active (chain_Replicas rc)"
    from that have o: "\<not> chainHasUnavailableReplica rc unavailable" "?act \<noteq> []" by (simp_all add: route_open_iff)
    note b = buildSlotRoute_open[OF o(1) assms(4) refl o(2)]
    have ids: "map rdr_NodeID (sro_ReadReplicas route) = activeReplicaIDs rc"
      unfolding same b by (rule nth_equalityI) (simp_all add: read_target_def activeReplicaIDs_def)
    have "list_all (\<lambda>t. map_option ra_Role (srv_assignmentForNode (activeServingChain rc)
        (cs_NodesByID (vw_Cluster v)) (rdr_NodeID t) ver) = Some (rdr_Role t)) (sro_ReadReplicas route)"
      unfolding same b using serving_role[OF assms(5)] by (simp add: list_all_iff read_target_def)
    with ids o(2) srv_tail_serving[OF o(2) assms(4)] show ?thesis
      unfolding same(1,2) b by (simp add: activeReplicaIDs_def hd_map last_map)
  qed
  show ?thesis unfolding rd wr using targets by blast
qed

definition ex_view :: rt_view where
  "ex_view = viewFromState (zeroState\<lparr>st_Cluster := ex_cluster, st_SlotVersions := fmap_of_list [(0, 4)]\<rparr>)"

theorem routing_snapshot_exact_witness:
  "let route = rs_Slots (reduceRoutingSnapshot ex_view fmempty fmempty) ! 0
   in sro_Readable route \<and> sro_Writable route \<and> sro_HeadNodeID route = ''a'' \<and> sro_TailNodeID route = ''b'' \<and>
      map rdr_NodeID (sro_ReadReplicas route) = [''a'', ''b'']"
proof -
  let ?c = "cs_Chains (vw_Cluster ex_view) ! 0"
  have f: "0 < length (cs_Chains (vw_Cluster ex_view))"
    "list_all (\<lambda>r. replica_NodeID r \<noteq> []) (chain_Replicas (route_chain fmempty ?c))"
    "distinct (replicaIDs (chain_Replicas (route_chain fmempty ?c)))"
    "route_open fmempty (route_chain fmempty ?c)" "\<not> hasJoiningReplica ?c"
    "activeReplicaIDs (route_chain fmempty ?c) = [''a'', ''b'']"
    by code_simp+
  from routing_snapshot_exact[OF f(1) refl refl f(2,3) refl, of fmempty] f(4-6)
  show ?thesis by (simp add: Let_def)
qed

end
