(* ===== verification/HA_Store.thy ===== *)
theory HA_Store
  imports Server_Reducer
begin

text \<open>
  The store that coordinator replicas share (\<open>coordserver/hastore.go\<close>,
  \<open>coordserver/hastore_inmemory.go\<close>): a leader lease with a fencing epoch and one
  versioned snapshot, written by compare-and-swap.  The record \<open>ha_store_ops\<close> is the
  interface \<open>HAStore\<close>; the locale \<open>ha_backing\<close> states what coordinators rely on and is
  interpreted on the in-memory store.  Instants are \<open>int64\<close> nanoseconds, kept as words
  and compared with \<open>sint\<close>.
\<close>

section \<open>Types\<close>

record leader_lease =
  ll_HolderID :: string
  ll_HolderEndpoint :: string
  ll_Epoch :: u64
  ll_ExpiresAtUnixNano :: u64

definition zero_lease :: leader_lease where
  "zero_lease = \<lparr>ll_HolderID = [], ll_HolderEndpoint = [], ll_Epoch = 0, ll_ExpiresAtUnixNano = 0\<rparr>"

datatype HAOutboxKind =
    OutboxCommandAddReplicaAsTail
  | OutboxCommandUpdateChainPeers
  | OutboxCommandMarkReplicaLeaving
  | OutboxCommandResumeRecovered
  | OutboxCommandRecoverReplica
  | OutboxCommandDropRecovered

record ha_outbox_entry =
  ho_ID :: string
  ho_Epoch :: u64
  ho_NodeID :: string
  ho_Slot :: int
  ho_SlotVersion :: u64
  ho_CommandID :: string
  ho_Kind :: HAOutboxKind
  ho_Assignment :: "replica_assignment option"
  ho_SourceNodeID :: string

record recovered_replica =
  rv_Assignment :: replica_assignment
  rv_LastKnownState :: storage_ReplicaState
  rv_HighestCommittedSequence :: u64
  rv_HasCommittedData :: bool

record recovery_report =
  rp_NodeID :: string
  rp_Replicas :: "recovered_replica list"

record ha_snapshot =
  hs_SnapshotVersion :: u64
  hs_State :: rt_state
  hs_PendingEpochBySlot :: "(int, u64) fmap"
  hs_Heartbeats :: "(string, node_status) fmap"
  hs_ActivePeerRefresh :: "(int, peer_refresh) fmap"
  hs_StartupBudgetActive :: bool
  hs_UnavailableReplicas :: unavailable_map
  hs_LastRecoveryReports :: "(string, recovery_report) fmap"
  hs_Outbox :: "ha_outbox_entry list"

definition zeroHASnapshot :: ha_snapshot where
  "zeroHASnapshot = \<lparr>hs_SnapshotVersion = 0, hs_State = zeroState, hs_PendingEpochBySlot = fmempty,
     hs_Heartbeats = fmempty, hs_ActivePeerRefresh = fmempty, hs_StartupBudgetActive = False,
     hs_UnavailableReplicas = fmempty, hs_LastRecoveryReports = fmempty, hs_Outbox = []\<rparr>"

text \<open>
  A nil map and an empty one are the same value here, so \<open>normalizeHASnapshot\<close> is the
  identity; a copy re-opens the runtime state, which drops false readiness flags.
\<close>

definition cloneHASnapshot :: "ha_snapshot \<Rightarrow> ha_snapshot" where
  "cloneHASnapshot h = h\<lparr>hs_State := cloneState (hs_State h)\<rparr>"

text \<open>Every method of the interface may fail with an error of the store.\<close>

record 's ha_store_ops =
  hop_CurrentLease :: "'s \<Rightarrow> srv_err + leader_lease \<times> bool"
  hop_AcquireOrRenew :: "'s \<Rightarrow> string \<Rightarrow> string \<Rightarrow> u64 \<Rightarrow> u64 \<Rightarrow> (srv_err + leader_lease \<times> bool) \<times> 's"
  hop_LoadSnapshot :: "'s \<Rightarrow> srv_err + ha_snapshot"
  hop_SaveSnapshot :: "'s \<Rightarrow> leader_lease \<Rightarrow> u64 \<Rightarrow> u64 \<Rightarrow> ha_snapshot \<Rightarrow> (srv_err + u64) \<times> 's"

section \<open>The in-memory store\<close>

record in_memory_ha_store =
  hm_lease :: leader_lease
  hm_hasLease :: bool
  hm_snapshot :: ha_snapshot
  hm_snapshotSet :: bool

definition NewInMemoryHAStore :: in_memory_ha_store where
  "NewInMemoryHAStore = \<lparr>hm_lease = zero_lease, hm_hasLease = False, hm_snapshot = zeroHASnapshot,
     hm_snapshotSet = False\<rparr>"

definition hm_CurrentLease :: "in_memory_ha_store \<Rightarrow> leader_lease \<times> bool" where
  "hm_CurrentLease s = (hm_lease s, hm_hasLease s)"

definition hm_AcquireOrRenew ::
  "in_memory_ha_store \<Rightarrow> string \<Rightarrow> string \<Rightarrow> u64 \<Rightarrow> u64 \<Rightarrow> (leader_lease \<times> bool) \<times> in_memory_ha_store" where
  "hm_AcquireOrRenew s holderID holderEndpoint now ttl =
     (let grant = (\<lambda>epoch. let l = \<lparr>ll_HolderID = holderID, ll_HolderEndpoint = holderEndpoint, ll_Epoch = epoch,
                                    ll_ExpiresAtUnixNano = now + ttl\<rparr>
                           in ((l, True), s\<lparr>hm_lease := l, hm_hasLease := True\<rparr>));
          currentExpired = (sint now \<ge> sint (ll_ExpiresAtUnixNano (hm_lease s)))
      in if \<not> hm_hasLease s then grant 1
         else if ll_HolderID (hm_lease s) = holderID \<and> \<not> currentExpired
           then let l = (hm_lease s)\<lparr>ll_HolderEndpoint := holderEndpoint, ll_ExpiresAtUnixNano := now + ttl\<rparr>
                in ((l, True), s\<lparr>hm_lease := l\<rparr>)
         else if currentExpired then grant (ll_Epoch (hm_lease s) + 1)
         else ((hm_lease s, False), s))"

definition hm_LoadSnapshot :: "in_memory_ha_store \<Rightarrow> ha_snapshot" where
  "hm_LoadSnapshot s = (if \<not> hm_snapshotSet s then zeroHASnapshot else cloneHASnapshot (hm_snapshot s))"

definition hm_SaveSnapshot ::
  "in_memory_ha_store \<Rightarrow> leader_lease \<Rightarrow> u64 \<Rightarrow> u64 \<Rightarrow> ha_snapshot \<Rightarrow> (srv_err + u64) \<times> in_memory_ha_store" where
  "hm_SaveSnapshot s lease now expectedSnapshotVersion snapshot =
     (if \<not> hm_hasLease s \<or> ll_HolderID (hm_lease s) \<noteq> ll_HolderID lease \<or> ll_Epoch (hm_lease s) \<noteq> ll_Epoch lease
         \<or> sint now \<ge> sint (ll_ExpiresAtUnixNano (hm_lease s))
      then (Inl (ErrNotLeader []), s)
      else let currentVersion = (if hm_snapshotSet s then hs_SnapshotVersion (hm_snapshot s) else 0)
           in if currentVersion \<noteq> expectedSnapshotVersion then (Inl ErrHASnapshotConflict, s)
              else let cloned = (cloneHASnapshot snapshot)\<lparr>hs_SnapshotVersion := expectedSnapshotVersion + 1\<rparr>
                   in (Inr (hs_SnapshotVersion cloned), s\<lparr>hm_snapshot := cloned, hm_snapshotSet := True\<rparr>))"

definition in_memory_ha_ops :: "in_memory_ha_store ha_store_ops" where
  "in_memory_ha_ops = \<lparr>hop_CurrentLease = (\<lambda>s. Inr (hm_CurrentLease s)),
     hop_AcquireOrRenew = (\<lambda>s who endpoint now ttl. let (r, s') = hm_AcquireOrRenew s who endpoint now ttl in (Inr r, s')),
     hop_LoadSnapshot = (\<lambda>s. Inr (hm_LoadSnapshot s)), hop_SaveSnapshot = hm_SaveSnapshot\<rparr>"

section \<open>What coordinators rely on\<close>

text \<open>
  A view of a store: the lease that was granted last, and the snapshot it holds, whose
  version is zero before the first save.
\<close>

definition lease_live :: "leader_lease option \<Rightarrow> leader_lease \<Rightarrow> u64 \<Rightarrow> bool" where
  "lease_live held lease now =
     (case held of None \<Rightarrow> False
      | Some l \<Rightarrow> ll_HolderID l = ll_HolderID lease \<and> ll_Epoch l = ll_Epoch lease \<and>
          sint now < sint (ll_ExpiresAtUnixNano l))"

text \<open>How the lease may change when it is granted to \<open>who\<close>.\<close>

definition lease_grant :: "leader_lease option \<Rightarrow> string \<Rightarrow> u64 \<Rightarrow> leader_lease \<Rightarrow> bool" where
  "lease_grant old who now l =
     (ll_HolderID l = who \<and>
      (case old of None \<Rightarrow> ll_Epoch l = 1
       | Some p \<Rightarrow>
           if sint now < sint (ll_ExpiresAtUnixNano p) then ll_HolderID p = who \<and> ll_Epoch l = ll_Epoch p
           else ll_Epoch l = ll_Epoch p + 1))"

locale ha_backing =
  fixes ops :: "'s ha_store_ops"
    and held :: "'s \<Rightarrow> leader_lease option"
    and doc :: "'s \<Rightarrow> ha_snapshot"
  assumes current: "hop_CurrentLease ops s = Inr (l, b) \<Longrightarrow> (if b then held s = Some l else held s = None)"
    and doc_clone [simp]: "cloneHASnapshot (doc s) = doc s"
    and load: "hop_LoadSnapshot ops s = Inr h \<Longrightarrow> h = doc s"
    and acquire_doc: "hop_AcquireOrRenew ops s who endpoint now ttl = (r, s') \<Longrightarrow> doc s' = doc s"
    and acquire_granted: "hop_AcquireOrRenew ops s who endpoint now ttl = (Inr (l, True), s') \<Longrightarrow>
      held s' = Some l \<and> lease_grant (held s) who now l"
    and acquire_refused: "hop_AcquireOrRenew ops s who endpoint now ttl = (Inr (l, False), s') \<Longrightarrow>
      s' = s \<and> held s = Some l \<and> ll_HolderID l \<noteq> who \<and> sint now < sint (ll_ExpiresAtUnixNano l)"
    and acquire_failed: "hop_AcquireOrRenew ops s who endpoint now ttl = (Inl e, s') \<Longrightarrow> s' = s"
    and save_ok: "hop_SaveSnapshot ops s lease now v h = (Inr v', s') \<Longrightarrow>
      lease_live (held s) lease now \<and> hs_SnapshotVersion (doc s) = v \<and> v' = v + 1 \<and>
      held s' = held s \<and> doc s' = (cloneHASnapshot h)\<lparr>hs_SnapshotVersion := v + 1\<rparr>"
    and save_failed: "hop_SaveSnapshot ops s lease now v h = (Inl e, s') \<Longrightarrow> s' = s"

definition hm_held :: "in_memory_ha_store \<Rightarrow> leader_lease option" where
  "hm_held s = (if hm_hasLease s then Some (hm_lease s) else None)"

lemma clone_ha_idem [simp]: "cloneHASnapshot (cloneHASnapshot h) = cloneHASnapshot h"
  by (simp add: cloneHASnapshot_def)

lemma clone_ha_version [simp]:
  "hs_SnapshotVersion (cloneHASnapshot h) = hs_SnapshotVersion h"
  "cloneHASnapshot (h\<lparr>hs_SnapshotVersion := v\<rparr>) = (cloneHASnapshot h)\<lparr>hs_SnapshotVersion := v\<rparr>"
  by (simp_all add: cloneHASnapshot_def)

lemma clone_ha_zero: "cloneHASnapshot zeroHASnapshot = zeroHASnapshot"
  using normal_zero by (simp add: cloneHASnapshot_def zeroHASnapshot_def normal_def)

lemma hm_load_version:
  "hs_SnapshotVersion (hm_LoadSnapshot s) = (if hm_snapshotSet s then hs_SnapshotVersion (hm_snapshot s) else 0)"
  by (simp add: hm_LoadSnapshot_def zeroHASnapshot_def)

lemma hm_save_exact:
  "hm_SaveSnapshot s lease now v h =
     (if \<not> lease_live (hm_held s) lease now then (Inl (ErrNotLeader []), s)
      else if hs_SnapshotVersion (hm_LoadSnapshot s) \<noteq> v then (Inl ErrHASnapshotConflict, s)
      else (Inr (v + 1), s\<lparr>hm_snapshot := (cloneHASnapshot h)\<lparr>hs_SnapshotVersion := v + 1\<rparr>, hm_snapshotSet := True\<rparr>))"
  by (auto simp: hm_SaveSnapshot_def hm_held_def lease_live_def hm_load_version Let_def)

interpretation hmem: ha_backing in_memory_ha_ops hm_held hm_LoadSnapshot
proof unfold_locales
  fix s s' :: in_memory_ha_store and who endpoint :: string and now ttl v v' :: u64
    and r l lease h e b
  show "if b then hm_held s = Some l else hm_held s = None"
    if "hop_CurrentLease in_memory_ha_ops s = Inr (l, b)"
    using that by (auto simp: in_memory_ha_ops_def hm_CurrentLease_def hm_held_def)
  show "cloneHASnapshot (hm_LoadSnapshot s) = hm_LoadSnapshot s"
    by (simp add: hm_LoadSnapshot_def clone_ha_zero)
  show "h = hm_LoadSnapshot s" if "hop_LoadSnapshot in_memory_ha_ops s = Inr h"
    using that by (simp add: in_memory_ha_ops_def)
  show "hm_LoadSnapshot s' = hm_LoadSnapshot s"
    if "hop_AcquireOrRenew in_memory_ha_ops s who endpoint now ttl = (r, s')"
    using that by (auto simp: in_memory_ha_ops_def hm_AcquireOrRenew_def hm_LoadSnapshot_def Let_def split: if_splits)
  show "hm_held s' = Some l \<and> lease_grant (hm_held s) who now l"
    if "hop_AcquireOrRenew in_memory_ha_ops s who endpoint now ttl = (Inr (l, True), s')"
    using that by (auto simp: in_memory_ha_ops_def hm_AcquireOrRenew_def hm_held_def lease_grant_def Let_def split: if_splits)
  show "s' = s \<and> hm_held s = Some l \<and> ll_HolderID l \<noteq> who \<and> sint now < sint (ll_ExpiresAtUnixNano l)"
    if "hop_AcquireOrRenew in_memory_ha_ops s who endpoint now ttl = (Inr (l, False), s')"
    using that by (auto simp: in_memory_ha_ops_def hm_AcquireOrRenew_def hm_held_def Let_def split: if_splits)
  show "s' = s" if "hop_AcquireOrRenew in_memory_ha_ops s who endpoint now ttl = (Inl e, s')"
    using that by (auto simp: in_memory_ha_ops_def split: prod.splits)
  show "lease_live (hm_held s) lease now \<and> hs_SnapshotVersion (hm_LoadSnapshot s) = v \<and> v' = v + 1 \<and>
      hm_held s' = hm_held s \<and> hm_LoadSnapshot s' = (cloneHASnapshot h)\<lparr>hs_SnapshotVersion := v + 1\<rparr>"
    if "hop_SaveSnapshot in_memory_ha_ops s lease now v h = (Inr v', s')"
    using that by (auto simp: in_memory_ha_ops_def hm_save_exact hm_held_def hm_LoadSnapshot_def split: if_splits)
  show "s' = s" if "hop_SaveSnapshot in_memory_ha_ops s lease now v h = (Inl e, s')"
    using that by (auto simp: in_memory_ha_ops_def hm_save_exact split: if_splits)
qed

section \<open>Leases over a run of store calls\<close>

datatype store_call =
    CallAcquire string string u64 u64
  | CallSave leader_lease u64 u64 ha_snapshot

text \<open>A run keeps the leases granted so far, each with the instant of its grant.\<close>

fun store_call_run ::
  "'s ha_store_ops \<Rightarrow> store_call \<Rightarrow> (leader_lease \<times> u64) list \<times> 's \<Rightarrow> (leader_lease \<times> u64) list \<times> 's" where
  "store_call_run ops (CallAcquire who endpoint now ttl) (gs, s) =
     (case hop_AcquireOrRenew ops s who endpoint now ttl of
        (Inr (l, True), s') \<Rightarrow> (gs @ [(l, now)], s')
      | (_, s') \<Rightarrow> (gs, s'))"
| "store_call_run ops (CallSave lease now v h) (gs, s) = (gs, snd (hop_SaveSnapshot ops s lease now v h))"

text \<open>Of two consecutive grants the second renews the first, or follows its expiry in a new epoch.\<close>

definition succeeds :: "leader_lease \<times> u64 \<Rightarrow> leader_lease \<times> u64 \<Rightarrow> bool" where
  "succeeds a b =
     ((ll_Epoch (fst b) = ll_Epoch (fst a) \<and> ll_HolderID (fst b) = ll_HolderID (fst a)) \<or>
      (unat (ll_Epoch (fst b)) = unat (ll_Epoch (fst a)) + 1 \<and>
       sint (ll_ExpiresAtUnixNano (fst a)) \<le> sint (snd b)))"

lemma grant_succeeds:
  assumes "lease_grant (Some p) who now l" and "unat (ll_Epoch p) + 1 < 2 ^ 64"
  shows "succeeds (p, t) (l, now)" and "unat (ll_Epoch l) \<le> unat (ll_Epoch p) + 1"
proof -
  have "unat (ll_Epoch p + 1) = unat (ll_Epoch p) + 1"
    using assms(2) by (simp add: unat_word_ariths)
  then show "succeeds (p, t) (l, now)" "unat (ll_Epoch l) \<le> unat (ll_Epoch p) + 1"
    using assms(1) by (auto simp: lease_grant_def succeeds_def split: if_splits)
qed

lemma succeeds_epochs:
  assumes "successively succeeds gs" and "i \<le> j" and "j < length gs"
  shows "unat (ll_Epoch (fst (gs ! i))) \<le> unat (ll_Epoch (fst (gs ! j))) \<and>
    (ll_Epoch (fst (gs ! i)) = ll_Epoch (fst (gs ! j)) \<longrightarrow> ll_HolderID (fst (gs ! i)) = ll_HolderID (fst (gs ! j)))"
  using assms(2,3)
proof (induction j rule: dec_induct)
  case (step j)
  then have s: "succeeds (gs ! j) (gs ! Suc j)" using assms(1) by (simp add: successively_conv_nth)
  from step have "unat (ll_Epoch (fst (gs ! i))) \<le> unat (ll_Epoch (fst (gs ! j)))"
    "ll_Epoch (fst (gs ! i)) = ll_Epoch (fst (gs ! j)) \<longrightarrow> ll_HolderID (fst (gs ! i)) = ll_HolderID (fst (gs ! j))"
    by simp_all
  with s show ?case by (auto simp: succeeds_def)
qed simp

context ha_backing
begin

lemma store_call_cases:
  assumes "store_call_run ops call (gs0, s0) = (gs, s')"
  obtains (keep) "gs = gs0" and "held s' = held s0"
  | (grant) l who now where "gs = gs0 @ [(l, now)]" and "held s' = Some l" and "lease_grant (held s0) who now l"
proof (cases call)
  case (CallSave lease now v h)
  obtain r s1 where sv: "hop_SaveSnapshot ops s0 lease now v h = (r, s1)" by fastforce
  then have "held s1 = held s0" using save_ok save_failed by (cases r) force+
  with sv assms CallSave show ?thesis using keep by simp
next
  case (CallAcquire who endpoint now ttl)
  obtain r s1 where a: "hop_AcquireOrRenew ops s0 who endpoint now ttl = (r, s1)" by fastforce
  show ?thesis
  proof (cases r)
    case (Inl e)
    with a assms CallAcquire acquire_failed[of s0 who endpoint now ttl e s1] show ?thesis using keep by simp
  next
    case (Inr p)
    obtain l b where p: "p = (l, b)" by fastforce
    show ?thesis
    proof (cases b)
      case True
      with a assms CallAcquire Inr p acquire_granted[of s0 who endpoint now ttl l s1]
      have "gs = gs0 @ [(l, now)]" "held s' = Some l" "lease_grant (held s0) who now l" by simp_all
      then show ?thesis by (rule grant)
    next
      case False
      with a assms CallAcquire Inr p acquire_refused[of s0 who endpoint now ttl l s1] show ?thesis using keep by simp
    qed
  qed
qed

lemma grants_inv:
  assumes "fold (store_call_run ops) calls ([], s) = (gs, s')" and "held s = None" and "length calls < 2 ^ 64"
  shows "successively succeeds gs \<and> held s' = (if gs = [] then None else Some (fst (last gs))) \<and>
    length gs \<le> length calls \<and> (gs \<noteq> [] \<longrightarrow> unat (ll_Epoch (fst (last gs))) \<le> length gs)"
  using assms(1,3)
proof (induction calls arbitrary: gs s' rule: rev_induct)
  case Nil
  with assms(2) show ?case by simp
next
  case (snoc call calls)
  obtain gs0 s0 where f: "fold (store_call_run ops) calls ([], s) = (gs0, s0)"
    and c: "store_call_run ops call (gs0, s0) = (gs, s')"
    using snoc.prems(1) by (cases "fold (store_call_run ops) calls ([], s)") simp
  from snoc.IH[OF f] snoc.prems(2) have IH: "successively succeeds gs0"
    "held s0 = (if gs0 = [] then None else Some (fst (last gs0)))" "length gs0 \<le> length calls"
    "gs0 \<noteq> [] \<longrightarrow> unat (ll_Epoch (fst (last gs0))) \<le> length gs0" by simp_all
  from c show ?case
  proof (cases rule: store_call_cases)
    case keep
    with IH show ?thesis by auto
  next
    case (grant l who now)
    show ?thesis
    proof (cases "gs0 = []")
      case True
      with grant IH(2) show ?thesis by (simp add: lease_grant_def)
    next
      case False
      obtain p tp where p: "last gs0 = (p, tp)" by fastforce
      have "unat (ll_Epoch p) + 1 < 2 ^ 64" using IH(3,4) False p snoc.prems(2) by simp
      from grant_succeeds(1)[OF _ this, of who now l tp] grant_succeeds(2)[OF _ this, of who now l] grant(3) IH(2) False p
      have "succeeds (last gs0) (l, now)" "unat (ll_Epoch l) \<le> unat (ll_Epoch p) + 1" by simp_all
      with grant IH False p show ?thesis by (auto simp: successively_append_iff)
    qed
  qed
qed

end

text \<open>
  C29. Leadership is exclusive and fenced: over any run of store calls by any number of
  coordinators, the epochs of the granted leases never decrease, two leases with the same
  epoch have the same holder, a new epoch is granted only at an instant at or after the
  expiry of the lease it replaces, and after the run a save is accepted only under
  the holder and epoch of the last grant, before its expiry.
\<close>

theorem ha_lease_exclusive:
  assumes "length calls < 2 ^ 64"
    and "fold (store_call_run in_memory_ha_ops) calls ([], NewInMemoryHAStore) = (gs, s)"
  shows "(\<forall>i j. i \<le> j \<longrightarrow> j < length gs \<longrightarrow>
      unat (ll_Epoch (fst (gs ! i))) \<le> unat (ll_Epoch (fst (gs ! j))) \<and>
      (ll_Epoch (fst (gs ! i)) = ll_Epoch (fst (gs ! j)) \<longrightarrow> ll_HolderID (fst (gs ! i)) = ll_HolderID (fst (gs ! j)))) \<and>
    (\<forall>i. Suc i < length gs \<longrightarrow> ll_Epoch (fst (gs ! i)) \<noteq> ll_Epoch (fst (gs ! Suc i)) \<longrightarrow>
      sint (ll_ExpiresAtUnixNano (fst (gs ! i))) \<le> sint (snd (gs ! Suc i))) \<and>
    (\<forall>lease now v h v' s'. hm_SaveSnapshot s lease now v h = (Inr v', s') \<longrightarrow>
      gs \<noteq> [] \<and> ll_HolderID lease = ll_HolderID (fst (last gs)) \<and> ll_Epoch lease = ll_Epoch (fst (last gs)) \<and>
      sint now < sint (ll_ExpiresAtUnixNano (fst (last gs))))"
proof -
  have "hm_held NewInMemoryHAStore = None" by (simp add: hm_held_def NewInMemoryHAStore_def)
  from hmem.grants_inv[OF assms(2) this assms(1)]
  have inv: "successively succeeds gs" "hm_held s = (if gs = [] then None else Some (fst (last gs)))" by simp_all
  have "sint (ll_ExpiresAtUnixNano (fst (gs ! i))) \<le> sint (snd (gs ! Suc i))"
    if "Suc i < length gs" "ll_Epoch (fst (gs ! i)) \<noteq> ll_Epoch (fst (gs ! Suc i))" for i
    using inv(1) that by (auto simp: successively_conv_nth succeeds_def)
  with succeeds_epochs[OF inv(1)] inv(2) show ?thesis
    by (auto simp: hm_save_exact lease_live_def split: if_splits)
qed

theorem ha_lease_exclusive_witness:
  "let (gs, s) = fold (store_call_run in_memory_ha_ops)
     [CallAcquire ''a'' [] 0 10, CallAcquire ''b'' [] 5 10, CallAcquire ''a'' [] 6 10, CallAcquire ''b'' [] 20 10]
     ([], NewInMemoryHAStore)
   in map (\<lambda>g. (ll_HolderID (fst g), ll_Epoch (fst g))) gs = [(''a'', 1), (''a'', 1), (''b'', 2)] \<and>
      sint (ll_ExpiresAtUnixNano (fst (gs ! 1))) \<le> sint (snd (gs ! 2))"
proof -
  obtain gs s where r: "fold (store_call_run in_memory_ha_ops)
     [CallAcquire ''a'' [] 0 10, CallAcquire ''b'' [] 5 10, CallAcquire ''a'' [] 6 10, CallAcquire ''b'' [] 20 10]
     ([], NewInMemoryHAStore) = (gs, s)" by fastforce
  have m: "map (\<lambda>g. (ll_HolderID (fst g), ll_Epoch (fst g)))
     (fst (fold (store_call_run in_memory_ha_ops)
     [CallAcquire ''a'' [] 0 10, CallAcquire ''b'' [] 5 10, CallAcquire ''a'' [] 6 10, CallAcquire ''b'' [] 20 10]
     ([], NewInMemoryHAStore))) = [(''a'', 1), (''a'', 1), (''b'', 2)]" by code_simp
  have "length gs = 3" "ll_Epoch (fst (gs ! 1)) = 1" "ll_Epoch (fst (gs ! 2)) = 2"
    using m r by (auto dest: arg_cong[of _ _ length] arg_cong[of _ _ "\<lambda>xs. snd (xs ! 1)"] arg_cong[of _ _ "\<lambda>xs. snd (xs ! 2)"])
  moreover from ha_lease_exclusive[OF _ r]
  have "\<forall>i. Suc i < length gs \<longrightarrow> ll_Epoch (fst (gs ! i)) \<noteq> ll_Epoch (fst (gs ! Suc i)) \<longrightarrow>
      sint (ll_ExpiresAtUnixNano (fst (gs ! i))) \<le> sint (snd (gs ! Suc i))" by simp
  from this[rule_format, of 1] calculation m r show ?thesis by (simp add: numeral_2_eq_2)
qed

end
