(* ===== verification/HA_Engine.thy ===== *)
theory HA_Engine
  imports HA_Store "HOL-Library.Product_Lexorder"
begin

text \<open>
  The coordinator server in high-availability mode (\<open>coordserver/ha.go\<close>,
  \<open>coordserver/ha_engine.go\<close> and the helpers of \<open>coordserver/server.go\<close> they call).  A
  handler runs on the server's fields and the shared store; it is a function of both
  that returns an error or a value with the new pair, composed with \<open>act_bind\<close>.  The
  clock is a function from the number of readings so far; what a storage node answers to
  a command is the parameter \<open>node\<close>.  A loop that retries a bounded number of times
  recurses on the attempts left.
\<close>

section \<open>The server\<close>

record srv_pending = pending_work +
  pw_Epoch :: u64

record coord_server =
  cv_CoordinatorID :: string
  cv_AdvertiseAddress :: string
  cv_LeaseTTL :: u64
  cv_lease :: leader_lease
  cv_isLeader :: bool
  cv_livenessPolicy :: liveness_policy
  cv_startupMaxChangedChains :: int
  cv_asyncHotPathDispatch :: bool
  cv_nodes :: "string list"  \<comment> \<open>the nodes with a configured client\<close>
  cv_clock :: "nat \<Rightarrow> u64"
  cv_ticks :: nat
  cv_rt :: rt_state
  cv_heartbeats :: "(string, node_status) fmap"
  cv_liveness :: liveness_map
  cv_pending :: "(int, srv_pending) fmap"
  cv_completed :: completed_map
  cv_runtimeVersion :: u64
  cv_runtimeOutbox :: "outbox_entry list"
  cv_lastPolicy :: reconfiguration_policy
  cv_startupBudgetActive :: bool
  cv_unavailableReplicas :: unavailable_map
  cv_lastRecoveryReports :: "(string, recovery_report) fmap"
  cv_activePeerRefresh :: "(int, peer_refresh) fmap"
  cv_routingSnapshot :: routing_snapshot

text \<open>The commands a storage node receives (interface \<open>StorageNodeClient\<close>).\<close>

datatype node_command =
    NodeAddReplicaAsTail replica_assignment u64
  | NodeUpdateChainPeers replica_assignment u64
  | NodeMarkReplicaLeaving int u64
  | NodeResumeRecoveredReplica replica_assignment u64
  | NodeRecoverReplica replica_assignment string u64
  | NodeDropRecoveredReplica int u64

type_synonym node_reply = "string \<Rightarrow> node_command \<Rightarrow> srv_err option"

type_synonym ('s, 'a) act = "coord_server \<times> 's \<Rightarrow> (srv_err + 'a) \<times> (coord_server \<times> 's)"

definition act_return :: "'a \<Rightarrow> ('s, 'a) act" where
  "act_return x st = (Inr x, st)"

definition act_fail :: "srv_err \<Rightarrow> ('s, 'a) act" where
  "act_fail e st = (Inl e, st)"

definition act_bind :: "('s, 'a) act \<Rightarrow> ('a \<Rightarrow> ('s, 'b) act) \<Rightarrow> ('s, 'b) act" where
  "act_bind m f st = (case m st of (Inl e, st') \<Rightarrow> (Inl e, st') | (Inr x, st') \<Rightarrow> f x st')"

definition act_catch :: "('s, 'a) act \<Rightarrow> (srv_err \<Rightarrow> ('s, 'a) act) \<Rightarrow> ('s, 'a) act" where
  "act_catch m h st = (case m st of (Inl e, st') \<Rightarrow> h e st' | (Inr x, st') \<Rightarrow> (Inr x, st'))"

definition act_lift :: "srv_err + 'a \<Rightarrow> ('s, 'a) act" where
  "act_lift r st = (r, st)"

definition act_server :: "('s, coord_server) act" where
  "act_server st = (Inr (fst st), st)"

definition act_update :: "(coord_server \<Rightarrow> coord_server) \<Rightarrow> ('s, unit) act" where
  "act_update f st = (Inr (), (f (fst st), snd st))"

definition clock_Now :: "('s, u64) act" where
  "clock_Now st = (Inr (cv_clock (fst st) (cv_ticks (fst st))),
     ((fst st)\<lparr>cv_ticks := cv_ticks (fst st) + 1\<rparr>, snd st))"

lemmas act_defs = act_return_def act_fail_def act_bind_def act_catch_def act_lift_def act_server_def
  act_update_def clock_Now_def

section \<open>Pure helpers\<close>

text \<open>A loop over a Go map that keeps some entries and transforms them.\<close>

definition fm_map_filter :: "('k \<Rightarrow> 'a \<Rightarrow> 'b option) \<Rightarrow> ('k, 'a) fmap \<Rightarrow> ('k, 'b) fmap" where
  "fm_map_filter f m =
     fmmap_keys (\<lambda>k v. the (f k v))
       (fmfilter (\<lambda>k. case fmlookup m k of None \<Rightarrow> False | Some v \<Rightarrow> f k v \<noteq> None) m)"

lemma fm_map_filter_lookup [simp]: "fmlookup (fm_map_filter f m) k = Option.bind (fmlookup m k) (f k)"
  by (auto simp: fm_map_filter_def split: option.split)

definition isNotLeader :: "srv_err \<Rightarrow> bool" where
  "isNotLeader e = (case e of ErrNotLeader _ \<Rightarrow> True | _ \<Rightarrow> False)"

definition isRuntimeInitialized :: "rt_state \<Rightarrow> bool" where
  "isRuntimeInitialized st = (cs_SlotCount (st_Cluster st) > 0)"

definition isZeroNodeStatus :: "node_status \<Rightarrow> bool" where
  "isZeroNodeStatus s = (ns_NodeID s = [] \<and> ns_ReplicaCount s = 0 \<and> ns_ActiveCount s = 0 \<and>
     ns_CatchingUpCount s = 0 \<and> ns_LeavingCount s = 0)"

definition nodeMarkedDead :: "cluster_state \<Rightarrow> string \<Rightarrow> bool" where
  "nodeMarkedDead cluster nodeID = (fmlookup (cs_NodeHealthByID cluster) nodeID = Some NodeHealthDead)"

definition clusterFullySettledForStartup :: "cluster_state \<Rightarrow> bool" where
  "clusterFullySettledForStartup cluster =
     (if cs_SlotCount cluster = 0 \<or> cs_ReplicationFactor cluster \<le> 0 \<or>
         int (length (cs_Chains cluster)) \<noteq> cs_SlotCount cluster then False
      else list_all (\<lambda>c. int (length (chain_Replicas c)) = cs_ReplicationFactor cluster \<and>
             list_all is_active (chain_Replicas c)) (cs_Chains cluster))"

definition slotPlanHasOnlyStepKind :: "slot_plan \<Rightarrow> StepKind \<Rightarrow> bool" where
  "slotPlanHasOnlyStepKind sp kind = (sp_Steps sp \<noteq> [] \<and> list_all (\<lambda>s. step_Kind s = kind) (sp_Steps sp))"

definition runtimeOutboxHasSlot :: "outbox_entry list \<Rightarrow> int \<Rightarrow> bool" where
  "runtimeOutboxHasSlot entries slot = list_ex (\<lambda>e. oe_Slot e = slot) entries"

definition runtimeOutboxHasEntryID :: "outbox_entry list \<Rightarrow> string \<Rightarrow> bool" where
  "runtimeOutboxHasEntryID entries entryID = list_ex (\<lambda>e. oe_ID e = entryID) entries"

definition slotProgressViewFromState :: "rt_state \<Rightarrow> int \<Rightarrow> slot_progress_view" where
  "slotProgressViewFromState state slot =
     \<lparr>spv_Version = st_Version state, spv_ReplicationFactor = cs_ReplicationFactor (st_Cluster state),
      spv_Chain = (if 0 \<le> slot \<and> slot < int (length (cs_Chains (st_Cluster state)))
                   then cs_Chains (st_Cluster state) ! nat slot else zero_chain),
      spv_SlotVersion = fm_get 0 (st_SlotVersions state) slot,
      spv_Pending = fmlookup (st_PendingBySlot state) slot,
      spv_Completed = fm_get [] (st_CompletedProgressBySlot state) slot\<rparr>"

definition mergeHeartbeatStatuses :: "(string, node_status) fmap \<Rightarrow> liveness_map \<Rightarrow> (string, node_status) fmap" where
  "mergeHeartbeatStatuses existing persisted =
     fm_map_filter (\<lambda>_ r. if isZeroNodeStatus (nl_LastStatus r) then None else Some (nl_LastStatus r)) persisted
       ++\<^sub>f existing"

definition nextHAHeartbeats ::
  "(string, node_status) fmap \<Rightarrow> command \<Rightarrow> liveness_map \<Rightarrow> (string, node_status) fmap" where
  "nextHAHeartbeats current cmd liveness =
     (let put = (\<lambda>ob. fmupd (ns_NodeID (ob_Status ob)) (ob_Status ob) current);
          next = (case cmd_NodeReady cmd of Some ob \<Rightarrow> put ob
                  | None \<Rightarrow> (case cmd_Heartbeat cmd of Some ob \<Rightarrow> put ob | None \<Rightarrow> current))
      in mergeHeartbeatStatuses next liveness)"

definition initialHAStartupBudgetActive :: "ha_snapshot \<Rightarrow> bool \<Rightarrow> rt_state \<Rightarrow> bool" where
  "initialHAStartupBudgetActive snapshot defaultActive state =
     (if clusterFullySettledForStartup (st_Cluster state) then False
      else if hs_SnapshotVersion snapshot = 0 \<and> \<not> isRuntimeInitialized (hs_State snapshot) then defaultActive
      else hs_StartupBudgetActive snapshot)"

definition nextHAStartupBudgetActive :: "ha_snapshot \<Rightarrow> bool \<Rightarrow> rt_state \<Rightarrow> bool" where
  "nextHAStartupBudgetActive snapshot defaultActive state = initialHAStartupBudgetActive snapshot defaultActive state"

definition refresh_for_plan :: "slot_plan \<Rightarrow> peer_refresh" where
  "refresh_for_plan sp =
     (if slotPlanHasOnlyStepKind sp StepKindAppendTail
      then zero_refresh\<lparr>pf_AssignmentChain := sp_After sp, pf_AllowWhilePending := True\<rparr>
      else zero_refresh)"

definition nextHAActivePeerRefreshFromPlan ::
  "(int, peer_refresh) fmap \<Rightarrow> reconfiguration_plan option \<Rightarrow> (int, peer_refresh) fmap" where
  "nextHAActivePeerRefreshFromPlan current plan =
     (case plan of None \<Rightarrow> current
      | Some p \<Rightarrow> fold (\<lambda>sp. fmupd (sp_Slot sp) (refresh_for_plan sp)) (ChangedSlots p) current)"

section \<open>The outbox\<close>

fun show_HAOutboxKind :: "HAOutboxKind \<Rightarrow> string" where
  "show_HAOutboxKind OutboxCommandAddReplicaAsTail = ''add_replica_as_tail''"
| "show_HAOutboxKind OutboxCommandUpdateChainPeers = ''update_chain_peers''"
| "show_HAOutboxKind OutboxCommandMarkReplicaLeaving = ''mark_replica_leaving''"
| "show_HAOutboxKind OutboxCommandResumeRecovered = ''resume_recovered_replica''"
| "show_HAOutboxKind OutboxCommandRecoverReplica = ''recover_replica''"
| "show_HAOutboxKind OutboxCommandDropRecovered = ''drop_recovered_replica''"

fun haOutboxKindFromRuntime :: "OutboxCommandKind \<Rightarrow> HAOutboxKind" where
  "haOutboxKindFromRuntime OutboxCommandKindAddReplicaAsTail = OutboxCommandAddReplicaAsTail"
| "haOutboxKindFromRuntime OutboxCommandKindUpdateChainPeers = OutboxCommandUpdateChainPeers"
| "haOutboxKindFromRuntime OutboxCommandKindMarkReplicaLeaving = OutboxCommandMarkReplicaLeaving"

definition isRecoveryOutboxKind :: "HAOutboxKind \<Rightarrow> bool" where
  "isRecoveryOutboxKind kind =
     (kind \<in> {OutboxCommandResumeRecovered, OutboxCommandRecoverReplica, OutboxCommandDropRecovered})"

definition commandIDForOutbox :: "HAOutboxKind \<Rightarrow> string \<Rightarrow> int \<Rightarrow> u64 \<Rightarrow> string" where
  "commandIDForOutbox kind nodeID slot epoch =
     show_HAOutboxKind kind @ ''-'' @ nodeID @ ''-'' @ dec_int slot @ ''-e'' @ dec_u64 epoch"

definition activePeerRefreshOutboxID :: "int \<Rightarrow> string \<Rightarrow> string" where
  "activePeerRefreshOutboxID slot nodeID = ''ha-peer-refresh-slot'' @ dec_int slot @ ''-'' @ nodeID"

definition recoveryOutboxID :: "HAOutboxKind \<Rightarrow> string \<Rightarrow> int \<Rightarrow> string" where
  "recoveryOutboxID kind nodeID slot =
     ''ha-recovery-'' @ show_HAOutboxKind kind @ ''-'' @ nodeID @ ''-'' @ dec_int slot"

definition haRecoveryOutboxReplaceKey :: "ha_outbox_entry \<Rightarrow> string" where
  "haRecoveryOutboxReplaceKey entry = ho_NodeID entry @ ''-'' @ dec_int (ho_Slot entry)"

definition filterRecoveryOutboxEntries :: "ha_outbox_entry list \<Rightarrow> ha_outbox_entry list" where
  "filterRecoveryOutboxEntries entries = filter (\<lambda>e. isRecoveryOutboxKind (ho_Kind e)) entries"

definition removeOutboxEntry :: "ha_outbox_entry list \<Rightarrow> string \<Rightarrow> ha_outbox_entry list" where
  "removeOutboxEntry entries entryID = filter (\<lambda>e. ho_ID e \<noteq> entryID) entries"

definition replaceHARecoveryOutboxEntries ::
  "ha_outbox_entry list \<Rightarrow> ha_outbox_entry list \<Rightarrow> ha_outbox_entry list" where
  "replaceHARecoveryOutboxEntries base added =
     filter (\<lambda>e. isRecoveryOutboxKind (ho_Kind e) \<and>
         haRecoveryOutboxReplaceKey e \<notin> set (map haRecoveryOutboxReplaceKey added)) base @ added"

definition runtimeHAOutboxEntries :: "outbox_entry list \<Rightarrow> u64 \<Rightarrow> ha_outbox_entry list" where
  "runtimeHAOutboxEntries entries epoch =
     map (\<lambda>e. \<lparr>ho_ID = oe_ID e, ho_Epoch = epoch, ho_NodeID = oe_NodeID e, ho_Slot = oe_Slot e,
        ho_SlotVersion = ra_ChainVersion (oe_Assignment e), ho_CommandID = oe_CommandID e,
        ho_Kind = haOutboxKindFromRuntime (oe_Kind e), ho_Assignment = Some (oe_Assignment e),
        ho_SourceNodeID = []\<rparr>) entries"

definition shouldDispatchActivePeerRefreshForState :: "rt_state \<Rightarrow> int \<Rightarrow> peer_refresh \<Rightarrow> bool" where
  "shouldDispatchActivePeerRefreshForState state slot refresh =
     (if pf_AllowWhilePending refresh then True
      else if fm_has (st_PendingBySlot state) slot then False
      else \<not> runtimeOutboxHasSlot (st_Outbox state) slot)"

definition chainForActivePeerRefresh :: "rt_state \<Rightarrow> int \<Rightarrow> peer_refresh \<Rightarrow> chain option" where
  "chainForActivePeerRefresh state slot refresh =
     (if slot < 0 \<or> slot \<ge> int (length (cs_Chains (st_Cluster state))) then None
      else if chain_Replicas (pf_AssignmentChain refresh) \<noteq> [] \<and> chain_Slot (pf_AssignmentChain refresh) = slot
      then Some (pf_AssignmentChain refresh)
      else Some (activeServingChain (cs_Chains (st_Cluster state) ! nat slot)))"

definition refreshStateWithDefaultRemainingNodes :: "rt_state \<Rightarrow> int \<Rightarrow> peer_refresh \<Rightarrow> peer_refresh option" where
  "refreshStateWithDefaultRemainingNodes state slot refresh =
     (if pf_RemainingNodeIDs refresh \<noteq> fmempty then Some refresh
      else map_option (\<lambda>c. refresh\<lparr>pf_RemainingNodeIDs :=
          fold (\<lambda>r. fmupd (replica_NodeID r) True) (filter is_active (chain_Replicas c)) fmempty\<rparr>)
        (chainForActivePeerRefresh state slot refresh))"

definition peer_refresh_entries :: "rt_state \<Rightarrow> u64 \<Rightarrow> int \<Rightarrow> peer_refresh \<Rightarrow> ha_outbox_entry list" where
  "peer_refresh_entries state epoch slot refresh =
     (if \<not> shouldDispatchActivePeerRefreshForState state slot refresh then []
      else case refreshStateWithDefaultRemainingNodes state slot refresh of
             None \<Rightarrow> []
           | Some initialized \<Rightarrow>
               (case chainForActivePeerRefresh state slot initialized of
                  None \<Rightarrow> []
                | Some c \<Rightarrow>
                    List.map_filter (\<lambda>nodeID.
                      map_option (\<lambda>a. \<lparr>ho_ID = activePeerRefreshOutboxID slot nodeID, ho_Epoch = epoch,
                          ho_NodeID = nodeID, ho_Slot = slot, ho_SlotVersion = ra_ChainVersion a,
                          ho_CommandID = commandIDForOutbox OutboxCommandUpdateChainPeers nodeID slot epoch,
                          ho_Kind = OutboxCommandUpdateChainPeers, ho_Assignment = Some a,
                          ho_SourceNodeID = []\<rparr>)
                        (srv_assignmentForNode c (cs_NodesByID (st_Cluster state)) nodeID
                          (fm_get 0 (st_SlotVersions state) slot)))
                    (filter (flag (pf_RemainingNodeIDs initialized))
                      (sorted_list_of_fset (fmdom (pf_RemainingNodeIDs initialized))))))"

definition activePeerRefreshOutboxEntries ::
  "rt_state \<Rightarrow> (int, peer_refresh) fmap \<Rightarrow> u64 \<Rightarrow> ha_outbox_entry list" where
  "activePeerRefreshOutboxEntries state persisted epoch =
     concat (map (\<lambda>slot. peer_refresh_entries state epoch slot (fm_get zero_refresh persisted slot))
       (sorted_list_of_fset (fmdom persisted)))"

text \<open>
  \<open>sort.Slice\<close> with an order that only ties entries of equal slot, kind, node and
  identifier; the model sorts stably.
\<close>

definition sortHAOutbox :: "ha_outbox_entry list \<Rightarrow> ha_outbox_entry list" where
  "sortHAOutbox entries =
     sort_key (\<lambda>e. (ho_Slot e, show_HAOutboxKind (ho_Kind e), ho_NodeID e, ho_ID e)) entries"

definition rebuildHAOutbox :: "ha_snapshot \<Rightarrow> u64 \<Rightarrow> ha_outbox_entry list" where
  "rebuildHAOutbox snapshot epoch =
     sortHAOutbox (filterRecoveryOutboxEntries (hs_Outbox snapshot)
       @ runtimeHAOutboxEntries (st_Outbox (hs_State snapshot)) epoch
       @ activePeerRefreshOutboxEntries (hs_State snapshot) (hs_ActivePeerRefresh snapshot) epoch)"

definition pendingEpochFromHAOutbox :: "int \<Rightarrow> pending_work \<Rightarrow> ha_outbox_entry list \<Rightarrow> u64 option" where
  "pendingEpochFromHAOutbox slot pending outbox =
     map_option ho_Epoch (find (\<lambda>e. ho_Slot e = slot \<and> ho_NodeID e = pw_NodeID pending \<and>
       ((pw_Kind pending = PendingKindReady \<and> ho_Kind e = OutboxCommandAddReplicaAsTail) \<or>
        (pw_Kind pending = PendingKindRemoved \<and> ho_Kind e = OutboxCommandMarkReplicaLeaving))) outbox)"

definition nextHAPendingEpochs ::
  "(int, u64) fmap \<Rightarrow> pending_map \<Rightarrow> pending_map \<Rightarrow> ha_outbox_entry list \<Rightarrow> (int, u64) fmap" where
  "nextHAPendingEpochs current currentPending nextPend outbox =
     fm_map_filter (\<lambda>slot pending.
       if fmlookup currentPending slot = Some pending \<and> fm_has current slot then fmlookup current slot
       else case pendingEpochFromHAOutbox slot pending outbox of
              Some epoch \<Rightarrow> Some epoch
            | None \<Rightarrow> fmlookup current slot) nextPend"

definition pendingFromHASnapshot :: "ha_snapshot \<Rightarrow> (int, srv_pending) fmap" where
  "pendingFromHASnapshot snapshot =
     fmmap_keys (\<lambda>slot p. \<lparr>pw_Slot = pw_Slot p, pw_NodeID = pw_NodeID p, pw_Kind = pw_Kind p,
        pw_SlotVersion = pw_SlotVersion p, pw_CommandID = pw_CommandID p,
        pw_Epoch = fm_get 0 (hs_PendingEpochBySlot snapshot) slot\<rparr>) (st_PendingBySlot (hs_State snapshot))"

definition rewriteSnapshotEpoch :: "ha_snapshot \<Rightarrow> u64 \<Rightarrow> ha_snapshot \<times> bool" where
  "rewriteSnapshotEpoch snapshot epoch =
     ((cloneHASnapshot snapshot)\<lparr>hs_Outbox := map (\<lambda>e. e\<lparr>ho_Epoch := epoch\<rparr>) (hs_Outbox snapshot)\<rparr>,
      list_ex (\<lambda>e. ho_Epoch e \<noteq> epoch) (hs_Outbox snapshot))"

definition isZeroHAActivePeerRefreshState :: "peer_refresh \<Rightarrow> bool" where
  "isZeroHAActivePeerRefreshState state =
     (\<not> pf_UseFallbackRoute state \<and> \<not> pf_AllowWhilePending state \<and>
      chain_Replicas (pf_FallbackServingChain state) = [] \<and> chain_Replicas (pf_AssignmentChain state) = [] \<and>
      pf_RemainingNodeIDs state = fmempty)"

definition haOutboxHasActivePeerRefreshForSlot :: "ha_outbox_entry list \<Rightarrow> int \<Rightarrow> bool" where
  "haOutboxHasActivePeerRefreshForSlot entries slot =
     (let prefix = ''ha-peer-refresh-slot'' @ dec_int slot @ ''-''
      in list_ex (\<lambda>e. ho_Kind e = OutboxCommandUpdateChainPeers \<and> take (length prefix) (ho_ID e) = prefix) entries)"

section \<open>Recovery reports\<close>

definition currentAssignmentForNode :: "rt_state \<Rightarrow> string \<Rightarrow> int \<Rightarrow> replica_assignment option" where
  "currentAssignmentForNode state nodeID slot =
     (if slot < 0 \<or> slot \<ge> int (length (cs_Chains (st_Cluster state))) then None
      else srv_assignmentForNode (cs_Chains (st_Cluster state) ! nat slot) (cs_NodesByID (st_Cluster state)) nodeID
             (fm_get 0 (st_SlotVersions state) slot))"

definition replicaRoleCanResumeRecovered :: "ReplicaRole \<Rightarrow> bool" where
  "replicaRoleCanResumeRecovered role = (role \<in> {ReplicaRoleSingle, ReplicaRoleTail})"

definition assignmentsEquivalentForRecovery :: "replica_assignment \<Rightarrow> replica_assignment \<Rightarrow> bool" where
  "assignmentsEquivalentForRecovery left right =
     (ra_Slot left = ra_Slot right \<and> ra_ChainVersion left = ra_ChainVersion right \<and> ra_Role left = ra_Role right \<and>
      PredecessorNodeID (ra_Peers left) = PredecessorNodeID (ra_Peers right) \<and>
      SuccessorNodeID (ra_Peers left) = SuccessorNodeID (ra_Peers right) \<and>
      (TailNodeID (ra_Peers left) = TailNodeID (ra_Peers right) \<or> TailNodeID (ra_Peers left) = [] \<or>
       TailNodeID (ra_Peers right) = []))"

definition canResumeRecoveredReplica :: "recovered_replica \<Rightarrow> replica_assignment \<Rightarrow> bool" where
  "canResumeRecoveredReplica rv current =
     (replicaRoleCanResumeRecovered (ra_Role current) \<and> rv_HasCommittedData rv \<and>
      rv_LastKnownState rv = ReplicaStateActive_s \<and>
      assignmentsEquivalentForRecovery (rv_Assignment rv) current)"

definition recoverySourceNodeID :: "chain \<Rightarrow> string \<Rightarrow> string option" where
  "recoverySourceNodeID c recoveringNodeID =
     (case findReplicaIndex c recoveringNodeID of
        None \<Rightarrow> None
      | Some i \<Rightarrow>
          if i > 0 then Some (replica_NodeID (chain_Replicas c ! (i - 1)))
          else if i + 1 < length (chain_Replicas c) then Some (replica_NodeID (chain_Replicas c ! (i + 1)))
          else None)"

definition recovery_entry ::
  "HAOutboxKind \<Rightarrow> string \<Rightarrow> int \<Rightarrow> u64 \<Rightarrow> replica_assignment option \<Rightarrow> string \<Rightarrow> ha_outbox_entry" where
  "recovery_entry kind nodeID slot epoch assignment source =
     \<lparr>ho_ID = recoveryOutboxID kind nodeID slot, ho_Epoch = epoch, ho_NodeID = nodeID, ho_Slot = slot,
      ho_SlotVersion = (case assignment of None \<Rightarrow> 0 | Some a \<Rightarrow> ra_ChainVersion a),
      ho_CommandID = commandIDForOutbox kind nodeID slot epoch, ho_Kind = kind, ho_Assignment = assignment,
      ho_SourceNodeID = source\<rparr>"

definition recoveryOutboxEntriesForReport ::
  "rt_state \<Rightarrow> recovery_report \<Rightarrow> u64 \<Rightarrow> srv_err + ha_outbox_entry list" where
  "recoveryOutboxEntriesForReport state report epoch =
     fold_res (\<lambda>rv entries.
       let nodeID = rp_NodeID report; slot = ra_Slot (rv_Assignment rv)
       in case currentAssignmentForNode state nodeID slot of
            None \<Rightarrow> Inr (entries @ [recovery_entry OutboxCommandDropRecovered nodeID slot epoch None []])
          | Some current \<Rightarrow>
              if canResumeRecoveredReplica rv current
              then Inr (entries @ [recovery_entry OutboxCommandResumeRecovered nodeID slot epoch (Some current) []])
              else (case recoverySourceNodeID (cs_Chains (st_Cluster state) ! nat slot) nodeID of
                      None \<Rightarrow> Inl ErrRecoveryFailed
                    | Some source \<Rightarrow> Inr (entries @
                        [recovery_entry OutboxCommandRecoverReplica nodeID slot epoch (Some current) source])))
       (rp_Replicas report) []"

definition markUnavailableReplicasInSnapshot :: "ha_snapshot \<Rightarrow> recovery_report \<Rightarrow> ha_snapshot" where
  "markUnavailableReplicasInSnapshot snapshot report =
     snapshot\<lparr>hs_UnavailableReplicas := fmupd (rp_NodeID report)
       (fold (\<lambda>r. fmupd (ra_Slot (rv_Assignment r)) True) (rp_Replicas report)
          (fm_get fmempty (hs_UnavailableReplicas snapshot) (rp_NodeID report)))
       (hs_UnavailableReplicas snapshot)\<rparr>"

definition clearUnavailableInHASnapshot :: "ha_snapshot \<Rightarrow> string \<Rightarrow> int \<Rightarrow> ha_snapshot" where
  "clearUnavailableInHASnapshot snapshot nodeID slot =
     (case fmlookup (hs_UnavailableReplicas snapshot) nodeID of
        None \<Rightarrow> snapshot
      | Some slots \<Rightarrow>
          let slots' = fmdrop slot slots
          in snapshot\<lparr>hs_UnavailableReplicas :=
               (if slots' = fmempty then fmdrop nodeID (hs_UnavailableReplicas snapshot)
                else fmupd nodeID slots' (hs_UnavailableReplicas snapshot))\<rparr>)"

definition haSnapshotHasUnavailableSlots :: "ha_snapshot \<Rightarrow> string \<Rightarrow> bool" where
  "haSnapshotHasUnavailableSlots snapshot nodeID =
     (case fmlookup (hs_UnavailableReplicas snapshot) nodeID of None \<Rightarrow> False | Some slots \<Rightarrow> slots \<noteq> fmempty)"

end
