(* ===== verification/HA_Server.thy ===== *)
theory HA_Server
  imports HA_Engine
begin

unbundle bit_operations_syntax

text \<open>
  The handlers of the high-availability coordinator: leadership (\<open>StepHA\<close>,
  \<open>ensureLeader\<close>), the read-evaluate-save cycle \<open>applyHARuntimeCommand\<close>, every command
  built on it, and the dispatch of the durable outbox (\<open>coordserver/ha.go\<close>,
  \<open>coordserver/ha_engine.go\<close>).  Locks and the dispatch engine's single goroutine make
  a handler sequential; other coordinators act on the store between its store calls.
\<close>

section \<open>Synchronising with the store\<close>

definition syncFromHASnapshot :: "ha_snapshot \<Rightarrow> coord_server \<Rightarrow> coord_server" where
  "syncFromHASnapshot snapshot srv =
     (let rt = cloneState (hs_State snapshot); current = viewFromState rt;
          refresh = fm_map_filter (\<lambda>slot state.
            if isZeroHAActivePeerRefreshState state \<and> \<not> haOutboxHasActivePeerRefreshForSlot (hs_Outbox snapshot) slot
            then None else Some state) (hs_ActivePeerRefresh snapshot)
      in srv\<lparr>cv_rt := rt,
             cv_heartbeats := mergeHeartbeatStatuses (hs_Heartbeats snapshot) (vw_NodeLivenessByID current),
             cv_activePeerRefresh := refresh,
             cv_liveness := vw_NodeLivenessByID current,
             cv_pending := pendingFromHASnapshot snapshot,
             cv_completed := vw_CompletedProgressBySlot current,
             cv_runtimeVersion := vw_Version current,
             cv_runtimeOutbox := vw_Outbox current,
             cv_lastPolicy := vw_LastPolicy current,
             cv_startupBudgetActive :=
               (if hs_SnapshotVersion snapshot = 0 \<and> \<not> isRuntimeInitialized (hs_State snapshot) \<and>
                   cv_startupMaxChangedChains srv > 0 then True else hs_StartupBudgetActive snapshot),
             cv_unavailableReplicas := hs_UnavailableReplicas snapshot,
             cv_lastRecoveryReports := hs_LastRecoveryReports snapshot,
             cv_routingSnapshot := reduceRoutingSnapshot current (hs_UnavailableReplicas snapshot) refresh\<rparr>)"

definition currentHASnapshot :: "coord_server \<Rightarrow> ha_snapshot" where
  "currentHASnapshot srv =
     zeroHASnapshot\<lparr>hs_State := cloneState (cv_rt srv),
       hs_PendingEpochBySlot := fm_map_filter (\<lambda>_ p. if pw_Epoch p \<noteq> 0 then Some (pw_Epoch p) else None) (cv_pending srv),
       hs_Heartbeats := cv_heartbeats srv, hs_ActivePeerRefresh := cv_activePeerRefresh srv,
       hs_StartupBudgetActive := cv_startupBudgetActive srv,
       hs_UnavailableReplicas := cv_unavailableReplicas srv,
       hs_LastRecoveryReports := cv_lastRecoveryReports srv\<rparr>"

definition saveHASnapshot :: "'s ha_store_ops \<Rightarrow> u64 \<Rightarrow> ha_snapshot \<Rightarrow> ('s, unit) act" where
  "saveHASnapshot ops expectedSnapshotVersion snapshot =
     act_bind act_server (\<lambda>srv.
     act_bind clock_Now (\<lambda>now.
     act_bind (\<lambda>(v, s). let (r, s') = hop_SaveSnapshot ops s (cv_lease srv) now expectedSnapshotVersion snapshot
                        in (r, (v, s'))) (\<lambda>version.
     act_update (syncFromHASnapshot (snapshot\<lparr>hs_SnapshotVersion := version\<rparr>)))))"

definition readHASnapshot :: "'s ha_store_ops \<Rightarrow> ('s, ha_snapshot) act" where
  "readHASnapshot ops st =
     (case hop_LoadSnapshot ops (snd st) of Inl e \<Rightarrow> (Inl e, st) | Inr h \<Rightarrow> (Inr (cloneHASnapshot h), st))"

definition loadCurrentHASnapshot :: "'s ha_store_ops \<Rightarrow> ('s, ha_snapshot) act" where
  "loadCurrentHASnapshot ops =
     act_bind (readHASnapshot ops) (\<lambda>snapshot.
     act_bind (act_update (syncFromHASnapshot snapshot)) (\<lambda>_. act_return snapshot))"

section \<open>Dispatching the outbox\<close>

text \<open>The command of an entry; \<open>None\<close> is the dereference of a missing assignment.\<close>

definition entry_command :: "ha_outbox_entry \<Rightarrow> node_command option" where
  "entry_command entry =
     (case ho_Kind entry of
        OutboxCommandAddReplicaAsTail \<Rightarrow> map_option (\<lambda>a. NodeAddReplicaAsTail a (ho_Epoch entry)) (ho_Assignment entry)
      | OutboxCommandUpdateChainPeers \<Rightarrow> map_option (\<lambda>a. NodeUpdateChainPeers a (ho_Epoch entry)) (ho_Assignment entry)
      | OutboxCommandMarkReplicaLeaving \<Rightarrow> Some (NodeMarkReplicaLeaving (ho_Slot entry) (ho_Epoch entry))
      | OutboxCommandResumeRecovered \<Rightarrow>
          map_option (\<lambda>a. NodeResumeRecoveredReplica a (ho_Epoch entry)) (ho_Assignment entry)
      | OutboxCommandRecoverReplica \<Rightarrow>
          map_option (\<lambda>a. NodeRecoverReplica a (ho_SourceNodeID entry) (ho_Epoch entry)) (ho_Assignment entry)
      | OutboxCommandDropRecovered \<Rightarrow> Some (NodeDropRecoveredReplica (ho_Slot entry) (ho_Epoch entry)))"

definition dispatchOutboxEntry :: "node_reply \<Rightarrow> ha_outbox_entry \<Rightarrow> srv_err + unit" where
  "dispatchOutboxEntry node entry =
     (case entry_command entry of None \<Rightarrow> Inl SrvPanic
      | Some c \<Rightarrow> (case node (ho_NodeID entry) c of None \<Rightarrow> Inr () | Some e \<Rightarrow> Inl e))"

text \<open>\<open>fnv.New64a\<close> and the verb \<open>%x\<close>.\<close>

definition fnv64a :: "string \<Rightarrow> u64" where
  "fnv64a bytes = fold (\<lambda>c h. (h XOR of_char c) * 1099511628211) bytes 14695981039346656037"

fun hex_nat :: "nat \<Rightarrow> string" where
  "hex_nat n = (let d = n mod 16; c = [char_of (if d < 10 then 48 + d else 87 + d)]
                in if n < 16 then c else hex_nat (n div 16) @ c)"

declare hex_nat.simps [simp del]

definition outboxAckCommandID :: "u64 \<Rightarrow> string list \<Rightarrow> string" where
  "outboxAckCommandID expectedVersion entryIDs =
     ''server-ack-outbox-v'' @ dec_u64 expectedVersion @ ''-n'' @ dec_int (int (length entryIDs)) @ ''-h'' @
     hex_nat (unat (fnv64a (concat (map (\<lambda>e. e @ [CHR 0x00]) (sort entryIDs)))))"

definition base_command :: command where
  "base_command = \<lparr>cmd_ID = [], cmd_ExpectedVersion = 0, cmd_Kind = CommandKindOther [], cmd_Bootstrap = None,
     cmd_Reconfigure = None, cmd_Progress = None, cmd_NodeReady = None, cmd_Heartbeat = None,
     cmd_Liveness = None, cmd_AcknowledgeOutbox = None\<rparr>"

definition lift_rt :: "rt_err + 'a \<Rightarrow> srv_err + 'a" where
  "lift_rt r = (case r of Inl e \<Rightarrow> Inl (RuntimeErr e) | Inr x \<Rightarrow> Inr x)"

text \<open>The last two assignments of \<open>ackHAOutboxEntry\<close> and of every command.\<close>

definition finish_snapshot :: "u64 \<Rightarrow> ha_snapshot \<Rightarrow> ha_snapshot \<Rightarrow> ha_snapshot" where
  "finish_snapshot epoch snapshot next =
     (let next1 = next\<lparr>hs_Outbox := rebuildHAOutbox next epoch\<rparr>
      in next1\<lparr>hs_PendingEpochBySlot := nextHAPendingEpochs (hs_PendingEpochBySlot snapshot)
           (st_PendingBySlot (hs_State snapshot)) (st_PendingBySlot (hs_State next1)) (hs_Outbox next1)\<rparr>)"

definition ackHAOutboxEntry :: "leader_lease \<Rightarrow> ha_snapshot \<Rightarrow> ha_outbox_entry \<Rightarrow> srv_err + ha_snapshot" where
  "ackHAOutboxEntry lease snapshot entry =
     (let next = cloneHASnapshot snapshot; finish = finish_snapshot (ll_Epoch lease) snapshot
      in if isRecoveryOutboxKind (ho_Kind entry) then
           let next1 = clearUnavailableInHASnapshot
                 (next\<lparr>hs_Outbox := removeOutboxEntry (hs_Outbox next) (ho_ID entry)\<rparr>) (ho_NodeID entry) (ho_Slot entry)
           in Inr (next1\<lparr>hs_Outbox := rebuildHAOutbox next1 (ll_Epoch lease)\<rparr>)
         else if runtimeOutboxHasEntryID (st_Outbox (hs_State snapshot)) (ho_ID entry) then
           res_bind (lift_rt (EvaluateCommand (hs_State snapshot)
               (base_command\<lparr>cmd_ID := outboxAckCommandID (st_Version (hs_State snapshot)) [ho_ID entry],
                  cmd_ExpectedVersion := st_Version (hs_State snapshot), cmd_Kind := CommandKindAcknowledgeOutbox,
                  cmd_AcknowledgeOutbox := Some \<lparr>ak_EntryID = [], ak_EntryIDs = [ho_ID entry]\<rparr>\<rparr>)))
             (\<lambda>evaluated. Inr (finish (next\<lparr>hs_State := ec_NextState evaluated\<rparr>)))
         else if ho_Kind entry = OutboxCommandUpdateChainPeers then
           (case fmlookup (hs_ActivePeerRefresh next) (ho_Slot entry) of
              None \<Rightarrow> Inr next
            | Some refresh \<Rightarrow>
                (case refreshStateWithDefaultRemainingNodes (hs_State next) (ho_Slot entry) refresh of
                   None \<Rightarrow> Inr (finish next)
                 | Some active \<Rightarrow>
                     if pf_RemainingNodeIDs active = fmempty then Inr (finish next)
                     else let remaining = fmdrop (ho_NodeID entry) (pf_RemainingNodeIDs active)
                          in Inr (finish (next\<lparr>hs_ActivePeerRefresh :=
                               (if remaining = fmempty then fmdrop (ho_Slot entry) (hs_ActivePeerRefresh next)
                                else fmupd (ho_Slot entry) (active\<lparr>pf_RemainingNodeIDs := remaining\<rparr>)
                                       (hs_ActivePeerRefresh next))\<rparr>))))
         else Inr (finish next))"

definition dispatch_entry :: "'s ha_store_ops \<Rightarrow> node_reply \<Rightarrow> ha_outbox_entry \<Rightarrow> ('s, unit) act" where
  "dispatch_entry ops node entry =
     act_bind (act_lift (dispatchOutboxEntry node entry)) (\<lambda>_.
     act_bind (readHASnapshot ops) (\<lambda>current.
     act_bind act_server (\<lambda>srv.
     act_bind (act_lift (ackHAOutboxEntry (cv_lease srv) current entry)) (\<lambda>next.
     saveHASnapshot ops (hs_SnapshotVersion current) next))))"

primrec dispatch_entries :: "'s ha_store_ops \<Rightarrow> node_reply \<Rightarrow> ha_outbox_entry list \<Rightarrow> ('s, unit) act" where
  "dispatch_entries ops node [] = act_return ()"
| "dispatch_entries ops node (e # es) = act_bind (dispatch_entry ops node e) (\<lambda>_. dispatch_entries ops node es)"

primrec dispatch_passes ::
  "'s ha_store_ops \<Rightarrow> node_reply \<Rightarrow> (ha_outbox_entry \<Rightarrow> bool) option \<Rightarrow> nat \<Rightarrow> ('s, unit) act" where
  "dispatch_passes ops node allow 0 = act_return ()"
| "dispatch_passes ops node allow (Suc n) =
     act_bind (readHASnapshot ops) (\<lambda>snapshot.
       if hs_Outbox snapshot = [] then act_return ()
       else let entries = (case allow of None \<Rightarrow> hs_Outbox snapshot | Some p \<Rightarrow> filter p (hs_Outbox snapshot))
            in act_bind (dispatch_entries ops node entries) (\<lambda>_.
                 if allow \<noteq> None \<or> entries = [] then act_return () else dispatch_passes ops node allow n))"

definition runtimeVersionRetryLimit :: nat where
  "runtimeVersionRetryLimit = 1024"

definition dispatchHAOutboxEntries ::
  "'s ha_store_ops \<Rightarrow> node_reply \<Rightarrow> (ha_outbox_entry \<Rightarrow> bool) option \<Rightarrow> ('s, unit) act" where
  "dispatchHAOutboxEntries ops node allow = dispatch_passes ops node allow runtimeVersionRetryLimit"

definition dispatchOutbox :: "'s ha_store_ops \<Rightarrow> node_reply \<Rightarrow> ('s, unit) act" where
  "dispatchOutbox ops node =
     act_bind act_server (\<lambda>srv.
       if \<not> cv_isLeader srv then act_return () else dispatchHAOutboxEntries ops node None)"

section \<open>Leadership\<close>

definition acquire :: "'s ha_store_ops \<Rightarrow> ('s, leader_lease \<times> bool) act" where
  "acquire ops =
     act_bind clock_Now (\<lambda>now.
     act_bind (\<lambda>(v, s). let (r, s') = hop_AcquireOrRenew ops s (cv_CoordinatorID v) (cv_AdvertiseAddress v) now (cv_LeaseTTL v)
                        in (r, (v, s'))) (\<lambda>(lease, isLeader).
     act_bind (act_update (\<lambda>v. v\<lparr>cv_lease := lease, cv_isLeader := isLeader\<rparr>)) (\<lambda>_.
     act_return (lease, isLeader))))"

definition rewrite_epoch :: "'s ha_store_ops \<Rightarrow> leader_lease \<Rightarrow> ha_snapshot \<Rightarrow> ('s, ha_snapshot) act" where
  "rewrite_epoch ops lease snapshot =
     (let (updated, changed) = rewriteSnapshotEpoch snapshot (ll_Epoch lease)
      in if \<not> changed then act_return snapshot
         else act_catch (act_bind (saveHASnapshot ops (hs_SnapshotVersion snapshot) updated) (\<lambda>_. act_return updated))
                (\<lambda>e. if e = ErrHASnapshotConflict \<or> isNotLeader e then act_return snapshot else act_fail e))"

definition StepHA :: "'s ha_store_ops \<Rightarrow> node_reply \<Rightarrow> ('s, bool) act" where
  "StepHA ops node =
     act_bind (acquire ops) (\<lambda>(lease, isLeader).
     act_bind (\<lambda>st. case hop_LoadSnapshot ops (snd st) of Inl e \<Rightarrow> (Inl e, st) | Inr h \<Rightarrow> (Inr h, st)) (\<lambda>loaded.
     act_bind (if isLeader \<and> ll_Epoch lease \<noteq> 0 then rewrite_epoch ops lease loaded else act_return loaded) (\<lambda>snapshot.
     act_bind (act_update (syncFromHASnapshot snapshot)) (\<lambda>_.
       if \<not> isLeader then act_return False
       else act_catch (act_bind (dispatchOutbox ops node) (\<lambda>_. act_return True))
         (\<lambda>e. if isNotLeader e then act_bind (act_update (\<lambda>v. v\<lparr>cv_isLeader := False\<rparr>)) (\<lambda>_. act_return False)
              else if e = ErrHASnapshotConflict
                then act_bind (loadCurrentHASnapshot ops) (\<lambda>_. act_return True)
              else act_fail e)))))"

definition ensureLeader :: "'s ha_store_ops \<Rightarrow> node_reply \<Rightarrow> ('s, unit) act" where
  "ensureLeader ops node =
     act_bind act_server (\<lambda>srv.
     act_bind (if cv_isLeader srv
               then act_bind clock_Now (\<lambda>now. act_return (sint now < sint (ll_ExpiresAtUnixNano (cv_lease srv))))
               else act_return False) (\<lambda>fresh.
       if fresh then act_return ()
       else act_bind (StepHA ops node) (\<lambda>isLeader.
            if isLeader then act_return ()
            else act_bind act_server (\<lambda>v. act_fail (ErrNotLeader (ll_HolderEndpoint (cv_lease v)))))))"

definition defaultHALeaseTTL :: u64 where
  "defaultHALeaseTTL = 2000000000"

definition enableHA ::
  "'s ha_store_ops \<Rightarrow> node_reply \<Rightarrow> string \<Rightarrow> string \<Rightarrow> u64 \<Rightarrow> ('s, unit) act" where
  "enableHA ops node coordinatorID advertiseAddress leaseTTL =
     (if coordinatorID = [] then act_fail ErrInvalidServerConfig
      else act_bind (act_update (\<lambda>v. syncFromHASnapshot zeroHASnapshot
             (v\<lparr>cv_CoordinatorID := coordinatorID, cv_AdvertiseAddress := advertiseAddress,
               cv_LeaseTTL := (if sint leaseTTL \<le> 0 then defaultHALeaseTTL else leaseTTL),
               cv_lease := zero_lease, cv_isLeader := False\<rparr>))) (\<lambda>_.
           act_catch (act_bind (StepHA ops node) (\<lambda>_. act_return ()))
             (\<lambda>e. if isNotLeader e then act_return () else act_fail e)))"

section \<open>Commands\<close>

type_synonym ha_mutation = "ha_snapshot \<Rightarrow> leader_lease \<Rightarrow> evaluated_command \<Rightarrow> ha_snapshot"

text \<open>The snapshot that \<open>applyHARuntimeCommand\<close> computes from the one it read.\<close>

definition haCommandSnapshot ::
  "bool \<Rightarrow> leader_lease \<Rightarrow> command \<Rightarrow> ha_mutation \<Rightarrow> ha_snapshot \<Rightarrow> srv_err + ha_snapshot \<times> evaluated_command" where
  "haCommandSnapshot startupDefault lease cmd mutate snapshot =
     res_bind (lift_rt (EvaluateCommand (hs_State snapshot) cmd)) (\<lambda>evaluated.
       let next = (cloneHASnapshot snapshot)
             \<lparr>hs_State := ec_NextState evaluated,
              hs_Heartbeats := nextHAHeartbeats (hs_Heartbeats snapshot) cmd (st_NodeLivenessByID (ec_NextState evaluated)),
              hs_StartupBudgetActive := nextHAStartupBudgetActive snapshot startupDefault (ec_NextState evaluated)\<rparr>
       in Inr (finish_snapshot (ll_Epoch lease) snapshot (mutate next lease evaluated), evaluated))"

definition applyHARuntimeCommand ::
  "'s ha_store_ops \<Rightarrow> node_reply \<Rightarrow> command \<Rightarrow> (bool \<Rightarrow> ha_mutation)
     \<Rightarrow> ('s, rt_state \<times> reconfiguration_plan option) act" where
  "applyHARuntimeCommand ops node cmd mutate =
     act_bind (ensureLeader ops node) (\<lambda>_.
     act_bind (readHASnapshot ops) (\<lambda>snapshot.
     act_bind act_server (\<lambda>srv.
     let startupDefault = cv_startupMaxChangedChains srv > 0 in
     act_bind (act_lift (haCommandSnapshot startupDefault (cv_lease srv) cmd (mutate startupDefault) snapshot)) (\<lambda>(next, evaluated).
     act_bind (saveHASnapshot ops (hs_SnapshotVersion snapshot) next) (\<lambda>_.
     act_return (hs_State next, ec_Plan evaluated))))))"

text \<open>The common part of the closures: state, heartbeats, startup budget, outbox, pending epochs.\<close>

definition mutate_with :: "command \<Rightarrow> (ha_snapshot \<Rightarrow> evaluated_command \<Rightarrow> (int, peer_refresh) fmap) \<Rightarrow> bool \<Rightarrow> ha_mutation" where
  "mutate_with cmd refresh startupDefault snapshot lease evaluated =
     finish_snapshot (ll_Epoch lease) snapshot
       ((cloneHASnapshot snapshot)
         \<lparr>hs_State := ec_NextState evaluated,
          hs_Heartbeats := nextHAHeartbeats (hs_Heartbeats snapshot) cmd (st_NodeLivenessByID (ec_NextState evaluated)),
          hs_ActivePeerRefresh := refresh snapshot evaluated,
          hs_StartupBudgetActive := nextHAStartupBudgetActive snapshot startupDefault (ec_NextState evaluated)\<rparr>)"

definition mutate_bootstrap :: "bool \<Rightarrow> ha_mutation" where
  "mutate_bootstrap startupDefault snapshot lease evaluated =
     (finish_snapshot (ll_Epoch lease) snapshot
       ((cloneHASnapshot snapshot)
         \<lparr>hs_State := ec_NextState evaluated, hs_Heartbeats := fmempty, hs_ActivePeerRefresh := fmempty,
          hs_UnavailableReplicas := fmempty, hs_LastRecoveryReports := fmempty\<rparr>))
     \<lparr>hs_StartupBudgetActive := initialHAStartupBudgetActive snapshot startupDefault (ec_NextState evaluated)\<rparr>"

definition applyHABootstrap :: "'s ha_store_ops \<Rightarrow> node_reply \<Rightarrow> command \<Rightarrow> ('s, rt_state) act" where
  "applyHABootstrap ops node cmd =
     act_bind (applyHARuntimeCommand ops node cmd mutate_bootstrap) (\<lambda>(state, _). act_return state)"

definition applyHAMembershipMutation ::
  "'s ha_store_ops \<Rightarrow> node_reply \<Rightarrow> command \<Rightarrow> EventKind \<Rightarrow> ('s, rt_state) act" where
  "applyHAMembershipMutation ops node cmd expectedEvent =
     (case cmd_Reconfigure cmd of
        None \<Rightarrow> act_fail ErrInvalidServerCommand
      | Some rc \<Rightarrow>
          if cmd_Kind cmd \<noteq> CommandKindReconfigure then act_fail ErrInvalidServerCommand
          else if map ev_Kind (rc_Events rc) \<noteq> [expectedEvent] then act_fail ErrInvalidServerCommand
          else act_bind (applyHARuntimeCommand ops node cmd
                 (mutate_with cmd (\<lambda>snapshot evaluated.
                    nextHAActivePeerRefreshFromPlan (hs_ActivePeerRefresh snapshot) (ec_Plan evaluated))))
               (\<lambda>(state, _). act_return state))"

definition reconfigurationPolicy :: "('s, reconfiguration_policy) act" where
  "reconfigurationPolicy =
     act_bind act_server (\<lambda>srv.
       let policy = cv_lastPolicy srv; startupMax = cv_startupMaxChangedChains srv
       in if \<not> cv_startupBudgetActive srv \<or> startupMax \<le> MaxChangedChains policy then act_return policy
          else if \<not> clusterFullySettledForStartup (vw_Cluster (viewFromState (cv_rt srv)))
            then act_return (policy\<lparr>MaxChangedChains := startupMax\<rparr>)
          else act_bind (act_update (\<lambda>v. v\<lparr>cv_startupBudgetActive := False\<rparr>)) (\<lambda>_. act_return policy))"

definition applyHAReconcile :: "'s ha_store_ops \<Rightarrow> node_reply \<Rightarrow> ('s, unit) act" where
  "applyHAReconcile ops node =
     act_bind (readHASnapshot ops) (\<lambda>snapshot.
     act_bind reconfigurationPolicy (\<lambda>policy.
     let cmd = base_command
           \<lparr>cmd_ID := ''server-reconcile-v'' @ dec_u64 (st_Version (hs_State snapshot)),
            cmd_ExpectedVersion := st_Version (hs_State snapshot), cmd_Kind := CommandKindReconfigure,
            cmd_Reconfigure := Some \<lparr>rc_Events = [], rc_Policy = policy\<rparr>\<rparr> in
     act_bind (applyHARuntimeCommand ops node cmd (mutate_with cmd (\<lambda>snapshot _. hs_ActivePeerRefresh snapshot)))
       (\<lambda>_. act_return ())))"

definition retryable :: "srv_err \<Rightarrow> bool" where
  "retryable e = (e = RuntimeErr ErrVersionMismatch \<or> e = ErrHASnapshotConflict)"

definition progress_event_command :: "string \<Rightarrow> u64 \<Rightarrow> EventKind \<Rightarrow> string \<Rightarrow> int \<Rightarrow> command" where
  "progress_event_command cmdID version kind nodeID slot =
     base_command\<lparr>cmd_ID := cmdID, cmd_ExpectedVersion := version, cmd_Kind := CommandKindProgress,
       cmd_Progress := Some \<lparr>pc_Event = \<lparr>ev_Kind = kind, ev_Node = zero_node, ev_NodeID = nodeID, ev_Slot = slot\<rparr>\<rparr>\<rparr>"

definition readyRefreshState :: "slot_progress_view \<Rightarrow> replica_progress_reduction \<Rightarrow> peer_refresh" where
  "readyRefreshState current reduction =
     (let refresh = rpr_peerRefreshState reduction; fallback = activeServingChain (spv_Chain current)
      in if rpr_enqueuePeerRefresh reduction \<and> \<not> pf_UseFallbackRoute refresh \<and>
            chain_Replicas (pf_AssignmentChain refresh) = [] \<and> chain_Replicas fallback \<noteq> []
         then zero_refresh\<lparr>pf_FallbackServingChain := fallback, pf_UseFallbackRoute := True\<rparr> else refresh)"

primrec replica_ready_attempts ::
  "'s ha_store_ops \<Rightarrow> node_reply \<Rightarrow> string \<Rightarrow> int \<Rightarrow> string \<Rightarrow> nat \<Rightarrow> ('s, rt_state) act" where
  "replica_ready_attempts ops node nodeID slot commandID 0 = act_fail (RuntimeErr ErrVersionMismatch)"
| "replica_ready_attempts ops node nodeID slot commandID (Suc left) =
     act_bind (ensureLeader ops node) (\<lambda>_.
     act_bind (readHASnapshot ops) (\<lambda>snapshot.
     let current = slotProgressViewFromState (hs_State snapshot) slot in
     act_bind (act_lift (reduceReplicaReadyProgress current nodeID commandID (7 - int left))) (\<lambda>reduction.
       if rpr_duplicateCompleted reduction then act_return (hs_State snapshot)
       else let cmd = progress_event_command (rpr_progressCommandID reduction) (st_Version (hs_State snapshot))
                  EventKindReplicaBecameActive nodeID slot;
                refresh = (\<lambda>s _. if rpr_enqueuePeerRefresh reduction
                     then fmupd slot (readyRefreshState current reduction) (hs_ActivePeerRefresh s)
                     else hs_ActivePeerRefresh s)
            in act_catch
                 (act_bind (applyHARuntimeCommand ops node cmd (mutate_with cmd refresh)) (\<lambda>_.
                  act_bind (applyHAReconcile ops node) (\<lambda>_.
                  act_bind act_server (\<lambda>srv. act_return (cloneState (cv_rt srv))))))
                 (\<lambda>e. if retryable e then replica_ready_attempts ops node nodeID slot commandID left else act_fail e))))"

definition applyHAReplicaReady ::
  "'s ha_store_ops \<Rightarrow> node_reply \<Rightarrow> string \<Rightarrow> int \<Rightarrow> string \<Rightarrow> ('s, rt_state) act" where
  "applyHAReplicaReady ops node nodeID slot commandID = replica_ready_attempts ops node nodeID slot commandID 8"

text \<open>After a removal the peers of the slot are told at once, unless dispatch is asynchronous.\<close>

definition removed_dispatch :: "'s ha_store_ops \<Rightarrow> node_reply \<Rightarrow> int \<Rightarrow> ('s, rt_state) act" where
  "removed_dispatch ops node slot =
     act_bind act_server (\<lambda>srv.
     act_bind (if cv_asyncHotPathDispatch srv then act_return ()
               else dispatchHAOutboxEntries ops node
                 (Some (\<lambda>e. ho_Slot e = slot \<and> ho_Kind e = OutboxCommandUpdateChainPeers))) (\<lambda>_.
     act_bind act_server (\<lambda>srv. act_return (cloneState (cv_rt srv)))))"

primrec replica_removed_attempts ::
  "'s ha_store_ops \<Rightarrow> node_reply \<Rightarrow> string \<Rightarrow> int \<Rightarrow> string \<Rightarrow> nat \<Rightarrow> ('s, rt_state) act" where
  "replica_removed_attempts ops node nodeID slot commandID 0 = act_fail (RuntimeErr ErrVersionMismatch)"
| "replica_removed_attempts ops node nodeID slot commandID (Suc left) =
     act_bind (ensureLeader ops node) (\<lambda>_.
     act_bind (readHASnapshot ops) (\<lambda>snapshot.
     let current = slotProgressViewFromState (hs_State snapshot) slot in
     act_bind (act_lift (reduceReplicaRemovedProgress current nodeID commandID (7 - int left))) (\<lambda>reduction.
       if rpr_duplicateCompleted reduction then act_return (hs_State snapshot)
       else let cmd = progress_event_command (rpr_progressCommandID reduction) (st_Version (hs_State snapshot))
                  EventKindReplicaRemoved nodeID slot
            in act_bind (act_catch
                 (act_bind (applyHARuntimeCommand ops node cmd
                    (mutate_with cmd (\<lambda>s _. fmupd slot zero_refresh (hs_ActivePeerRefresh s)))) (\<lambda>_.
                  act_bind (applyHAReconcile ops node) (\<lambda>_. act_return None)))
                 (\<lambda>e. if retryable e
                      then act_bind (replica_removed_attempts ops node nodeID slot commandID left) (\<lambda>st. act_return (Some st))
                      else act_fail e)) (\<lambda>later.
               case later of Some state \<Rightarrow> act_return state | None \<Rightarrow> removed_dispatch ops node slot))))"

definition applyHAReplicaRemoved ::
  "'s ha_store_ops \<Rightarrow> node_reply \<Rightarrow> string \<Rightarrow> int \<Rightarrow> string \<Rightarrow> ('s, rt_state) act" where
  "applyHAReplicaRemoved ops node nodeID slot commandID = replica_removed_attempts ops node nodeID slot commandID 8"

text \<open>The snapshot a heartbeat writes, and whether the node became ready by it.\<close>

definition heartbeat_snapshot ::
  "bool \<Rightarrow> u64 \<Rightarrow> leader_lease \<Rightarrow> u64 \<Rightarrow> node_status \<Rightarrow> ha_snapshot \<Rightarrow> ha_snapshot \<times> bool" where
  "heartbeat_snapshot startupDefault flapWindow lease observedAt status snapshot =
     (let next = cloneHASnapshot snapshot; nodeID = ns_NodeID status; state = hs_State next;
          becameReady = (\<not> flag (cs_ReadyNodeIDs (st_Cluster state)) nodeID);
          cluster = (if becameReady
            then (st_Cluster state)\<lparr>cs_ReadyNodeIDs := fmupd nodeID True (cs_ReadyNodeIDs (st_Cluster state))\<rparr>
            else st_Cluster state);
          state1 = state\<lparr>st_NodeLivenessByID := observe_node (st_NodeLivenessByID state)
                \<lparr>ob_Status = status, ob_ObservedAtUnixNano = observedAt, ob_FlapWindowNanos = flapWindow\<rparr>,
              st_Cluster := cluster\<rparr>
      in (finish_snapshot (ll_Epoch lease) snapshot
            (next\<lparr>hs_State := state1, hs_Heartbeats := fmupd nodeID status (hs_Heartbeats next),
               hs_StartupBudgetActive := nextHAStartupBudgetActive snapshot startupDefault state1\<rparr>),
          becameReady))"

definition applyHAHeartbeat :: "'s ha_store_ops \<Rightarrow> node_reply \<Rightarrow> node_status \<Rightarrow> ('s, unit) act" where
  "applyHAHeartbeat ops node status =
     act_bind (ensureLeader ops node) (\<lambda>_.
     act_bind (readHASnapshot ops) (\<lambda>snapshot.
       if \<not> fm_has (cs_NodesByID (st_Cluster (hs_State snapshot))) (ns_NodeID status) \<or>
          nodeMarkedDead (st_Cluster (hs_State snapshot)) (ns_NodeID status) then act_fail ErrUnknownNode_srv
       else
     act_bind clock_Now (\<lambda>observedAt.
     act_bind act_server (\<lambda>srv.
     let (next, becameReady) = heartbeat_snapshot (cv_startupMaxChangedChains srv > 0)
           (lp_FlapWindow (cv_livenessPolicy srv)) (cv_lease srv) observedAt status snapshot in
     act_bind (saveHASnapshot ops (hs_SnapshotVersion snapshot) next) (\<lambda>_.
       if \<not> becameReady then act_return ()
       else act_bind (applyHAReconcile ops node) (\<lambda>_.
            if cv_asyncHotPathDispatch srv then act_return ()
            else act_catch (dispatchOutbox ops node)
              (\<lambda>e. if e \<in> {ErrUnknownNode_srv, ErrDispatchFailed, ErrDispatchTimeout} then act_return ()
                   else act_fail e)))))))"

fun show_liveness :: "NodeLivenessState \<Rightarrow> string" where
  "show_liveness NodeLivenessStateHealthy = ''healthy''"
| "show_liveness NodeLivenessStateSuspect = ''suspect''"
| "show_liveness NodeLivenessStateDead = ''dead''"
| "show_liveness (NodeLivenessStateOther s) = s"

definition applyHALivenessTransition ::
  "'s ha_store_ops \<Rightarrow> node_reply \<Rightarrow> string \<Rightarrow> NodeLivenessState \<Rightarrow> u64 \<Rightarrow> bool \<Rightarrow> ('s, node_liveness) act" where
  "applyHALivenessTransition ops node nodeID state evaluatedAt deadActionFired =
     act_bind (readHASnapshot ops) (\<lambda>snapshot.
     act_bind act_server (\<lambda>srv.
     let cmd = base_command
           \<lparr>cmd_ID := ''server-liveness-'' @ nodeID @ ''-'' @ show_liveness state @ ''-'' @ dec_int (sint evaluatedAt) @ ''-'' @
                (if deadActionFired then ''true'' else ''false'') @ ''-v'' @ dec_u64 (st_Version (hs_State snapshot)),
            cmd_ExpectedVersion := st_Version (hs_State snapshot), cmd_Kind := CommandKindLiveness,
            cmd_Liveness := Some \<lparr>lc_NodeID = nodeID, lc_State = state, lc_EvaluatedAtUnixNano = evaluatedAt,
              lc_DeadActionFired = deadActionFired, lc_FlapWindowNanos = lp_FlapWindow (cv_livenessPolicy srv)\<rparr>\<rparr> in
     act_bind (applyHARuntimeCommand ops node cmd (mutate_with cmd (\<lambda>s _. hs_ActivePeerRefresh s))) (\<lambda>(next, _).
     act_return (fm_get zero_liveness (st_NodeLivenessByID next) nodeID))))"

text \<open>The snapshot a recovery report writes; \<open>None\<close> when the report changes nothing.\<close>

definition recovery_snapshot ::
  "leader_lease \<Rightarrow> recovery_report \<Rightarrow> ha_snapshot \<Rightarrow> srv_err + ha_snapshot option" where
  "recovery_snapshot lease report snapshot =
     (if fmlookup (hs_LastRecoveryReports snapshot) (rp_NodeID report) = Some report \<and>
         \<not> haSnapshotHasUnavailableSlots snapshot (rp_NodeID report) then Inr None
      else let next = cloneHASnapshot snapshot;
               next1 = markUnavailableReplicasInSnapshot
                 (next\<lparr>hs_LastRecoveryReports := fmupd (rp_NodeID report) report (hs_LastRecoveryReports next)\<rparr>) report
           in res_bind (recoveryOutboxEntriesForReport (hs_State snapshot) report (ll_Epoch lease)) (\<lambda>entries.
                Inr (Some (finish_snapshot (ll_Epoch lease) snapshot
                  (next1\<lparr>hs_Outbox := replaceHARecoveryOutboxEntries (hs_Outbox snapshot) entries\<rparr>)))))"

definition applyHARecoveryReport :: "'s ha_store_ops \<Rightarrow> node_reply \<Rightarrow> recovery_report \<Rightarrow> ('s, unit) act" where
  "applyHARecoveryReport ops node report =
     act_bind (ensureLeader ops node) (\<lambda>_.
     act_bind (readHASnapshot ops) (\<lambda>snapshot.
     act_bind act_server (\<lambda>srv.
       if \<not> fm_has (cs_NodesByID (st_Cluster (hs_State snapshot))) (rp_NodeID report) \<and>
          rp_NodeID report \<notin> set (cv_nodes srv) then act_fail ErrUnknownNode_srv
       else act_bind (act_lift (recovery_snapshot (cv_lease srv) report snapshot)) (\<lambda>next.
            case next of None \<Rightarrow> act_return ()
            | Some n \<Rightarrow> saveHASnapshot ops (hs_SnapshotVersion snapshot) n))))"

text \<open>A registration; nil failure domains are kept apart from an empty map, as \<open>DeepEqual\<close> does.\<close>

record node_registration =
  nr_NodeID :: string
  nr_RPCAddress :: string
  nr_FailureDomains :: "(string, string) fmap option"

primrec register_attempts ::
  "'s ha_store_ops \<Rightarrow> node_reply \<Rightarrow> node_registration \<Rightarrow> nat \<Rightarrow> ('s, rt_state) act" where
  "register_attempts ops node reg 0 = act_fail (RuntimeErr ErrVersionMismatch)"
| "register_attempts ops node reg (Suc left) =
     act_bind (readHASnapshot ops) (\<lambda>snapshot.
     let cluster = st_Cluster (hs_State snapshot) in
       if (case fmlookup (cs_NodesByID cluster) (nr_NodeID reg) of None \<Rightarrow> False
           | Some existing \<Rightarrow> fmlookup (cs_NodeHealthByID cluster) (nr_NodeID reg) \<noteq> Some NodeHealthDead \<and>
               node_RPCAddress existing = nr_RPCAddress reg \<and>
               Some (node_FailureDomains existing) = nr_FailureDomains reg)
       then act_return (hs_State snapshot)
       else act_bind reconfigurationPolicy (\<lambda>policy.
         let cmd = base_command
               \<lparr>cmd_ID := ''server-register-'' @ nr_NodeID reg @ ''-r'' @
                   dec_int (int runtimeVersionRetryLimit - 1 - int left) @ ''-v'' @ dec_u64 (st_Version (hs_State snapshot)),
                cmd_ExpectedVersion := st_Version (hs_State snapshot), cmd_Kind := CommandKindReconfigure,
                cmd_Reconfigure := Some \<lparr>rc_Events = [\<lparr>ev_Kind = EventKindRegisterNode,
                   ev_Node = \<lparr>node_ID = nr_NodeID reg, node_RPCAddress = nr_RPCAddress reg,
                     node_FailureDomains = (case nr_FailureDomains reg of None \<Rightarrow> fmempty | Some d \<Rightarrow> d)\<rparr>,
                   ev_NodeID = [], ev_Slot = 0\<rparr>], rc_Policy = policy\<rparr>\<rparr>
         in act_catch (applyHAMembershipMutation ops node cmd EventKindRegisterNode)
              (\<lambda>e. if retryable e then register_attempts ops node reg left else act_fail e)))"

definition applyHARegisterNode :: "'s ha_store_ops \<Rightarrow> node_reply \<Rightarrow> node_registration \<Rightarrow> ('s, rt_state) act" where
  "applyHARegisterNode ops node reg =
     act_bind (ensureLeader ops node) (\<lambda>_. register_attempts ops node reg runtimeVersionRetryLimit)"

end
