(* ===== verification/HA_Safety.thy ===== *)
theory HA_Safety
  imports HA_Server
begin

text \<open>
  What the shared snapshot of the coordinators goes through.  \<open>ha_update\<close> collects the
  ways the code computes a new snapshot from one it read; every handler moves the stored
  snapshot along such updates only (a small program logic over the handlers), any
  interleaving of coordinators is a serial history of updates (the compare-and-swap and
  the fencing epoch), and every update keeps the invariant of the runtime state.
\<close>

section \<open>The ways a snapshot changes\<close>

inductive ha_update :: "leader_lease \<Rightarrow> ha_snapshot \<Rightarrow> ha_snapshot \<Rightarrow> bool" where
  command: "haCommandSnapshot sd lease cmd mutate h = Inr (next, evaluated) \<Longrightarrow>
    (\<And>n e. hs_State (mutate n lease e) = ec_NextState e) \<Longrightarrow> ha_update lease h next"
| heartbeat: "heartbeat_snapshot sd flap lease at status h = (next, ready) \<Longrightarrow> ha_update lease h next"
| recovery: "recovery_snapshot lease report h = Inr (Some next) \<Longrightarrow> ha_update lease h next"
| acknowledge: "ackHAOutboxEntry lease h entry = Inr next \<Longrightarrow> ha_update lease h next"
| new_epoch: "rewriteSnapshotEpoch h epoch = (next, True) \<Longrightarrow> ha_update lease h next"

text \<open>The stored snapshot before and after a successful save of such an update.\<close>

definition ha_saved :: "leader_lease \<Rightarrow> ha_snapshot \<Rightarrow> ha_snapshot \<Rightarrow> bool" where
  "ha_saved lease h h' =
     (\<exists>next. ha_update lease h next \<and> h' = (cloneHASnapshot next)\<lparr>hs_SnapshotVersion := hs_SnapshotVersion h + 1\<rparr>)"

definition ha_change :: "ha_snapshot \<Rightarrow> ha_snapshot \<Rightarrow> bool" where
  "ha_change h h' = (\<exists>lease. ha_saved lease h h')"

section \<open>Updates keep the runtime invariant\<close>

text \<open>The state that a command record stands for, its own table of records left out.\<close>

definition record_state :: "applied_command \<Rightarrow> rt_state" where
  "record_state a =
     \<lparr>st_Version = ap_Version a, st_LastLogIndex = ap_LastLogIndex a, st_Cluster = ap_Cluster a,
      st_SlotVersions = ap_SlotVersions a, st_CompletedProgressBySlot = ap_CompletedProgressBySlot a,
      st_NodeLivenessByID = ap_NodeLivenessByID a, st_PendingBySlot = ap_PendingBySlot a,
      st_Outbox = ap_Outbox a, st_LastPolicy = ap_LastPolicy a, st_AppliedCommands = fmempty\<rparr>"

text \<open>A command may be answered from its record, so the records must be sound as well.\<close>

definition ha_state_ok :: "rt_state \<Rightarrow> bool" where
  "ha_state_ok st = (rt_inv st \<and> fmpred (\<lambda>_ a. rt_inv (record_state a)) (st_AppliedCommands st))"

lemma rt_inv_cong:
  assumes "st_Version st = st_Version st'" "st_LastLogIndex st = st_LastLogIndex st'"
    "wf_cluster (st_Cluster st) = wf_cluster (st_Cluster st')" "no_dead (st_Cluster st) = no_dead (st_Cluster st')"
    "cs_SlotCount (st_Cluster st) = cs_SlotCount (st_Cluster st')"
    "st_SlotVersions st = st_SlotVersions st'" "st_CompletedProgressBySlot st = st_CompletedProgressBySlot st'"
    "st_PendingBySlot st = st_PendingBySlot st'" "st_Outbox st = st_Outbox st'"
  shows "rt_inv st = rt_inv st'"
  using assms by (simp add: rt_inv_def cluster_safe_def isInitialized_def pending_current_def outbox_current_def
      history_bounded_def)

lemma record_state_clone: "rt_inv (record_state (cloneAppliedCommand a)) = rt_inv (record_state a)"
  by (rule rt_inv_cong) (simp_all add: record_state_def cloneAppliedCommand_def)

lemma ha_state_ok_clone [simp]: "ha_state_ok (cloneState st) = ha_state_ok st"
proof -
  have "rt_inv (cloneState st) = rt_inv st" by (rule rt_inv_cong) (simp_all add: cloneState_def)
  moreover have "fmpred (\<lambda>_ a. rt_inv (record_state a)) (fmmap cloneAppliedCommand m) =
      fmpred (\<lambda>_ a. rt_inv (record_state a)) m" for m :: "(string, applied_command) fmap"
    using record_state_clone by (fastforce simp: fmpred_iff)
  ultimately show ?thesis by (simp add: ha_state_ok_def cloneState_def)
qed

lemma snapshot_ok:
  assumes "ha_state_ok st" and "rt_inv (record_state a)"
  shows "ha_state_ok (snapshotForApplied st a)"
proof -
  have "rt_inv (snapshotForApplied st a) = rt_inv (record_state a)"
    by (rule rt_inv_cong) (simp_all add: snapshotForApplied_def record_state_def)
  moreover have "rt_inv (record_state b)"
    if "fmlookup (st_AppliedCommands (snapshotForApplied st a)) k = Some b" for k b
    using that assms(1)
    by (auto simp: snapshotForApplied_def ha_state_ok_def fmpred_iff record_state_clone split: if_splits)
  ultimately show ?thesis using assms(2) by (simp add: ha_state_ok_def fmpred_iff)
qed

lemma next_state_ok:
  assumes "executeCommand st cmd = Inr (Executed cl plan)"
    and n: "nextStateForApplied st (st_LastLogIndex st + 1) cmd cl plan = Inr st'" and "ha_state_ok st"
  shows "ha_state_ok st'"
proof -
  have inv: "rt_inv st'" using rt_inv_executed[OF assms(1) n] assms(3) by (simp add: ha_state_ok_def)
  note f = nextStateForApplied_fields[OF n]
  have "rt_inv (record_state b)" if b: "fmlookup (st_AppliedCommands st') k = Some b" for k b
  proof (cases "k = cmd_ID cmd")
    case True
    have "b = \<lparr>ap_Command = cmd, ap_Version = st_Version st', ap_LastLogIndex = st_LastLogIndex st + 1,
        ap_Cluster = st_Cluster st', ap_SlotVersions = st_SlotVersions st',
        ap_CompletedProgressBySlot = st_CompletedProgressBySlot st',
        ap_NodeLivenessByID = st_NodeLivenessByID st', ap_PendingBySlot = st_PendingBySlot st',
        ap_Outbox = st_Outbox st', ap_LastPolicy = st_LastPolicy st', ap_Plan = clonePlan plan\<rparr>"
      using f(10)[of k, unfolded b] True by simp
    then have "rt_inv (record_state b) = rt_inv st'"
      by (intro rt_inv_cong) (simp_all add: record_state_def f(2))
    with inv show ?thesis by simp
  next
    case False
    with b have "fmlookup (st_AppliedCommands st) k = Some b" unfolding f(10)[of k] by simp
    with assms(3) show ?thesis by (simp add: ha_state_ok_def fmpred_iff)
  qed
  with inv show ?thesis by (simp add: ha_state_ok_def fmpred_iff)
qed

lemma duplicate_validated:
  assumes "executeCommand st cmd = Inr (Duplicate d)"
  shows "validateCommand st cmd = Inr (Some d)"
proof (cases "validateCommand st cmd")
  case (Inl e)
  with assms show ?thesis by (simp add: executeCommand_def)
next
  case (Inr dup)
  show ?thesis
  proof (cases dup)
    case None
    with Inr assms show ?thesis
      by (simp add: executeCommand_def Let_def res_bind_def lift_coord_def
          split: CommandKind.splits if_splits option.splits sum.splits)
  next
    case (Some d')
    with Inr assms show ?thesis by (simp add: executeCommand_def)
  qed
qed

lemma duplicate_recorded:
  assumes "executeCommand st cmd = Inr (Duplicate d)"
  shows "\<exists>a. fmlookup (st_AppliedCommands st) (cmd_ID cmd) = Some a \<and> ap_Command a = cmd \<and> d = cloneAppliedCommand a"
proof (cases "fmlookup (st_AppliedCommands st) (cmd_ID cmd)")
  case None
  with duplicate_validated[OF assms] show ?thesis
    by (simp add: validateCommand_def res_bind_def split: if_splits sum.splits)
next
  case (Some a)
  with duplicate_validated[OF assms] show ?thesis
    by (simp add: validateCommand_def res_bind_def split: if_splits sum.splits)
qed

lemma EvaluateCommand_ok:
  assumes "EvaluateCommand st cmd = Inr ec" and "ha_state_ok st"
  shows "ha_state_ok (ec_NextState ec)"
proof -
  let ?s = "cloneState st"
  have ok: "ha_state_ok ?s" using assms(2) by simp
  obtain ex where ex: "executeCommand ?s cmd = Inr ex"
    using assms(1) by (auto simp: EvaluateCommand_def Let_def res_bind_Inr)
  show ?thesis
  proof (cases ex)
    case (Duplicate d)
    then obtain a where a: "fmlookup (st_AppliedCommands ?s) (cmd_ID cmd) = Some a" "d = cloneAppliedCommand a"
      using duplicate_recorded[of ?s cmd d] ex by blast
    have "ec_NextState ec = snapshotForApplied ?s (cloneAppliedCommand d)"
      using assms(1) ex Duplicate by (auto simp: EvaluateCommand_def Let_def)
    moreover have "rt_inv (record_state (cloneAppliedCommand d))"
      using ok a by (auto simp: ha_state_ok_def fmpred_iff record_state_clone)
    ultimately show ?thesis using snapshot_ok[OF ok] by simp
  next
    case (Executed cl plan)
    then have n: "nextStateForApplied ?s (st_LastLogIndex ?s + 1) cmd cl plan = Inr (ec_NextState ec)"
      using assms(1) ex by (auto simp: EvaluateCommand_def Let_def res_bind_Inr cloneState_def)
    from next_state_ok[OF _ n ok] ex Executed show ?thesis by simp
  qed
qed

lemma finish_state [simp]: "hs_State (finish_snapshot e h n) = hs_State n"
  by (simp add: finish_snapshot_def Let_def)

lemma clear_state [simp]: "hs_State (clearUnavailableInHASnapshot h n s) = hs_State h"
  by (simp add: clearUnavailableInHASnapshot_def Let_def split: option.split)

lemma ack_state_ok:
  assumes "ackHAOutboxEntry lease h entry = Inr next" and "ha_state_ok (hs_State h)"
  shows "ha_state_ok (hs_State next)"
proof -
  have clone: "ha_state_ok (hs_State (cloneHASnapshot h))" using assms(2) by (simp add: cloneHASnapshot_def)
  show ?thesis
  proof (cases "\<not> isRecoveryOutboxKind (ho_Kind entry) \<and> runtimeOutboxHasEntryID (st_Outbox (hs_State h)) (ho_ID entry)")
    case True
    then obtain ec where "EvaluateCommand (hs_State h)
        (base_command\<lparr>cmd_ID := outboxAckCommandID (st_Version (hs_State h)) [ho_ID entry],
           cmd_ExpectedVersion := st_Version (hs_State h), cmd_Kind := CommandKindAcknowledgeOutbox,
           cmd_AcknowledgeOutbox := Some \<lparr>ak_EntryID = [], ak_EntryIDs = [ho_ID entry]\<rparr>\<rparr>) = Inr ec"
      and "hs_State next = ec_NextState ec"
      using assms(1) by (auto simp: ackHAOutboxEntry_def Let_def res_bind_def lift_rt_def split: sum.splits)
    with EvaluateCommand_ok assms(2) show ?thesis by simp
  next
    case False
    then have "hs_State next = hs_State (cloneHASnapshot h)"
      using assms(1) by (auto simp: ackHAOutboxEntry_def Let_def split: if_splits option.splits)
    with clone show ?thesis by simp
  qed
qed

lemma heartbeat_state_ok:
  assumes "ha_state_ok (hs_State h)"
  shows "ha_state_ok (hs_State (fst (heartbeat_snapshot sd flap lease at status h)))"
proof -
  let ?c = "hs_State (cloneHASnapshot h)" and ?n = "hs_State (fst (heartbeat_snapshot sd flap lease at status h))"
  have ok: "ha_state_ok ?c" using assms by (simp add: cloneHASnapshot_def)
  have "rt_inv ?n = rt_inv ?c"
    by (rule rt_inv_cong) (simp_all add: heartbeat_snapshot_def Let_def ready_flags_irrelevant)
  moreover have "st_AppliedCommands ?n = st_AppliedCommands ?c" by (simp add: heartbeat_snapshot_def Let_def)
  ultimately show ?thesis using ok by (simp add: ha_state_ok_def)
qed

lemma ha_update_ok:
  assumes "ha_update lease h next" and "ha_state_ok (hs_State h)"
  shows "ha_state_ok (hs_State next)"
  using assms(1)
proof cases
  case (command sd cmd mutate evaluated)
  then obtain n where "EvaluateCommand (hs_State h) cmd = Inr evaluated" and "hs_State next = ec_NextState evaluated"
    by (auto simp: haCommandSnapshot_def lift_rt_def res_bind_def Let_def split: sum.splits)
  with EvaluateCommand_ok assms(2) show ?thesis by simp
next
  case (heartbeat sd flap at status ready)
  with heartbeat_state_ok[OF assms(2), of sd flap lease at status] show ?thesis by simp
next
  case (recovery report)
  then have "hs_State next = hs_State (cloneHASnapshot h)"
    by (auto simp: recovery_snapshot_def Let_def res_bind_Inr markUnavailableReplicasInSnapshot_def split: if_splits)
  with assms(2) show ?thesis by (simp add: cloneHASnapshot_def)
next
  case (acknowledge entry)
  with ack_state_ok assms(2) show ?thesis by blast
next
  case (new_epoch epoch)
  with assms(2) show ?thesis by (auto simp: rewriteSnapshotEpoch_def cloneHASnapshot_def)
qed

lemma ha_change_ok: "ha_change h h' \<Longrightarrow> ha_state_ok (hs_State h) \<Longrightarrow> ha_state_ok (hs_State h')"
  using ha_update_ok by (auto simp: ha_change_def ha_saved_def cloneHASnapshot_def)

lemma zero_state_ok [simp]: "ha_state_ok (hs_State zeroHASnapshot)"
  using rt_inv_zero by (simp add: ha_state_ok_def zeroHASnapshot_def zeroState_def)

section \<open>A logic for handlers\<close>

text \<open>
  \<open>keeps I P m Q\<close>: started in a store with \<open>P\<close>, the handler \<open>m\<close> ends in a store with \<open>I\<close>
  when it fails, and with \<open>Q x\<close> when it returns \<open>x\<close>.
\<close>

definition keeps :: "('s \<Rightarrow> bool) \<Rightarrow> ('s \<Rightarrow> bool) \<Rightarrow> ('s, 'a) act \<Rightarrow> ('a \<Rightarrow> 's \<Rightarrow> bool) \<Rightarrow> bool" where
  "keeps I P m Q =
     (\<forall>st. P (snd st) \<longrightarrow> (case m st of (Inl e, st') \<Rightarrow> I (snd st') | (Inr x, st') \<Rightarrow> Q x (snd st')))"

lemma keeps_bind: "keeps I P m Q \<Longrightarrow> (\<And>x. keeps I (Q x) (f x) R) \<Longrightarrow> keeps I P (act_bind m f) R"
  by (fastforce simp: keeps_def act_bind_def split: prod.splits sum.splits)

lemma keeps_weaken: "keeps I P m Q \<Longrightarrow> (\<And>s. P' s \<Longrightarrow> P s) \<Longrightarrow> (\<And>x s. Q x s \<Longrightarrow> Q' x s) \<Longrightarrow> keeps I P' m Q'"
  by (fastforce simp: keeps_def split: prod.splits sum.splits)

text \<open>Rules that step through a handler, one per form of its first action.\<close>

named_theorems keeps_step

lemma act_bind_assoc: "act_bind (act_bind m f) g = act_bind m (\<lambda>x. act_bind (f x) g)"
  by (auto simp: act_bind_def fun_eq_iff split: prod.splits sum.splits)

lemma keeps_bind_assoc [keeps_step]:
  "keeps I P (act_bind m (\<lambda>x. act_bind (f x) g)) R \<Longrightarrow> keeps I P (act_bind (act_bind m f) g) R"
  by (simp add: act_bind_assoc)

lemma keeps_return [keeps_step]: "(\<And>s. P s \<Longrightarrow> Q x s) \<Longrightarrow> keeps I P (act_return x) Q"
  by (simp add: keeps_def act_return_def)

lemma keeps_fail [keeps_step]: "(\<And>s. P s \<Longrightarrow> I s) \<Longrightarrow> keeps I P (act_fail e) Q"
  by (simp add: keeps_def act_fail_def)

lemma keeps_if [keeps_step]:
  "(b \<Longrightarrow> keeps I P m Q) \<Longrightarrow> (\<not> b \<Longrightarrow> keeps I P m' Q) \<Longrightarrow> keeps I P (if b then m else m') Q"
  by simp

lemma keeps_bind_if [keeps_step]:
  "keeps I P (act_bind m f) Q \<Longrightarrow> keeps I P (act_bind m' f) Q \<Longrightarrow> keeps I P (act_bind (if b then m else m') f) Q"
  by simp

lemma keeps_prod [keeps_step]: "(\<And>a b. p = (a, b) \<Longrightarrow> keeps I P (f a b) Q) \<Longrightarrow> keeps I P (case p of (a, b) \<Rightarrow> f a b) Q"
  by (cases p) simp

lemma keeps_option [keeps_step]:
  "(x = None \<Longrightarrow> keeps I P m Q) \<Longrightarrow> (\<And>a. x = Some a \<Longrightarrow> keeps I P (f a) Q) \<Longrightarrow>
     keeps I P (case x of None \<Rightarrow> m | Some a \<Rightarrow> f a) Q"
  by (cases x) simp_all

lemma keeps_bind_return [keeps_step]: "keeps I P (f x) R \<Longrightarrow> keeps I P (act_bind (act_return x) f) R"
  by (simp add: keeps_def act_bind_def act_return_def)

lemma keeps_bind_server [keeps_step]: "(\<And>x. keeps I P (f x) R) \<Longrightarrow> keeps I P (act_bind act_server f) R"
  by (simp add: keeps_def act_bind_def act_server_def)

lemma keeps_bind_clock [keeps_step]: "(\<And>x. keeps I P (f x) R) \<Longrightarrow> keeps I P (act_bind clock_Now f) R"
  by (simp add: keeps_def act_bind_def clock_Now_def)

lemma keeps_update [keeps_step]: "(\<And>s. P s \<Longrightarrow> Q () s) \<Longrightarrow> keeps I P (act_update g) Q"
  by (simp add: keeps_def act_update_def)

lemma keeps_bind_update [keeps_step]: "keeps I P (f ()) R \<Longrightarrow> keeps I P (act_bind (act_update g) f) R"
  by (simp add: keeps_def act_bind_def act_update_def)

lemma keeps_bind_lift [keeps_step]:
  "(\<And>s. P s \<Longrightarrow> I s) \<Longrightarrow> (\<And>x. r = Inr x \<Longrightarrow> keeps I P (f x) R) \<Longrightarrow> keeps I P (act_bind (act_lift r) f) R"
  by (cases r) (simp_all add: keeps_def act_bind_def act_lift_def)

lemma keeps_catch [keeps_step]:
  "keeps I P m Q \<Longrightarrow> (\<And>e. keeps I I (h e) Q) \<Longrightarrow> keeps I P (act_catch m h) Q"
  by (fastforce simp: keeps_def act_catch_def split: prod.splits sum.splits)

text \<open>Composition with a handler that is known to keep the invariant.\<close>

abbreviation safe :: "('s \<Rightarrow> bool) \<Rightarrow> ('s, 'a) act \<Rightarrow> bool" where
  "safe I m \<equiv> keeps I I m (\<lambda>_. I)"

lemma keeps_bind_safe:
  "safe I m \<Longrightarrow> (\<And>s. P s \<Longrightarrow> I s) \<Longrightarrow> (\<And>x. keeps I I (f x) R) \<Longrightarrow> keeps I P (act_bind m f) R"
  by (rule keeps_bind[where Q = "\<lambda>_. I", OF keeps_weaken[where P = I and Q = "\<lambda>_. I"]])

lemma safe_weaken: "safe I m \<Longrightarrow> (\<And>s. P s \<Longrightarrow> I s) \<Longrightarrow> keeps I P m (\<lambda>_. I)"
  by (rule keeps_weaken)

lemma safe_catch: "safe I m \<Longrightarrow> (\<And>e. safe I (h e)) \<Longrightarrow> safe I (act_catch m h)"
  by (rule keeps_catch)

context ha_backing
begin

abbreviation reach :: "ha_snapshot \<Rightarrow> 's \<Rightarrow> bool" where
  "reach h0 s \<equiv> ha_change\<^sup>*\<^sup>* h0 (doc s)"

lemma keeps_bind_read [keeps_step]:
  "(\<And>s. P s \<Longrightarrow> reach h0 s) \<Longrightarrow> (\<And>h. keeps (reach h0) (\<lambda>s. P s \<and> h = doc s) (f h) R) \<Longrightarrow>
     keeps (reach h0) P (act_bind (readHASnapshot ops) f) R"
  by (rule keeps_bind[where Q = "\<lambda>h s. P s \<and> h = doc s"])
    (auto simp: keeps_def readHASnapshot_def dest: load split: sum.split)

lemma keeps_save:
  assumes "\<And>s. P s \<Longrightarrow> reach h0 s \<and> (\<exists>lease. ha_update lease (doc s) nxt)"
  shows "keeps (reach h0) P (saveHASnapshot ops v nxt) (\<lambda>_. reach h0)"
proof -
  have step: "reach h0 s'" if "P s" "hop_SaveSnapshot ops s l now v nxt = (r, s')" for s l now r s'
  proof (cases r)
    case (Inl e)
    with that save_failed assms show ?thesis by blast
  next
    case (Inr v')
    with that(2) save_ok[of s l now v nxt v' s'] have "hs_SnapshotVersion (doc s) = v"
      "doc s' = (cloneHASnapshot nxt)\<lparr>hs_SnapshotVersion := v + 1\<rparr>" by simp_all
    with assms[OF that(1)] have "ha_change (doc s) (doc s')" by (auto simp: ha_change_def ha_saved_def)
    with assms[OF that(1)] show ?thesis by (metis rtranclp.rtrancl_into_rtrancl)
  qed
  have "keeps (reach h0) P (\<lambda>(v', s). let (r, s') = hop_SaveSnapshot ops s (cv_lease srv) now v nxt in (r, (v', s')))
      (\<lambda>_. reach h0)" for srv now
    using step by (fastforce simp: keeps_def split: prod.splits sum.splits)
  then show ?thesis
    unfolding saveHASnapshot_def by (intro keeps_bind_server keeps_bind_clock) (rule keeps_bind, assumption, intro keeps_step)
qed

lemma safe_dispatch_entry: "safe (reach h0) (dispatch_entry ops node entry)"
  unfolding dispatch_entry_def
  by (intro keeps_step keeps_save) (auto intro: ha_update.acknowledge)

lemma safe_dispatch_entries: "safe (reach h0) (dispatch_entries ops node entries)"
proof (induction entries)
  case (Cons e es)
  then show ?case unfolding dispatch_entries.simps by (intro keeps_bind_safe[OF safe_dispatch_entry])
qed (auto intro: keeps_step)

lemma safe_dispatch_passes: "safe (reach h0) (dispatch_passes ops node allow n)"
proof (induction n)
  case (Suc n)
  then show ?case
    unfolding dispatch_passes.simps Let_def
    by (intro keeps_step keeps_bind_safe[OF safe_dispatch_entries]) auto
qed (auto intro: keeps_step)

lemma safe_dispatchOutbox: "safe (reach h0) (dispatchOutbox ops node)"
  unfolding dispatchOutbox_def dispatchHAOutboxEntries_def
  by (intro keeps_step safe_dispatch_passes)

lemma safe_acquire: "safe (reach h0) (acquire ops)"
proof -
  have "safe (reach h0) (\<lambda>(v, s). let (r, s') = hop_AcquireOrRenew ops s (cv_CoordinatorID v)
      (cv_AdvertiseAddress v) now (cv_LeaseTTL v) in (r, (v, s')))" for now
    using acquire_doc by (fastforce simp: keeps_def split: prod.splits sum.splits)
  then show ?thesis
    unfolding acquire_def by (intro keeps_bind_clock keeps_bind_safe) (auto intro: keeps_step)
qed

lemma keeps_rewrite_epoch:
  "keeps (reach h0) (\<lambda>s. reach h0 s \<and> h = doc s) (rewrite_epoch ops lease h) (\<lambda>_. reach h0)"
proof -
  obtain u c where u: "rewriteSnapshotEpoch h (ll_Epoch lease) = (u, c)" by fastforce
  have "keeps (reach h0) (\<lambda>s. reach h0 s \<and> h = doc s) (saveHASnapshot ops v u) (\<lambda>_. reach h0)" if c for v
    by (rule keeps_save) (use u that ha_update.new_epoch in auto)
  then show ?thesis
    unfolding rewrite_epoch_def u by (auto intro!: keeps_step keeps_bind)
qed

lemma keeps_load:
  "(\<And>h. keeps (reach h0) (\<lambda>s. reach h0 s \<and> h = doc s) (f h) R) \<Longrightarrow>
     keeps (reach h0) (reach h0)
       (act_bind (\<lambda>st. case hop_LoadSnapshot ops (snd st) of Inl e \<Rightarrow> (Inl e, st) | Inr h \<Rightarrow> (Inr h, st)) f) R"
  by (rule keeps_bind[where Q = "\<lambda>h s. reach h0 s \<and> h = doc s"]) (auto simp: keeps_def dest: load split: sum.split)

lemma safe_loadCurrent: "safe (reach h0) (loadCurrentHASnapshot ops)"
  unfolding loadCurrentHASnapshot_def by (intro keeps_step) auto

lemma safe_StepHA: "safe (reach h0) (StepHA ops node)"
proof -
  have "keeps (reach h0) (\<lambda>s. reach h0 s \<and> h = doc s)
      (if b then rewrite_epoch ops lease h else act_return h) (\<lambda>_. reach h0)" for b lease h
    by (auto intro: keeps_rewrite_epoch keeps_step)
  note epoch = keeps_bind[OF this]
  show ?thesis
    unfolding StepHA_def
    by (intro keeps_bind_safe[OF safe_acquire] keeps_prod keeps_load epoch keeps_step
        keeps_bind_safe[OF safe_dispatchOutbox] keeps_bind_safe[OF safe_loadCurrent]) auto
qed

lemma safe_ensureLeader: "safe (reach h0) (ensureLeader ops node)"
  unfolding ensureLeader_def by (intro keeps_step keeps_bind_safe[OF safe_StepHA]) auto

lemma safe_enableHA: "safe (reach h0) (enableHA ops node who endpoint ttl)"
  unfolding enableHA_def by (intro keeps_step keeps_bind_safe[OF safe_StepHA]) auto

lemma safe_applyHARuntimeCommand:
  assumes "\<And>sd n lease e. hs_State (mutate sd n lease e) = ec_NextState e"
  shows "safe (reach h0) (applyHARuntimeCommand ops node cmd mutate)"
proof -
  have "keeps (reach h0) (\<lambda>s. reach h0 s \<and> h = doc s) (saveHASnapshot ops v nxt) (\<lambda>_. reach h0)"
    if "haCommandSnapshot sd lease cmd (mutate sd) h = Inr (nxt, ev)" for sd lease h nxt ev v
    by (rule keeps_save) (use ha_update.command[OF that] assms in auto)
  note save = keeps_bind[OF this]
  show ?thesis
    unfolding applyHARuntimeCommand_def Let_def
    by (intro keeps_bind_safe[OF safe_ensureLeader] keeps_step; (rule save)?; (intro keeps_step)?; auto)
qed

lemma mutate_with_state: "hs_State (mutate_with cmd refresh sd n lease e) = ec_NextState e"
  by (simp add: mutate_with_def)

lemma mutate_bootstrap_state: "hs_State (mutate_bootstrap sd n lease e) = ec_NextState e"
  by (simp add: mutate_bootstrap_def)

lemmas safe_with = safe_applyHARuntimeCommand[OF mutate_with_state]

lemma safe_applyHABootstrap: "safe (reach h0) (applyHABootstrap ops node cmd)"
  unfolding applyHABootstrap_def
  by (intro keeps_bind_safe[OF safe_applyHARuntimeCommand[OF mutate_bootstrap_state]] keeps_step) auto

lemma safe_applyHAMembershipMutation: "safe (reach h0) (applyHAMembershipMutation ops node cmd kind)"
  unfolding applyHAMembershipMutation_def
  by (intro keeps_step keeps_bind_safe[OF safe_with]) auto

lemma safe_reconfigurationPolicy: "safe (reach h0) reconfigurationPolicy"
  unfolding reconfigurationPolicy_def Let_def by (intro keeps_step) auto

lemma safe_applyHAReconcile: "safe (reach h0) (applyHAReconcile ops node)"
  unfolding applyHAReconcile_def Let_def
  by (intro keeps_bind_read keeps_bind_safe[OF safe_reconfigurationPolicy] keeps_bind_safe[OF safe_with] keeps_step) auto

lemma safe_replica_ready: "safe (reach h0) (replica_ready_attempts ops node nodeID slot cid n)"
proof (induction n)
  case (Suc n)
  show ?case
    unfolding replica_ready_attempts.simps Let_def
    by (intro keeps_bind_safe[OF safe_ensureLeader] keeps_bind_read keeps_bind_safe[OF safe_with]
        keeps_bind_safe[OF safe_applyHAReconcile] keeps_step Suc.IH) auto
qed (auto intro: keeps_step)

lemma safe_removed_dispatch: "safe (reach h0) (removed_dispatch ops node slot)"
  unfolding removed_dispatch_def dispatchHAOutboxEntries_def
  by (intro keeps_step keeps_bind_safe[OF safe_dispatch_passes]) auto

lemma safe_replica_removed: "safe (reach h0) (replica_removed_attempts ops node nodeID slot cid n)"
proof (induction n)
  case (Suc n)
  have "safe (reach h0) (act_catch
      (act_bind (applyHARuntimeCommand ops node cmd (mutate_with cmd refresh)) (\<lambda>_.
       act_bind (applyHAReconcile ops node) (\<lambda>_. act_return None)))
      (\<lambda>e. if retryable e
           then act_bind (replica_removed_attempts ops node nodeID slot cid n) (\<lambda>st. act_return (Some st))
           else act_fail e))" for cmd refresh
    by (intro safe_catch keeps_bind_safe[OF safe_with] keeps_bind_safe[OF safe_applyHAReconcile]
        keeps_bind_safe[OF Suc.IH] keeps_step) auto
  note attempt = keeps_bind_safe[OF this]
  show ?case
    unfolding replica_removed_attempts.simps Let_def
    by (intro keeps_bind_safe[OF safe_ensureLeader] keeps_bind_read keeps_bind_lift keeps_if attempt
        keeps_option safe_removed_dispatch keeps_return) auto
qed (auto intro: keeps_step)

lemma safe_applyHAHeartbeat: "safe (reach h0) (applyHAHeartbeat ops node status)"
proof -
  have "keeps (reach h0) (\<lambda>s. reach h0 s \<and> h = doc s) (saveHASnapshot ops v nxt) (\<lambda>_. reach h0)"
    if "heartbeat_snapshot sd flap lease at status h = (nxt, ready)" for sd flap lease at h nxt ready v
    by (rule keeps_save) (use ha_update.heartbeat[OF that] in auto)
  note save = keeps_bind[OF this]
  show ?thesis
    unfolding applyHAHeartbeat_def Let_def
    by (intro keeps_bind_safe[OF safe_ensureLeader] keeps_bind_read keeps_if keeps_fail keeps_bind_clock
        keeps_bind_server keeps_prod; (rule save)?; (intro keeps_step keeps_bind_safe[OF safe_applyHAReconcile]
        keeps_catch safe_dispatchOutbox)?; auto)
qed

lemma safe_applyHALivenessTransition:
  "safe (reach h0) (applyHALivenessTransition ops node nodeID state at fired)"
  unfolding applyHALivenessTransition_def Let_def
  by (intro keeps_bind_read keeps_bind_server keeps_bind_safe[OF safe_with] keeps_step) auto

lemma safe_applyHARecoveryReport: "safe (reach h0) (applyHARecoveryReport ops node report)"
proof -
  have "keeps (reach h0) (\<lambda>s. reach h0 s \<and> h = doc s) (saveHASnapshot ops v nxt) (\<lambda>_. reach h0)"
    if "recovery_snapshot lease report h = Inr (Some nxt)" for lease h nxt v
    by (rule keeps_save) (use ha_update.recovery[OF that] in auto)
  then show ?thesis
    unfolding applyHARecoveryReport_def
    by (intro keeps_bind_safe[OF safe_ensureLeader] keeps_step) auto
qed

lemma safe_register: "safe (reach h0) (register_attempts ops node reg n)"
proof (induction n)
  case (Suc n)
  show ?case
    unfolding register_attempts.simps Let_def
    by (intro keeps_bind_read keeps_if keeps_return keeps_bind_safe[OF safe_reconfigurationPolicy]
        keeps_catch safe_applyHAMembershipMutation Suc.IH keeps_fail) auto
qed (auto intro: keeps_step)

end

end
