(* ===== verification/HA_Serial.thy ===== *)
theory HA_Serial
  imports HA_Safety
begin

text \<open>
  Several coordinators on one store.  First handler by handler: whatever calls they make in
  whatever order, the stored snapshot is reached by updates and its cluster is safe.  Then
  store call by store call: their reads, lease requests and saves interleave in any way,
  and the accepted saves still form a serial history with non-decreasing epochs.
\<close>

section \<open>Handlers in any order\<close>

datatype ha_call =
    HAEnable string string u64
  | HAStep
  | HABootstrap command
  | HAMembership command EventKind
  | HAReady string int string
  | HARemoved string int string
  | HAHeartbeat node_status
  | HALiveness string NodeLivenessState u64 bool
  | HARecovery recovery_report
  | HARegister node_registration
  | HAReconcile

fun ha_call_run :: "'s ha_store_ops \<Rightarrow> node_reply \<Rightarrow> ha_call \<Rightarrow> coord_server \<times> 's \<Rightarrow> coord_server \<times> 's" where
  "ha_call_run ops node (HAEnable who endpoint ttl) st = snd (enableHA ops node who endpoint ttl st)"
| "ha_call_run ops node HAStep st = snd (StepHA ops node st)"
| "ha_call_run ops node (HABootstrap cmd) st = snd (applyHABootstrap ops node cmd st)"
| "ha_call_run ops node (HAMembership cmd kind) st = snd (applyHAMembershipMutation ops node cmd kind st)"
| "ha_call_run ops node (HAReady nodeID slot cid) st = snd (applyHAReplicaReady ops node nodeID slot cid st)"
| "ha_call_run ops node (HARemoved nodeID slot cid) st = snd (applyHAReplicaRemoved ops node nodeID slot cid st)"
| "ha_call_run ops node (HAHeartbeat status) st = snd (applyHAHeartbeat ops node status st)"
| "ha_call_run ops node (HALiveness nodeID state at fired) st = snd (applyHALivenessTransition ops node nodeID state at fired st)"
| "ha_call_run ops node (HARecovery report) st = snd (applyHARecoveryReport ops node report st)"
| "ha_call_run ops node (HARegister reg) st = snd (applyHARegisterNode ops node reg st)"
| "ha_call_run ops node HAReconcile st = snd (applyHAReconcile ops node st)"

text \<open>A turn: coordinator \<open>i\<close> handles a call.\<close>

definition ha_turn ::
  "'s ha_store_ops \<Rightarrow> node_reply \<Rightarrow> nat \<times> ha_call \<Rightarrow> (nat \<Rightarrow> coord_server) \<times> 's \<Rightarrow> (nat \<Rightarrow> coord_server) \<times> 's" where
  "ha_turn ops node turn cfg =
     (let (v, s') = ha_call_run ops node (snd turn) (fst cfg (fst turn), snd cfg) in ((fst cfg)(fst turn := v), s'))"

lemma keeps_snd:
  assumes "safe I m" and "I (snd st)"
  shows "I (snd (snd (m st)))"
proof -
  obtain r st' where m: "m st = (r, st')" by (cases "m st")
  with assms(1)[unfolded keeps_def, rule_format, OF assms(2)] show ?thesis by (cases r) simp_all
qed

context ha_backing
begin

lemma call_reach: "reach h0 (snd st) \<Longrightarrow> reach h0 (snd (ha_call_run ops node call st))"
proof (cases call)
  case (HARegister reg)
  have "safe (reach h0) (applyHARegisterNode ops node reg)"
    unfolding applyHARegisterNode_def by (intro keeps_bind_safe[OF safe_ensureLeader] safe_register) auto
  with HARegister show "reach h0 (snd st) \<Longrightarrow> ?thesis" by (simp add: keeps_snd[of "reach h0"])
qed (simp_all add: keeps_snd[of "reach h0"] applyHAReplicaReady_def applyHAReplicaRemoved_def safe_enableHA safe_StepHA
    safe_applyHABootstrap safe_applyHAMembershipMutation safe_replica_ready safe_replica_removed
    safe_applyHAHeartbeat safe_applyHALivenessTransition safe_applyHARecoveryReport safe_applyHAReconcile)

lemma turns_reach: "reach h0 (snd cfg) \<Longrightarrow> reach h0 (snd (fold (ha_turn ops node) turns cfg))"
proof (induction turns arbitrary: cfg)
  case (Cons t ts)
  have "reach h0 (snd (ha_turn ops node t cfg))"
    using call_reach[of h0 "(fst cfg (fst t), snd cfg)" node "snd t"] Cons.prems
    by (cases "ha_call_run ops node (snd t) (fst cfg (fst t), snd cfg)") (simp add: ha_turn_def)
  with Cons.IH show ?case by simp
qed simp

end

lemma ha_change_rtranclp_ok: "ha_change\<^sup>*\<^sup>* h h' \<Longrightarrow> ha_state_ok (hs_State h) \<Longrightarrow> ha_state_ok (hs_State h')"
  by (induction rule: rtranclp_induct) (auto intro: ha_change_ok)

text \<open>
  C31. The shared control-plane state is always sound: whatever calls any number of
  coordinators handle, in any order, with whatever clocks and whatever answers of the
  storage nodes, the snapshot in the store was reached from the empty one by the updates
  of the code, its cluster (once bootstrapped) is well formed without dead members,
  pending work and outbox entries carry the current version of their slot, and the
  progress history is bounded.
\<close>

theorem ha_persisted_safe:
  "let h = hm_LoadSnapshot (snd (fold (ha_turn in_memory_ha_ops node) turns (servers, NewInMemoryHAStore)));
       st = hs_State h
   in ha_change\<^sup>*\<^sup>* zeroHASnapshot h \<and>
      (if isInitialized st then wf_cluster (st_Cluster st) \<and> no_dead (st_Cluster st) else True) \<and>
      pending_current st \<and> outbox_current st \<and> history_bounded st"
proof -
  let ?h = "hm_LoadSnapshot (snd (fold (ha_turn in_memory_ha_ops node) turns (servers, NewInMemoryHAStore)))"
  have "hm_LoadSnapshot NewInMemoryHAStore = zeroHASnapshot"
    by (simp add: hm_LoadSnapshot_def NewInMemoryHAStore_def)
  then have r: "ha_change\<^sup>*\<^sup>* zeroHASnapshot ?h"
    using hmem.turns_reach[of zeroHASnapshot "(servers, NewInMemoryHAStore)" node turns] by simp
  have "rt_inv (hs_State ?h)" using ha_change_rtranclp_ok[OF r zero_state_ok] by (simp add: ha_state_ok_def)
  with r show ?thesis by (simp add: Let_def rt_inv_def cluster_safe_def)
qed

section \<open>Store calls in any order\<close>

text \<open>
  What a coordinator keeps between store calls: its lease and the snapshot it read last.
  The history collects the accepted saves, each with the lease it was made under.
\<close>

record 's ha_system =
  sy_lease :: "nat \<Rightarrow> leader_lease"
  sy_read :: "nat \<Rightarrow> ha_snapshot option"
  sy_store :: 's
  sy_history :: "(leader_lease \<times> ha_snapshot) list"

inductive sys_step :: "'s ha_store_ops \<Rightarrow> 's ha_system \<Rightarrow> 's ha_system \<Rightarrow> bool" for ops where
  acquire: "hop_AcquireOrRenew ops (sy_store c) who endpoint now ttl = (r, s') \<Longrightarrow>
    sys_step ops c (c\<lparr>sy_store := s', sy_lease := (case r of Inr (l, _) \<Rightarrow> (sy_lease c)(i := l) | Inl _ \<Rightarrow> sy_lease c)\<rparr>)"
| read: "hop_LoadSnapshot ops (sy_store c) = Inr h \<Longrightarrow>
    sys_step ops c (c\<lparr>sy_read := (sy_read c)(i := Some (cloneHASnapshot h))\<rparr>)"
| save_ok: "sy_read c i = Some h \<Longrightarrow> ha_update l h nxt \<Longrightarrow>
    hop_SaveSnapshot ops (sy_store c) (sy_lease c i) now (hs_SnapshotVersion h) nxt = (Inr v, s') \<Longrightarrow>
    sys_step ops c (c\<lparr>sy_store := s', sy_history := sy_history c @
      [(sy_lease c i, (cloneHASnapshot nxt)\<lparr>hs_SnapshotVersion := v\<rparr>)]\<rparr>)"
| save_refused: "sy_read c i = Some h \<Longrightarrow> ha_update l h nxt \<Longrightarrow>
    hop_SaveSnapshot ops (sy_store c) (sy_lease c i) now (hs_SnapshotVersion h) nxt = (Inl e, s') \<Longrightarrow>
    sys_step ops c (c\<lparr>sy_store := s'\<rparr>)"

inductive sys_reach :: "'s ha_store_ops \<Rightarrow> 's \<Rightarrow> nat \<Rightarrow> 's ha_system \<Rightarrow> bool" for ops s0 where
  start: "sys_reach ops s0 0 \<lparr>sy_lease = (\<lambda>_. zero_lease), sy_read = (\<lambda>_. None), sy_store = s0, sy_history = []\<rparr>"
| step: "sys_reach ops s0 n c \<Longrightarrow> sys_step ops c c' \<Longrightarrow> sys_reach ops s0 (Suc n) c'"

text \<open>Consecutive versions of the stored snapshot, and epochs that never go back.\<close>

definition serial :: "ha_snapshot \<Rightarrow> (leader_lease \<times> ha_snapshot) list \<Rightarrow> bool" where
  "serial h0 hist =
     ((\<forall>k < length hist. ha_change ((h0 # map snd hist) ! k) (snd (hist ! k)) \<and>
        unat (hs_SnapshotVersion (snd (hist ! k))) = k + 1) \<and>
      sorted (map (\<lambda>e. unat (ll_Epoch (fst e))) hist))"

lemma serial_versions:
  assumes "serial h0 hist" and "hs_SnapshotVersion h0 = 0" and "k \<le> length hist"
  shows "unat (hs_SnapshotVersion ((h0 # map snd hist) ! k)) = k"
  using assms by (cases k) (auto simp: serial_def)

lemma serial_snoc:
  assumes "serial h0 hist" and "ha_change (last (h0 # map snd hist)) h"
    and "unat (hs_SnapshotVersion h) = length hist + 1"
    and "\<And>e. e \<in> set hist \<Longrightarrow> unat (ll_Epoch (fst e)) \<le> unat (ll_Epoch l)"
  shows "serial h0 (hist @ [(l, h)])"
proof -
  have nth: "(h0 # map snd (hist @ [(l, h)])) ! k = (h0 # map snd hist) ! k" if "k \<le> length hist" for k
    using that by (cases k) (auto simp: nth_append)
  have "last (h0 # map snd hist) = (h0 # map snd hist) ! length hist" by (simp add: last_conv_nth)
  with assms nth show ?thesis
    unfolding serial_def by (auto simp: nth_append less_Suc_eq sorted_append simp del: nth_Cons_Suc)
qed

definition sys_inv :: "('s \<Rightarrow> leader_lease option) \<Rightarrow> ('s \<Rightarrow> ha_snapshot) \<Rightarrow> ha_snapshot \<Rightarrow> nat \<Rightarrow> 's ha_system \<Rightarrow> bool" where
  "sys_inv held doc h0 n c =
     (serial h0 (sy_history c) \<and> length (sy_history c) \<le> n \<and>
      doc (sy_store c) = last (h0 # map snd (sy_history c)) \<and>
      (\<forall>i h. sy_read c i = Some h \<longrightarrow> h \<in> set (h0 # map snd (sy_history c))) \<and>
      (case held (sy_store c) of
         None \<Rightarrow> sy_history c = []
       | Some l \<Rightarrow> unat (ll_Epoch l) \<le> n \<and>
           (\<forall>e \<in> set (sy_history c). unat (ll_Epoch (fst e)) \<le> unat (ll_Epoch l))))"

context ha_backing
begin

lemma sys_inv_acquire:
  assumes inv: "sys_inv held doc h0 n c" and "Suc n < 2 ^ 64"
    and a: "hop_AcquireOrRenew ops (sy_store c) who endpoint now ttl = (r, s')"
  shows "sys_inv held doc h0 (Suc n) (c\<lparr>sy_store := s', sy_lease := ls\<rparr>)"
proof -
  have same: "sys_inv held doc h0 (Suc n) (c\<lparr>sy_store := s', sy_lease := ls\<rparr>)" if "held s' = held (sy_store c)"
    using inv that acquire_doc[OF a] by (auto simp: sys_inv_def split: option.splits)
  consider (same) "held s' = held (sy_store c)"
    | (granted) l where "held s' = Some l" "lease_grant (held (sy_store c)) who now l"
  proof (cases r)
    case (Inl e)
    with a acquire_failed same that show ?thesis by blast
  next
    case (Inr p)
    with a acquire_granted acquire_refused that show ?thesis by (cases p; cases "snd p") fastforce+
  qed
  then show ?thesis
  proof cases
    case same
    then show ?thesis using \<open>held s' = held (sy_store c) \<Longrightarrow> _\<close> by simp
  next
    case granted
    show ?thesis
    proof (cases "held (sy_store c)")
      case None
      with granted inv acquire_doc[OF a] show ?thesis by (auto simp: sys_inv_def lease_grant_def)
    next
      case (Some p)
      with inv assms(2) have "unat (ll_Epoch p) + 1 < 2 ^ 64" by (auto simp: sys_inv_def)
      then have "unat (ll_Epoch p + 1) = unat (ll_Epoch p) + 1" by (simp add: unat_word_ariths)
      with granted Some have "unat (ll_Epoch p) \<le> unat (ll_Epoch l)" "unat (ll_Epoch l) \<le> unat (ll_Epoch p) + 1"
        by (auto simp: lease_grant_def split: if_splits)
      with granted Some inv acquire_doc[OF a] show ?thesis by (fastforce simp: sys_inv_def)
    qed
  qed
qed

lemma sys_inv_save:
  assumes inv: "sys_inv held doc h0 n c" and n: "Suc n < 2 ^ 64" and z: "hs_SnapshotVersion h0 = 0"
    and rd: "sy_read c i = Some h" and u: "ha_update l h nxt"
    and s: "hop_SaveSnapshot ops (sy_store c) (sy_lease c i) now (hs_SnapshotVersion h) nxt = (Inr v, s')"
  shows "sys_inv held doc h0 (Suc n) (c\<lparr>sy_store := s', sy_history := sy_history c @
      [(sy_lease c i, (cloneHASnapshot nxt)\<lparr>hs_SnapshotVersion := v\<rparr>)]\<rparr>)"
proof -
  let ?ds = "h0 # map snd (sy_history c)" and ?new = "(cloneHASnapshot nxt)\<lparr>hs_SnapshotVersion := v\<rparr>"
  note I = inv[unfolded sys_inv_def]
  from save_ok[OF s] have ok: "lease_live (held (sy_store c)) (sy_lease c i) now"
    "hs_SnapshotVersion (doc (sy_store c)) = hs_SnapshotVersion h" "v = hs_SnapshotVersion h + 1"
    "held s' = held (sy_store c)" "doc s' = ?new" by simp_all
  obtain k where k: "k \<le> length (sy_history c)" "h = ?ds ! k"
  proof -
    have "h \<in> set ?ds" using I rd by blast
    then obtain k where "k < length ?ds" "?ds ! k = h" using in_set_conv_nth[of h ?ds] by blast
    then show ?thesis using that[of k] by simp
  qed
  have doc: "doc (sy_store c) = ?ds ! length (sy_history c)" using I by (simp add: last_conv_nth)
  have vers: "unat (hs_SnapshotVersion h) = length (sy_history c)"
    using serial_versions[of h0 "sy_history c" "length (sy_history c)"] I z ok(2) doc by simp
  have "k = length (sy_history c)" using serial_versions[of h0 "sy_history c" k] I z k vers by simp
  with k doc have h: "h = doc (sy_store c)" by simp
  have "unat v = unat (hs_SnapshotVersion h) + 1"
    using vers I n ok(3) by (simp add: unat_word_ariths)
  moreover have "ha_change (last ?ds) ?new"
  proof -
    have "last ?ds = h" using h I by simp
    then show ?thesis unfolding ha_change_def ha_saved_def ok(3) using u by blast
  qed
  moreover have ep: "unat (ll_Epoch (fst e)) \<le> unat (ll_Epoch (sy_lease c i))" if "e \<in> set (sy_history c)" for e
    using I ok(1) that by (auto simp: lease_live_def split: option.splits)
  ultimately have "serial h0 (sy_history c @ [(sy_lease c i, ?new)])"
    using I vers by (intro serial_snoc) auto
  with I ok show ?thesis by (auto simp: sys_inv_def lease_live_def split: option.splits)
qed

lemma sys_inv_reach:
  assumes "sys_reach ops s0 n c" and "n < 2 ^ 64" and "held s0 = None" and "hs_SnapshotVersion (doc s0) = 0"
  shows "sys_inv held doc (doc s0) n c"
  using assms(1,2)
proof (induction rule: sys_reach.induct)
  case start
  with assms(3) show ?case by (simp add: sys_inv_def serial_def)
next
  case (step n c c')
  then have inv: "sys_inv held doc (doc s0) n c" by simp
  from step.hyps(2) show ?case
  proof cases
    case acquire
    with sys_inv_acquire[OF inv step.prems] show ?thesis by simp
  next
    case (read h i)
    then have "cloneHASnapshot h = doc (sy_store c)" using load doc_clone by metis
    also have "\<dots> \<in> set (doc s0 # map snd (sy_history c))"
      using inv last_in_set[of "doc s0 # map snd (sy_history c)"] unfolding sys_inv_def by (metis list.distinct(1))
    finally have "cloneHASnapshot h \<in> set (doc s0 # map snd (sy_history c))" .
    with inv read(1) show ?thesis unfolding sys_inv_def by (simp split: option.splits)
  next
    case (save_ok i h l nxt now v s')
    with sys_inv_save[OF inv step.prems assms(4)] show ?thesis by simp
  next
    case (save_refused i h l nxt now e s')
    then have "s' = sy_store c" using save_failed by blast
    with inv save_refused(1) show ?thesis by (auto simp: sys_inv_def split: option.splits)
  qed
qed

end

text \<open>
  C30. No update is lost and stale leaders are fenced: when any number of coordinators
  interleave lease requests, reads and saves on the shared store in any way (fewer than
  \<open>2 ^ 64\<close> steps), the accepted saves form one serial history: the \<open>k\<close>-th one was computed
  from the snapshot that the one before it stored and carries version \<open>k\<close>, the store holds
  the last of them, and the epochs of the leases they were made under never decrease.
\<close>

theorem ha_saves_serial:
  assumes "sys_reach in_memory_ha_ops NewInMemoryHAStore n c" and "n < 2 ^ 64"
  shows "let docs = zeroHASnapshot # map snd (sy_history c)
    in (\<forall>k. k < length (sy_history c) \<longrightarrow>
          ha_change (docs ! k) (docs ! Suc k) \<and> unat (hs_SnapshotVersion (docs ! Suc k)) = k + 1) \<and>
       hm_LoadSnapshot (sy_store c) = last docs \<and>
       sorted (map (\<lambda>e. unat (ll_Epoch (fst e))) (sy_history c))"
proof -
  have z: "hm_held NewInMemoryHAStore = None" "hm_LoadSnapshot NewInMemoryHAStore = zeroHASnapshot"
    by (simp_all add: hm_held_def hm_LoadSnapshot_def NewInMemoryHAStore_def)
  have "hs_SnapshotVersion (hm_LoadSnapshot NewInMemoryHAStore) = 0" by (simp add: z zeroHASnapshot_def)
  from hmem.sys_inv_reach[OF assms z(1) this]
  have "serial zeroHASnapshot (sy_history c)" "hm_LoadSnapshot (sy_store c) = last (zeroHASnapshot # map snd (sy_history c))"
    by (simp_all add: sys_inv_def z)
  then show ?thesis by (simp add: serial_def Let_def)
qed

text \<open>A run in which the leader's heartbeat of a node is saved after its bootstrap.\<close>

definition ex_ha_lease :: leader_lease where
  "ex_ha_lease = \<lparr>ll_HolderID = ''a'', ll_HolderEndpoint = [], ll_Epoch = 1, ll_ExpiresAtUnixNano = 10\<rparr>"

definition ex_ha_booted :: ha_snapshot where
  "ex_ha_booted = (case haCommandSnapshot False ex_ha_lease ex_boot_plain (mutate_bootstrap False) zeroHASnapshot of
     Inr (next, _) \<Rightarrow> next | Inl _ \<Rightarrow> zeroHASnapshot)"

lemma ex_ha_boots:
  "\<exists>ev. haCommandSnapshot False ex_ha_lease ex_boot_plain (mutate_bootstrap False) zeroHASnapshot = Inr (ex_ha_booted, ev)"
proof -
  have "isl (EvaluateCommand zeroState ex_boot_plain) = False" by code_simp
  then obtain ec where "EvaluateCommand zeroState ex_boot_plain = Inr ec"
    by (cases "EvaluateCommand zeroState ex_boot_plain") auto
  then show ?thesis
    by (auto simp: ex_ha_booted_def haCommandSnapshot_def lift_rt_def zeroHASnapshot_def Let_def)
qed

theorem ha_saves_serial_witness:
  "\<exists>c. sys_reach in_memory_ha_ops NewInMemoryHAStore 3 c \<and> length (sy_history c) = 1 \<and>
     ha_change zeroHASnapshot (hm_LoadSnapshot (sy_store c)) \<and>
     hs_SnapshotVersion (hm_LoadSnapshot (sy_store c)) = 1"
proof -
  let ?c0 = "\<lparr>sy_lease = (\<lambda>_. zero_lease), sy_read = (\<lambda>_. None), sy_store = NewInMemoryHAStore, sy_history = []\<rparr>"
  let ?s1 = "NewInMemoryHAStore\<lparr>hm_lease := ex_ha_lease, hm_hasLease := True\<rparr>"
  let ?c1 = "?c0\<lparr>sy_store := ?s1, sy_lease := (sy_lease ?c0)(0 := ex_ha_lease)\<rparr>"
  let ?c2 = "?c1\<lparr>sy_read := (sy_read ?c1)(0 := Some (cloneHASnapshot zeroHASnapshot))\<rparr>"
  let ?d = "(cloneHASnapshot ex_ha_booted)\<lparr>hs_SnapshotVersion := 1\<rparr>"
  let ?c3 = "?c2\<lparr>sy_store := ?s1\<lparr>hm_snapshot := ?d, hm_snapshotSet := True\<rparr>, sy_history := sy_history ?c2 @ [(sy_lease ?c2 0, ?d)]\<rparr>"
  obtain ev where boot: "haCommandSnapshot False ex_ha_lease ex_boot_plain (mutate_bootstrap False) zeroHASnapshot = Inr (ex_ha_booted, ev)"
    using ex_ha_boots by blast
  have u: "ha_update ex_ha_lease zeroHASnapshot ex_ha_booted"
    by (rule ha_update.command[OF boot]) (simp add: hmem.mutate_bootstrap_state)
  have 1: "sys_step in_memory_ha_ops ?c0 ?c1"
    using sys_step.acquire[of in_memory_ha_ops ?c0 "''a''" "[]" 0 10 "Inr (ex_ha_lease, True)" ?s1 0]
    by (simp add: in_memory_ha_ops_def hm_AcquireOrRenew_def NewInMemoryHAStore_def ex_ha_lease_def Let_def)
  have 2: "sys_step in_memory_ha_ops ?c1 ?c2"
    using sys_step.read[of in_memory_ha_ops ?c1 zeroHASnapshot 0]
    by (simp add: in_memory_ha_ops_def hm_LoadSnapshot_def NewInMemoryHAStore_def)
  have sv: "hop_SaveSnapshot in_memory_ha_ops (sy_store ?c2) (sy_lease ?c2 0) 5
      (hs_SnapshotVersion zeroHASnapshot) ex_ha_booted = (Inr 1, ?s1\<lparr>hm_snapshot := ?d, hm_snapshotSet := True\<rparr>)"
    by (simp add: in_memory_ha_ops_def hm_save_exact hm_held_def lease_live_def hm_LoadSnapshot_def NewInMemoryHAStore_def
        ex_ha_lease_def zeroHASnapshot_def)
  have 3: "sys_step in_memory_ha_ops ?c2 ?c3"
    using sys_step.save_ok[OF _ u sv] by (simp add: clone_ha_zero)
  have r: "sys_reach in_memory_ha_ops NewInMemoryHAStore 3 ?c3"
    using sys_reach.step[OF sys_reach.step[OF sys_reach.step[OF sys_reach.start 1] 2] 3] by (simp add: numeral_3_eq_3)
  from ha_saves_serial[OF r] have "ha_change zeroHASnapshot ?d" by (simp add: Let_def)
  with r show ?thesis
    by (intro exI[of _ ?c3]) (simp add: hm_LoadSnapshot_def)
qed

section \<open>Resubmitted commands\<close>

lemma evaluate_resubmitted:
  assumes "fmlookup (st_AppliedCommands st) (cmd_ID cmd) = Some a" and "ap_Command a = cmd"
    and "cmd_ID cmd \<noteq> []" and "validateCommandPayload cmd = Inr ()"
  obtains ec where "EvaluateCommand st cmd = Inr ec" and "st_Version (ec_NextState ec) = ap_Version a"
    and "st_Cluster (ec_NextState ec) = cloneClusterState (ap_Cluster a)"
    and "st_SlotVersions (ec_NextState ec) = ap_SlotVersions a"
    and "st_PendingBySlot (ec_NextState ec) = ap_PendingBySlot a"
proof -
  let ?s = "cloneState st" and ?a = "cloneAppliedCommand a"
  have "fmlookup (st_AppliedCommands ?s) (cmd_ID cmd) = Some ?a" using assms(1) by (simp add: cloneState_def)
  moreover have "ap_Command ?a = cmd" using assms(2) by (simp add: cloneAppliedCommand_def)
  ultimately have v: "validateCommand ?s cmd = Inr (Some ?a)"
    using assms(3,4) by (simp add: validateCommand_def)
  let ?ec = "\<lparr>ec_Plan = clonePlan (ap_Plan ?a), ec_NextState = snapshotForApplied ?s ?a, ec_Duplicate = Some ?a\<rparr>"
  have "EvaluateCommand st cmd = Inr ?ec"
    using v by (simp add: EvaluateCommand_def executeCommand_def Let_def)
  then show ?thesis
    by (rule that) (simp_all add: snapshotForApplied_def cloneAppliedCommand_def)
qed

text \<open>
  C32. What a retry does to the shared state: when a command that was already applied is
  submitted again to the high-availability coordinator, the snapshot it saves holds the
  version, the cluster, the slot versions and the pending work that were recorded when the
  command was first applied, whatever has happened since.
\<close>

theorem ha_resubmission_restores_record:
  assumes "fmlookup (st_AppliedCommands (hs_State h)) (cmd_ID cmd) = Some a" and "ap_Command a = cmd"
    and "cmd_ID cmd \<noteq> []" and "validateCommandPayload cmd = Inr ()"
    and "mutate = mutate_bootstrap sd \<or> mutate = mutate_with cmd refresh sd"
  shows "\<exists>next ev. haCommandSnapshot sd lease cmd mutate h = Inr (next, ev) \<and>
    st_Version (hs_State next) = ap_Version a \<and> st_Cluster (hs_State next) = cloneClusterState (ap_Cluster a) \<and>
    st_SlotVersions (hs_State next) = ap_SlotVersions a \<and> st_PendingBySlot (hs_State next) = ap_PendingBySlot a"
proof -
  obtain ec where ec: "EvaluateCommand (hs_State h) cmd = Inr ec" "st_Version (ec_NextState ec) = ap_Version a"
    "st_Cluster (ec_NextState ec) = cloneClusterState (ap_Cluster a)"
    "st_SlotVersions (ec_NextState ec) = ap_SlotVersions a" "st_PendingBySlot (ec_NextState ec) = ap_PendingBySlot a"
    using evaluate_resubmitted[OF assms(1-4)] by blast
  have "hs_State (mutate n lease ec) = ec_NextState ec" for n
    using assms(5) hmem.mutate_bootstrap_state hmem.mutate_with_state by auto
  with ec show ?thesis by (simp add: haCommandSnapshot_def lift_rt_def Let_def)
qed

text \<open>Bootstrap, then a heartbeat, then the bootstrap command again: version 2 becomes version 1.\<close>

definition ex_ha_beaten :: ha_snapshot where
  "ex_ha_beaten = zeroHASnapshot\<lparr>hs_State :=
     (case EvaluateCommand (hs_State ex_ha_booted) (ex_beat 1) of Inr ec \<Rightarrow> ec_NextState ec | Inl _ \<Rightarrow> zeroState)\<rparr>"

theorem ha_resubmission_restores_record_witness:
  "st_Version (hs_State ex_ha_beaten) = 2 \<and>
   (\<exists>next ev. haCommandSnapshot False ex_ha_lease ex_boot_plain (mutate_bootstrap False) ex_ha_beaten = Inr (next, ev) \<and>
      st_Version (hs_State next) = 1)"
proof -
  have v: "map_option ap_Version (fmlookup (st_AppliedCommands (hs_State ex_ha_beaten)) (cmd_ID ex_boot_plain)) = Some 1"
    "map_option ap_Command (fmlookup (st_AppliedCommands (hs_State ex_ha_beaten)) (cmd_ID ex_boot_plain)) = Some ex_boot_plain"
    "st_Version (hs_State ex_ha_beaten) = 2" "cmd_ID ex_boot_plain \<noteq> []" "validateCommandPayload ex_boot_plain = Inr ()"
    by code_simp+
  then obtain a where a: "fmlookup (st_AppliedCommands (hs_State ex_ha_beaten)) (cmd_ID ex_boot_plain) = Some a"
    "ap_Version a = 1" "ap_Command a = ex_boot_plain" by auto
  from ha_resubmission_restores_record[OF a(1,3) v(4,5), of "mutate_bootstrap False" False undefined ex_ha_lease] a(2) v(3)
  show ?thesis by auto
qed

end
